(* ===== verification/Prelude.thy ===== *)
theory Prelude
  imports Main "HOL-Library.Word" "HOL-Library.Multiset" "HOL-Library.Monad_Syntax"
begin

text \<open>
  Shared vocabulary of the development: the machine integer types of the C code, the byte-order
  functions of the C library on the little-endian hosts the router software runs on, the
  little-endian layout of 16 and 32 bit struct fields, C strings, the adjacent-swap sort that
  several components repeat, and the generic lemmas on lists and options.

  A C function that may fail an \<open>assert\<close>, dereference a null or freed pointer, read outside its
  buffer or loop for ever is modelled in the option type: \<open>None\<close> is that fault, \<open>Some\<close> the
  state and result of a run that returns.
\<close>

unbundle bit_operations_syntax

named_theorems fault_simps \<open>unfolding rules that turn a faulting computation into its cases\<close>
named_theorems frame_simps \<open>fields of the router state an operation does not touch\<close>

type_synonym u4 = "4 word"
type_synonym u8 = "8 word"
type_synonym u16 = "16 word"
type_synonym u32 = "32 word"

section \<open>Bytes of 16 and 32 bit fields, byte order\<close>

text \<open>
  The hosts are little-endian: the first byte in memory is the least significant one.
  \<open>le16\<close> and \<open>le32\<close> are the value a 16 or 32 bit load sees, \<open>byte_of i\<close> the byte a store
  puts at offset \<open>i\<close>. \<open>ntohs\<close>, \<open>htons\<close>, \<open>ntohl\<close> and \<open>htonl\<close> of the C library reverse
  the bytes.
\<close>

definition byte_of :: "nat \<Rightarrow> 'a::len word \<Rightarrow> u8" where
  "byte_of i w = ucast (drop_bit (8 * i) w)"

definition le16 :: "u8 \<Rightarrow> u8 \<Rightarrow> u16" where
  "le16 b0 b1 = ucast b0 OR push_bit 8 (ucast b1)"

definition le32 :: "u8 \<Rightarrow> u8 \<Rightarrow> u8 \<Rightarrow> u8 \<Rightarrow> u32" where
  "le32 b0 b1 b2 b3 = ucast b0 OR push_bit 8 (ucast b1) OR push_bit 16 (ucast b2)
     OR push_bit 24 (ucast b3)"

definition ntohs :: "u16 \<Rightarrow> u16" where
  "ntohs x = le16 (byte_of 1 x) (byte_of 0 x)"

definition htons :: "u16 \<Rightarrow> u16" where
  "htons x = le16 (byte_of 1 x) (byte_of 0 x)"

definition ntohl :: "u32 \<Rightarrow> u32" where
  "ntohl x = le32 (byte_of 3 x) (byte_of 2 x) (byte_of 1 x) (byte_of 0 x)"

definition htonl :: "u32 \<Rightarrow> u32" where
  "htonl x = le32 (byte_of 3 x) (byte_of 2 x) (byte_of 1 x) (byte_of 0 x)"

lemma bit_byte_of: "bit (byte_of i w) n \<longleftrightarrow> n < 8 \<and> bit w (8 * i + n)"
  by (auto simp: byte_of_def bit_simps add.commute numeral_eq_Suc)

lemma bit_le16: "bit (le16 b0 b1) n \<longleftrightarrow> (if n < 8 then bit b0 n else n < 16 \<and> bit b1 (n - 8))"
  by (auto simp: le16_def bit_simps not_less dest: bit_imp_le_length)

lemma bit_le32: "bit (le32 b0 b1 b2 b3) n \<longleftrightarrow>
    (if n < 8 then bit b0 n else if n < 16 then bit b1 (n - 8)
     else if n < 24 then bit b2 (n - 16) else n < 32 \<and> bit b3 (n - 24))"
  by (auto simp: le32_def bit_simps not_less dest: bit_imp_le_length)

lemma byte_of_le16 [simp]: "byte_of 0 (le16 b0 b1) = b0" "byte_of (Suc 0) (le16 b0 b1) = b1"
  by (auto intro!: bit_word_eqI simp: bit_byte_of bit_le16)

lemma byte_of_le32 [simp]:
  "byte_of 0 (le32 b0 b1 b2 b3) = b0" "byte_of (Suc 0) (le32 b0 b1 b2 b3) = b1"
  "byte_of 2 (le32 b0 b1 b2 b3) = b2" "byte_of 3 (le32 b0 b1 b2 b3) = b3"
  by (auto intro!: bit_word_eqI simp: bit_byte_of bit_le32)

lemma le16_byte_of [simp]: "le16 (byte_of 0 w) (byte_of (Suc 0) w) = w"
  by (auto intro!: bit_word_eqI simp: bit_byte_of bit_le16 split: if_splits)

lemma le32_byte_of [simp]:
  "le32 (byte_of 0 w) (byte_of (Suc 0) w) (byte_of 2 w) (byte_of 3 w) = w"
  by (auto intro!: bit_word_eqI simp: bit_byte_of bit_le32 split: if_splits)

lemma ntohs_le16 [simp]: "ntohs (le16 a b) = le16 b a"
  by (simp add: ntohs_def)

lemma ntohs_ntohs [simp]: "ntohs (ntohs x) = x"
  by (simp add: ntohs_def)

lemma htons_ntohs_same: "htons = ntohs"
  by (simp add: fun_eq_iff htons_def ntohs_def)

lemma htonl_ntohl_same: "htonl = ntohl"
  by (simp add: fun_eq_iff htonl_def ntohl_def)

lemma htons_ntohs [simp]: "htons (ntohs x) = x" and ntohs_htons [simp]: "ntohs (htons x) = x"
  by (simp_all add: htons_ntohs_same)

lemma ntohs_inject [simp]: "ntohs x = ntohs y \<longleftrightarrow> x = y"
  by (metis ntohs_ntohs)

lemma ntohl_ntohl [simp]: "ntohl (ntohl x) = x"
  by (simp add: ntohl_def)

lemma ntohl_inject [simp]: "ntohl x = ntohl y \<longleftrightarrow> x = y"
  by (metis ntohl_ntohl)

lemma htonl_ntohl [simp]: "htonl (ntohl x) = x" and ntohl_htonl [simp]: "ntohl (htonl x) = x"
  by (simp_all add: htonl_ntohl_same)

section \<open>C strings\<close>

text \<open>
  A C string is modelled by its characters up to the terminating NUL. \<open>strcmp\<close> and \<open>strncmp\<close>
  are only ever tested for being zero, which is the equality below; \<open>strncpy\<close> copies at most
  \<open>n\<close> characters (its callers clear the destination first).
\<close>

definition strncmp_eq :: "string \<Rightarrow> string \<Rightarrow> nat \<Rightarrow> bool" where
  "strncmp_eq a b n \<longleftrightarrow> take n a = take n b"

definition strncpy :: "string \<Rightarrow> nat \<Rightarrow> string" where
  "strncpy src n = take n src"

lemma strncmp_eq_refl [simp]: "strncmp_eq a a n"
  by (simp add: strncmp_eq_def)

lemma strncmp_eq_sym: "strncmp_eq a b n \<longleftrightarrow> strncmp_eq b a n"
  by (auto simp: strncmp_eq_def)

lemma strncmp_eq_short [simp]:
  "length a < n \<Longrightarrow> length b < n \<Longrightarrow> strncmp_eq a b n \<longleftrightarrow> a = b"
  by (simp add: strncmp_eq_def)

lemma strncmp_eq_strncpy [simp]:
  "strncmp_eq (strncpy a n) b n = strncmp_eq a b n"
  "strncmp_eq a (strncpy b n) n = strncmp_eq a b n"
  by (simp_all add: strncmp_eq_def strncpy_def)

lemma strncpy_short [simp]: "length a \<le> n \<Longrightarrow> strncpy a n = a"
  by (simp add: strncpy_def)

lemma length_strncpy [simp]: "length (strncpy a n) = min (length a) n"
  by (simp add: strncpy_def)

text \<open>
  Where the sign of \<open>strcmp\<close> matters the function is a parameter: the C standard fixes only the
  sign, which changes when the arguments are swapped. \<open>strcmp_bytes\<close> is one such function.
\<close>

definition strcmp_reverses :: "(string \<Rightarrow> string \<Rightarrow> int) \<Rightarrow> bool" where
  "strcmp_reverses strcmp \<longleftrightarrow> (\<forall>a b. 0 < strcmp a b \<longrightarrow> strcmp b a < 0)"

fun strcmp_bytes :: "string \<Rightarrow> string \<Rightarrow> int" where
  "strcmp_bytes [] [] = 0"
| "strcmp_bytes [] (b # bs) = - 1"
| "strcmp_bytes (a # as) [] = 1"
| "strcmp_bytes (a # as) (b # bs) = (if a = b then strcmp_bytes as bs
     else if (of_char a :: nat) < of_char b then - 1 else 1)"

lemma strcmp_bytes_reverses: "strcmp_reverses strcmp_bytes"
proof -
  have "0 < strcmp_bytes a b \<Longrightarrow> strcmp_bytes b a < 0" for a b
  proof (induction a b rule: strcmp_bytes.induct)
    case (4 a as b bs)
    show ?case
    proof (cases "a = b")
      case False
      then have "(of_char a :: nat) \<noteq> of_char b" by simp
      then consider "(of_char a :: nat) < of_char b" | "(of_char b :: nat) < of_char a"
        by (rule linorder_neqE)
      then show ?thesis using 4 False by cases auto
    qed (use 4 in simp)
  qed simp_all
  then show ?thesis by (simp add: strcmp_reverses_def)
qed

lemma strcmp_asymp:
  assumes "strcmp_reverses strcmp"
  shows "asymp (\<lambda>a b. strcmp (name a) (name b) = 1)"
proof (rule asympI)
  fix a b assume "strcmp (name a) (name b) = 1"
  then have "strcmp (name b) (name a) < 0" using assms by (simp add: strcmp_reverses_def)
  then show "strcmp (name b) (name a) \<noteq> 1" by simp
qed

section \<open>The adjacent-swap sort\<close>

text \<open>
  The C code sorts its lists in place by walking over the nodes and exchanging the data of
  neighbours that are out of order, until a walk makes no exchange (a bubble sort). One walk is
  \<open>bubble_pass\<close>; it returns the list and the \<open>swapped\<close> flag. The \<open>do ... while (swapped)\<close>
  loop need not end for every swap condition, so it is a partial function; it ends whenever the
  condition is asymmetric, because each exchange removes an inversion.
\<close>

fun bubble_pass :: "('a \<Rightarrow> 'a \<Rightarrow> bool) \<Rightarrow> 'a list \<Rightarrow> 'a list \<times> bool" where
  "bubble_pass sw (a # b # xs) =
     (if sw a b then (b # fst (bubble_pass sw (a # xs)), True)
      else (a # fst (bubble_pass sw (b # xs)), snd (bubble_pass sw (b # xs))))"
| "bubble_pass sw [a] = ([a], False)"
| "bubble_pass sw [] = ([], False)"

partial_function (option) bubble_sort :: "('a \<Rightarrow> 'a \<Rightarrow> bool) \<Rightarrow> 'a list \<Rightarrow> 'a list option" where
  "bubble_sort sw xs =
     (if snd (bubble_pass sw xs) then bubble_sort sw (fst (bubble_pass sw xs))
      else Some (fst (bubble_pass sw xs)))"

fun inversions :: "('a \<Rightarrow> 'a \<Rightarrow> bool) \<Rightarrow> 'a list \<Rightarrow> nat" where
  "inversions sw [] = 0"
| "inversions sw (x # xs) = length (filter (sw x) xs) + inversions sw xs"

lemma mset_bubble_pass: "mset (fst (bubble_pass sw xs)) = mset xs"
  by (induction sw xs rule: bubble_pass.induct) auto

lemma length_filter_mset: "mset xs = mset ys \<Longrightarrow> length (filter P xs) = length (filter P ys)"
  by (metis mset_filter size_mset)

lemma inversions_bubble_pass:
  "asymp sw \<Longrightarrow> (if snd (bubble_pass sw xs) then inversions sw (fst (bubble_pass sw xs)) < inversions sw xs
     else fst (bubble_pass sw xs) = xs)"
proof (induction sw xs rule: bubble_pass.induct)
  case (1 sw a b xs)
  show ?case
  proof (cases "sw a b")
    case True
    with "1.prems" have "\<not> sw b a" by (meson asympD)
    moreover have "length (filter (sw b) (fst (bubble_pass sw (a # xs)))) = length (filter (sw b) (a # xs))"
      by (intro length_filter_mset mset_bubble_pass)
    moreover have "inversions sw (fst (bubble_pass sw (a # xs))) \<le> inversions sw (a # xs)"
      using "1.IH"(1) [OF True "1.prems"] by (auto split: if_splits)
    ultimately show ?thesis using True by simp
  next
    case False
    have "length (filter (sw a) (fst (bubble_pass sw (b # xs)))) = length (filter (sw a) (b # xs))"
      by (intro length_filter_mset mset_bubble_pass)
    with False "1.IH"(2) [OF False "1.prems"] show ?thesis by (auto split: if_splits)
  qed
qed simp_all

lemma bubble_sort_terminates: "asymp sw \<Longrightarrow> \<exists>ys. bubble_sort sw xs = Some ys"
proof (induction "inversions sw xs" arbitrary: xs rule: less_induct)
  case less
  show ?case
  proof (cases "snd (bubble_pass sw xs)")
    case True
    with less.prems have "inversions sw (fst (bubble_pass sw xs)) < inversions sw xs"
      using inversions_bubble_pass [of sw xs] by simp
    with less True show ?thesis by (subst bubble_sort.simps) simp
  next
    case False
    then show ?thesis by (subst bubble_sort.simps) simp
  qed
qed

lemma bubble_sort_result:
  assumes "bubble_sort sw xs = Some ys"
  shows "mset ys = mset xs \<and> (\<exists>zs. \<not> snd (bubble_pass sw zs) \<and> ys = fst (bubble_pass sw zs))"
  using assms
proof (rule bubble_sort.raw_induct [rotated])
  fix bs sw and xs ys :: "'a list"
  assume IH: "\<And>sw xs ys. bs sw xs = Some ys \<Longrightarrow>
      mset ys = mset xs \<and> (\<exists>zs. \<not> snd (bubble_pass sw zs) \<and> ys = fst (bubble_pass sw zs))"
    and eq: "(if snd (bubble_pass sw xs) then bs sw (fst (bubble_pass sw xs))
      else Some (fst (bubble_pass sw xs))) = Some ys"
  show "mset ys = mset xs \<and> (\<exists>zs. \<not> snd (bubble_pass sw zs) \<and> ys = fst (bubble_pass sw zs))"
  proof (cases "snd (bubble_pass sw xs)")
    case True
    with eq IH show ?thesis by (metis mset_bubble_pass)
  next
    case False
    with eq show ?thesis by (auto simp: mset_bubble_pass)
  qed
qed

lemma bubble_pass_stable: "\<not> snd (bubble_pass sw xs) \<Longrightarrow> fst (bubble_pass sw xs) = xs"
  by (induction sw xs rule: bubble_pass.induct) (auto split: if_splits)

lemma bubble_pass_successively:
  "\<not> snd (bubble_pass sw xs) \<Longrightarrow> successively (\<lambda>a b. \<not> sw a b) xs"
  by (induction sw xs rule: bubble_pass.induct) (auto split: if_splits)

theorem bubble_sort_correct:
  assumes "asymp sw" and "transp (\<lambda>a b. \<not> sw a b)"
  shows "\<exists>ys. bubble_sort sw xs = Some ys \<and> mset ys = mset xs \<and> sorted_wrt (\<lambda>a b. \<not> sw a b) ys"
proof -
  obtain ys where ys: "bubble_sort sw xs = Some ys"
    using bubble_sort_terminates [OF assms(1)] by blast
  then have "successively (\<lambda>a b. \<not> sw a b) ys"
    using bubble_sort_result bubble_pass_successively bubble_pass_stable by metis
  then have "sorted_wrt (\<lambda>a b. \<not> sw a b) ys"
    by (simp add: successively_conv_sorted_wrt [OF assms(2)])
  with ys show ?thesis using bubble_sort_result by blast
qed

section \<open>What a computation leaves alone\<close>

text \<open>\<open>keeps g v r\<close>: if the computation \<open>r\<close> returns, \<open>g\<close> of its result is \<open>v\<close>. The rules go
  through a computation step by step; what each step keeps is used as a destruction rule.\<close>

definition keeps :: "('s \<Rightarrow> 'a) \<Rightarrow> 'a \<Rightarrow> 's option \<Rightarrow> bool" where
  "keeps g v r \<longleftrightarrow> (\<forall>s. r = Some s \<longrightarrow> g s = v)"

lemma keepsI: "(\<And>s. r = Some s \<Longrightarrow> g s = v) \<Longrightarrow> keeps g v r"
  by (simp add: keeps_def)

lemma keepsD: "r = Some s \<Longrightarrow> keeps g v r \<Longrightarrow> g s = v"
  by (simp add: keeps_def)

lemma keepsD_pair: "r = Some (x, s) \<Longrightarrow> keeps (\<lambda>y. g (snd y)) v r \<Longrightarrow> g s = v"
  by (simp add: keeps_def)

lemma keeps_intros:
  "(\<And>x. r = Some x \<Longrightarrow> keeps g v (f x)) \<Longrightarrow> keeps g v (Option.bind r f)"
  "g s = v \<Longrightarrow> keeps g v (Some s)"
  "keeps g v None"
  by (auto simp: keeps_def bind_eq_Some_conv)

end
