(* ===== verification/Double.thy ===== *)
theory Double
  imports Prelude
begin

text \<open>
  The C type \<open>double\<close>: binary64 of IEEE 754, rounded to nearest, ties to even, without excess
  precision. Every finite value is a whole multiple of the smallest one, 2 to the power of -1074, and
  is represented by that multiple. The sign of a zero is not kept.
\<close>

datatype double = NaN | Inf bool | Fin int

definition dbl_unit :: int where "dbl_unit = 2 ^ 1074"

fun bit_length :: "nat \<Rightarrow> nat" where
  "bit_length n = (if n = 0 then 0 else Suc (bit_length (n div 2)))"

declare bit_length.simps [simp del]

text \<open>The whole number nearest to \<open>p / q\<close>, for a positive \<open>q\<close>, and the double nearest to it.\<close>

definition round_even :: "int \<Rightarrow> int \<Rightarrow> int" where
  "round_even p q = (let d = p div q; r = p mod q in
     if 2 * r < q then d else if 2 * r > q then d + 1 else if even d then d else d + 1)"

definition dbl_round :: "int \<Rightarrow> int \<Rightarrow> double" where
  "dbl_round p q = (let s = bit_length (nat (\<bar>p\<bar> div q)) - 53; v = round_even p (q * 2 ^ s) * 2 ^ s in
     if \<bar>v\<bar> \<ge> 2 ^ 1024 * dbl_unit then Inf (v < 0) else Fin v)"

definition dbl_of_int :: "int \<Rightarrow> double" where
  "dbl_of_int i = dbl_round (i * dbl_unit) 1"

fun dbl_add :: "double \<Rightarrow> double \<Rightarrow> double" where
  "dbl_add (Fin a) (Fin b) = dbl_round (a + b) 1"
| "dbl_add (Inf s) (Fin b) = Inf s"
| "dbl_add (Fin a) (Inf s) = Inf s"
| "dbl_add (Inf s) (Inf t) = (if s = t then Inf s else NaN)"
| "dbl_add NaN y = NaN"
| "dbl_add x NaN = NaN"

fun dbl_mult :: "double \<Rightarrow> double \<Rightarrow> double" where
  "dbl_mult (Fin a) (Fin b) = dbl_round (a * b) dbl_unit"
| "dbl_mult (Inf s) (Fin b) = (if b = 0 then NaN else Inf (s \<noteq> (b < 0)))"
| "dbl_mult (Fin a) (Inf s) = (if a = 0 then NaN else Inf (s \<noteq> (a < 0)))"
| "dbl_mult (Inf s) (Inf t) = Inf (s \<noteq> t)"
| "dbl_mult NaN y = NaN"
| "dbl_mult x NaN = NaN"

text \<open>A zero divisor counts as positive.\<close>

fun dbl_div :: "double \<Rightarrow> double \<Rightarrow> double" where
  "dbl_div (Fin a) (Fin b) =
     (if b = 0 then (if a = 0 then NaN else Inf (a < 0)) else dbl_round (a * dbl_unit * sgn b) \<bar>b\<bar>)"
| "dbl_div (Inf s) (Fin b) = Inf (s \<noteq> (b < 0))"
| "dbl_div (Fin a) (Inf s) = Fin 0"
| "dbl_div (Inf s) (Inf t) = NaN"
| "dbl_div NaN y = NaN"
| "dbl_div x NaN = NaN"

text \<open>A comparison with NaN is false.\<close>

fun dbl_less :: "double \<Rightarrow> double \<Rightarrow> bool" where
  "dbl_less (Fin a) (Fin b) \<longleftrightarrow> a < b"
| "dbl_less (Fin a) (Inf s) \<longleftrightarrow> \<not> s"
| "dbl_less (Inf s) (Fin b) \<longleftrightarrow> s"
| "dbl_less (Inf s) (Inf t) \<longleftrightarrow> s \<and> \<not> t"
| "dbl_less NaN y \<longleftrightarrow> False"
| "dbl_less x NaN \<longleftrightarrow> False"

definition is_finite :: "double \<Rightarrow> bool" where
  "is_finite x \<longleftrightarrow> (\<exists>a. x = Fin a)"

lemma is_finite_simps [simp]: "is_finite (Fin a)" "\<not> is_finite NaN" "\<not> is_finite (Inf s)"
  by (simp_all add: is_finite_def)

lemma dbl_less_asymp: "asymp dbl_less"
proof (rule asympI)
  show "dbl_less x y \<Longrightarrow> \<not> dbl_less y x" for x y by (cases x; cases y) auto
qed

lemma dbl_not_less_trans:
  assumes "\<not> dbl_less x y" "\<not> dbl_less y z" "y \<noteq> NaN"
  shows "\<not> dbl_less x z"
  using assms by (cases x; cases y; cases z) auto

text \<open>What is not finite does not become finite again in a sum.\<close>

lemma not_finite_add: "\<not> is_finite y \<Longrightarrow> \<not> is_finite (dbl_add x y)"
  by (cases x; cases y) auto

lemma not_finite_mult: "\<not> is_finite y \<Longrightarrow> \<not> is_finite (dbl_mult x y)"
  by (cases x; cases y) auto

lemma round_even_exact: "0 < q \<Longrightarrow> round_even (a * q) q = a"
  by (simp add: round_even_def)

lemma bit_length_less: "n < 2 ^ k \<Longrightarrow> bit_length n \<le> k"
proof (induction k arbitrary: n)
  case (Suc k)
  then have "n div 2 < 2 ^ k" by simp
  with Suc.IH show ?case by (subst bit_length.simps) simp
qed (simp add: bit_length.simps)

text \<open>The difference of two times and a counter of 32 bits are represented exactly.\<close>

lemma dbl_of_int_exact:
  assumes "\<bar>i\<bar> < 2 ^ 53"
  shows "dbl_of_int i = Fin (i * dbl_unit)"
proof -
  define s where "s = bit_length (nat \<bar>i * dbl_unit\<bar>) - 53"
  have "\<bar>i * dbl_unit\<bar> < 2 ^ 53 * dbl_unit" using assms by (simp add: abs_mult dbl_unit_def)
  then have "nat \<bar>i * dbl_unit\<bar> < 2 ^ (53 + 1074)" by (simp add: dbl_unit_def nat_less_iff)
  then have "s \<le> 1074" using bit_length_less unfolding s_def by fastforce
  then have "dbl_unit = 2 ^ (1074 - s) * 2 ^ s" by (simp only: dbl_unit_def flip: power_add) simp
  then have r: "round_even (i * dbl_unit) (2 ^ s) * 2 ^ s = i * dbl_unit"
    using round_even_exact [of "2 ^ s" "i * 2 ^ (1074 - s)"] by (simp add: mult.assoc)
  have "\<bar>i * dbl_unit\<bar> < 2 ^ 1024 * dbl_unit"
    using assms by (simp add: abs_mult dbl_unit_def)
  with r show ?thesis by (simp add: dbl_of_int_def dbl_round_def Let_def flip: s_def)
qed

end
