(* ===== verification/Node_List.thy ===== *)
theory Node_List
  imports Prelude
begin

text \<open>
  The doubly linked lists of or_utils.c (\<open>struct node\<close> with \<open>node_create\<close>, \<open>node_push_back\<close>,
  \<open>node_remove\<close>, \<open>node_push_front\<close>, \<open>node_insert_front\<close>, \<open>node_update\<close>, \<open>node_length\<close>) on an explicit
  heap of nodes, and the proof that they implement list operations. Every table of the router
  is such a list; the other theories model the tables as HOL lists, which the refinement lemmas
  of this theory justify.

  A heap maps addresses to allocated nodes; \<open>free\<close> removes a node, so touching a freed or null
  node is the fault \<open>None\<close>. The data pointer of a node is modelled by the data it points to,
  which the list owns.
\<close>

section \<open>Nodes and heaps\<close>

type_synonym ptr = "nat option"

record 'a node =
  node_prev :: ptr
  node_next :: ptr
  node_data :: 'a

type_synonym 'a heap = "nat \<Rightarrow> 'a node option"

definition upd_node :: "('a node \<Rightarrow> 'a node) \<Rightarrow> ptr \<Rightarrow> 'a heap \<Rightarrow> 'a heap option" where
  "upd_node f p h = (case p of None \<Rightarrow> None | Some a \<Rightarrow>
     (case h a of None \<Rightarrow> None | Some nd \<Rightarrow> Some (h(a \<mapsto> f nd))))"

definition node_create :: "nat \<Rightarrow> 'a \<Rightarrow> 'a heap \<Rightarrow> 'a heap" where
  "node_create a d h = h(a \<mapsto> \<lparr>node_prev = None, node_next = None, node_data = d\<rparr>)"

partial_function (option) last_node :: "'a heap \<Rightarrow> ptr \<Rightarrow> nat option" where
  "last_node h p = (case p of None \<Rightarrow> None | Some a \<Rightarrow>
     (case h a of None \<Rightarrow> None | Some nd \<Rightarrow>
        (if node_next nd \<noteq> None then last_node h (node_next nd) else Some a)))"

definition node_push_back :: "'a heap \<Rightarrow> ptr \<Rightarrow> nat \<Rightarrow> 'a heap option" where
  "node_push_back h head n = do {
     cur \<leftarrow> last_node h head;
     h1 \<leftarrow> upd_node (node_next_update (\<lambda>_. Some n)) (Some cur) h;
     upd_node (node_prev_update (\<lambda>_. Some cur)) (Some n) h1
   }"

definition node_remove :: "'a heap \<Rightarrow> ptr \<Rightarrow> nat \<Rightarrow> ('a heap \<times> ptr) option" where
  "node_remove h head n = do {
     nd \<leftarrow> h n;
     if node_next nd = None \<and> node_prev nd = None then Some (h(n := None), None)
     else if node_prev nd = None then do {
       h1 \<leftarrow> upd_node (node_prev_update (\<lambda>_. None)) (node_next nd) h;
       Some (h1(n := None), node_next nd)
     }
     else if node_next nd = None then do {
       h1 \<leftarrow> upd_node (node_next_update (\<lambda>_. None)) (node_prev nd) h;
       Some (h1(n := None), head)
     }
     else do {
       h1 \<leftarrow> upd_node (node_next_update (\<lambda>_. node_next nd)) (node_prev nd) h;
       h2 \<leftarrow> upd_node (node_prev_update (\<lambda>_. node_prev nd)) (node_next nd) h1;
       Some (h2(n := None), head)
     }
   }"

partial_function (option) length_from :: "'a heap \<Rightarrow> ptr \<Rightarrow> nat \<Rightarrow> nat option" where
  "length_from h p len = (case p of None \<Rightarrow> Some len | Some a \<Rightarrow>
     (case h a of None \<Rightarrow> None | Some nd \<Rightarrow> length_from h (node_next nd) (Suc len)))"

definition node_length :: "'a heap \<Rightarrow> ptr \<Rightarrow> nat option" where
  "node_length h head = length_from h head 0"

definition node_push_front :: "'a heap \<Rightarrow> ptr \<Rightarrow> nat \<Rightarrow> ('a heap \<times> ptr) option" where
  "node_push_front h head n = do {
     len \<leftarrow> node_length h head;
     if len = 0 then Some (h, Some n)
     else do {
       h1 \<leftarrow> upd_node (node_prev_update (\<lambda>_. Some n)) head h;
       h2 \<leftarrow> upd_node (\<lambda>nd. nd\<lparr>node_next := head, node_prev := None\<rparr>) (Some n) h1;
       Some (h2, Some n)
     }
   }"

text \<open>
  \<open>node_insert_front\<close> drops the tail and puts the new node in front. It returns at once, without
  inserting, when the list has fewer than two nodes.
\<close>

definition node_insert_front :: "'a heap \<Rightarrow> ptr \<Rightarrow> nat \<Rightarrow> ('a heap \<times> ptr) option" where
  "node_insert_front h head n = (case head of None \<Rightarrow> Some (h, head) | Some a \<Rightarrow> do {
     nd \<leftarrow> h a;
     if node_next nd = None then Some (h, head)
     else do {
       cur \<leftarrow> last_node h head;
       cnd \<leftarrow> h cur;
       h1 \<leftarrow> upd_node (node_next_update (\<lambda>_. None)) (node_prev cnd) h;
       h2 \<leftarrow> upd_node (node_prev_update (\<lambda>_. Some n)) head h1;
       h3 \<leftarrow> upd_node (\<lambda>nd. nd\<lparr>node_next := head, node_prev := None\<rparr>) (Some n) h2;
       Some (h3(cur := None), Some n)
     }
   })"

text \<open>\<open>node_update\<close> moves a node of the list to its front.\<close>

definition node_update :: "'a heap \<Rightarrow> ptr \<Rightarrow> ptr \<Rightarrow> ('a heap \<times> ptr) option" where
  "node_update h head p = (case p of None \<Rightarrow> Some (h, head) | Some n \<Rightarrow>
     if head = None then Some (h, head) else do {
       nd \<leftarrow> h n;
       if node_prev nd = None then Some (h, head)
       else do {
         h1 \<leftarrow> upd_node (node_next_update (\<lambda>_. node_next nd)) (node_prev nd) h;
         h2 \<leftarrow> (if node_next nd = None then Some h1
                else upd_node (node_prev_update (\<lambda>_. node_prev nd)) (node_next nd) h1);
         h3 \<leftarrow> upd_node (\<lambda>m. m\<lparr>node_prev := None, node_next := head\<rparr>) (Some n) h2;
         h4 \<leftarrow> upd_node (node_prev_update (\<lambda>_. Some n)) head h3;
         Some (h4, Some n)
       }
     })"

text \<open>
  The walk that removes every node whose data satisfies a test, with the successor saved before
  the node is freed, as \<open>del_route\<close>, \<open>del_content\<close>, \<open>del_arp_cache\<close> and the flush in
  \<open>dijkstra_thread\<close> write it. \<open>remove_stuck\<close> is the loop of \<open>iface_up\<close> and \<open>iface_down\<close>, which does
  not advance.
\<close>

partial_function (option) remove_walk ::
    "('a \<Rightarrow> bool) \<Rightarrow> 'a heap \<Rightarrow> ptr \<Rightarrow> ptr \<Rightarrow> ('a heap \<times> ptr) option" where
  "remove_walk P h head cur = (case cur of None \<Rightarrow> Some (h, head) | Some a \<Rightarrow>
     (case h a of None \<Rightarrow> None | Some nd \<Rightarrow>
        (if P (node_data nd)
         then (case node_remove h head a of None \<Rightarrow> None
               | Some r \<Rightarrow> remove_walk P (fst r) (snd r) (node_next nd))
         else remove_walk P h head (node_next nd))))"

partial_function (option) remove_stuck :: "'a heap \<Rightarrow> ptr \<Rightarrow> ptr \<Rightarrow> ('a heap \<times> ptr) option" where
  "remove_stuck h head cur = (case cur of None \<Rightarrow> Some (h, head) | Some a \<Rightarrow>
     (case node_remove h head a of None \<Rightarrow> None
      | Some r \<Rightarrow> remove_stuck (fst r) (snd r) cur))"

section \<open>Well-formed lists\<close>

text \<open>
  \<open>dseg h pv p xs l q\<close>: the nodes reached from \<open>p\<close> carry the addresses and data \<open>xs\<close>, their links
  are consistent in both directions, the first has predecessor \<open>pv\<close>, the last is \<open>l\<close> and its
  successor is \<open>q\<close>. \<open>chain h head xs\<close> is a whole list.
\<close>

fun dseg :: "'a heap \<Rightarrow> ptr \<Rightarrow> ptr \<Rightarrow> (nat \<times> 'a) list \<Rightarrow> ptr \<Rightarrow> ptr \<Rightarrow> bool" where
  "dseg h pv p [] l q \<longleftrightarrow> p = q \<and> pv = l"
| "dseg h pv p (x # xs) l q \<longleftrightarrow> p = Some (fst x) \<and>
     (\<exists>nx. h (fst x) = Some \<lparr>node_prev = pv, node_next = nx, node_data = snd x\<rparr>
        \<and> dseg h (Some (fst x)) nx xs l q)"

definition chain :: "'a heap \<Rightarrow> ptr \<Rightarrow> (nat \<times> 'a) list \<Rightarrow> bool" where
  "chain h head xs \<longleftrightarrow> distinct (map fst xs) \<and> (\<exists>l. dseg h None head xs l None)"

definition fresh :: "'a heap \<Rightarrow> nat \<Rightarrow> 'a \<Rightarrow> bool" where
  "fresh h n d \<longleftrightarrow> h n = Some \<lparr>node_prev = None, node_next = None, node_data = d\<rparr>"

lemma dseg_append:
  "dseg h pv p (xs @ ys) l q \<longleftrightarrow> (\<exists>m r. dseg h pv p xs m r \<and> dseg h m r ys l q)"
  by (induction xs arbitrary: pv p) auto

lemma dseg_upd [simp]:
  "a \<notin> fst ` set xs \<Longrightarrow> dseg (h(a := v)) pv p xs l q \<longleftrightarrow> dseg h pv p xs l q"
  by (induction xs arbitrary: pv p) auto

lemma dseg_Some_last: "dseg h pv p xs l q \<Longrightarrow> l = (if xs = [] then pv else Some (fst (last xs)))"
  by (induction xs arbitrary: pv p) auto

lemma dseg_start: "dseg h pv p xs l q \<Longrightarrow> p = (case xs of [] \<Rightarrow> q | x # _ \<Rightarrow> Some (fst x))"
  by (cases xs) auto

lemma dseg_Some_Some: "dseg h (Some a) p xs l (Some b) \<Longrightarrow> (\<exists>c. l = Some c) \<and> (\<exists>c. p = Some c)"
  by (induction xs arbitrary: a p) auto

lemma chain_Nil [simp]: "chain h head [] \<longleftrightarrow> head = None"
  by (auto simp: chain_def)

lemma chain_allocated: "chain h head xs \<Longrightarrow> a \<in> fst ` set xs \<Longrightarrow> h a \<noteq> None"
proof -
  have "dseg h pv p ys l q \<Longrightarrow> a \<in> fst ` set ys \<Longrightarrow> h a \<noteq> None" for pv p ys l q
    by (induction ys arbitrary: pv p) auto
  then show "chain h head xs \<Longrightarrow> a \<in> fst ` set xs \<Longrightarrow> h a \<noteq> None"
    unfolding chain_def by blast
qed

lemma chain_head: "chain h head xs \<Longrightarrow> head = (case xs of [] \<Rightarrow> None | x # _ \<Rightarrow> Some (fst x))"
  unfolding chain_def using dseg_start by blast

lemma upd_node_Some [simp]: "h a = Some nd \<Longrightarrow> upd_node f (Some a) h = Some (h(a \<mapsto> f nd))"
  by (simp add: upd_node_def)

section \<open>The operations on well-formed lists\<close>

lemma last_node_dseg: "dseg h pv p xs l None \<Longrightarrow> xs \<noteq> [] \<Longrightarrow> last_node h p = Some (fst (last xs))"
proof (induction xs arbitrary: pv p)
  case (Cons x xs)
  then obtain nx where nx: "p = Some (fst x)" "dseg h (Some (fst x)) nx xs l None"
      "h (fst x) = Some \<lparr>node_prev = pv, node_next = nx, node_data = snd x\<rparr>"
    by auto
  show ?case
  proof (cases xs)
    case Nil
    with nx show ?thesis by (subst last_node.simps) auto
  next
    case (Cons y ys)
    with nx Cons.IH [OF nx(2)] show ?thesis by (subst last_node.simps) auto
  qed
qed simp

lemma length_from_dseg: "dseg h pv p xs l None \<Longrightarrow> length_from h p k = Some (k + length xs)"
proof (induction xs arbitrary: pv p k)
  case Nil
  then show ?case by (simp add: length_from.simps)
next
  case (Cons x xs)
  then show ?case by (subst length_from.simps) fastforce
qed

lemma node_length_chain: "chain h head xs \<Longrightarrow> node_length h head = Some (length xs)"
  using length_from_dseg [where k = 0] by (fastforce simp: chain_def node_length_def)

lemma chain_snocE:
  assumes "chain h head (xs @ [x])"
  obtains pv nx where "h (fst x) = Some \<lparr>node_prev = pv, node_next = None, node_data = snd x\<rparr>"
    and "dseg h None head xs pv (Some (fst x))" and "distinct (map fst xs)" and "fst x \<notin> fst ` set xs"
    and "pv = (if xs = [] then None else Some (fst (last xs)))"
  using assms dseg_Some_last by (fastforce simp: chain_def dseg_append)

lemma node_push_back_chain:
  assumes "chain h head xs" and "xs \<noteq> []" and "fresh h n d" and "n \<notin> fst ` set xs"
  shows "\<exists>h'. node_push_back h head n = Some h' \<and> chain h' head (xs @ [(n, d)])"
proof -
  obtain ys y where xs: "xs = ys @ [y]" using assms(2) by (metis append_butlast_last_id)
  obtain pv where y: "h (fst y) = Some \<lparr>node_prev = pv, node_next = None, node_data = snd y\<rparr>"
      "dseg h None head ys pv (Some (fst y))" "distinct (map fst ys)" "fst y \<notin> fst ` set ys"
    using chain_snocE [OF assms(1) [unfolded xs]] by metis
  have "last_node h head = Some (fst y)"
    using assms(1) last_node_dseg [of h None head xs] by (auto simp: chain_def xs)
  then show ?thesis
    using y assms(3,4) by (auto simp: node_push_back_def fresh_def chain_def dseg_append xs)
qed

lemma node_push_front_chain:
  assumes "chain h head xs" and "fresh h n d" and "n \<notin> fst ` set xs"
  shows "\<exists>h'. node_push_front h head n = Some (h', Some n) \<and> chain h' (Some n) ((n, d) # xs)"
proof (cases xs)
  case Nil
  with assms show ?thesis
    using node_length_chain [OF assms(1)] by (auto simp: node_push_front_def chain_def fresh_def)
next
  case (Cons x ys)
  with assms show ?thesis
    using node_length_chain [OF assms(1)]
    by (auto simp: node_push_front_def chain_def fresh_def)
qed


lemma chain_midE:
  assumes "chain h head (xs @ (n, d) # ys)"
  obtains pv nx where "dseg h None head xs pv (Some n)"
    and "h n = Some \<lparr>node_prev = pv, node_next = nx, node_data = d\<rparr>"
    and "dseg h (Some n) nx ys (Some (fst (last ((n, d) # ys)))) None"
    and "distinct (map fst (xs @ (n, d) # ys))"
    and "nx = (case ys of [] \<Rightarrow> None | y # _ \<Rightarrow> Some (fst y))"
    and "pv = (if xs = [] then None else Some (fst (last xs)))"
proof -
  from assms obtain pv nx l where d: "dseg h None head xs pv (Some n)"
      "h n = Some \<lparr>node_prev = pv, node_next = nx, node_data = d\<rparr>" "dseg h (Some n) nx ys l None"
      "distinct (map fst (xs @ (n, d) # ys))"
    by (auto simp: chain_def dseg_append)
  moreover have "l = Some (fst (last ((n, d) # ys)))"
    using d(3) dseg_Some_last by fastforce
  ultimately show ?thesis
    using that dseg_start [OF d(3)] dseg_Some_last [OF d(1)] by blast
qed

lemma node_remove_chain:
  assumes "chain h head (xs @ (n, d) # ys)"
  shows "\<exists>h' head'. node_remove h head n = Some (h', head') \<and> chain h' head' (xs @ ys)
     \<and> (\<forall>a. a \<notin> fst ` set (xs @ (n, d) # ys) \<longrightarrow> h' a = h a) \<and> h' n = None"
proof -
  obtain pv nx where d: "dseg h None head xs pv (Some n)"
      "h n = Some \<lparr>node_prev = pv, node_next = nx, node_data = d\<rparr>"
      "dseg h (Some n) nx ys (Some (fst (last ((n, d) # ys)))) None"
      "distinct (map fst (xs @ (n, d) # ys))"
    using chain_midE [OF assms] by metis
  show ?thesis
  proof (cases ys)
    case ys: Nil
    show ?thesis
    proof (cases xs rule: rev_cases)
      case Nil
      with d ys show ?thesis by (auto simp: node_remove_def chain_def)
    next
      case (snoc zs z)
      with d ys show ?thesis by (auto simp: node_remove_def chain_def dseg_append)
    qed
  next
    case ys: (Cons y us)
    show ?thesis
    proof (cases xs rule: rev_cases)
      case Nil
      with d ys show ?thesis
        by (auto simp: node_remove_def chain_def split: if_splits)
    next
      case (snoc zs z)
      with d ys show ?thesis
        by (auto simp: node_remove_def chain_def dseg_append split: if_splits)
    qed
  qed
qed

lemma node_insert_front_chain:
  assumes "chain h head (xs @ [x])" and "xs \<noteq> []" and "fresh h n d" and "n \<notin> fst ` set (xs @ [x])"
  shows "\<exists>h'. node_insert_front h head n = Some (h', Some n) \<and> chain h' (Some n) ((n, d) # xs)"
proof -
  have last: "last_node h head = Some (fst x)"
    using assms(1) last_node_dseg [of h None head "xs @ [x]"] by (auto simp: chain_def)
  obtain pv nx where x: "h (fst x) = Some \<lparr>node_prev = pv, node_next = None, node_data = snd x\<rparr>"
      "dseg h None head xs pv (Some (fst x))" "distinct (map fst xs)" "fst x \<notin> fst ` set xs"
    using chain_snocE [OF assms(1)] by metis
  obtain zs z where xs: "xs = zs @ [z]" using assms(2) by (metis append_butlast_last_id)
  show ?thesis
  proof (cases zs)
    case Nil
    with x last assms(3,4) show ?thesis
      by (auto simp: node_insert_front_def xs fresh_def chain_def)
  next
    case (Cons y us)
    with x(2) obtain r nx where r: "pv = Some (fst z)" "head = Some (fst y)"
        "h (fst y) = Some \<lparr>node_prev = None, node_next = nx, node_data = snd y\<rparr>"
        "dseg h (Some (fst y)) nx us r (Some (fst z))"
        "h (fst z) = Some \<lparr>node_prev = r, node_next = Some (fst x), node_data = snd z\<rparr>"
      by (auto simp: xs dseg_append)
    moreover obtain c e where "r = Some c" "nx = Some e" using dseg_Some_Some [OF r(4)] by blast
    ultimately show ?thesis
      using x last assms(3,4) Cons
      by (simp add: node_insert_front_def xs fresh_def chain_def dseg_append)
  qed
qed

lemma node_insert_front_short:
  assumes "chain h head xs" and "length xs \<le> 1"
  shows "node_insert_front h head n = Some (h, head)"
  using assms by (cases xs) (auto simp: node_insert_front_def chain_def)

lemma node_update_front:
  assumes "chain h head ((n, d) # ys)"
  shows "node_update h head (Some n) = Some (h, head)"
  using assms by (auto simp: node_update_def chain_def)

lemma node_update_chain:
  assumes "chain h head (xs @ (n, d) # ys)" and "xs \<noteq> []"
  shows "\<exists>h'. node_update h head (Some n) = Some (h', Some n) \<and> chain h' (Some n) ((n, d) # xs @ ys)"
proof -
  obtain zs z where xs: "xs = zs @ [z]" using assms(2) by (metis append_butlast_last_id)
  obtain pv nx where d: "dseg h None head xs pv (Some n)"
      "h n = Some \<lparr>node_prev = pv, node_next = nx, node_data = d\<rparr>"
      "dseg h (Some n) nx ys (Some (fst (last ((n, d) # ys)))) None"
      "distinct (map fst (xs @ (n, d) # ys))"
    using chain_midE [OF assms(1)] by metis
  show ?thesis
  proof (cases zs)
    case Nil
    with d show ?thesis
      by (cases ys) (auto simp: node_update_def chain_def dseg_append xs split: if_splits)
  next
    case (Cons y us)
    with d(1) obtain r nx' where r: "pv = Some (fst z)" "head = Some (fst y)"
        "h (fst y) = Some \<lparr>node_prev = None, node_next = nx', node_data = snd y\<rparr>"
        "dseg h (Some (fst y)) nx' us r (Some (fst z))"
        "h (fst z) = Some \<lparr>node_prev = r, node_next = Some n, node_data = snd z\<rparr>"
      by (auto simp: xs dseg_append)
    with d Cons show ?thesis
      by (cases ys) (auto simp: node_update_def chain_def dseg_append xs split: if_splits)
  qed
qed

lemma remove_walk_chain_gen:
  assumes "chain h head (ys @ xs)" and "cur = (case xs of [] \<Rightarrow> None | x # _ \<Rightarrow> Some (fst x))"
  shows "\<exists>h' head'. remove_walk P h head cur = Some (h', head')
     \<and> chain h' head' (ys @ filter (\<lambda>x. \<not> P (snd x)) xs)"
  using assms
proof (induction xs arbitrary: h head ys cur)
  case Nil
  then show ?case by (simp add: remove_walk.simps)
next
  case (Cons x xs)
  obtain n d where x: "x = (n, d)" by (cases x)
  obtain pv nx where n: "h n = Some \<lparr>node_prev = pv, node_next = nx, node_data = d\<rparr>"
      "nx = (case xs of [] \<Rightarrow> None | y # _ \<Rightarrow> Some (fst y))"
    using chain_midE [OF Cons.prems(1) [unfolded x]] by metis
  show ?case
  proof (cases "P d")
    case True
    obtain h1 head1 where r: "node_remove h head n = Some (h1, head1)" "chain h1 head1 (ys @ xs)"
      using node_remove_chain [OF Cons.prems(1) [unfolded x]] by auto
    show ?thesis
      using Cons.IH [OF r(2) n(2)] True Cons.prems(2) n(1) r(1)
      by (subst remove_walk.simps) (simp add: x)
  next
    case False
    have "chain h head ((ys @ [x]) @ xs)" using Cons.prems(1) by simp
    from Cons.IH [OF this n(2)] show ?thesis
      using False Cons.prems(2) n(1) by (subst remove_walk.simps) (simp add: x)
  qed
qed

lemma remove_walk_chain:
  assumes "chain h head xs"
  shows "\<exists>h' head'. remove_walk P h head head = Some (h', head')
     \<and> chain h' head' (filter (\<lambda>x. \<not> P (snd x)) xs)"
  using remove_walk_chain_gen [of h head "[]" xs head P] assms chain_head [OF assms] by simp

lemma remove_stuck_faults:
  assumes "chain h head ((n, d) # xs)"
  shows "remove_stuck h head head = None"
proof -
  obtain h1 head1 where r: "node_remove h head n = Some (h1, head1)" "h1 n = None"
    using node_remove_chain [of h head "[]" n d xs] assms by auto
  then have "node_remove h1 head1 n = None" by (simp add: node_remove_def)
  then have "remove_stuck h1 head1 (Some n) = None" by (subst remove_stuck.simps) simp
  with r chain_head [OF assms] show ?thesis by (subst remove_stuck.simps) simp
qed

section \<open>The interface the tables rely on\<close>

text \<open>
  \<open>append_node\<close> is the idiom every table uses to add an entry: create a node, set its data, make
  it the head of an empty list or push it back. \<open>rep h head ds\<close>: the list at \<open>head\<close> holds the data
  \<open>ds\<close>, in order.
\<close>

definition append_node :: "'a heap \<Rightarrow> ptr \<Rightarrow> nat \<Rightarrow> 'a \<Rightarrow> ('a heap \<times> ptr) option" where
  "append_node h head n d = (let h1 = node_create n d h in
     if head = None then Some (h1, Some n)
     else do { h2 \<leftarrow> node_push_back h1 head n; Some (h2, head) })"

definition rep :: "'a heap \<Rightarrow> ptr \<Rightarrow> 'a list \<Rightarrow> bool" where
  "rep h head ds \<longleftrightarrow> (\<exists>xs. chain h head xs \<and> map snd xs = ds)"

definition unallocated :: "'a heap \<Rightarrow> nat \<Rightarrow> bool" where
  "unallocated h n \<longleftrightarrow> h n = None"

lemma chain_create:
  assumes "chain h head xs" and "h n = None"
  shows "chain (node_create n d h) head xs \<and> fresh (node_create n d h) n d \<and> n \<notin> fst ` set xs"
proof -
  have "n \<notin> fst ` set xs" using assms chain_allocated by fastforce
  with assms show ?thesis by (auto simp: chain_def node_create_def fresh_def)
qed

text \<open>
  The contract of the list operations as their callers use it: an abstraction to HOL lists,
  an append that adds at the end, a removal walk that filters, a length.
\<close>

locale list_store =
  fixes holds :: "'h \<Rightarrow> 'p \<Rightarrow> 'a list \<Rightarrow> bool"
    and can_alloc :: "'h \<Rightarrow> nat \<Rightarrow> bool"
    and app :: "'h \<Rightarrow> 'p \<Rightarrow> nat \<Rightarrow> 'a \<Rightarrow> ('h \<times> 'p) option"
    and rem :: "('a \<Rightarrow> bool) \<Rightarrow> 'h \<Rightarrow> 'p \<Rightarrow> ('h \<times> 'p) option"
    and len :: "'h \<Rightarrow> 'p \<Rightarrow> nat option"
  assumes app_law: "holds h p ds \<Longrightarrow> can_alloc h n \<Longrightarrow>
      \<exists>h' p'. app h p n d = Some (h', p') \<and> holds h' p' (ds @ [d])"
    and rem_law: "holds h p ds \<Longrightarrow>
      \<exists>h' p'. rem P h p = Some (h', p') \<and> holds h' p' (filter (\<lambda>d. \<not> P d) ds)"
    and len_law: "holds h p ds \<Longrightarrow> len h p = Some (length ds)"
begin

lemma app_then_len:
  assumes "holds h p ds" and "can_alloc h n"
  shows "\<exists>h' p'. app h p n d = Some (h', p') \<and> len h' p' = Some (Suc (length ds))"
  using app_law [OF assms] len_law by fastforce

lemma app_then_rem:
  assumes "holds h p ds" and "can_alloc h n" and "P d" and "\<forall>e \<in> set ds. \<not> P e"
  shows "\<exists>h1 p1 h2 p2. app h p n d = Some (h1, p1) \<and> rem P h1 p1 = Some (h2, p2) \<and> holds h2 p2 ds"
proof -
  obtain h1 p1 where 1: "app h p n d = Some (h1, p1)" "holds h1 p1 (ds @ [d])"
    using app_law [OF assms(1,2)] by blast
  moreover have "filter (\<lambda>e. \<not> P e) (ds @ [d]) = ds"
    using assms(3,4) by simp
  ultimately show ?thesis using rem_law [OF 1(2), of P] by auto
qed

end

lemma append_node_rep:
  assumes "rep h head ds" and "unallocated h n"
  shows "\<exists>h' head'. append_node h head n d = Some (h', head') \<and> rep h' head' (ds @ [d])"
proof -
  obtain xs where xs: "chain h head xs" "map snd xs = ds" using assms(1) by (auto simp: rep_def)
  have c: "chain (node_create n d h) head xs" "fresh (node_create n d h) n d" "n \<notin> fst ` set xs"
    using chain_create [OF xs(1)] assms(2) by (auto simp: unallocated_def)
  show ?thesis
  proof (cases "xs = []")
    case True
    with xs c(2) have "chain (node_create n d h) (Some n) [(n, d)]"
      by (auto simp: chain_def fresh_def)
    then have "rep (node_create n d h) (Some n) [d]" by (force simp: rep_def)
    with True xs c show ?thesis by (auto simp: append_node_def)
  next
    case False
    then have "head \<noteq> None" using chain_head [OF xs(1)] by (auto split: list.splits)
    moreover obtain h2 where "node_push_back (node_create n d h) head n = Some h2"
        "chain h2 head (xs @ [(n, d)])"
      using node_push_back_chain [OF c(1) False c(2,3)] by blast
    ultimately show ?thesis using xs(2) by (force simp: append_node_def rep_def)
  qed
qed

lemma remove_walk_rep:
  assumes "rep h head ds"
  shows "\<exists>h' head'. remove_walk P h head head = Some (h', head')
     \<and> rep h' head' (filter (\<lambda>d. \<not> P d) ds)"
proof -
  obtain xs where xs: "chain h head xs" "map snd xs = ds" using assms by (auto simp: rep_def)
  have "map snd (filter (\<lambda>x. \<not> P (snd x)) xs) = filter (\<lambda>d. \<not> P d) ds"
    using xs(2) by (simp add: filter_map comp_def flip: xs(2))
  then show ?thesis using remove_walk_chain [OF xs(1), of P] by (force simp: rep_def)
qed

interpretation nodes: list_store rep unallocated append_node
    "\<lambda>P h head. remove_walk P h head head" node_length
proof unfold_locales
  show "rep h p ds \<Longrightarrow> node_length h p = Some (length ds)" for h p and ds :: "'a list"
    by (auto simp: rep_def node_length_chain)
qed (simp_all add: append_node_rep remove_walk_rep)

section \<open>Properties of the list operations\<close>

text \<open>Unlinking any node of a well-formed list (or_utils.c, \<open>node_remove\<close>) never faults, frees
  exactly that node, leaves every other list of the heap alone, and yields the well-formed list
  without it, wherever the node was: only node, first, last or interior.
\<close>

theorem node_remove_unlinks:
  assumes "chain h head (xs @ (n, d) # ys)"
  shows "\<exists>h' head'. node_remove h head n = Some (h', head') \<and> chain h' head' (xs @ ys)
     \<and> h' n = None \<and> (\<forall>a. a \<notin> fst ` set (xs @ (n, d) # ys) \<longrightarrow> h' a = h a)"
  using node_remove_chain [OF assms] by blast

definition three_nodes :: "nat heap" where
  "three_nodes = [1 \<mapsto> \<lparr>node_prev = None, node_next = Some 2, node_data = 10\<rparr>,
     2 \<mapsto> \<lparr>node_prev = Some 1, node_next = Some 3, node_data = 20\<rparr>,
     3 \<mapsto> \<lparr>node_prev = Some 2, node_next = None, node_data = 30\<rparr>]"

lemma three_nodes_chain: "chain three_nodes (Some 1) [(1, 10), (2, 20), (3, 30)]"
  by (simp add: chain_def three_nodes_def)

theorem node_remove_unlinks_witness:
  "\<exists>h' head'. node_remove three_nodes (Some 1) 2 = Some (h', head')
     \<and> chain h' head' [(1, 10), (3, 30)] \<and> h' 2 = None"
  using node_remove_unlinks [of three_nodes "Some 1" "[(1, 10)]" 2 20 "[(3, 30)]"]
    three_nodes_chain by auto

text \<open>C18: the idiom by which every table appends an entry and the walk by which every table deletes
  entries refine list append and list filter: on a heap that represents a table, both return, and
  the new heap represents the table with the entry at its end, respectively without the entries
  the test selects.
\<close>

theorem table_operations_refine:
  assumes "rep h head ds" and "unallocated h n"
  shows "(\<exists>h' head'. append_node h head n d = Some (h', head') \<and> rep h' head' (ds @ [d]))
     \<and> (\<exists>h' head'. remove_walk P h head head = Some (h', head')
          \<and> rep h' head' (filter (\<lambda>e. \<not> P e) ds))
     \<and> node_length h head = Some (length ds)"
  using nodes.app_law [OF assms] nodes.rem_law [OF assms(1)] nodes.len_law [OF assms(1)] by blast

theorem table_operations_refine_witness:
  "rep three_nodes (Some 1) [10, 20, 30] \<and> unallocated three_nodes 7
   \<and> (\<exists>h' head'. remove_walk even three_nodes (Some 1) (Some 1) = Some (h', head') \<and> rep h' head' [])"
proof -
  have r: "rep three_nodes (Some 1) [10, 20, 30]"
    using three_nodes_chain by (force simp: rep_def)
  have u: "unallocated three_nodes 7" by (simp add: unallocated_def three_nodes_def)
  show ?thesis using r u table_operations_refine [OF r u, of 40 even] by simp
qed

end
