(* ===== verification/Packets.thy ===== *)
theory Packets
  imports Prelude
begin

text \<open>
  The packet layouts of or_data_types.h: one record per packed struct, with the C fields in their
  order, and its byte layout. A packet is the list of its bytes. A struct pointer into a packet is
  an offset; reading through it is \<open>load\<close>, writing a whole struct back is \<open>store\<close>, both \<open>None\<close>
  where the struct does not lie inside the packet. Fields hold the value a load on the
  little-endian host gives, so fields in network byte order still need \<open>ntohs\<close> or \<open>ntohl\<close>, as in
  the C code.

  The locale \<open>struct_codec\<close> is the contract of a packed struct (fixed width, decoding inverts
  encoding and conversely); it is interpreted for every header, and gives the laws of reading and
  writing headers inside packets that the handlers rest on. The \<open>populate_*\<close> functions of
  or_utils.c that fill headers are here too.
\<close>

section \<open>Bytes of structs\<close>

type_synonym packet = "u8 list"
type_synonym mac = "48 word"

definition le48 :: "u8 \<Rightarrow> u8 \<Rightarrow> u8 \<Rightarrow> u8 \<Rightarrow> u8 \<Rightarrow> u8 \<Rightarrow> mac" where
  "le48 b0 b1 b2 b3 b4 b5 = ucast b0 OR push_bit 8 (ucast b1) OR push_bit 16 (ucast b2)
     OR push_bit 24 (ucast b3) OR push_bit 32 (ucast b4) OR push_bit 40 (ucast b5)"

definition nibbles :: "u4 \<Rightarrow> u4 \<Rightarrow> u8" where
  "nibbles lo hi = ucast lo OR push_bit 4 (ucast hi)"

definition lo_nibble :: "u8 \<Rightarrow> u4" where "lo_nibble b = ucast b"

definition hi_nibble :: "u8 \<Rightarrow> u4" where "hi_nibble b = ucast (drop_bit 4 b)"

lemma bit_le48: "bit (le48 b0 b1 b2 b3 b4 b5) n \<longleftrightarrow>
    (if n < 8 then bit b0 n else if n < 16 then bit b1 (n - 8)
     else if n < 24 then bit b2 (n - 16) else if n < 32 then bit b3 (n - 24)
     else if n < 40 then bit b4 (n - 32) else n < 48 \<and> bit b5 (n - 40))"
  by (auto simp: le48_def bit_simps not_less dest: bit_imp_le_length)

lemma byte_of_le48 [simp]:
  "byte_of 0 (le48 b0 b1 b2 b3 b4 b5) = b0" "byte_of (Suc 0) (le48 b0 b1 b2 b3 b4 b5) = b1"
  "byte_of 2 (le48 b0 b1 b2 b3 b4 b5) = b2" "byte_of 3 (le48 b0 b1 b2 b3 b4 b5) = b3"
  "byte_of 4 (le48 b0 b1 b2 b3 b4 b5) = b4" "byte_of 5 (le48 b0 b1 b2 b3 b4 b5) = b5"
  by (auto intro!: bit_word_eqI simp: bit_byte_of bit_le48)

lemma le48_byte_of [simp]:
  "le48 (byte_of 0 w) (byte_of (Suc 0) w) (byte_of 2 w) (byte_of 3 w) (byte_of 4 w) (byte_of 5 w) = w"
  by (auto intro!: bit_word_eqI simp: bit_byte_of bit_le48 split: if_splits)

lemma bit_nibbles: "bit (nibbles lo hi) n \<longleftrightarrow> (if n < 4 then bit lo n else n < 8 \<and> bit hi (n - 4))"
  by (auto simp: nibbles_def bit_simps not_less dest: bit_imp_le_length)

lemma nibbles_split [simp]: "lo_nibble (nibbles lo hi) = lo" "hi_nibble (nibbles lo hi) = hi"
  by (auto intro!: bit_word_eqI simp: lo_nibble_def hi_nibble_def bit_simps bit_nibbles)

lemma nibbles_join [simp]: "nibbles (lo_nibble b) (hi_nibble b) = b"
  by (auto intro!: bit_word_eqI simp: lo_nibble_def hi_nibble_def bit_simps bit_nibbles split: if_splits)

definition load :: "nat \<Rightarrow> (u8 list \<Rightarrow> 'a) \<Rightarrow> nat \<Rightarrow> packet \<Rightarrow> 'a option" where
  "load sz dec off p = (if off + sz \<le> length p then Some (dec (take sz (drop off p))) else None)"

definition store :: "nat \<Rightarrow> ('a \<Rightarrow> u8 list) \<Rightarrow> nat \<Rightarrow> 'a \<Rightarrow> packet \<Rightarrow> packet option" where
  "store sz enc off v p =
     (if off + sz \<le> length p then Some (take off p @ enc v @ drop (off + sz) p) else None)"

locale struct_codec =
  fixes sz :: nat and dec :: "u8 list \<Rightarrow> 'a" and enc :: "'a \<Rightarrow> u8 list"
  assumes length_enc: "length (enc v) = sz"
    and dec_enc: "dec (enc v) = v"
    and enc_dec: "length bs = sz \<Longrightarrow> enc (dec bs) = bs"
begin

lemma store_length: "store sz enc off v p = Some q \<Longrightarrow> length q = length p"
  by (auto simp: store_def length_enc split: if_splits)

lemma store_Some: "off + sz \<le> length p \<Longrightarrow> \<exists>q. store sz enc off v p = Some q \<and> length q = length p"
  by (auto simp: store_def length_enc)

lemma load_store: "store sz enc off v p = Some q \<Longrightarrow> load sz dec off q = Some v"
  by (auto simp: store_def load_def length_enc dec_enc min_def split: if_splits)

lemma store_load: "load sz dec off p = Some v \<Longrightarrow> store sz enc off v p = Some p"
proof -
  assume a: "load sz dec off p = Some v"
  then have len: "off + sz \<le> length p" and v: "v = dec (take sz (drop off p))"
    by (auto simp: load_def split: if_splits)
  have "enc v = take sz (drop off p)" using len by (simp add: v enc_dec)
  moreover have "take off p @ take sz (drop off p) @ drop (off + sz) p = p"
    by (metis append_assoc append_take_drop_id take_add)
  ultimately show ?thesis using len by (simp add: store_def)
qed

lemma load_parts:
  assumes "load sz dec off p = Some v"
  shows "p = take off p @ enc v @ drop (off + sz) p" "off + sz \<le> length p"
  using store_load [OF assms] by (auto simp: store_def split: if_splits)

lemma load_other:
  assumes "store sz enc off v p = Some q" and "o2 + s2 \<le> off \<or> off + sz \<le> o2"
  shows "load s2 d2 o2 q = load s2 d2 o2 p"
proof -
  from assms(1) have q: "q = take off p @ enc v @ drop (off + sz) p" "off + sz \<le> length p"
    by (auto simp: store_def split: if_splits)
  have len: "length q = length p" using assms(1) by (rule store_length)
  have "take s2 (drop o2 q) = take s2 (drop o2 p)" if b: "o2 + s2 \<le> length p"
  proof (rule nth_equalityI)
    show "length (take s2 (drop o2 q)) = length (take s2 (drop o2 p))" by (simp add: len)
    fix i assume "i < length (take s2 (drop o2 q))"
    then have i: "i < s2" by simp
    have "q ! (o2 + i) = p ! (o2 + i)"
      using assms(2) i b q(2) by (auto simp: q(1) nth_append length_enc)
    with i b len show "take s2 (drop o2 q) ! i = take s2 (drop o2 p) ! i" by simp
  qed
  then show ?thesis by (simp add: load_def len)
qed

end

section \<open>The headers\<close>

record eth_hdr =
  eth_dhost :: mac
  eth_shost :: mac
  eth_type :: u16

definition dec_eth_hdr :: "u8 list \<Rightarrow> eth_hdr" where
  "dec_eth_hdr bs =
    \<lparr>eth_dhost = le48 (bs ! 0) (bs ! 1) (bs ! 2) (bs ! 3) (bs ! 4) (bs ! 5),
      eth_shost = le48 (bs ! 6) (bs ! 7) (bs ! 8) (bs ! 9) (bs ! 10) (bs ! 11),
      eth_type = le16 (bs ! 12) (bs ! 13)\<rparr>"

definition enc_eth_hdr :: "eth_hdr \<Rightarrow> u8 list" where
  "enc_eth_hdr h =
     [byte_of 0 (eth_dhost h), byte_of 1 (eth_dhost h), byte_of 2 (eth_dhost h),
      byte_of 3 (eth_dhost h), byte_of 4 (eth_dhost h), byte_of 5 (eth_dhost h),
      byte_of 0 (eth_shost h), byte_of 1 (eth_shost h), byte_of 2 (eth_shost h),
      byte_of 3 (eth_shost h), byte_of 4 (eth_shost h), byte_of 5 (eth_shost h),
      byte_of 0 (eth_type h), byte_of 1 (eth_type h)]"

record arp_hdr =
  arp_hrd :: u16
  arp_pro :: u16
  arp_hln :: u8
  arp_pln :: u8
  arp_op :: u16
  arp_sha :: mac
  arp_sip :: u32
  arp_tha :: mac
  arp_tip :: u32

definition dec_arp_hdr :: "u8 list \<Rightarrow> arp_hdr" where
  "dec_arp_hdr bs =
    \<lparr>arp_hrd = le16 (bs ! 0) (bs ! 1), arp_pro = le16 (bs ! 2) (bs ! 3), arp_hln = bs ! 4,
      arp_pln = bs ! 5, arp_op = le16 (bs ! 6) (bs ! 7),
      arp_sha = le48 (bs ! 8) (bs ! 9) (bs ! 10) (bs ! 11) (bs ! 12) (bs ! 13),
      arp_sip = le32 (bs ! 14) (bs ! 15) (bs ! 16) (bs ! 17),
      arp_tha = le48 (bs ! 18) (bs ! 19) (bs ! 20) (bs ! 21) (bs ! 22) (bs ! 23),
      arp_tip = le32 (bs ! 24) (bs ! 25) (bs ! 26) (bs ! 27)\<rparr>"

definition enc_arp_hdr :: "arp_hdr \<Rightarrow> u8 list" where
  "enc_arp_hdr h =
     [byte_of 0 (arp_hrd h), byte_of 1 (arp_hrd h), byte_of 0 (arp_pro h),
      byte_of 1 (arp_pro h), arp_hln h, arp_pln h, byte_of 0 (arp_op h),
      byte_of 1 (arp_op h), byte_of 0 (arp_sha h), byte_of 1 (arp_sha h),
      byte_of 2 (arp_sha h), byte_of 3 (arp_sha h), byte_of 4 (arp_sha h),
      byte_of 5 (arp_sha h), byte_of 0 (arp_sip h), byte_of 1 (arp_sip h),
      byte_of 2 (arp_sip h), byte_of 3 (arp_sip h), byte_of 0 (arp_tha h),
      byte_of 1 (arp_tha h), byte_of 2 (arp_tha h), byte_of 3 (arp_tha h),
      byte_of 4 (arp_tha h), byte_of 5 (arp_tha h), byte_of 0 (arp_tip h),
      byte_of 1 (arp_tip h), byte_of 2 (arp_tip h), byte_of 3 (arp_tip h)]"

record ip_hdr =
  ip_hl :: u4
  ip_v :: u4
  ip_tos :: u8
  ip_len :: u16
  ip_id :: u16
  ip_off :: u16
  ip_ttl :: u8
  ip_p :: u8
  ip_sum :: u16
  ip_src :: u32
  ip_dst :: u32

definition dec_ip_hdr :: "u8 list \<Rightarrow> ip_hdr" where
  "dec_ip_hdr bs =
    \<lparr>ip_hl = lo_nibble (bs ! 0), ip_v = hi_nibble (bs ! 0), ip_tos = bs ! 1,
      ip_len = le16 (bs ! 2) (bs ! 3), ip_id = le16 (bs ! 4) (bs ! 5),
      ip_off = le16 (bs ! 6) (bs ! 7), ip_ttl = bs ! 8, ip_p = bs ! 9,
      ip_sum = le16 (bs ! 10) (bs ! 11),
      ip_src = le32 (bs ! 12) (bs ! 13) (bs ! 14) (bs ! 15),
      ip_dst = le32 (bs ! 16) (bs ! 17) (bs ! 18) (bs ! 19)\<rparr>"

definition enc_ip_hdr :: "ip_hdr \<Rightarrow> u8 list" where
  "enc_ip_hdr h =
     [nibbles (ip_hl h) (ip_v h), ip_tos h, byte_of 0 (ip_len h), byte_of 1 (ip_len h),
      byte_of 0 (ip_id h), byte_of 1 (ip_id h), byte_of 0 (ip_off h), byte_of 1 (ip_off h),
      ip_ttl h, ip_p h, byte_of 0 (ip_sum h), byte_of 1 (ip_sum h), byte_of 0 (ip_src h),
      byte_of 1 (ip_src h), byte_of 2 (ip_src h), byte_of 3 (ip_src h), byte_of 0 (ip_dst h),
      byte_of 1 (ip_dst h), byte_of 2 (ip_dst h), byte_of 3 (ip_dst h)]"

record cccp_hdr =
  cccp_type :: u8
  cccp_identifier :: u8
  cccp_checksum :: u16
  cccp_content :: u32
  cccp_vn :: u16

definition dec_cccp_hdr :: "u8 list \<Rightarrow> cccp_hdr" where
  "dec_cccp_hdr bs =
    \<lparr>cccp_type = bs ! 0, cccp_identifier = bs ! 1, cccp_checksum = le16 (bs ! 2) (bs ! 3),
      cccp_content = le32 (bs ! 4) (bs ! 5) (bs ! 6) (bs ! 7),
      cccp_vn = le16 (bs ! 8) (bs ! 9)\<rparr>"

definition enc_cccp_hdr :: "cccp_hdr \<Rightarrow> u8 list" where
  "enc_cccp_hdr h =
     [cccp_type h, cccp_identifier h, byte_of 0 (cccp_checksum h),
      byte_of 1 (cccp_checksum h), byte_of 0 (cccp_content h), byte_of 1 (cccp_content h),
      byte_of 2 (cccp_content h), byte_of 3 (cccp_content h), byte_of 0 (cccp_vn h),
      byte_of 1 (cccp_vn h)]"

record icmp_hdr =
  icmp_type :: u8
  icmp_code :: u8
  icmp_sum :: u16

definition dec_icmp_hdr :: "u8 list \<Rightarrow> icmp_hdr" where
  "dec_icmp_hdr bs =
    \<lparr>icmp_type = bs ! 0, icmp_code = bs ! 1, icmp_sum = le16 (bs ! 2) (bs ! 3)\<rparr>"

definition enc_icmp_hdr :: "icmp_hdr \<Rightarrow> u8 list" where
  "enc_icmp_hdr h =
     [icmp_type h, icmp_code h, byte_of 0 (icmp_sum h), byte_of 1 (icmp_sum h)]"

record pwospf_hdr =
  pwospf_ver :: u8
  pwospf_type :: u8
  pwospf_len :: u16
  pwospf_rid :: u32
  pwospf_aid :: u32
  pwospf_sum :: u16
  pwospf_atype :: u16
  pwospf_auth1 :: u32
  pwospf_auth2 :: u32

definition dec_pwospf_hdr :: "u8 list \<Rightarrow> pwospf_hdr" where
  "dec_pwospf_hdr bs =
    \<lparr>pwospf_ver = bs ! 0, pwospf_type = bs ! 1, pwospf_len = le16 (bs ! 2) (bs ! 3),
      pwospf_rid = le32 (bs ! 4) (bs ! 5) (bs ! 6) (bs ! 7),
      pwospf_aid = le32 (bs ! 8) (bs ! 9) (bs ! 10) (bs ! 11),
      pwospf_sum = le16 (bs ! 12) (bs ! 13), pwospf_atype = le16 (bs ! 14) (bs ! 15),
      pwospf_auth1 = le32 (bs ! 16) (bs ! 17) (bs ! 18) (bs ! 19),
      pwospf_auth2 = le32 (bs ! 20) (bs ! 21) (bs ! 22) (bs ! 23)\<rparr>"

definition enc_pwospf_hdr :: "pwospf_hdr \<Rightarrow> u8 list" where
  "enc_pwospf_hdr h =
     [pwospf_ver h, pwospf_type h, byte_of 0 (pwospf_len h), byte_of 1 (pwospf_len h),
      byte_of 0 (pwospf_rid h), byte_of 1 (pwospf_rid h), byte_of 2 (pwospf_rid h),
      byte_of 3 (pwospf_rid h), byte_of 0 (pwospf_aid h), byte_of 1 (pwospf_aid h),
      byte_of 2 (pwospf_aid h), byte_of 3 (pwospf_aid h), byte_of 0 (pwospf_sum h),
      byte_of 1 (pwospf_sum h), byte_of 0 (pwospf_atype h), byte_of 1 (pwospf_atype h),
      byte_of 0 (pwospf_auth1 h), byte_of 1 (pwospf_auth1 h), byte_of 2 (pwospf_auth1 h),
      byte_of 3 (pwospf_auth1 h), byte_of 0 (pwospf_auth2 h), byte_of 1 (pwospf_auth2 h),
      byte_of 2 (pwospf_auth2 h), byte_of 3 (pwospf_auth2 h)]"

record pwospf_hello_hdr =
  hello_mask :: u32
  hello_hint :: u16
  hello_pad :: u16

definition dec_pwospf_hello_hdr :: "u8 list \<Rightarrow> pwospf_hello_hdr" where
  "dec_pwospf_hello_hdr bs =
    \<lparr>hello_mask = le32 (bs ! 0) (bs ! 1) (bs ! 2) (bs ! 3),
      hello_hint = le16 (bs ! 4) (bs ! 5), hello_pad = le16 (bs ! 6) (bs ! 7)\<rparr>"

definition enc_pwospf_hello_hdr :: "pwospf_hello_hdr \<Rightarrow> u8 list" where
  "enc_pwospf_hello_hdr h =
     [byte_of 0 (hello_mask h), byte_of 1 (hello_mask h), byte_of 2 (hello_mask h),
      byte_of 3 (hello_mask h), byte_of 0 (hello_hint h), byte_of 1 (hello_hint h),
      byte_of 0 (hello_pad h), byte_of 1 (hello_pad h)]"

record pwospf_lsu_hdr =
  lsu_seq :: u16
  lsu_ttl :: u16
  lsu_num :: u32

definition dec_pwospf_lsu_hdr :: "u8 list \<Rightarrow> pwospf_lsu_hdr" where
  "dec_pwospf_lsu_hdr bs =
    \<lparr>lsu_seq = le16 (bs ! 0) (bs ! 1), lsu_ttl = le16 (bs ! 2) (bs ! 3),
      lsu_num = le32 (bs ! 4) (bs ! 5) (bs ! 6) (bs ! 7)\<rparr>"

definition enc_pwospf_lsu_hdr :: "pwospf_lsu_hdr \<Rightarrow> u8 list" where
  "enc_pwospf_lsu_hdr h =
     [byte_of 0 (lsu_seq h), byte_of 1 (lsu_seq h), byte_of 0 (lsu_ttl h),
      byte_of 1 (lsu_ttl h), byte_of 0 (lsu_num h), byte_of 1 (lsu_num h),
      byte_of 2 (lsu_num h), byte_of 3 (lsu_num h)]"

record pwospf_lsu_adv =
  adv_sub :: u32
  adv_mask :: u32
  adv_rid :: u32

definition dec_pwospf_lsu_adv :: "u8 list \<Rightarrow> pwospf_lsu_adv" where
  "dec_pwospf_lsu_adv bs =
    \<lparr>adv_sub = le32 (bs ! 0) (bs ! 1) (bs ! 2) (bs ! 3),
      adv_mask = le32 (bs ! 4) (bs ! 5) (bs ! 6) (bs ! 7),
      adv_rid = le32 (bs ! 8) (bs ! 9) (bs ! 10) (bs ! 11)\<rparr>"

definition enc_pwospf_lsu_adv :: "pwospf_lsu_adv \<Rightarrow> u8 list" where
  "enc_pwospf_lsu_adv h =
     [byte_of 0 (adv_sub h), byte_of 1 (adv_sub h), byte_of 2 (adv_sub h),
      byte_of 3 (adv_sub h), byte_of 0 (adv_mask h), byte_of 1 (adv_mask h),
      byte_of 2 (adv_mask h), byte_of 3 (adv_mask h), byte_of 0 (adv_rid h),
      byte_of 1 (adv_rid h), byte_of 2 (adv_rid h), byte_of 3 (adv_rid h)]"

record nat_tcp_hdr =
  tcp_sport :: u16
  tcp_dport :: u16
  tcp_seq :: u32
  tcp_ack :: u32
  tcp_unused1 :: u32
  tcp_sum :: u16
  tcp_unused2 :: u16

definition dec_nat_tcp_hdr :: "u8 list \<Rightarrow> nat_tcp_hdr" where
  "dec_nat_tcp_hdr bs =
    \<lparr>tcp_sport = le16 (bs ! 0) (bs ! 1), tcp_dport = le16 (bs ! 2) (bs ! 3),
      tcp_seq = le32 (bs ! 4) (bs ! 5) (bs ! 6) (bs ! 7),
      tcp_ack = le32 (bs ! 8) (bs ! 9) (bs ! 10) (bs ! 11),
      tcp_unused1 = le32 (bs ! 12) (bs ! 13) (bs ! 14) (bs ! 15),
      tcp_sum = le16 (bs ! 16) (bs ! 17), tcp_unused2 = le16 (bs ! 18) (bs ! 19)\<rparr>"

definition enc_nat_tcp_hdr :: "nat_tcp_hdr \<Rightarrow> u8 list" where
  "enc_nat_tcp_hdr h =
     [byte_of 0 (tcp_sport h), byte_of 1 (tcp_sport h), byte_of 0 (tcp_dport h),
      byte_of 1 (tcp_dport h), byte_of 0 (tcp_seq h), byte_of 1 (tcp_seq h),
      byte_of 2 (tcp_seq h), byte_of 3 (tcp_seq h), byte_of 0 (tcp_ack h),
      byte_of 1 (tcp_ack h), byte_of 2 (tcp_ack h), byte_of 3 (tcp_ack h),
      byte_of 0 (tcp_unused1 h), byte_of 1 (tcp_unused1 h), byte_of 2 (tcp_unused1 h),
      byte_of 3 (tcp_unused1 h), byte_of 0 (tcp_sum h), byte_of 1 (tcp_sum h),
      byte_of 0 (tcp_unused2 h), byte_of 1 (tcp_unused2 h)]"

record nat_udp_hdr =
  udp_sport :: u16
  udp_dport :: u16
  udp_len :: u16
  udp_sum :: u16

definition dec_nat_udp_hdr :: "u8 list \<Rightarrow> nat_udp_hdr" where
  "dec_nat_udp_hdr bs =
    \<lparr>udp_sport = le16 (bs ! 0) (bs ! 1), udp_dport = le16 (bs ! 2) (bs ! 3),
      udp_len = le16 (bs ! 4) (bs ! 5), udp_sum = le16 (bs ! 6) (bs ! 7)\<rparr>"

definition enc_nat_udp_hdr :: "nat_udp_hdr \<Rightarrow> u8 list" where
  "enc_nat_udp_hdr h =
     [byte_of 0 (udp_sport h), byte_of 1 (udp_sport h), byte_of 0 (udp_dport h),
      byte_of 1 (udp_dport h), byte_of 0 (udp_len h), byte_of 1 (udp_len h),
      byte_of 0 (udp_sum h), byte_of 1 (udp_sum h)]"

record nat_icmp_hdr =
  nicmp_type :: u8
  nicmp_code :: u8
  nicmp_sum :: u16
  nicmp_opt1 :: u16
  nicmp_opt2 :: u16

definition dec_nat_icmp_hdr :: "u8 list \<Rightarrow> nat_icmp_hdr" where
  "dec_nat_icmp_hdr bs =
    \<lparr>nicmp_type = bs ! 0, nicmp_code = bs ! 1, nicmp_sum = le16 (bs ! 2) (bs ! 3),
      nicmp_opt1 = le16 (bs ! 4) (bs ! 5), nicmp_opt2 = le16 (bs ! 6) (bs ! 7)\<rparr>"

definition enc_nat_icmp_hdr :: "nat_icmp_hdr \<Rightarrow> u8 list" where
  "enc_nat_icmp_hdr h =
     [nicmp_type h, nicmp_code h, byte_of 0 (nicmp_sum h), byte_of 1 (nicmp_sum h),
      byte_of 0 (nicmp_opt1 h), byte_of 1 (nicmp_opt1 h), byte_of 0 (nicmp_opt2 h),
      byte_of 1 (nicmp_opt2 h)]"

section \<open>Every header is a packed struct\<close>

text \<open>A byte list of known length is the list of its elements.\<close>

lemma bytes_of_length: "length bs = n \<Longrightarrow> map ((!) bs) [0..<n] = bs"
  using map_nth by blast

interpretation eth_hdr: struct_codec 14 dec_eth_hdr enc_eth_hdr
proof unfold_locales
  show "enc_eth_hdr (dec_eth_hdr bs) = bs" if "length bs = 14" for bs
    using bytes_of_length [OF that] by (simp add: dec_eth_hdr_def enc_eth_hdr_def upt_rec flip: numeral_2_eq_2)
qed (simp_all add: dec_eth_hdr_def enc_eth_hdr_def)

interpretation arp_hdr: struct_codec 28 dec_arp_hdr enc_arp_hdr
proof unfold_locales
  show "enc_arp_hdr (dec_arp_hdr bs) = bs" if "length bs = 28" for bs
    using bytes_of_length [OF that] by (simp add: dec_arp_hdr_def enc_arp_hdr_def upt_rec flip: numeral_2_eq_2)
qed (simp_all add: dec_arp_hdr_def enc_arp_hdr_def)

interpretation ip_hdr: struct_codec 20 dec_ip_hdr enc_ip_hdr
proof unfold_locales
  show "enc_ip_hdr (dec_ip_hdr bs) = bs" if "length bs = 20" for bs
    using bytes_of_length [OF that] by (simp add: dec_ip_hdr_def enc_ip_hdr_def upt_rec flip: numeral_2_eq_2)
qed (simp_all add: dec_ip_hdr_def enc_ip_hdr_def)

interpretation cccp_hdr: struct_codec 10 dec_cccp_hdr enc_cccp_hdr
proof unfold_locales
  show "enc_cccp_hdr (dec_cccp_hdr bs) = bs" if "length bs = 10" for bs
    using bytes_of_length [OF that] by (simp add: dec_cccp_hdr_def enc_cccp_hdr_def upt_rec flip: numeral_2_eq_2)
qed (simp_all add: dec_cccp_hdr_def enc_cccp_hdr_def)

interpretation icmp_hdr: struct_codec 4 dec_icmp_hdr enc_icmp_hdr
proof unfold_locales
  show "enc_icmp_hdr (dec_icmp_hdr bs) = bs" if "length bs = 4" for bs
    using bytes_of_length [OF that] by (simp add: dec_icmp_hdr_def enc_icmp_hdr_def upt_rec flip: numeral_2_eq_2)
qed (simp_all add: dec_icmp_hdr_def enc_icmp_hdr_def)

interpretation pwospf_hdr: struct_codec 24 dec_pwospf_hdr enc_pwospf_hdr
proof unfold_locales
  show "enc_pwospf_hdr (dec_pwospf_hdr bs) = bs" if "length bs = 24" for bs
    using bytes_of_length [OF that] by (simp add: dec_pwospf_hdr_def enc_pwospf_hdr_def upt_rec flip: numeral_2_eq_2)
qed (simp_all add: dec_pwospf_hdr_def enc_pwospf_hdr_def)

interpretation pwospf_hello_hdr: struct_codec 8 dec_pwospf_hello_hdr enc_pwospf_hello_hdr
proof unfold_locales
  show "enc_pwospf_hello_hdr (dec_pwospf_hello_hdr bs) = bs" if "length bs = 8" for bs
    using bytes_of_length [OF that] by (simp add: dec_pwospf_hello_hdr_def enc_pwospf_hello_hdr_def upt_rec flip: numeral_2_eq_2)
qed (simp_all add: dec_pwospf_hello_hdr_def enc_pwospf_hello_hdr_def)

interpretation pwospf_lsu_hdr: struct_codec 8 dec_pwospf_lsu_hdr enc_pwospf_lsu_hdr
proof unfold_locales
  show "enc_pwospf_lsu_hdr (dec_pwospf_lsu_hdr bs) = bs" if "length bs = 8" for bs
    using bytes_of_length [OF that] by (simp add: dec_pwospf_lsu_hdr_def enc_pwospf_lsu_hdr_def upt_rec flip: numeral_2_eq_2)
qed (simp_all add: dec_pwospf_lsu_hdr_def enc_pwospf_lsu_hdr_def)

interpretation pwospf_lsu_adv: struct_codec 12 dec_pwospf_lsu_adv enc_pwospf_lsu_adv
proof unfold_locales
  show "enc_pwospf_lsu_adv (dec_pwospf_lsu_adv bs) = bs" if "length bs = 12" for bs
    using bytes_of_length [OF that] by (simp add: dec_pwospf_lsu_adv_def enc_pwospf_lsu_adv_def upt_rec flip: numeral_2_eq_2)
qed (simp_all add: dec_pwospf_lsu_adv_def enc_pwospf_lsu_adv_def)

interpretation nat_tcp_hdr: struct_codec 20 dec_nat_tcp_hdr enc_nat_tcp_hdr
proof unfold_locales
  show "enc_nat_tcp_hdr (dec_nat_tcp_hdr bs) = bs" if "length bs = 20" for bs
    using bytes_of_length [OF that] by (simp add: dec_nat_tcp_hdr_def enc_nat_tcp_hdr_def upt_rec flip: numeral_2_eq_2)
qed (simp_all add: dec_nat_tcp_hdr_def enc_nat_tcp_hdr_def)

interpretation nat_udp_hdr: struct_codec 8 dec_nat_udp_hdr enc_nat_udp_hdr
proof unfold_locales
  show "enc_nat_udp_hdr (dec_nat_udp_hdr bs) = bs" if "length bs = 8" for bs
    using bytes_of_length [OF that] by (simp add: dec_nat_udp_hdr_def enc_nat_udp_hdr_def upt_rec flip: numeral_2_eq_2)
qed (simp_all add: dec_nat_udp_hdr_def enc_nat_udp_hdr_def)

interpretation nat_icmp_hdr: struct_codec 8 dec_nat_icmp_hdr enc_nat_icmp_hdr
proof unfold_locales
  show "enc_nat_icmp_hdr (dec_nat_icmp_hdr bs) = bs" if "length bs = 8" for bs
    using bytes_of_length [OF that] by (simp add: dec_nat_icmp_hdr_def enc_nat_icmp_hdr_def upt_rec flip: numeral_2_eq_2)
qed (simp_all add: dec_nat_icmp_hdr_def enc_nat_icmp_hdr_def)


section \<open>Headers at their place in a packet\<close>

text \<open>
  \<open>get_ip_hdr\<close> (or_ip.c), \<open>get_icmp_hdr\<close> (or_icmp.c), \<open>get_arp_hdr\<close> (or_arp.c), \<open>get_cccp_hdr\<close>
  (or_cccp.c) and the \<open>get_pwospf_*\<close> and \<open>get_nat_*\<close> functions: a header is at a fixed offset.
  \<open>get_arp_hdr\<close> asserts the Ethernet type.
\<close>

definition ETH_HDR_LEN :: nat where "ETH_HDR_LEN = 14"
definition IP_HDR_LEN :: nat where "IP_HDR_LEN = 20"
definition ETH_TYPE_ARP :: u16 where "ETH_TYPE_ARP = 0x0806"
definition ETH_TYPE_IP :: u16 where "ETH_TYPE_IP = 0x0800"

lemmas layout_defs = ETH_HDR_LEN_def IP_HDR_LEN_def

definition get_eth_hdr :: "packet \<Rightarrow> eth_hdr option" where
  "get_eth_hdr p = load 14 dec_eth_hdr 0 p"

definition put_eth_hdr :: "eth_hdr \<Rightarrow> packet \<Rightarrow> packet option" where
  "put_eth_hdr h p = store 14 enc_eth_hdr 0 h p"

definition get_ip_hdr :: "packet \<Rightarrow> ip_hdr option" where
  "get_ip_hdr p = load 20 dec_ip_hdr ETH_HDR_LEN p"

definition put_ip_hdr :: "ip_hdr \<Rightarrow> packet \<Rightarrow> packet option" where
  "put_ip_hdr h p = store 20 enc_ip_hdr ETH_HDR_LEN h p"

definition get_arp_hdr :: "packet \<Rightarrow> arp_hdr option" where
  "get_arp_hdr p = do {
     eth \<leftarrow> get_eth_hdr p;
     if ntohs (eth_type eth) = ETH_TYPE_ARP then load 28 dec_arp_hdr ETH_HDR_LEN p else None
   }"

definition put_arp_hdr :: "arp_hdr \<Rightarrow> packet \<Rightarrow> packet option" where
  "put_arp_hdr h p = store 28 enc_arp_hdr ETH_HDR_LEN h p"

definition get_cccp_hdr :: "packet \<Rightarrow> cccp_hdr option" where
  "get_cccp_hdr p = load 10 dec_cccp_hdr (ETH_HDR_LEN + IP_HDR_LEN) p"

definition get_icmp_hdr :: "packet \<Rightarrow> icmp_hdr option" where
  "get_icmp_hdr p = load 4 dec_icmp_hdr (ETH_HDR_LEN + IP_HDR_LEN) p"

definition put_icmp_hdr :: "icmp_hdr \<Rightarrow> packet \<Rightarrow> packet option" where
  "put_icmp_hdr h p = store 4 enc_icmp_hdr (ETH_HDR_LEN + IP_HDR_LEN) h p"

definition get_pwospf_hdr :: "packet \<Rightarrow> pwospf_hdr option" where
  "get_pwospf_hdr p = load 24 dec_pwospf_hdr (ETH_HDR_LEN + IP_HDR_LEN) p"

definition get_pwospf_hello_hdr :: "packet \<Rightarrow> pwospf_hello_hdr option" where
  "get_pwospf_hello_hdr p = load 8 dec_pwospf_hello_hdr (ETH_HDR_LEN + IP_HDR_LEN + 24) p"

definition get_pwospf_lsu_hdr :: "packet \<Rightarrow> pwospf_lsu_hdr option" where
  "get_pwospf_lsu_hdr p = load 8 dec_pwospf_lsu_hdr (ETH_HDR_LEN + IP_HDR_LEN + 24) p"

text \<open>The advertisements that follow the link state update header, \<open>i\<close> counting from 0.\<close>

definition get_pwospf_lsu_adv :: "packet \<Rightarrow> nat \<Rightarrow> pwospf_lsu_adv option" where
  "get_pwospf_lsu_adv p i = load 12 dec_pwospf_lsu_adv (ETH_HDR_LEN + IP_HDR_LEN + 32 + 12 * i) p"

section \<open>Filling headers\<close>

definition populate_eth_hdr :: "eth_hdr \<Rightarrow> mac option \<Rightarrow> mac \<Rightarrow> u16 \<Rightarrow> eth_hdr" where
  "populate_eth_hdr h dhost shost type =
     (let h1 = (case dhost of None \<Rightarrow> h | Some d \<Rightarrow> h\<lparr>eth_dhost := d\<rparr>)
      in h1\<lparr>eth_shost := shost, eth_type := htons type\<rparr>)"

definition populate_arp_hdr :: "arp_hdr \<Rightarrow> mac option \<Rightarrow> u32 \<Rightarrow> mac \<Rightarrow> u32 \<Rightarrow> u16 \<Rightarrow> arp_hdr" where
  "populate_arp_hdr h tha tip sha sip op =
     (let h1 = h\<lparr>arp_hrd := htons 1, arp_pro := htons 0x0800, arp_hln := 6, arp_pln := 4,
        arp_op := htons op, arp_sha := sha, arp_sip := sip\<rparr>;
        h2 = (case tha of None \<Rightarrow> h1 | Some t \<Rightarrow> h1\<lparr>arp_tha := t\<rparr>)
      in h2\<lparr>arp_tip := tip\<rparr>)"

text \<open>\<open>populate_ip\<close> clears the header first, so the result does not depend on the old one.\<close>

definition populate_ip :: "u16 \<Rightarrow> u8 \<Rightarrow> u32 \<Rightarrow> u32 \<Rightarrow> ip_hdr" where
  "populate_ip payload_size protocol source_ip dest_ip =
     \<lparr>ip_hl = 5, ip_v = 4, ip_tos = 0, ip_len = htons (20 + payload_size), ip_id = 0,
      ip_off = htons 0x4000, ip_ttl = 0x40, ip_p = protocol, ip_sum = 0,
      ip_src = source_ip, ip_dst = dest_ip\<rparr>"

text \<open>The header and the payload that follows it, at offset 34 of the new packet.\<close>

definition populate_icmp :: "u8 \<Rightarrow> u8 \<Rightarrow> u8 list \<Rightarrow> packet \<Rightarrow> packet option" where
  "populate_icmp type code payload p = do {
     p1 \<leftarrow> put_icmp_hdr \<lparr>icmp_type = type, icmp_code = code, icmp_sum = 0\<rparr> p;
     store (length payload) id (ETH_HDR_LEN + IP_HDR_LEN + 4) payload p1
   }"

definition populate_pwospf :: "u8 \<Rightarrow> u16 \<Rightarrow> u32 \<Rightarrow> u32 \<Rightarrow> pwospf_hdr" where
  "populate_pwospf type len rid aid =
     \<lparr>pwospf_ver = 2, pwospf_type = type, pwospf_len = htons len, pwospf_rid = rid,
      pwospf_aid = htonl aid, pwospf_sum = 0, pwospf_atype = 0, pwospf_auth1 = 0, pwospf_auth2 = 0\<rparr>"

definition populate_pwospf_hello :: "u32 \<Rightarrow> u16 \<Rightarrow> pwospf_hello_hdr" where
  "populate_pwospf_hello netmask helloint =
     \<lparr>hello_mask = netmask, hello_hint = htons helloint, hello_pad = 0\<rparr>"

definition populate_pwospf_lsu :: "u16 \<Rightarrow> u32 \<Rightarrow> pwospf_lsu_hdr" where
  "populate_pwospf_lsu seq num = \<lparr>lsu_seq = htons seq, lsu_ttl = htons 64, lsu_num = htonl num\<rparr>"

text \<open>\<open>populate_padding\<close> counts up from 1; the 8 bit counter wraps.\<close>

definition populate_padding :: "nat \<Rightarrow> u8 list" where
  "populate_padding len = map (\<lambda>i. of_nat (Suc i)) [0..<len]"

section \<open>Reading and writing headers\<close>

lemmas hdr_access_defs = get_eth_hdr_def put_eth_hdr_def get_ip_hdr_def put_ip_hdr_def
  put_arp_hdr_def get_cccp_hdr_def get_icmp_hdr_def put_icmp_hdr_def get_pwospf_hdr_def
  get_pwospf_hello_hdr_def get_pwospf_lsu_hdr_def layout_defs

lemma put_ip_hdr_laws:
  assumes "put_ip_hdr h p = Some q"
  shows "get_ip_hdr q = Some h" "length q = length p" "get_eth_hdr q = get_eth_hdr p"
    "get_cccp_hdr q = get_cccp_hdr p" "get_icmp_hdr q = get_icmp_hdr p"
    "take 14 q = take 14 p" "drop 34 q = drop 34 p" "take 20 (drop 14 q) = enc_ip_hdr h"
proof -
  have s: "store 20 enc_ip_hdr 14 h p = Some q" using assms by (simp add: put_ip_hdr_def layout_defs)
  then have q: "q = take 14 p @ enc_ip_hdr h @ drop 34 p" "34 \<le> length p"
    by (auto simp: store_def split: if_splits)
  show "get_ip_hdr q = Some h" "length q = length p"
    using ip_hdr.load_store [OF s] ip_hdr.store_length [OF s]
    by (simp_all add: get_ip_hdr_def layout_defs)
  show "get_eth_hdr q = get_eth_hdr p" "get_cccp_hdr q = get_cccp_hdr p"
    "get_icmp_hdr q = get_icmp_hdr p"
    using ip_hdr.load_other [OF s, of 0 14 dec_eth_hdr] ip_hdr.load_other [OF s, of 34 10 dec_cccp_hdr]
      ip_hdr.load_other [OF s, of 34 4 dec_icmp_hdr]
    by (simp_all add: get_eth_hdr_def get_cccp_hdr_def get_icmp_hdr_def layout_defs)
  show "take 14 q = take 14 p" "drop 34 q = drop 34 p" "take 20 (drop 14 q) = enc_ip_hdr h"
    using q(2) by (simp_all add: q(1) ip_hdr.length_enc)
qed

lemma put_eth_hdr_laws:
  assumes "put_eth_hdr h p = Some q"
  shows "get_eth_hdr q = Some h" "length q = length p" "get_ip_hdr q = get_ip_hdr p"
    "get_cccp_hdr q = get_cccp_hdr p" "get_icmp_hdr q = get_icmp_hdr p" "drop 14 q = drop 14 p"
proof -
  have s: "store 14 enc_eth_hdr 0 h p = Some q" using assms by (simp add: put_eth_hdr_def)
  then have q: "q = enc_eth_hdr h @ drop 14 p" "14 \<le> length p"
    by (auto simp: store_def split: if_splits)
  show "get_eth_hdr q = Some h" "length q = length p"
    using eth_hdr.load_store [OF s] eth_hdr.store_length [OF s] by (simp_all add: get_eth_hdr_def)
  show "get_ip_hdr q = get_ip_hdr p" "get_cccp_hdr q = get_cccp_hdr p"
    "get_icmp_hdr q = get_icmp_hdr p"
    using eth_hdr.load_other [OF s, of 14 20 dec_ip_hdr] eth_hdr.load_other [OF s, of 34 10 dec_cccp_hdr]
      eth_hdr.load_other [OF s, of 34 4 dec_icmp_hdr]
    by (simp_all add: get_ip_hdr_def get_cccp_hdr_def get_icmp_hdr_def layout_defs)
  show "drop 14 q = drop 14 p" by (simp add: q(1) eth_hdr.length_enc)
qed

lemma get_ip_hdr_Some: "34 \<le> length p \<longleftrightarrow> (\<exists>h. get_ip_hdr p = Some h)"
  by (auto simp: hdr_access_defs load_def)

lemma put_ip_hdr_Some: "34 \<le> length p \<Longrightarrow> \<exists>q. put_ip_hdr h p = Some q \<and> length q = length p"
  using ip_hdr.store_Some by (simp add: hdr_access_defs)

lemma get_eth_hdr_Some: "14 \<le> length p \<longleftrightarrow> (\<exists>h. get_eth_hdr p = Some h)"
  by (auto simp: hdr_access_defs load_def)

lemma put_eth_hdr_Some: "14 \<le> length p \<Longrightarrow> \<exists>q. put_eth_hdr h p = Some q \<and> length q = length p"
  using eth_hdr.store_Some by (simp add: hdr_access_defs)

text \<open>Loads and stores in a packet given as the concatenation of its parts.\<close>

lemma load_mid: "length a = off \<Longrightarrow> length b = sz \<Longrightarrow> load sz dec off (a @ b @ c) = Some (dec b)"
  by (simp add: load_def)

lemma store_mid: "length a = off \<Longrightarrow> length b = sz \<Longrightarrow> store sz enc off v (a @ b @ c) = Some (a @ enc v @ c)"
  by (simp add: store_def)

end
