(* ===== verification/Checksum.thy ===== *)
theory Checksum
  imports Packets
begin

text \<open>
  The Internet checksums: \<open>compute_ip_checksum\<close> and \<open>verify_checksum\<close> (or_ip.c),
  \<open>compute_icmp_checksum\<close> (or_icmp.c), \<open>compute_pwospf_checksum\<close> (or_pwospf.c), \<open>nat_checksum\<close> and
  \<open>compute_nat_checksums\<close> (or_nat.c). The sums are kept in 32 bit words (\<open>unsigned long\<close> of the
  32 bit binaries the repository ships, \<open>uint32_t\<close>), and are related to arithmetic modulo 65535,
  which is what one's complement sums compute.

  A function that takes a header pointer gets the bytes from that pointer to the end of the buffer
  and returns the bytes too, since it clears the checksum field.
\<close>

section \<open>The code\<close>

fun shorts :: "u8 list \<Rightarrow> u16 list" where
  "shorts (a # b # bs) = le16 a b # shorts bs"
| "shorts _ = []"

text \<open>The loop over the 16 bit words that skips some indices; \<open>i\<close> is the loop counter.\<close>

fun cksum_loop :: "(nat \<Rightarrow> bool) \<Rightarrow> nat \<Rightarrow> u16 list \<Rightarrow> u32 \<Rightarrow> u32" where
  "cksum_loop skip i [] acc = acc"
| "cksum_loop skip i (s # ss) acc =
     cksum_loop skip (Suc i) ss (if skip i then acc else acc + ucast (ntohs s))"

text \<open>Adding the carries, twice, and the one's complement.\<close>

definition fold_complement :: "u32 \<Rightarrow> u16" where
  "fold_complement acc = (let s1 = drop_bit 16 acc + (acc AND 0xFFFF);
       s2 = s1 + drop_bit 16 s1 in NOT (ucast (s2 AND 0xFFFF)))"

definition compute_ip_checksum :: "packet \<Rightarrow> (u16 \<times> packet) option" where
  "compute_ip_checksum m = (if length m < 20 then None else
     let numShorts = 2 * unat (lo_nibble (m ! 0)); m0 = m[10 := 0, 11 := 0]
     in if length m < 2 * numShorts then None
        else Some (fold_complement (cksum_loop (\<lambda>i. i = 5) 0 (take numShorts (shorts m0)) 0), m0))"

definition verify_checksum :: "u8 list \<Rightarrow> nat \<Rightarrow> int option" where
  "verify_checksum m data_length = (if length m < data_length then None else
     let sum_2_comp = cksum_loop (\<lambda>_. False) 0 (take (data_length div 2) (shorts m)) 0;
         sum_1_comp = ucast (drop_bit 16 sum_2_comp + (sum_2_comp AND 0xFFFF)) :: u16
     in Some (if sum_1_comp = 0xFFFF then 0 else 1))"

text \<open>\<open>payload_len\<close> is signed; the sum with the header size is not, so that a message of negative
  size would be summed far past its end.\<close>

definition compute_icmp_checksum :: "packet \<Rightarrow> int \<Rightarrow> (u16 \<times> packet) option" where
  "compute_icmp_checksum m payload_len = (if length m < 4 \<or> 4 + payload_len < 0 then None else
     let numShorts = nat (4 + payload_len) div 2; m0 = m[2 := 0, 3 := 0]
     in if length m < 2 * numShorts then None
        else Some (fold_complement (cksum_loop (\<lambda>i. i = 1) 0 (take numShorts (shorts m0)) 0), m0))"

definition compute_pwospf_checksum :: "packet \<Rightarrow> (u16 \<times> packet) option" where
  "compute_pwospf_checksum m = (if length m < 24 then None else
     let m0 = m[12 := 0, 13 := 0]; numShorts = unat (ntohs (le16 (m0 ! 2) (m0 ! 3))) div 2
     in if length m < 2 * numShorts then None
        else Some (fold_complement
               (cksum_loop (\<lambda>i. \<not> (i < 8 \<or> 11 < i)) 0 (take numShorts (shorts m0)) 0), m0))"

text \<open>
  The idiom \<open>bzero(&ip->ip_sum); checksum = htons(compute_ip_checksum(ip)); ip->ip_sum = checksum\<close>
  on the IP header of a packet.
\<close>

definition set_ip_checksum :: "packet \<Rightarrow> packet option" where
  "set_ip_checksum p = do {
     (c, m) \<leftarrow> compute_ip_checksum (drop 14 p);
     h \<leftarrow> get_ip_hdr p;
     put_ip_hdr (h\<lparr>ip_sum := htons c\<rparr>) p
   }"

definition nat_checksum :: "u16 \<Rightarrow> u16 \<Rightarrow> u16 \<Rightarrow> u16" where
  "nat_checksum old pos neg = (let w0 = ucast old + ucast pos :: u32;
       w1 = drop_bit 16 w0 + (w0 AND 0xFFFF);
       w2 = w1 - ucast neg;
       w3 = (if w2 > 0xFFFF then w2 - 1 else w2)
     in ucast (w3 AND 0xFFFF))"

text \<open>
  An address and port of a NAT entry, with the cached one's complement sums that
  \<open>compute_nat_checksums\<close> fills in. The fields are in network byte order.
\<close>

record nat_ip_port_pair =
  nip_ip :: u32
  nip_port :: u16
  nip_checksum :: u16
  nip_checksum_ip :: u16
  nip_checksum_port :: u16

definition compute_nat_checksums :: "nat_ip_port_pair \<Rightarrow> nat_ip_port_pair" where
  "compute_nat_checksums pair = (let s0 = ucast (nip_ip pair) :: u16;
       s1 = ucast (drop_bit 16 (nip_ip pair)) :: u16;
       all = fold_complement (ucast (ntohs s0) + ucast (ntohs s1) + ucast (ntohs (nip_port pair)));
       addr = fold_complement (ucast (ntohs s0) + ucast (ntohs s1))
     in pair\<lparr>nip_checksum := htons all, nip_checksum_ip := htons addr,
             nip_checksum_port := NOT (nip_port pair)\<rparr>)"

section \<open>The sums as natural numbers\<close>

fun nsum :: "(nat \<Rightarrow> bool) \<Rightarrow> nat \<Rightarrow> u16 list \<Rightarrow> nat" where
  "nsum skip i [] = 0"
| "nsum skip i (s # ss) = (if skip i then 0 else unat (ntohs s)) + nsum skip (Suc i) ss"

lemma unat_u16_le [simp]: "unat (x :: u16) \<le> 65535"
  using unsigned_less [of x, where ?'a = nat] by simp

lemma unat_ucast_u16 [simp]: "unat (ucast (x :: u16) :: u32) = unat x"
proof -
  have "unat x < 2 ^ 32" by (rule le_less_trans [OF unat_u16_le]) simp
  then show ?thesis by (simp add: unsigned_ucast_eq take_bit_nat_eq_self)
qed

lemma unat_plus_u32: "unat a + unat b < 4294967296 \<Longrightarrow> unat (a + b :: u32) = unat a + unat b"
  by (simp add: unat_word_ariths)

lemma unat_sum_u16:
  "unat (ucast (a :: u16) + ucast (b :: u16) :: u32) = unat a + unat b"
  "unat (ucast (a :: u16) + ucast (b :: u16) + ucast (c :: u16) :: u32) = unat a + unat b + unat c"
proof -
  have "unat a + unat b + unat c < 4294967296" for a b c :: u16
    using unat_u16_le [of a] unat_u16_le [of b] unat_u16_le [of c] by linarith
  from this [of a b 0] this [of a b c]
  show "unat (ucast (a :: u16) + ucast (b :: u16) :: u32) = unat a + unat b"
    "unat (ucast (a :: u16) + ucast (b :: u16) + ucast (c :: u16) :: u32) = unat a + unat b + unat c"
    by (simp_all add: unat_plus_u32)
qed

lemma nsum_le: "nsum skip i ss \<le> 65535 * length ss"
proof (induction ss arbitrary: i)
  case (Cons s ss)
  have "unat (ntohs s) \<le> 65535" by simp
  with Cons.IH [of "Suc i"] show ?case by (simp add: add_mono)
qed simp

lemma unat_cksum_loop:
  "unat acc + nsum skip i ss < 2 ^ 32 \<Longrightarrow> unat (cksum_loop skip i ss acc) = unat acc + nsum skip i ss"
proof (induction ss arbitrary: i acc)
  case (Cons s ss)
  let ?t = "if skip i then acc else acc + ucast (ntohs s) :: u32"
  have "unat ?t = unat acc + (if skip i then 0 else unat (ntohs s))"
    using Cons.prems by (auto simp: unat_word_ariths unat_ucast_u16)
  with Cons.IH [of ?t "Suc i"] Cons.prems show ?case by simp
qed simp

text \<open>One step of carry folding on numbers, and what two steps and a complement give.\<close>

definition carry :: "nat \<Rightarrow> nat" where "carry n = n div 65536 + n mod 65536"

lemma carry_mod: "carry n mod 65535 = n mod 65535"
proof -
  have "n = 65535 * (n div 65536) + carry n"
    using div_mult_mod_eq [of n 65536] by (simp add: carry_def)
  then show ?thesis by (metis mod_mult_self4)
qed

lemma carry_zero: "carry n = 0 \<longleftrightarrow> n = 0"
  using div_mult_mod_eq [of n 65536] by (auto simp: carry_def)

lemma carry_bound: "n < 2 ^ 32 \<Longrightarrow> carry n \<le> 131070"
proof -
  assume "n < 2 ^ 32"
  then have "n div 65536 < 65536" by (simp add: div_less_iff_less_mult)
  moreover have "n mod 65536 < 65536" by simp
  ultimately show ?thesis unfolding carry_def by linarith
qed

lemma unat_carry: "unat (drop_bit 16 w + (w AND 0xFFFF) :: u32) = carry (unat w)"
proof -
  have "w AND 0xFFFF = take_bit 16 w"
    by (simp add: take_bit_eq_mask mask_eq_exp_minus_1)
  then have m: "unat (w AND 0xFFFF) = unat w mod 65536"
    by (simp add: unat_mod take_bit_eq_mod)
  have d: "unat (drop_bit 16 w) = unat w div 65536"
    by (simp add: unat_div drop_bit_eq_div)
  have "unat w < 2 ^ 32" using unsigned_less [of w] by simp
  then have "unat w div 65536 < 65536" by (simp add: div_less_iff_less_mult)
  moreover have "unat w mod 65536 < 65536" by simp
  ultimately have "unat w div 65536 + unat w mod 65536 < 2 ^ 32" by simp
  then show ?thesis by (simp add: unat_word_ariths m d carry_def)
qed

lemma carry_twice:
  assumes "n \<le> 131070"
  shows "(n + n div 65536) mod 65536 = carry n"
proof (cases "n < 65536")
  case True
  then show ?thesis by (simp add: carry_def)
next
  case False
  then have d: "n div 65536 = 1" and m: "n mod 65536 = n - 65536"
    using assms by (simp_all add: div_nat_eqI le_mod_geq)
  have "(n + 1) mod 65536 = n + 1 - 65536"
    using assms False by (simp add: le_mod_geq)
  then show ?thesis unfolding carry_def d m using False by linarith
qed

lemma unat_not_u16: "unat (NOT (x :: u16)) + unat x = 65535"
proof -
  have "NOT x = 65535 - x" by (simp add: not_eq_complement)
  moreover have "x \<le> 65535" by (simp add: word_le_nat_alt)
  ultimately show ?thesis by (simp add: unat_sub)
qed

lemma unat_fold_complement: "unat (fold_complement w) + carry (carry (unat w)) = 65535"
proof -
  let ?s1 = "drop_bit 16 w + (w AND 0xFFFF)"
  let ?s2 = "?s1 + drop_bit 16 ?s1"
  have c1: "unat ?s1 = carry (unat w)" by (rule unat_carry)
  have b: "carry (unat w) \<le> 131070"
    using carry_bound unsigned_less [of w] by simp
  have d: "unat (drop_bit 16 ?s1) = carry (unat w) div 65536"
    using c1 by (simp add: unat_div drop_bit_eq_div)
  have s2: "unat ?s2 = carry (unat w) + carry (unat w) div 65536"
    unfolding unat_word_ariths(1) [of ?s1] c1 d using b by simp
  have "?s2 AND 0xFFFF = take_bit 16 ?s2"
    by (simp add: take_bit_eq_mask mask_eq_exp_minus_1)
  then have "unat (ucast (?s2 AND 0xFFFF) :: u16) = unat ?s2 mod 65536"
    by (simp add: unsigned_ucast_eq unat_mod take_bit_eq_mod)
  also have "\<dots> = carry (carry (unat w))"
    unfolding s2 by (rule carry_twice [OF b])
  finally have u: "unat (ucast (?s2 AND 0xFFFF) :: u16) = carry (carry (unat w))" .
  from unat_not_u16 [of "ucast (?s2 AND 0xFFFF)"] show ?thesis
    by (simp add: fold_complement_def Let_def u)
qed

definition cfold :: "nat \<Rightarrow> nat" where "cfold n = carry (carry n)"

lemma cfold_facts:
  "cfold n mod 65535 = n mod 65535" "cfold n = 0 \<longleftrightarrow> n = 0"
  by (simp_all add: cfold_def carry_mod carry_zero)

lemma fold_complement_sum:
  "n < 2 ^ 32 \<Longrightarrow> unat w = n \<Longrightarrow> (n + unat (fold_complement w)) mod 65535 = 0
     \<and> n + unat (fold_complement w) \<noteq> 0"
proof -
  assume "unat w = n"
  then have f: "unat (fold_complement w) + cfold n = 65535"
    using unat_fold_complement [of w] by (simp add: cfold_def)
  have "(n + unat (fold_complement w)) mod 65535
      = (cfold n + unat (fold_complement w)) mod 65535"
    by (metis cfold_facts(1) mod_add_left_eq)
  also have "\<dots> = 0" using f by (simp add: add.commute)
  finally show ?thesis using f cfold_facts(2) [of n] by fastforce
qed

section \<open>Sums over concatenated words\<close>

lemma shorts_append: "even (length xs) \<Longrightarrow> shorts (xs @ ys) = shorts xs @ shorts ys"
  by (induction xs rule: shorts.induct) auto

lemma length_shorts: "length (shorts xs) = length xs div 2"
  by (induction xs rule: shorts.induct) auto

lemma nsum_append: "nsum skip i (xs @ ys) = nsum skip i xs + nsum skip (i + length xs) ys"
  by (induction xs arbitrary: i) auto

lemma nsum_cong: "(\<And>j. i \<le> j \<Longrightarrow> j < i + length xs \<Longrightarrow> skip j = skip' j) \<Longrightarrow>
   nsum skip i xs = nsum skip' i xs"
  by (induction xs arbitrary: i) auto

text \<open>
  Summing with index \<open>k\<close> skipped and then putting \<open>c\<close> into word \<open>k\<close>: the full sum afterwards.
\<close>

lemma nsum_skip_one:
  assumes "length xs = k"
  shows "nsum (\<lambda>_. False) 0 (xs @ c # ys) = nsum (\<lambda>i. i = k) 0 (xs @ d # ys) + unat (ntohs c)"
  using assms nsum_cong [of 0 xs "\<lambda>i. i = k" "\<lambda>_. False"] nsum_cong [of "Suc k" ys "\<lambda>i. i = k" "\<lambda>_. False"]
  by (simp add: nsum_append)

section \<open>The IP header checksum\<close>

definition ip_shorts :: "ip_hdr \<Rightarrow> u16 list" where
  "ip_shorts h = shorts (enc_ip_hdr h)"

lemma ip_shorts_split:
  "ip_shorts (h\<lparr>ip_sum := c\<rparr>) = take 5 (ip_shorts h) @ c # drop 6 (ip_shorts h)"
  by (simp add: ip_shorts_def enc_ip_hdr_def)

lemma length_ip_shorts [simp]: "length (ip_shorts h) = 10"
  by (simp add: ip_shorts_def enc_ip_hdr_def)

lemma compute_ip_checksum_header:
  assumes "ip_hl h = 5"
  shows "compute_ip_checksum (enc_ip_hdr h @ rest) = Some (fold_complement
     (cksum_loop (\<lambda>i. i = 5) 0 (ip_shorts (h\<lparr>ip_sum := 0\<rparr>)) 0), enc_ip_hdr (h\<lparr>ip_sum := 0\<rparr>) @ rest)"
proof -
  have z: "(enc_ip_hdr h @ rest)[10 := 0, 11 := 0] = enc_ip_hdr (h\<lparr>ip_sum := 0\<rparr>) @ rest"
    by (simp add: enc_ip_hdr_def byte_of_def)
  have "take 10 (shorts (enc_ip_hdr (h\<lparr>ip_sum := 0\<rparr>) @ rest)) = ip_shorts (h\<lparr>ip_sum := 0\<rparr>)"
    by (simp add: shorts_append ip_hdr.length_enc length_shorts ip_shorts_def)
  moreover have "lo_nibble ((enc_ip_hdr h @ rest) ! 0) = 5"
    using assms by (simp add: enc_ip_hdr_def)
  ultimately show ?thesis
    unfolding compute_ip_checksum_def by (simp add: z ip_hdr.length_enc Let_def)
qed

lemma all_ones_iff:
  assumes "(c :: nat) \<le> 100000"
  shows "c mod 65536 = 65535 \<longleftrightarrow> c \<noteq> 0 \<and> c mod 65535 = 0"
proof -
  from assms consider "c < 65535" | "c = 65535" | "65536 \<le> c" by linarith
  then show ?thesis
  proof cases
    case 1
    then show ?thesis by (cases "c = 0") simp_all
  next
    case 3
    then have "c mod 65536 = c - 65536" "c mod 65535 = c - 65535"
      using assms by (simp_all add: le_mod_geq)
    then show ?thesis using assms 3 by linarith
  qed simp
qed

lemma verify_checksum_header:
  "verify_checksum (enc_ip_hdr h @ rest) 20 = Some (if nsum (\<lambda>_. False) 0 (ip_shorts h) \<noteq> 0
     \<and> nsum (\<lambda>_. False) 0 (ip_shorts h) mod 65535 = 0 then 0 else 1)"
proof -
  let ?n = "nsum (\<lambda>_. False) 0 (ip_shorts h)"
  let ?w = "cksum_loop (\<lambda>_. False) 0 (ip_shorts h) 0"
  have b: "?n \<le> 655350" using nsum_le [of "\<lambda>_. False" 0 "ip_shorts h"] by simp
  then have w: "unat ?w = ?n" using unat_cksum_loop [of 0 "\<lambda>_. False" 0 "ip_shorts h"] by simp
  have c: "unat (drop_bit 16 ?w + (?w AND 0xFFFF)) = carry ?n"
    using unat_carry [of ?w] w by simp
  have d: "?n div 65536 \<le> 9" using b by (simp add: div_le_mono [of _ 655350 65536, simplified])
  have m: "?n mod 65536 < 65536" by simp
  have "(ucast (drop_bit 16 ?w + (?w AND 0xFFFF)) :: u16) = 0xFFFF \<longleftrightarrow> carry ?n mod 65536 = 65535"
    by (simp only: word_unat_eq_iff unsigned_ucast_eq c take_bit_eq_mod) simp
  also have "\<dots> \<longleftrightarrow> ?n \<noteq> 0 \<and> ?n mod 65535 = 0"
  proof -
    have "carry ?n \<le> 100000" unfolding carry_def using d m by linarith
    then show ?thesis by (simp only: all_ones_iff carry_mod carry_zero)
  qed
  finally show ?thesis
    by (simp add: verify_checksum_def ip_hdr.length_enc shorts_append length_shorts Let_def
        flip: ip_shorts_def)
qed

lemma get_ip_hdr_split: "get_ip_hdr p = Some h \<Longrightarrow> drop 14 p = enc_ip_hdr h @ drop 34 p"
proof -
  assume "get_ip_hdr p = Some h"
  then have "put_ip_hdr h p = Some p"
    using ip_hdr.store_load by (simp add: get_ip_hdr_def put_ip_hdr_def layout_defs)
  then show ?thesis
    using put_ip_hdr_laws(8) [of h p p] append_take_drop_id [of 20 "drop 14 p"] by simp
qed

lemma put_ip_hdr_split: "put_ip_hdr h p = Some q \<Longrightarrow> drop 14 q = enc_ip_hdr h @ drop 34 p"
  using put_ip_hdr_laws(7,8) [of h p q] append_take_drop_id [of 20 "drop 14 q"] by simp

lemma set_ip_checksum_verified:
  assumes "get_ip_hdr p = Some h" "ip_hl h = 5" "set_ip_checksum p = Some q"
  shows "verify_checksum (drop 14 q) 20 = Some 0"
proof -
  let ?c = "htons (fold_complement (cksum_loop (\<lambda>i. i = 5) 0 (ip_shorts (h\<lparr>ip_sum := 0\<rparr>)) 0))"
  have p: "drop 14 p = enc_ip_hdr h @ drop 34 p"
    using assms(1) by (rule get_ip_hdr_split)
  from assms have "put_ip_hdr (h\<lparr>ip_sum := ?c\<rparr>) p = Some q"
    by (simp add: set_ip_checksum_def p compute_ip_checksum_header)
  then have q: "drop 14 q = enc_ip_hdr (h\<lparr>ip_sum := ?c\<rparr>) @ drop 34 p"
    by (rule put_ip_hdr_split)
  let ?N = "nsum (\<lambda>i. i = 5) 0 (ip_shorts (h\<lparr>ip_sum := 0\<rparr>))"
  have "?N \<le> 655350" using nsum_le [of _ 0 "ip_shorts (h\<lparr>ip_sum := 0\<rparr>)"] by simp
  moreover have "nsum (\<lambda>_. False) 0 (ip_shorts (h\<lparr>ip_sum := ?c\<rparr>)) = ?N + unat (ntohs ?c)"
    unfolding ip_shorts_split by (rule nsum_skip_one) simp
  ultimately show ?thesis
    unfolding q verify_checksum_header
    using fold_complement_sum [of ?N] unat_cksum_loop [of 0 "\<lambda>i. i = 5" 0 "ip_shorts (h\<lparr>ip_sum := 0\<rparr>)"]
    by simp
qed

text \<open>A router that has just rewritten the checksum of an IP header without options
  accepts the header: \<open>verify_checksum\<close> over the 20 header bytes returns 0 after
  \<open>set_ip_checksum\<close>, for every content of the other fields.\<close>

theorem set_ip_checksum_verifies:
  assumes "get_ip_hdr p = Some h" "ip_hl h = 5" "set_ip_checksum p = Some q"
  shows "verify_checksum (drop 14 q) 20 = Some 0"
  using assms by (rule set_ip_checksum_verified)

definition sample_packet :: packet where
  "sample_packet = replicate 12 0 @ [8, 0, 0x45, 0, 0, 46, 0, 1, 0, 0, 64, 17, 0, 0,
     10, 0, 0, 1, 10, 0, 0, 2] @ replicate 26 0"

theorem set_ip_checksum_verifies_witness:
  "verify_checksum (drop 14 (the (set_ip_checksum sample_packet))) 20 = Some 0"
proof (rule set_ip_checksum_verifies)
  show "get_ip_hdr sample_packet = Some (the (get_ip_hdr sample_packet))"
    by (simp add: sample_packet_def hdr_access_defs load_def)
  show "ip_hl (the (get_ip_hdr sample_packet)) = 5"
    by (simp add: sample_packet_def hdr_access_defs load_def dec_ip_hdr_def lo_nibble_def)
  show "set_ip_checksum sample_packet = Some (the (set_ip_checksum sample_packet))"
    by (simp add: sample_packet_def set_ip_checksum_def compute_ip_checksum_def hdr_access_defs
        load_def store_def lo_nibble_def)
qed

section \<open>The ICMP checksum\<close>

text \<open>The one's complement sum of the words of a message is zero (and not all words are zero).\<close>

definition ones_sum_ok :: "u8 list \<Rightarrow> bool" where
  "ones_sum_ok m \<longleftrightarrow> nsum (\<lambda>_. False) 0 (shorts m) \<noteq> 0 \<and> nsum (\<lambda>_. False) 0 (shorts m) mod 65535 = 0"

lemma shorts_icmp: "shorts (enc_icmp_hdr i @ payload)
    = [le16 (icmp_type i) (icmp_code i)] @ icmp_sum i # shorts payload"
  by (simp add: enc_icmp_hdr_def)

lemma nat_four_plus [simp]: "nat (4 + int n) = 4 + n"
  by simp

lemma icmp_checksum_ok:
  assumes "even (length payload)" "length payload \<le> 65535"
    "compute_icmp_checksum (enc_icmp_hdr i @ payload) (int (length payload)) = Some (c, m)"
  shows "ones_sum_ok (enc_icmp_hdr (i\<lparr>icmp_sum := htons c\<rparr>) @ payload)"
proof -
  let ?i0 = "i\<lparr>icmp_sum := 0\<rparr>"
  have z: "(enc_icmp_hdr i @ payload)[2 := 0, 3 := 0] = enc_icmp_hdr ?i0 @ payload"
    by (simp add: enc_icmp_hdr_def byte_of_def)
  let ?ss = "shorts (enc_icmp_hdr ?i0 @ payload)"
  have len: "length ?ss = (4 + length payload) div 2"
    by (simp add: length_shorts icmp_hdr.length_enc)
  then have c: "c = fold_complement (cksum_loop (\<lambda>i. i = 1) 0 ?ss 0)"
    using assms(3) unfolding compute_icmp_checksum_def z
    by (auto simp: Let_def icmp_hdr.length_enc z split: if_splits)
  let ?N = "nsum (\<lambda>i. i = 1) 0 ?ss"
  have "?N \<le> 65535 * ((4 + length payload) div 2)" using nsum_le [of _ 0 ?ss] len by metis
  also have "\<dots> \<le> 65535 * 32769" using assms(2) by (intro mult_le_mono) auto
  finally have b: "?N < 2 ^ 32" by simp
  have u: "unat (cksum_loop (\<lambda>i. i = 1) 0 ?ss 0) = ?N"
    using unat_cksum_loop [of 0 "\<lambda>i. i = 1" 0 ?ss] b by simp
  have "nsum (\<lambda>_. False) 0 (shorts (enc_icmp_hdr (i\<lparr>icmp_sum := htons c\<rparr>) @ payload)) = ?N + unat (ntohs (htons c))"
    using nsum_skip_one [of "[le16 (icmp_type i) (icmp_code i)]" 1 "htons c" "shorts payload" 0]
    by (simp add: shorts_icmp)
  with fold_complement_sum [OF b u] show ?thesis unfolding ones_sum_ok_def c by simp
qed

section \<open>The incremental NAT checksum\<close>

text \<open>Congruence modulo 65535, on integers.\<close>

definition eq_ones :: "int \<Rightarrow> int \<Rightarrow> bool" where
  "eq_ones a b \<longleftrightarrow> (\<exists>k. a = b + 65535 * k)"

lemma eq_ones_refl [simp]: "eq_ones a a"
  unfolding eq_ones_def by (rule exI [of _ 0]) simp

lemma eq_ones_sym: "eq_ones a b \<Longrightarrow> eq_ones b a"
  unfolding eq_ones_def by (metis add_uminus_conv_diff add_diff_cancel mult_minus_right)

lemma eq_ones_trans: "eq_ones a b \<Longrightarrow> eq_ones b c \<Longrightarrow> eq_ones a c"
  unfolding eq_ones_def by (metis add.assoc distrib_left)

lemma eq_ones_add: "eq_ones a b \<Longrightarrow> eq_ones c d \<Longrightarrow> eq_ones (a + c) (b + d)"
  unfolding eq_ones_def
proof (elim exE)
  fix k l
  assume "a = b + 65535 * k" "c = d + 65535 * l"
  then have "a + c = b + d + 65535 * (k + l)" by simp
  then show "\<exists>k. a + c = b + d + 65535 * k" by (rule exI)
qed

lemma eq_ones_mult: "eq_ones a b \<Longrightarrow> eq_ones (c * a) (c * b)"
  unfolding eq_ones_def
proof (elim exE)
  fix k assume "a = b + 65535 * k"
  then have "c * a = c * b + 65535 * (c * k)" by (simp add: algebra_simps)
  then show "\<exists>k. c * a = c * b + 65535 * k" by (rule exI)
qed

lemma eq_ones_mod: "a mod 65535 = b mod (65535 :: nat) \<Longrightarrow> eq_ones (int a) (int b)"
proof -
  assume h: "a mod 65535 = b mod 65535"
  have "int a = 65535 * int (a div 65535) + int (a mod 65535)"
    "int b = 65535 * int (b div 65535) + int (b mod 65535)"
    by (metis mult_div_mod_eq of_nat_add of_nat_mult of_nat_numeral)+
  with h have "int a = int b + 65535 * (int (a div 65535) - int (b div 65535))"
    by simp
  then show ?thesis unfolding eq_ones_def by (rule exI)
qed

lemma unat_le16: "unat (le16 a b) = unat a + 256 * unat b"
proof -
  have l: "unat a < 256" "unat b < 256"
    using unsigned_less [of a, where ?'a = nat] unsigned_less [of b, where ?'a = nat] by simp_all
  have "(ucast a :: u16) AND push_bit 8 (ucast b) = 0"
    by (rule bit_word_eqI) (auto simp: bit_simps dest: bit_imp_le_length)
  then have "le16 a b = ucast a + push_bit 8 (ucast b)"
    unfolding le16_def by (simp add: disjunctive_add_eq_or)
  also have "push_bit 8 (ucast b) = (of_nat (256 * unat b) :: u16)"
    by (simp add: push_bit_eq_mult)
  also have "ucast a = (of_nat (unat a) :: u16)" by simp
  finally have "le16 a b = of_nat (unat a + 256 * unat b)" by simp
  moreover have "unat a + 256 * unat b < 65536" using l by linarith
  ultimately show ?thesis by (simp add: unat_of_nat take_bit_nat_eq_self del: of_nat_add of_nat_mult)
qed

lemma unat_byte_of_u16:
  "unat (byte_of 0 (x :: u16)) = unat x mod 256" "unat (byte_of 1 (x :: u16)) = unat x div 256"
proof -
  show "unat (byte_of 0 x) = unat x mod 256"
    by (simp add: byte_of_def unsigned_ucast_eq take_bit_eq_mod)
  have "unat x div 256 < 256" using unat_u16_le [of x] by linarith
  then show "unat (byte_of 1 x) = unat x div 256"
    by (simp add: byte_of_def unsigned_ucast_eq take_bit_eq_mod drop_bit_eq_div unat_div)
qed

lemma unat_ntohs: "unat (ntohs x) = 256 * (unat x mod 256) + unat x div 256"
  unfolding ntohs_def unat_le16 unat_byte_of_u16 by simp

text \<open>Swapping the bytes of a word is a multiplication by 256 modulo 65535, which is why the
  checksums can be added in network byte order.\<close>

lemma ntohs_ones: "eq_ones (int (unat (ntohs x))) (256 * int (unat x))"
proof -
  have "int (unat (ntohs x)) = 256 * int (unat x) + 65535 * - int (unat x div 256)"
    using unat_ntohs [of x] div_mult_mod_eq [of "unat x" 256] by linarith
  then show ?thesis unfolding eq_ones_def by (rule exI)
qed

lemma unat_low16: "unat (ucast (w AND 0xFFFF :: u32) :: u16) = unat w mod 65536"
proof -
  have "w AND 0xFFFF = take_bit 16 w" by (simp add: take_bit_eq_mask mask_eq_exp_minus_1)
  then show ?thesis by (simp add: unsigned_ucast_eq unat_mod take_bit_eq_mod)
qed

lemma nat_checksum_ones:
  "eq_ones (int (unat (nat_checksum old pos neg))) (int (unat old) + int (unat pos) - int (unat neg))"
proof -
  define w0 :: u32 where "w0 = ucast old + ucast pos"
  define w1 where "w1 = drop_bit 16 w0 + (w0 AND 0xFFFF)"
  define w2 where "w2 = w1 - ucast neg"
  have o: "unat old \<le> 65535" and p: "unat pos \<le> 65535" and g: "unat neg \<le> 65535" by simp_all
  have w0: "unat w0 = unat old + unat pos"
    by (simp add: w0_def unat_sum_u16)
  have w1: "unat w1 = carry (unat old + unat pos)"
    unfolding w1_def unat_carry w0 ..
  have c: "carry (unat old + unat pos) \<le> 65535"
  proof (cases "unat old + unat pos < 65536")
    case True then show ?thesis by (simp add: carry_def)
  next
    case False
    have "unat old + unat pos \<le> 131070" using o p by linarith
    with False carry_twice [of "unat old + unat pos"] have "carry (unat old + unat pos) < 65536"
      by (metis mod_less_divisor zero_less_numeral)
    then show ?thesis by simp
  qed
  have r: "eq_ones (int (unat w1)) (int (unat old) + int (unat pos))"
    unfolding w1 using eq_ones_mod [OF carry_mod [of "unat old + unat pos"]] by simp
  show ?thesis
  proof (cases "unat neg \<le> unat w1")
    case True
    then have "ucast neg \<le> w1" by (simp add: word_le_nat_alt)
    then have w2: "unat w2 = unat w1 - unat neg" unfolding w2_def by (simp add: unat_sub)
    then have le: "\<not> w2 > 0xFFFF" using c w1 by (simp add: word_less_nat_alt)
    have "unat (nat_checksum old pos neg) = unat w1 - unat neg"
      using le w2 c w1 by (simp add: nat_checksum_def Let_def unat_low16 flip: w0_def w1_def w2_def)
    then have "int (unat (nat_checksum old pos neg)) = int (unat w1) + - int (unat neg)"
      using True by simp
    then show ?thesis using eq_ones_add [OF r eq_ones_refl [of "- int (unat neg)"]] by simp
  next
    case False
    then have lt: "\<not> ucast neg \<le> w1" by (simp add: word_le_nat_alt)
    have w2: "unat w2 = unat w1 + 2 ^ 32 - unat neg"
      using False unat_sub_if_size [of w1 "ucast neg"] by (simp add: w2_def word_size)
    have "65535 < unat w1 + 4294967296 - unat neg" using g by linarith
    with w2 have gt: "w2 > 0xFFFF" by (simp add: word_less_nat_alt)
    then have "1 \<le> w2" by (simp add: word_le_nat_alt word_less_nat_alt)
    then have w3: "unat (w2 - 1) = unat w1 + 2 ^ 32 - unat neg - 1" by (simp add: unat_sub w2)
    have "unat (nat_checksum old pos neg) = (unat w1 + 2 ^ 32 - unat neg - 1) mod 65536"
      using gt w3 by (simp add: nat_checksum_def Let_def unat_low16 flip: w0_def w1_def w2_def)
    also have "unat w1 + 2 ^ 32 - unat neg - 1 = unat w1 + 65536 - unat neg - 1 + 65536 * 65535"
    proof -
      have e: "(2 :: nat) ^ 32 = 4294967296" "(65536 :: nat) * 65535 = 4294901760" by simp_all
      show ?thesis unfolding e using g by linarith
    qed
    also have "\<dots> mod 65536 = unat w1 + 65535 - unat neg"
      unfolding mod_mult_self2 using False g by (subst mod_less) linarith+
    finally have "int (unat (nat_checksum old pos neg)) = int (unat w1) + (- int (unat neg) + 65535 * 1)"
      using False g by linarith
    moreover have "eq_ones (- int (unat neg) + 65535 * 1) (- int (unat neg))"
      unfolding eq_ones_def by (rule exI [of _ 1]) simp
    ultimately show ?thesis using eq_ones_add [OF r, of "- int (unat neg) + 65535 * 1" "- int (unat neg)"] by simp
  qed
qed

text \<open>The sum of the words of an address and a port as they stand in a packet.\<close>

definition pair_sum :: "nat_ip_port_pair \<Rightarrow> int" where
  "pair_sum pair = int (unat (ucast (nip_ip pair) :: u16))
     + int (unat (ucast (drop_bit 16 (nip_ip pair)) :: u16)) + int (unat (nip_port pair))"

lemma nip_checksum_ones: "eq_ones (int (unat (nip_checksum (compute_nat_checksums pair))) + pair_sum pair) 0"
proof -
  let ?a = "ucast (nip_ip pair) :: u16" and ?b = "ucast (drop_bit 16 (nip_ip pair)) :: u16"
  let ?c = "nip_port pair"
  let ?w = "ucast (ntohs ?a) + ucast (ntohs ?b) + ucast (ntohs ?c) :: u32"
  have le: "unat (ntohs x) \<le> 65535" for x by simp
  have w: "unat ?w = unat (ntohs ?a) + unat (ntohs ?b) + unat (ntohs ?c)" by (rule unat_sum_u16)
  let ?f = "fold_complement ?w"
  have f: "eq_ones (int (unat ?f) + (int (unat (ntohs ?a)) + int (unat (ntohs ?b)) + int (unat (ntohs ?c)))) 0"
  proof -
    have "unat ?w < 2 ^ 32" using unsigned_less [of ?w, where ?'a = nat] by simp
    then have "(unat ?w + unat ?f) mod 65535 = 0 mod 65535"
      using fold_complement_sum [of "unat ?w" ?w] by simp
    from eq_ones_mod [OF this] show ?thesis unfolding w by (simp only: of_nat_add add.commute semiring_1_class.of_nat_0)
  qed
  have x: "eq_ones (int (unat x)) (256 * int (unat (ntohs x)))" for x
    using ntohs_ones [of "ntohs x"] by simp
  have "eq_ones (int (unat (ntohs ?f)) + (int (unat ?a) + int (unat ?b) + int (unat ?c)))
     (256 * int (unat ?f) + (256 * int (unat (ntohs ?a)) + 256 * int (unat (ntohs ?b)) + 256 * int (unat (ntohs ?c))))"
    by (intro eq_ones_add ntohs_ones x)
  also have "256 * int (unat ?f) + (256 * int (unat (ntohs ?a)) + 256 * int (unat (ntohs ?b)) + 256 * int (unat (ntohs ?c)))
     = 256 * (int (unat ?f) + (int (unat (ntohs ?a)) + int (unat (ntohs ?b)) + int (unat (ntohs ?c))))"
    by simp
  finally have "eq_ones (int (unat (ntohs ?f)) + (int (unat ?a) + int (unat ?b) + int (unat ?c)))
     (256 * (int (unat ?f) + (int (unat (ntohs ?a)) + int (unat (ntohs ?b)) + int (unat (ntohs ?c)))))" .
  from eq_ones_trans [OF this] eq_ones_mult [OF f, of 256] show ?thesis
    by (simp add: compute_nat_checksums_def Let_def pair_sum_def htons_ntohs_same)
qed

lemma nat_rewrite_sum:
  assumes "eq_ones (int (unat csum) + pair_sum old + rest) 0"
  shows "eq_ones (int (unat (nat_checksum csum (nip_checksum (compute_nat_checksums new))
           (nip_checksum (compute_nat_checksums old)))) + pair_sum new + rest) 0"
proof -
  let ?n = "int (unat (nip_checksum (compute_nat_checksums new)))"
  let ?o = "int (unat (nip_checksum (compute_nat_checksums old)))"
  obtain i j k l where "int (unat csum) + pair_sum old + rest = 0 + 65535 * i"
    "?n + pair_sum new = 0 + 65535 * j" "?o + pair_sum old = 0 + 65535 * k"
    "int (unat (nat_checksum csum (nip_checksum (compute_nat_checksums new))
           (nip_checksum (compute_nat_checksums old)))) = int (unat csum) + ?n - ?o + 65535 * l"
    using assms nip_checksum_ones [of new] nip_checksum_ones [of old] nat_checksum_ones
    unfolding eq_ones_def by metis
  then have "int (unat (nat_checksum csum (nip_checksum (compute_nat_checksums new))
           (nip_checksum (compute_nat_checksums old)))) + pair_sum new + rest = 0 + 65535 * (i + j - k + l)"
    by simp
  then show ?thesis unfolding eq_ones_def by (rule exI)
qed

text \<open>When a translator replaces the address and port pair \<open>old\<close> of a packet by \<open>new\<close> and
  updates the TCP or UDP checksum with \<open>nat_checksum\<close> and the sums cached in the entry, a
  checksum that was right before (the one's complement sum of checksum, pair and rest of the
  packet is zero) is right afterwards, whatever the rest of the packet adds up to.\<close>

theorem nat_rewrite_keeps_checksum:
  assumes "eq_ones (int (unat csum) + pair_sum old + rest) 0"
  shows "eq_ones (int (unat (nat_checksum csum (nip_checksum (compute_nat_checksums new))
           (nip_checksum (compute_nat_checksums old)))) + pair_sum new + rest) 0"
  using assms by (rule nat_rewrite_sum)

theorem nat_rewrite_keeps_checksum_witness:
  "\<exists>csum old. eq_ones (int (unat (csum :: u16)) + pair_sum old + 0) 0 \<and> nip_ip old = 3 \<and>
     eq_ones (int (unat (nat_checksum csum
       (nip_checksum (compute_nat_checksums (old\<lparr>nip_ip := 5, nip_port := 9\<rparr>)))
       (nip_checksum (compute_nat_checksums old)))) + pair_sum (old\<lparr>nip_ip := 5, nip_port := 9\<rparr>) + 0) 0"
proof -
  let ?old = "\<lparr>nip_ip = 3, nip_port = 4, nip_checksum = 0, nip_checksum_ip = 0, nip_checksum_port = 0\<rparr>"
  have c: "eq_ones (int (unat (65528 :: u16)) + pair_sum ?old + 0) 0"
    unfolding eq_ones_def by (rule exI [of _ 1]) (simp add: pair_sum_def)
  from nat_rewrite_keeps_checksum [OF c, of "?old\<lparr>nip_ip := 5, nip_port := 9\<rparr>"] c
  show ?thesis by (intro exI [of _ 65528] exI [of _ ?old]) simp
qed

end
