(* ===== verification/Router_State.thy ===== *)
theory Router_State
  imports Packets Checksum Double
begin

text \<open>
  The state of the router, \<open>struct router_state\<close> of or_data_types.h, with the entry types of its
  lists, the pthread locks it holds, and the NetFPGA registers.

  The linked lists of the C code appear as HOL lists: theory Node_List proves that the list
  primitives of or_utils.c implement them. A list entry that is changed through a pointer to it is
  changed at its position in the list.

  Interfaces to the outside are fields: the clock that \<open>time\<close> reads, the numbers that \<open>rand\<close>
  returns, the registers of the card, and a log of the effects in the order they happen (frames
  written to the card, packets given to the transport stack, bytes sent to a CLI socket, condition
  variables signalled).
\<close>

section \<open>List entries\<close>

record rtable_entry =
  rt_ip :: u32
  rt_gw :: u32
  rt_mask :: u32
  rt_iface :: string
  rt_is_static :: bool
  rt_is_active :: bool

record ctable_entry =
  ct_content :: u32
  ct_ver_num :: u16
  ct_nexthop :: u32
  ct_iface :: string
  ct_is_static :: bool
  ct_is_active :: bool

definition MAX_CTABLE_DEPTH :: nat where "MAX_CTABLE_DEPTH = 32"

definition IF_LEN :: nat where "IF_LEN = 32"

record arp_cache_entry =
  ac_ip :: u32
  ac_arp_ha :: mac
  ac_TTL :: int
  ac_is_static :: bool

record arp_queue_entry =
  aq_out_iface_name :: string
  aq_next_hop :: u32
  aq_requests :: nat
  aq_last_req_time :: int
  aq_head :: "packet list"

record sping_queue_entry =
  sq_packet :: packet
  sq_arrival_time :: int

record cli_request =
  cr_sockfd :: int
  cr_command :: string

record nbr_router =
  nbr_router_id :: u32
  nbr_ip :: u32
  nbr_last_rcvd_hello :: int

record iface_entry =
  if_name :: string
  if_addr :: mac
  if_ip :: u32
  if_mask :: u32
  if_speed :: u32
  if_is_active :: bool
  if_last_sent_hello :: int
  if_nbr_routers :: "nbr_router list"
  if_is_wan :: bool

record pwospf_interface =
  pi_subnet :: u32
  pi_mask :: u32
  pi_router_id :: u32
  pi_is_active :: bool

text \<open>The pointer \<open>prev_router\<close> is modelled by the id of the router it points to.\<close>

record pwospf_router =
  pr_router_id :: u32
  pr_area_id :: u32
  pr_seq :: u16
  pr_last_update :: int
  pr_distance :: u32
  pr_shortest_path_found :: bool
  pr_interface_list :: "pwospf_interface list"
  pr_prev_router :: "u32 option"

record pwospf_lsu_queue_entry =
  lq_ip :: u32
  lq_iface :: string
  lq_packet :: packet

record nat_entry =
  nat_ext :: nat_ip_port_pair
  nat_int :: nat_ip_port_pair
  nat_last_hits :: u32
  nat_last_hits_time :: int
  nat_hits :: u32
  nat_avg_hits_per_second :: double
  nat_hw_row :: u8
  nat_is_static :: bool

definition LOCAL_IP_FILTER_ENTRY_NAME_LEN :: nat where "LOCAL_IP_FILTER_ENTRY_NAME_LEN = 32"

record local_ip_filter_entry =
  lf_ip :: u32
  lf_name :: string

section \<open>The registers of the card\<close>

text \<open>
  The tables of the output port lookup are written row by row: the fields of an entry are put into
  its registers and a write of the row number to the \<open>WR_ADDR\<close> register stores them in that row; a
  write to the \<open>RD_ADDR\<close> register loads them from it. A register that has not been written since
  the previous row keeps its value. Each table has 32 rows.
\<close>

datatype hw_table = ROUTE_TABLE | CCCP_TABLE | ARP_TABLE | DST_IP_FILTER_TABLE

datatype hw_reg =
    ROUTE_TABLE_ENTRY_IP_REG | ROUTE_TABLE_ENTRY_MASK_REG | ROUTE_TABLE_ENTRY_NEXT_HOP_IP_REG
  | ROUTE_TABLE_ENTRY_OUTPUT_PORT_REG
  | CCCP_TABLE_ENTRY_NAME_REG | CCCP_TABLE_ENTRY_VN_REG | CCCP_TABLE_ENTRY_NEXT_HOP_IP_REG
  | CCCP_TABLE_ENTRY_OUTPUT_PORT_REG
  | ARP_TABLE_ENTRY_MAC_HI_REG | ARP_TABLE_ENTRY_MAC_LO_REG | ARP_TABLE_ENTRY_NEXT_HOP_IP_REG
  | DST_IP_FILTER_TABLE_ENTRY_IP_REG
  | RD_ADDR_REG hw_table | WR_ADDR_REG hw_table
  | ROUTER_OP_LUT_MAC_HI_REG nat | ROUTER_OP_LUT_MAC_LO_REG nat
  | ROUTER_OP_LUT_ARP_NUM_MISSES_REG | ROUTER_OP_LUT_NUM_PKTS_FORWARDED_REG
  | ROUTER_OP_LUT_NAT_WAN_INTERFACE
  | MAC_GRP_CONTROL_REG nat
  | MAC_GRP_RX_QUEUE_NUM_PKTS_STORED_REG nat | MAC_GRP_TX_QUEUE_NUM_PKTS_SENT_REG nat
  | MAC_GRP_RX_QUEUE_NUM_BYTES_PUSHED_REG nat | MAC_GRP_TX_QUEUE_NUM_BYTES_PUSHED_REG nat
  | MAC_GRP_RX_QUEUE_NUM_PKTS_DROPPED_FULL_REG nat | MAC_GRP_RX_QUEUE_NUM_PKTS_DROPPED_BAD_REG nat
  | OQ_QUEUE_NUM_PKTS_DROPPED_REG nat | OQ_QUEUE_CTRL_REG nat | OQ_QUEUE_ADDR_LO_REG nat
  | OQ_QUEUE_ADDR_HI_REG nat | OQ_QUEUE_MAX_PKTS_IN_Q_REG nat
  | CPCI_REG_CTRL

fun entry_regs :: "hw_table \<Rightarrow> hw_reg list" where
  "entry_regs ROUTE_TABLE = [ROUTE_TABLE_ENTRY_IP_REG, ROUTE_TABLE_ENTRY_MASK_REG,
     ROUTE_TABLE_ENTRY_NEXT_HOP_IP_REG, ROUTE_TABLE_ENTRY_OUTPUT_PORT_REG]"
| "entry_regs CCCP_TABLE = [CCCP_TABLE_ENTRY_NAME_REG, CCCP_TABLE_ENTRY_VN_REG,
     CCCP_TABLE_ENTRY_NEXT_HOP_IP_REG, CCCP_TABLE_ENTRY_OUTPUT_PORT_REG]"
| "entry_regs ARP_TABLE = [ARP_TABLE_ENTRY_MAC_HI_REG, ARP_TABLE_ENTRY_MAC_LO_REG,
     ARP_TABLE_ENTRY_NEXT_HOP_IP_REG]"
| "entry_regs DST_IP_FILTER_TABLE = [DST_IP_FILTER_TABLE_ENTRY_IP_REG]"

definition TABLE_DEPTH :: nat where "TABLE_DEPTH = 32"

record hw_state =
  hw_regs :: "hw_reg \<Rightarrow> u32"
  hw_rows :: "hw_table \<Rightarrow> nat \<Rightarrow> u32 list"

fun set_regs :: "hw_reg list \<Rightarrow> u32 list \<Rightarrow> (hw_reg \<Rightarrow> u32) \<Rightarrow> hw_reg \<Rightarrow> u32" where
  "set_regs (r # rs) (v # vs) f = set_regs rs vs (f(r := v))"
| "set_regs _ _ f = f"

fun writeReg :: "hw_reg \<Rightarrow> u32 \<Rightarrow> hw_state \<Rightarrow> hw_state" where
  "writeReg (WR_ADDR_REG t) v h =
     h\<lparr>hw_regs := (hw_regs h)(WR_ADDR_REG t := v),
       hw_rows := (hw_rows h)(t := (hw_rows h t)(unat v mod TABLE_DEPTH := map (hw_regs h) (entry_regs t)))\<rparr>"
| "writeReg (RD_ADDR_REG t) v h =
     h\<lparr>hw_regs := set_regs (entry_regs t) (hw_rows h t (unat v mod TABLE_DEPTH))
       ((hw_regs h)(RD_ADDR_REG t := v))\<rparr>"
| "writeReg r v h = h\<lparr>hw_regs := (hw_regs h)(r := v)\<rparr>"

definition readReg :: "hw_reg \<Rightarrow> hw_state \<Rightarrow> u32" where
  "readReg r h = hw_regs h r"

fun writeRegs :: "(hw_reg \<times> u32) list \<Rightarrow> hw_state \<Rightarrow> hw_state" where
  "writeRegs [] h = h"
| "writeRegs ((r, v) # ws) h = writeRegs ws (writeReg r v h)"

section \<open>Locks\<close>

text \<open>
  The locks as the running thread sees them: free, held for reading a number of times, or held for
  writing (a mutex is held for writing). Taking a mutex that the thread already holds never
  returns; a read-write lock that the thread holds for writing makes \<open>rdlock\<close> and \<open>wrlock\<close>
  return EDEADLK, which the code reports with \<open>perror\<close> before it goes on; asking for the write
  lock while holding it for reading never returns; releasing a lock that is not held is undefined.
\<close>

datatype lock = L_write | L_rtable | L_ctable | L_arp_cache | L_if_list | L_arp_queue
  | L_cli_commands | L_sping | L_pwospf_router_list | L_pwospf_lsu_queue | L_nat_table | L_dijkstra
  | L_lsu_bcast | L_stats | L_local_ip_filter_list | L_log_dumper

datatype lock_state = Free | Reading nat | Writing

datatype condition = C_sping | C_nat_table | C_dijkstra | C_lsu_bcast

datatype event = Tx packet string | Transport_input packet | Socket int string | Signal condition

section \<open>The router\<close>

record router_state =
  router_id :: u32
  area_id :: u32
  pwospf_hello_interval :: u16
  pwospf_lsu_interval :: u32
  pwospf_lsu_broadcast :: u32
  dijkstra_dirty :: u32
  is_netfpga :: bool
  arp_ttl :: u32
  nat_timeout :: u32
  netfpga :: hw_state
  rtable :: "rtable_entry list"
  ctable :: "ctable_entry list"
  arp_cache :: "arp_cache_entry list"
  if_list :: "iface_entry list"
  arp_queue :: "arp_queue_entry list"
  sping_queue :: "sping_queue_entry list"
  pwospf_router_list :: "pwospf_router list"
  pwospf_lsu_queue :: "pwospf_lsu_queue_entry list"
  nat_table :: "nat_entry list"
  local_ip_filter_list :: "local_ip_filter_entry list"
  locks :: "lock \<Rightarrow> lock_state"
  clock :: int
  rand_seq :: "nat \<Rightarrow> u32"
  rand_pos :: nat
  events :: "event list"

definition emit :: "event \<Rightarrow> router_state \<Rightarrow> router_state" where
  "emit e rs = rs\<lparr>events := events rs @ [e]\<rparr>"

definition set_lock :: "lock \<Rightarrow> lock_state \<Rightarrow> router_state \<Rightarrow> router_state" where
  "set_lock l s rs = rs\<lparr>locks := (locks rs)(l := s)\<rparr>"

definition send_to_socket :: "int \<Rightarrow> string \<Rightarrow> router_state \<Rightarrow> router_state" where
  "send_to_socket fd msg rs = emit (Socket fd msg) rs"

definition rand :: "router_state \<Rightarrow> u32 \<times> router_state" where
  "rand rs = (rand_seq rs (rand_pos rs), rs\<lparr>rand_pos := Suc (rand_pos rs)\<rparr>)"

definition pthread_mutex_lock :: "lock \<Rightarrow> router_state \<Rightarrow> router_state option" where
  "pthread_mutex_lock l rs = (if locks rs l = Free then Some (set_lock l Writing rs) else None)"

definition pthread_mutex_unlock :: "lock \<Rightarrow> router_state \<Rightarrow> router_state option" where
  "pthread_mutex_unlock l rs = (if locks rs l = Writing then Some (set_lock l Free rs) else None)"

definition pthread_rwlock_rdlock :: "lock \<Rightarrow> router_state \<Rightarrow> router_state option" where
  "pthread_rwlock_rdlock l rs = (case locks rs l of Free \<Rightarrow> Some (set_lock l (Reading 0) rs)
     | Reading n \<Rightarrow> Some (set_lock l (Reading (Suc n)) rs) | Writing \<Rightarrow> Some rs)"

definition pthread_rwlock_wrlock :: "lock \<Rightarrow> router_state \<Rightarrow> router_state option" where
  "pthread_rwlock_wrlock l rs = (case locks rs l of Free \<Rightarrow> Some (set_lock l Writing rs)
     | Reading n \<Rightarrow> None | Writing \<Rightarrow> Some rs)"

definition pthread_rwlock_unlock :: "lock \<Rightarrow> router_state \<Rightarrow> router_state option" where
  "pthread_rwlock_unlock l rs = (case locks rs l of Free \<Rightarrow> None
     | Reading 0 \<Rightarrow> Some (set_lock l Free rs) | Reading (Suc n) \<Rightarrow> Some (set_lock l (Reading n) rs)
     | Writing \<Rightarrow> Some (set_lock l Free rs))"

text \<open>The wrappers each component has around its lock.\<close>

definition lock_rtable_rd where "lock_rtable_rd = pthread_rwlock_rdlock L_rtable"
definition lock_rtable_wr where "lock_rtable_wr = pthread_rwlock_wrlock L_rtable"
definition unlock_rtable where "unlock_rtable = pthread_rwlock_unlock L_rtable"
definition lock_ctable_rd where "lock_ctable_rd = pthread_rwlock_rdlock L_ctable"
definition lock_ctable_wr where "lock_ctable_wr = pthread_rwlock_wrlock L_ctable"
definition unlock_ctable where "unlock_ctable = pthread_rwlock_unlock L_ctable"
definition lock_if_list_rd where "lock_if_list_rd = pthread_rwlock_rdlock L_if_list"
definition lock_if_list_wr where "lock_if_list_wr = pthread_rwlock_wrlock L_if_list"
definition unlock_if_list where "unlock_if_list = pthread_rwlock_unlock L_if_list"
definition lock_arp_cache_rd where "lock_arp_cache_rd = pthread_rwlock_rdlock L_arp_cache"
definition lock_arp_cache_wr where "lock_arp_cache_wr = pthread_rwlock_wrlock L_arp_cache"
definition unlock_arp_cache where "unlock_arp_cache = pthread_rwlock_unlock L_arp_cache"
definition lock_arp_queue_rd where "lock_arp_queue_rd = pthread_rwlock_rdlock L_arp_queue"
definition lock_arp_queue_wr where "lock_arp_queue_wr = pthread_rwlock_wrlock L_arp_queue"
definition unlock_arp_queue where "unlock_arp_queue = pthread_rwlock_unlock L_arp_queue"
definition lock_mutex_pwospf_router_list where
  "lock_mutex_pwospf_router_list = pthread_mutex_lock L_pwospf_router_list"
definition unlock_mutex_pwospf_router_list where
  "unlock_mutex_pwospf_router_list = pthread_mutex_unlock L_pwospf_router_list"
definition lock_mutex_pwospf_lsu_queue where
  "lock_mutex_pwospf_lsu_queue = pthread_mutex_lock L_pwospf_lsu_queue"
definition unlock_mutex_pwospf_lsu_queue where
  "unlock_mutex_pwospf_lsu_queue = pthread_mutex_unlock L_pwospf_lsu_queue"
definition lock_mutex_pwospf_lsu_bcast where "lock_mutex_pwospf_lsu_bcast = pthread_mutex_lock L_lsu_bcast"
definition unlock_mutex_pwospf_lsu_bcast where
  "unlock_mutex_pwospf_lsu_bcast = pthread_mutex_unlock L_lsu_bcast"
definition lock_nat_table where "lock_nat_table = pthread_mutex_lock L_nat_table"
definition unlock_nat_table where "unlock_nat_table = pthread_mutex_unlock L_nat_table"
definition lock_local_ip_filters where "lock_local_ip_filters = pthread_mutex_lock L_local_ip_filter_list"
definition unlock_local_ip_filters where
  "unlock_local_ip_filters = pthread_mutex_unlock L_local_ip_filter_list"
definition lock_netfpga_stats where "lock_netfpga_stats = pthread_mutex_lock L_stats"
definition unlock_netfpga_stats where "unlock_netfpga_stats = pthread_mutex_unlock L_stats"
definition lock_mutex_sping_queue where "lock_mutex_sping_queue = pthread_mutex_lock L_sping"
definition unlock_mutex_sping_queue where "unlock_mutex_sping_queue = pthread_mutex_unlock L_sping"

lemmas lock_wrappers =
  lock_rtable_rd_def lock_rtable_wr_def unlock_rtable_def lock_ctable_rd_def lock_ctable_wr_def
  unlock_ctable_def lock_if_list_rd_def lock_if_list_wr_def unlock_if_list_def
  lock_arp_cache_rd_def lock_arp_cache_wr_def unlock_arp_cache_def lock_arp_queue_rd_def
  lock_arp_queue_wr_def unlock_arp_queue_def lock_mutex_pwospf_router_list_def
  unlock_mutex_pwospf_router_list_def lock_mutex_pwospf_lsu_queue_def
  unlock_mutex_pwospf_lsu_queue_def lock_mutex_pwospf_lsu_bcast_def
  unlock_mutex_pwospf_lsu_bcast_def lock_nat_table_def unlock_nat_table_def
  lock_local_ip_filters_def unlock_local_ip_filters_def lock_netfpga_stats_def
  unlock_netfpga_stats_def lock_mutex_sping_queue_def unlock_mutex_sping_queue_def

text \<open>A lock that is free is taken and given back without a trace.\<close>

lemma set_lock_simps [simp]:
  "locks (set_lock l s rs) = (locks rs)(l := s)"
  "set_lock l s (set_lock l s' rs) = set_lock l s rs"
  "locks rs l = s \<Longrightarrow> set_lock l s rs = rs"
  by (simp_all add: set_lock_def fun_upd_idem)

lemma set_lock_fields [frame_simps]:
  "router_id (set_lock l s rs) = router_id rs" "area_id (set_lock l s rs) = area_id rs"
  "is_netfpga (set_lock l s rs) = is_netfpga rs" "netfpga (set_lock l s rs) = netfpga rs"
  "rtable (set_lock l s rs) = rtable rs" "ctable (set_lock l s rs) = ctable rs"
  "arp_cache (set_lock l s rs) = arp_cache rs" "if_list (set_lock l s rs) = if_list rs"
  "arp_queue (set_lock l s rs) = arp_queue rs" "sping_queue (set_lock l s rs) = sping_queue rs"
  "pwospf_router_list (set_lock l s rs) = pwospf_router_list rs"
  "pwospf_lsu_queue (set_lock l s rs) = pwospf_lsu_queue rs" "nat_table (set_lock l s rs) = nat_table rs"
  "local_ip_filter_list (set_lock l s rs) = local_ip_filter_list rs"
  "clock (set_lock l s rs) = clock rs" "events (set_lock l s rs) = events rs"
  "arp_ttl (set_lock l s rs) = arp_ttl rs" "rand_seq (set_lock l s rs) = rand_seq rs"
  "rand_pos (set_lock l s rs) = rand_pos rs" "dijkstra_dirty (set_lock l s rs) = dijkstra_dirty rs"
  by (simp_all add: set_lock_def)

lemma free_locks [fault_simps]:
  "locks rs l = Free \<Longrightarrow> pthread_mutex_lock l rs = Some (set_lock l Writing rs)"
  "locks rs l = Free \<Longrightarrow> pthread_rwlock_wrlock l rs = Some (set_lock l Writing rs)"
  "locks rs l = Free \<Longrightarrow> pthread_rwlock_rdlock l rs = Some (set_lock l (Reading 0) rs)"
  "locks rs l = Writing \<Longrightarrow> pthread_mutex_unlock l rs = Some (set_lock l Free rs)"
  "locks rs l = Writing \<Longrightarrow> pthread_rwlock_unlock l rs = Some (set_lock l Free rs)"
  "locks rs l = Reading 0 \<Longrightarrow> pthread_rwlock_unlock l rs = Some (set_lock l Free rs)"
  by (simp_all add: pthread_mutex_lock_def pthread_rwlock_wrlock_def pthread_rwlock_rdlock_def
      pthread_mutex_unlock_def pthread_rwlock_unlock_def)

text \<open>Conversely, what a lock operation that returned has done: only the lock has changed.\<close>

definition same_but_locks :: "router_state \<Rightarrow> router_state \<Rightarrow> bool" where
  "same_but_locks rs rs' \<longleftrightarrow> (\<exists>f. rs' = rs\<lparr>locks := f\<rparr>)"

lemma same_but_locks_set_lock: "same_but_locks rs (set_lock l s rs)"
  by (auto simp: same_but_locks_def set_lock_def)

lemma lock_ops_frame:
  "pthread_mutex_lock l rs = Some rs' \<Longrightarrow> same_but_locks rs rs'"
  "pthread_mutex_unlock l rs = Some rs' \<Longrightarrow> same_but_locks rs rs'"
  "pthread_rwlock_rdlock l rs = Some rs' \<Longrightarrow> same_but_locks rs rs'"
  "pthread_rwlock_wrlock l rs = Some rs' \<Longrightarrow> same_but_locks rs rs'"
  "pthread_rwlock_unlock l rs = Some rs' \<Longrightarrow> same_but_locks rs rs'"
  by (auto simp: pthread_mutex_lock_def pthread_mutex_unlock_def pthread_rwlock_rdlock_def
      pthread_rwlock_wrlock_def pthread_rwlock_unlock_def same_but_locks_set_lock
      split: if_splits lock_state.splits nat.splits)
    (auto simp: same_but_locks_def intro: exI [of _ "locks rs"])

definition all_free :: "router_state \<Rightarrow> bool" where
  "all_free rs \<longleftrightarrow> locks rs = (\<lambda>_. Free)"

text \<open>A router with empty lists, on the card, with no lock held.\<close>

definition empty_router :: router_state where
  "empty_router = \<lparr>router_id = 0, area_id = 0, pwospf_hello_interval = 5, pwospf_lsu_interval = 30,
     pwospf_lsu_broadcast = 1, dijkstra_dirty = 0, is_netfpga = True, arp_ttl = 300,
     nat_timeout = 120, netfpga = \<lparr>hw_regs = \<lambda>_. 0, hw_rows = \<lambda>_ _. []\<rparr>, rtable = [], ctable = [],
     arp_cache = [], if_list = [], arp_queue = [], sping_queue = [], pwospf_router_list = [],
     pwospf_lsu_queue = [], nat_table = [], local_ip_filter_list = [], locks = \<lambda>_. Free, clock = 0,
     rand_seq = of_nat, rand_pos = 0, events = []\<rparr>"

section \<open>Rows of the tables\<close>

text \<open>Writing all the registers of an entry and then the row number stores exactly the entry.\<close>

definition write_row :: "hw_table \<Rightarrow> u32 list \<Rightarrow> nat \<Rightarrow> hw_state \<Rightarrow> hw_state" where
  "write_row t vs i h = writeReg (WR_ADDR_REG t) (of_nat i) (writeRegs (zip (entry_regs t) vs) h)"

lemma hw_rows_writeReg:
  "(\<And>t. r \<noteq> WR_ADDR_REG t) \<Longrightarrow> hw_rows (writeReg r v h) = hw_rows h"
  by (cases "(r, v, h)" rule: writeReg.cases) auto

lemma unat_row: "i < TABLE_DEPTH \<Longrightarrow> unat (of_nat i :: u32) mod TABLE_DEPTH = i"
  by (simp add: TABLE_DEPTH_def unat_of_nat take_bit_nat_eq_self)

lemma write_row_rows:
  assumes "i < TABLE_DEPTH" "length vs = length (entry_regs t)"
  shows "hw_rows (write_row t vs i h) = (hw_rows h)(t := (hw_rows h t)(i := vs))"
  using assms
  by (cases t) (auto simp: write_row_def unat_row length_Suc_conv)

text \<open>
  The loops that write a list out to a table share a contract: while entries are left, a step
  stores the row of the next one, afterwards it stores a row that is blank. The lemma gives the
  table after the loop.
\<close>

locale row_writer =
  fixes tab :: hw_table
    and row :: "'e \<Rightarrow> u32 list option"
    and blank :: "u32 list \<Rightarrow> bool"
    and wr :: "nat \<Rightarrow> nat \<Rightarrow> 'e list \<Rightarrow> hw_state \<Rightarrow> hw_state option"
  assumes wr_done: "wr 0 i cur h = Some h"
    and wr_entry: "i < TABLE_DEPTH \<Longrightarrow> row e = Some vs \<Longrightarrow>
      \<exists>h1. wr (Suc n) i (e # cur) h = wr n (Suc i) cur h1
        \<and> hw_rows h1 = (hw_rows h)(tab := (hw_rows h tab)(i := vs))"
    and wr_blank: "i < TABLE_DEPTH \<Longrightarrow>
      \<exists>h1 vs. wr (Suc n) i [] h = wr n (Suc i) [] h1 \<and> blank vs
        \<and> hw_rows h1 = (hw_rows h)(tab := (hw_rows h tab)(i := vs))"
begin

lemma mirrors:
  assumes "i + n \<le> TABLE_DEPTH" "\<And>e. e \<in> set (take n cur) \<Longrightarrow> row e \<noteq> None"
  shows "\<exists>h'. wr n i cur h = Some h'
    \<and> (\<forall>j<n. if j < length cur then row (cur ! j) = Some (hw_rows h' tab (i + j))
              else blank (hw_rows h' tab (i + j)))
    \<and> (\<forall>j. j < i \<or> i + n \<le> j \<longrightarrow> hw_rows h' tab j = hw_rows h tab j)
    \<and> (\<forall>t. t \<noteq> tab \<longrightarrow> hw_rows h' t = hw_rows h t)"
  using assms
proof (induction n arbitrary: i cur h)
  case 0
  then show ?case by (simp add: wr_done)
next
  case (Suc n)
  have i: "i < TABLE_DEPTH" "Suc i + n \<le> TABLE_DEPTH" using Suc.prems(1) by simp_all
  obtain h1 vs where step: "wr (Suc n) i cur h = wr n (Suc i) (tl cur) h1"
      and h1: "hw_rows h1 = (hw_rows h)(tab := (hw_rows h tab)(i := vs))"
      and vs: "if cur = [] then blank vs else row (hd cur) = Some vs"
  proof (cases cur)
    case Nil
    with wr_blank [OF i(1), of n h] that show ?thesis by force
  next
    case (Cons e es)
    with Suc.prems(2) [of e] obtain ws where "row e = Some ws" by auto
    with wr_entry [OF i(1) this, of n es h] that Cons show ?thesis by force
  qed
  have "\<And>e. e \<in> set (take n (tl cur)) \<Longrightarrow> row e \<noteq> None"
    using Suc.prems(2) by (cases cur) auto
  from Suc.IH [where h = h1, OF i(2) this] obtain h' where h': "wr n (Suc i) (tl cur) h1 = Some h'"
      and rest: "\<forall>j<n. if j < length (tl cur) then row (tl cur ! j) = Some (hw_rows h' tab (Suc i + j))
              else blank (hw_rows h' tab (Suc i + j))"
      and old: "\<forall>j. j < Suc i \<or> Suc i + n \<le> j \<longrightarrow> hw_rows h' tab j = hw_rows h1 tab j"
      and other: "\<forall>t. t \<noteq> tab \<longrightarrow> hw_rows h' t = hw_rows h1 t"
    by blast
  have "if j < length cur then row (cur ! j) = Some (hw_rows h' tab (i + j))
              else blank (hw_rows h' tab (i + j))" if "j < Suc n" for j
  proof (cases j)
    case 0
    then show ?thesis using vs old by (cases cur) (auto simp: h1)
  next
    case (Suc k)
    with that rest have "if k < length (tl cur) then row (tl cur ! k) = Some (hw_rows h' tab (Suc i + k))
              else blank (hw_rows h' tab (Suc i + k))" by auto
    then show ?thesis using Suc by (cases cur) auto
  qed
  then show ?case using step h' old other by (auto simp: h1)
qed

text \<open>The loop as the code calls it, over all rows.\<close>

lemma mirrors_table:
  assumes "\<forall>e\<in>set cur. row e \<noteq> None"
  shows "\<exists>h'. wr TABLE_DEPTH 0 cur h = Some h'
    \<and> (\<forall>j<TABLE_DEPTH. if j < length cur then row (cur ! j) = Some (hw_rows h' tab j)
              else blank (hw_rows h' tab j))
    \<and> (\<forall>t. t \<noteq> tab \<longrightarrow> hw_rows h' t = hw_rows h t)"
proof -
  have "0 + TABLE_DEPTH \<le> TABLE_DEPTH" by simp
  moreover have "\<And>e. e \<in> set (take TABLE_DEPTH cur) \<Longrightarrow> row e \<noteq> None"
    using assms by (blast dest: in_set_takeD)
  ultimately show ?thesis using mirrors [where h = h] by (metis add_0)
qed

end

end
