(* ===== verification/Netfpga.thy ===== *)
theory Netfpga
  imports Router_State
begin

text \<open>
  The NetFPGA board support of or_netfpga.c: interface names and one-hot port numbers, the packet
  output, the local IP filters and their hardware table, the port counters; and the register
  access to interfaces of or_iface.c.
\<close>

section \<open>Port numbers\<close>

definition getPortNumber :: "string \<Rightarrow> u8 option" where
  "getPortNumber name =
     (if name = ''eth0'' then Some 0 else if name = ''eth1'' then Some 1
      else if name = ''eth2'' then Some 2 else if name = ''eth3'' then Some 3 else None)"

definition getOneHotPortNumber :: "string \<Rightarrow> u32 option" where
  "getOneHotPortNumber name =
     (if name = ''eth0'' then Some 1 else if name = ''eth1'' then Some 4
      else if name = ''eth2'' then Some 16 else if name = ''eth3'' then Some 64
      else if name = ''cpu0'' then Some 2 else if name = ''cpu1'' then Some 8
      else if name = ''cpu2'' then Some 32 else if name = ''cpu3'' then Some 128 else None)"

text \<open>The default case clears the name.\<close>

definition getIfaceFromOneHotPortNumber :: "nat \<Rightarrow> u32 \<Rightarrow> string" where
  "getIfaceFromOneHotPortNumber len port =
     (if port = 1 then strncpy ''eth0'' len else if port = 2 then strncpy ''cpu0'' len
      else if port = 4 then strncpy ''eth1'' len else if port = 8 then strncpy ''cpu1'' len
      else if port = 16 then strncpy ''eth2'' len else if port = 32 then strncpy ''cpu2'' len
      else if port = 64 then strncpy ''eth3'' len else if port = 128 then strncpy ''cpu3'' len
      else '''')"

definition get_incoming_interface :: "nat \<Rightarrow> u32 \<Rightarrow> string option" where
  "get_incoming_interface len queue =
     (if 3 < queue then None
      else Some (if queue = 0 then strncpy ''eth0'' len else if queue = 1 then strncpy ''eth1'' len
        else if queue = 2 then strncpy ''eth2'' len else strncpy ''eth3'' len))"

text \<open>Converting the name of a port to its one-hot number and back gives the name, for every
  name the conversion accepts, and two names never share a number.\<close>

theorem one_hot_port_roundtrip:
  assumes "getOneHotPortNumber name = Some port" "5 \<le> len"
  shows "getIfaceFromOneHotPortNumber len port = name
    \<and> (\<forall>other. getOneHotPortNumber other = Some port \<longrightarrow> other = name)"
  using assms unfolding getOneHotPortNumber_def getIfaceFromOneHotPortNumber_def
  by (auto split: if_splits)

theorem one_hot_port_roundtrip_witness:
  "getIfaceFromOneHotPortNumber 32 16 = ''eth2''
    \<and> {other. getOneHotPortNumber other = Some 16} = {''eth2''}"
proof -
  have g: "getOneHotPortNumber ''eth2'' = Some 16" by (simp add: getOneHotPortNumber_def)
  have "5 \<le> (32 :: nat)" by simp
  from one_hot_port_roundtrip [OF g this] g show ?thesis by blast
qed

definition hw_ports :: "string set" where
  "hw_ports = {''eth0'', ''eth1'', ''eth2'', ''eth3'', ''cpu0'', ''cpu1'', ''cpu2'', ''cpu3''}"

lemma one_hot_defined: "getOneHotPortNumber name \<noteq> None \<longleftrightarrow> name \<in> hw_ports"
  by (auto simp: getOneHotPortNumber_def hw_ports_def split: if_splits)

section \<open>Packet output\<close>

text \<open>
  \<open>netfpga_output\<close> logs the packet under the dumper lock and writes it to the raw socket of the
  interface, in pieces until all bytes are out; it always returns 0. A name other than the four
  interfaces leaves the index at 4, behind the end of the socket array. The CPU mode binary sends
  through \<open>sr_integ_low_level_output\<close> and \<open>sr_cpu_output\<close> to this function.
\<close>

definition netfpga_output :: "packet \<Rightarrow> string \<Rightarrow> router_state \<Rightarrow> (int \<times> router_state) option" where
  "netfpga_output p iface rs = do {
     rs \<leftarrow> pthread_mutex_lock L_log_dumper rs;
     rs \<leftarrow> pthread_mutex_unlock L_log_dumper rs;
     if p = [] then Some (0, rs)
     else if iface \<in> {''eth0'', ''eth1'', ''eth2'', ''eth3''} then Some (0, emit (Tx p iface) rs)
     else None
   }"

text \<open>\<open>send_packet\<close> of or_main.c: frames below 60 bytes are padded with zeros.\<close>

definition pad_frame :: "packet \<Rightarrow> packet" where
  "pad_frame p = (if length p < 60 then p @ replicate (60 - length p) 0 else p)"

definition send_packet :: "packet \<Rightarrow> string \<Rightarrow> router_state \<Rightarrow> (int \<times> router_state) option" where
  "send_packet p iface rs = do {
     rs \<leftarrow> pthread_mutex_lock L_write rs;
     (result, rs) \<leftarrow> netfpga_output (pad_frame p) iface rs;
     rs \<leftarrow> pthread_mutex_unlock L_write rs;
     Some (result, rs)
   }"

definition eth_ports :: "string set" where "eth_ports = {''eth0'', ''eth1'', ''eth2'', ''eth3''}"

lemma send_packet_ok:
  assumes "locks rs L_write = Free" "locks rs L_log_dumper = Free" "iface \<in> eth_ports"
  shows "send_packet p iface rs = Some (0, emit (Tx (pad_frame p) iface) rs)"
proof -
  have "pad_frame p \<noteq> []" by (auto simp: pad_frame_def)
  moreover have "set_lock L_write Free (emit e (set_lock L_write Writing rs)) = emit e rs" for e
    using assms(1) by (simp add: emit_def set_lock_def fun_upd_idem)
  ultimately show ?thesis using assms
    by (simp add: send_packet_def netfpga_output_def fault_simps eth_ports_def emit_def)
qed

lemma length_pad_frame: "60 \<le> length (pad_frame p)"
  by (simp add: pad_frame_def)

lemma take_pad_frame: "take (length p) (pad_frame p) = p"
  by (simp add: pad_frame_def)

section \<open>Port counters\<close>

definition get_rx_queue_num_pkts_received :: "hw_state \<Rightarrow> u8 \<Rightarrow> u32" where
  "get_rx_queue_num_pkts_received nf2 port =
     (if port \<in> {0, 1, 2, 3} then readReg (MAC_GRP_RX_QUEUE_NUM_PKTS_STORED_REG (unat port)) nf2 else 0)"

definition get_tx_queue_num_pkts_sent :: "hw_state \<Rightarrow> u8 \<Rightarrow> u32" where
  "get_tx_queue_num_pkts_sent nf2 port =
     (if port \<in> {0, 1, 2, 3} then readReg (MAC_GRP_TX_QUEUE_NUM_PKTS_SENT_REG (unat port)) nf2 else 0)"

definition get_rx_queue_num_bytes_received :: "hw_state \<Rightarrow> u8 \<Rightarrow> u32" where
  "get_rx_queue_num_bytes_received nf2 port =
     (if port \<in> {0, 1, 2, 3} then readReg (MAC_GRP_RX_QUEUE_NUM_BYTES_PUSHED_REG (unat port)) nf2 else 0)"

definition get_tx_queue_num_bytes_sent :: "hw_state \<Rightarrow> u8 \<Rightarrow> u32" where
  "get_tx_queue_num_bytes_sent nf2 port =
     (if port \<in> {0, 1, 2, 3} then readReg (MAC_GRP_TX_QUEUE_NUM_BYTES_PUSHED_REG (unat port)) nf2 else 0)"

definition get_rx_queue_num_pkts_dropped_full :: "hw_state \<Rightarrow> u8 \<Rightarrow> u32" where
  "get_rx_queue_num_pkts_dropped_full nf2 port =
     (if port \<in> {0, 1, 2, 3} then readReg (MAC_GRP_RX_QUEUE_NUM_PKTS_DROPPED_FULL_REG (unat port)) nf2 else 0)"

definition get_rx_queue_num_pkts_dropped_bad :: "hw_state \<Rightarrow> u8 \<Rightarrow> u32" where
  "get_rx_queue_num_pkts_dropped_bad nf2 port =
     (if port \<in> {0, 1, 2, 3} then readReg (MAC_GRP_RX_QUEUE_NUM_PKTS_DROPPED_BAD_REG (unat port)) nf2 else 0)"

definition get_oq_num_pkts_dropped :: "hw_state \<Rightarrow> u8 \<Rightarrow> u32" where
  "get_oq_num_pkts_dropped nf2 port =
     (if port < 8 then readReg (OQ_QUEUE_NUM_PKTS_DROPPED_REG (unat port)) nf2 else 0)"

text \<open>\<open>getMax\<close> of or_utils.c.\<close>

definition INT32_MIN :: int where "INT32_MIN = - (2 ^ 31)"

definition getMax :: "int list \<Rightarrow> int" where
  "getMax int_array = fold (\<lambda>x m. if x > m then x else m) int_array INT32_MIN"

lemma getMax_fold: "fold (\<lambda>x m. if x > m then x else m) xs (m :: int) = Max (insert m (set xs))"
proof (induction xs arbitrary: m)
  case (Cons x xs)
  have "Max (insert (if x > m then x else m) (set xs)) = Max (insert m (insert x (set xs)))"
    by (cases "set xs = {}") (simp_all add: max_def not_less)
  with Cons show ?case by simp
qed simp

section \<open>Interface registers\<close>

definition write_hw_iface_mac :: "router_state \<Rightarrow> u32 \<Rightarrow> u32 \<Rightarrow> u32 \<Rightarrow> router_state" where
  "write_hw_iface_mac rs port mac_hi mac_lo =
     (if port \<in> {0, 1, 2, 3}
      then rs\<lparr>netfpga := writeRegs [(ROUTER_OP_LUT_MAC_HI_REG (unat port), mac_hi),
             (ROUTER_OP_LUT_MAC_LO_REG (unat port), mac_lo)] (netfpga rs)\<rparr>
      else rs)"

definition read_hw_iface_mac :: "router_state \<Rightarrow> u32 \<Rightarrow> u32 \<times> u32" where
  "read_hw_iface_mac rs port =
     (if port \<in> {0, 1, 2, 3}
      then (readReg (ROUTER_OP_LUT_MAC_HI_REG (unat port)) (netfpga rs),
            readReg (ROUTER_OP_LUT_MAC_LO_REG (unat port)) (netfpga rs))
      else (0, 0))"

definition set_hw_iface :: "router_state \<Rightarrow> u32 \<Rightarrow> u32 \<Rightarrow> router_state" where
  "set_hw_iface rs queue command =
     (if queue \<in> {0, 1, 2, 3}
      then rs\<lparr>netfpga := writeReg (MAC_GRP_CONTROL_REG (unat queue)) command (netfpga rs)\<rparr> else rs)"

lemma hw_iface_mac_roundtrip:
  "port \<in> {0, 1, 2, 3} \<Longrightarrow> read_hw_iface_mac (write_hw_iface_mac rs port hi lo) port = (hi, lo)"
  by (simp add: read_hw_iface_mac_def write_hw_iface_mac_def readReg_def)

section \<open>Local IP filters\<close>

definition get_local_ip_filter_by_name :: "router_state \<Rightarrow> string \<Rightarrow> local_ip_filter_entry option" where
  "get_local_ip_filter_by_name rs name = find (\<lambda>e. lf_name e = name) (local_ip_filter_list rs)"

definition get_local_ip_filter_by_ip :: "router_state \<Rightarrow> u32 \<Rightarrow> local_ip_filter_entry option" where
  "get_local_ip_filter_by_ip rs ip = find (\<lambda>e. lf_ip e = ip) (local_ip_filter_list rs)"

fun write_filter_rows :: "nat \<Rightarrow> nat \<Rightarrow> local_ip_filter_entry list \<Rightarrow> hw_state \<Rightarrow> hw_state" where
  "write_filter_rows 0 i cur h = h"
| "write_filter_rows (Suc n) i (entry # cur) h = write_filter_rows n (Suc i) cur
     (writeRegs [(DST_IP_FILTER_TABLE_ENTRY_IP_REG, ntohl (lf_ip entry)),
        (WR_ADDR_REG DST_IP_FILTER_TABLE, of_nat i)] h)"
| "write_filter_rows (Suc n) i [] h = write_filter_rows n (Suc i) []
     (writeRegs [(DST_IP_FILTER_TABLE_ENTRY_IP_REG, 0), (WR_ADDR_REG DST_IP_FILTER_TABLE, of_nat i)] h)"

text \<open>
  The list is sorted by name. The condition is \<open>strcmp(a->name, b->name) == 1\<close>: the value that
  \<open>strcmp\<close> of the C library returns for different strings is a parameter.
\<close>

definition trigger_local_ip_filters_change ::
    "(string \<Rightarrow> string \<Rightarrow> int) \<Rightarrow> router_state \<Rightarrow> router_state option" where
  "trigger_local_ip_filters_change strcmp rs = do {
     rs \<leftarrow> lock_local_ip_filters rs;
     sorted \<leftarrow> bubble_sort (\<lambda>a b. strcmp (lf_name a) (lf_name b) = 1) (local_ip_filter_list rs);
     let rs = rs\<lparr>local_ip_filter_list := sorted\<rparr>;
     let rs = (if is_netfpga rs
       then rs\<lparr>netfpga := write_filter_rows TABLE_DEPTH 0 sorted (netfpga rs)\<rparr> else rs);
     unlock_local_ip_filters rs
   }"

definition add_local_ip_filter ::
    "(string \<Rightarrow> string \<Rightarrow> int) \<Rightarrow> router_state \<Rightarrow> u32 \<Rightarrow> string \<Rightarrow> (int \<times> router_state) option" where
  "add_local_ip_filter strcmp rs ip name =
     (if get_local_ip_filter_by_ip rs ip \<noteq> None \<or> get_local_ip_filter_by_name rs name \<noteq> None
      then Some (1, rs)
      else do {
        let entry = \<lparr>lf_ip = ip, lf_name = strncpy name (LOCAL_IP_FILTER_ENTRY_NAME_LEN - 1)\<rparr>;
        rs \<leftarrow> lock_local_ip_filters rs;
        let rs = rs\<lparr>local_ip_filter_list := local_ip_filter_list rs @ [entry]\<rparr>;
        rs \<leftarrow> unlock_local_ip_filters rs;
        rs \<leftarrow> trigger_local_ip_filters_change strcmp rs;
        Some (0, rs)
      })"

interpretation filter_rows: row_writer DST_IP_FILTER_TABLE "\<lambda>e. Some [ntohl (lf_ip e)]" "\<lambda>vs. vs = [0]"
  "\<lambda>n i cur h. Some (write_filter_rows n i cur h)"
  by unfold_locales (auto simp: unat_row)

text \<open>Adding a local IP filter returns 1 and changes nothing when the address or the name is
  known. Otherwise it returns 0, with the lock given back, the list holding the old entries and
  the new one, and on the card the filter table holding the addresses of the list in its order,
  in host byte order, and 0 in the rows behind it. That the exchange sort ends needs only that
  \<open>strcmp\<close> changes sign when its arguments are swapped.\<close>

theorem add_local_ip_filter_mirrored:
  assumes "strcmp_reverses strcmp" "locks rs L_local_ip_filter_list = Free"
  shows "if (\<exists>e\<in>set (local_ip_filter_list rs). lf_ip e = ip \<or> lf_name e = name)
    then add_local_ip_filter strcmp rs ip name = Some (1, rs)
    else \<exists>rs'. add_local_ip_filter strcmp rs ip name = Some (0, rs')
      \<and> mset (local_ip_filter_list rs') =
          add_mset \<lparr>lf_ip = ip, lf_name = take 31 name\<rparr> (mset (local_ip_filter_list rs))
      \<and> locks rs' = locks rs
      \<and> (\<forall>j<32. is_netfpga rs \<longrightarrow> hw_rows (netfpga rs') DST_IP_FILTER_TABLE j =
            (if j < length (local_ip_filter_list rs') then [ntohl (lf_ip (local_ip_filter_list rs' ! j))]
             else [0]))"
proof (cases "\<exists>e\<in>set (local_ip_filter_list rs). lf_ip e = ip \<or> lf_name e = name")
  case True
  then show ?thesis
    by (auto simp: add_local_ip_filter_def get_local_ip_filter_by_ip_def
        get_local_ip_filter_by_name_def find_None_iff)
next
  case False
  let ?e = "\<lparr>lf_ip = ip, lf_name = take 31 name\<rparr>"
  let ?sw = "\<lambda>a b. strcmp (lf_name a) (lf_name b) = 1"
  have "asymp ?sw" by (rule strcmp_asymp [OF assms(1)])
  then obtain ys where ys: "bubble_sort ?sw (local_ip_filter_list rs @ [?e]) = Some ys"
    using bubble_sort_terminates by blast
  then have m: "mset ys = add_mset ?e (mset (local_ip_filter_list rs))"
    using bubble_sort_result [OF ys] by simp
  from False have none: "get_local_ip_filter_by_ip rs ip = None" "get_local_ip_filter_by_name rs name = None"
    by (auto simp: get_local_ip_filter_by_ip_def get_local_ip_filter_by_name_def find_None_iff)
  from filter_rows.mirrors [of 0 TABLE_DEPTH ys "netfpga rs"]
  have rows: "j < 32 \<Longrightarrow> hw_rows (write_filter_rows TABLE_DEPTH 0 ys (netfpga rs)) DST_IP_FILTER_TABLE j =
      (if j < length ys then [ntohl (lf_ip (ys ! j))] else [0])" for j
    by (auto simp: TABLE_DEPTH_def split: if_splits)
  obtain rs' where "add_local_ip_filter strcmp rs ip name = Some (0, rs')" "local_ip_filter_list rs' = ys"
      "locks rs' = locks rs"
      "netfpga rs' = (if is_netfpga rs then write_filter_rows TABLE_DEPTH 0 ys (netfpga rs) else netfpga rs)"
    using assms(2) ys
    by (simp add: add_local_ip_filter_def none trigger_local_ip_filters_change_def lock_wrappers
        fault_simps frame_simps Let_def LOCAL_IP_FILTER_ENTRY_NAME_LEN_def strncpy_def set_lock_def
        fun_upd_idem)
  with False m rows show ?thesis by simp
qed

theorem add_local_ip_filter_mirrored_witness:
  "\<exists>rs rs'. add_local_ip_filter strcmp_bytes rs 7 ''eth1'' = Some (0, rs') \<and> is_netfpga rs
    \<and> hw_rows (netfpga rs') DST_IP_FILTER_TABLE 0 = [ntohl 7]
    \<and> hw_rows (netfpga rs') DST_IP_FILTER_TABLE 31 = [0]"
proof -
  let ?rs = "empty_router"
  have "if (\<exists>e\<in>set (local_ip_filter_list ?rs). lf_ip e = 7 \<or> lf_name e = ''eth1'')
    then add_local_ip_filter strcmp_bytes ?rs 7 ''eth1'' = Some (1, ?rs)
    else \<exists>rs'. add_local_ip_filter strcmp_bytes ?rs 7 ''eth1'' = Some (0, rs')
      \<and> mset (local_ip_filter_list rs') =
          add_mset \<lparr>lf_ip = 7, lf_name = take 31 ''eth1''\<rparr> (mset (local_ip_filter_list ?rs))
      \<and> locks rs' = locks ?rs
      \<and> (\<forall>j<32. is_netfpga ?rs \<longrightarrow> hw_rows (netfpga rs') DST_IP_FILTER_TABLE j =
            (if j < length (local_ip_filter_list rs') then [ntohl (lf_ip (local_ip_filter_list rs' ! j))]
             else [0]))"
    by (rule add_local_ip_filter_mirrored) (simp_all add: strcmp_bytes_reverses empty_router_def)
  then obtain rs' where "add_local_ip_filter strcmp_bytes ?rs 7 ''eth1'' = Some (0, rs')"
      "local_ip_filter_list rs' = [\<lparr>lf_ip = 7, lf_name = ''eth1''\<rparr>]"
      "\<forall>j<32. hw_rows (netfpga rs') DST_IP_FILTER_TABLE j =
            (if j < length (local_ip_filter_list rs') then [ntohl (lf_ip (local_ip_filter_list rs' ! j))]
             else [0])"
    by (auto simp: empty_router_def)
  then show ?thesis by (intro exI [of _ ?rs] exI [of _ rs']) (simp add: empty_router_def)
qed

end
