(* ===== verification/Rtable.thy ===== *)
theory Rtable
  imports Netfpga "HOL-Library.Product_Lexorder"
begin

text \<open>
  The routing table, or_rtable.c: longest prefix match, the operations that change the table, its
  order and its copy in the route table of the card. The invariant of
  the table and the agreement of software and hardware lookup are proved here.
\<close>

section \<open>Lookup\<close>

definition bits_matched :: "u32 \<Rightarrow> int" where
  "bits_matched m = int (length (filter (\<lambda>i. drop_bit i m AND 1 \<noteq> 0) [0..<32]))"

definition route_matches :: "u32 \<Rightarrow> rtable_entry \<Rightarrow> bool" where
  "route_matches destination re \<longleftrightarrow>
     ntohl (rt_ip re) AND ntohl (rt_mask re) = ntohl destination AND ntohl (rt_mask re)"

fun lpm_scan :: "u32 \<Rightarrow> rtable_entry list \<Rightarrow> rtable_entry option \<Rightarrow> int \<Rightarrow> rtable_entry option" where
  "lpm_scan destination [] lpm most_bits_matched = lpm"
| "lpm_scan destination (re # n) lpm most_bits_matched =
     (if rt_is_active re \<and> route_matches destination re
         \<and> bits_matched (ntohl (rt_mask re)) > most_bits_matched
      then lpm_scan destination n (Some re) (bits_matched (ntohl (rt_mask re)))
      else lpm_scan destination n lpm most_bits_matched)"

text \<open>\<open>None\<close> is the return value 1, \<open>Some\<close> the next hop and interface returned with 0.\<close>

definition get_next_hop :: "router_state \<Rightarrow> nat \<Rightarrow> u32 \<Rightarrow> (u32 \<times> string) option" where
  "get_next_hop rs len destination =
     (case lpm_scan destination (rtable rs) None (- 1) of
        None \<Rightarrow> None
      | Some lpm \<Rightarrow> Some (if rt_gw lpm = 0 then destination else rt_gw lpm, strncpy (rt_iface lpm) len))"

text \<open>What a longest prefix match is: the first entry among those with the most mask bits.\<close>

definition candidate :: "u32 \<Rightarrow> rtable_entry \<Rightarrow> bool" where
  "candidate destination re \<longleftrightarrow> rt_is_active re \<and> route_matches destination re"

definition is_longest_match :: "u32 \<Rightarrow> rtable_entry list \<Rightarrow> nat \<Rightarrow> bool" where
  "is_longest_match destination rt i \<longleftrightarrow> i < length rt \<and> candidate destination (rt ! i)
     \<and> (\<forall>j<length rt. candidate destination (rt ! j) \<longrightarrow>
          bits_matched (ntohl (rt_mask (rt ! j))) \<le> bits_matched (ntohl (rt_mask (rt ! i)))
          \<and> (j < i \<longrightarrow> bits_matched (ntohl (rt_mask (rt ! j))) < bits_matched (ntohl (rt_mask (rt ! i)))))"

lemma lpm_scan_cases:
  "(lpm_scan d rt lpm b = lpm \<and> (\<forall>re\<in>set rt. candidate d re \<longrightarrow> bits_matched (ntohl (rt_mask re)) \<le> b))
   \<or> (\<exists>i. is_longest_match d rt i \<and> b < bits_matched (ntohl (rt_mask (rt ! i)))
        \<and> lpm_scan d rt lpm b = Some (rt ! i))"
proof (induction d rt lpm b rule: lpm_scan.induct)
  case (2 d re n lpm b)
  let ?m = "\<lambda>re. bits_matched (ntohl (rt_mask re))"
  show ?case
  proof (cases "candidate d re \<and> ?m re > b")
    case True
    then have scan: "lpm_scan d (re # n) lpm b = lpm_scan d n (Some re) (?m re)"
      by (simp add: candidate_def)
    from True "2.IH"(1) consider
      "lpm_scan d n (Some re) (?m re) = Some re" "\<forall>r\<in>set n. candidate d r \<longrightarrow> ?m r \<le> ?m re"
      | i where "is_longest_match d n i" "?m re < ?m (n ! i)"
          "lpm_scan d n (Some re) (?m re) = Some (n ! i)"
      by (auto simp: candidate_def)
    then show ?thesis
    proof cases
      case 1
      have "is_longest_match d (re # n) 0"
        using True 1(2) by (auto simp: is_longest_match_def nth_Cons split: nat.split)
      with 1 True scan show ?thesis by (metis nth_Cons_0)
    next
      case (2 i)
      then have "is_longest_match d (re # n) (Suc i)"
        by (auto simp: is_longest_match_def nth_Cons split: nat.splits)
      moreover have "b < ?m ((re # n) ! Suc i)" using True 2(2) by simp
      ultimately show ?thesis using scan 2(3) by (metis nth_Cons_Suc)
    qed
  next
    case False
    then have scan: "lpm_scan d (re # n) lpm b = lpm_scan d n lpm b"
      by (auto simp: candidate_def)
    from False "2.IH"(2) consider
      "lpm_scan d n lpm b = lpm" "\<forall>r\<in>set n. candidate d r \<longrightarrow> ?m r \<le> b"
      | i where "is_longest_match d n i" "b < ?m (n ! i)" "lpm_scan d n lpm b = Some (n ! i)"
      by (auto simp: candidate_def)
    then show ?thesis
    proof cases
      case 1
      with False scan show ?thesis by auto
    next
      case (2 i)
      with False have "is_longest_match d (re # n) (Suc i)"
        by (auto simp: is_longest_match_def nth_Cons split: nat.splits)
      with 2 scan show ?thesis by (metis nth_Cons_Suc)
    qed
  qed
qed simp

lemma bits_matched_nonneg: "0 \<le> bits_matched m"
  by (simp add: bits_matched_def)

lemma longest_match_unique:
  "is_longest_match d rt i \<Longrightarrow> is_longest_match d rt j \<Longrightarrow> i = j"
  unfolding is_longest_match_def by (metis leD linorder_neqE_nat)

lemma lpm_scan_iff:
  "lpm_scan d rt None (- 1) = Some re \<longleftrightarrow> (\<exists>i. is_longest_match d rt i \<and> re = rt ! i)"
  "lpm_scan d rt None (- 1) = None \<longleftrightarrow> (\<forall>re\<in>set rt. \<not> candidate d re)"
proof -
  consider (none) "lpm_scan d rt None (- 1) = None"
      "\<forall>re\<in>set rt. candidate d re \<longrightarrow> bits_matched (ntohl (rt_mask re)) \<le> - 1"
    | (found) i where "is_longest_match d rt i" "lpm_scan d rt None (- 1) = Some (rt ! i)"
    using lpm_scan_cases [of d rt None "- 1"] by (elim disjE exE conjE) auto
  then show "lpm_scan d rt None (- 1) = Some re \<longleftrightarrow> (\<exists>i. is_longest_match d rt i \<and> re = rt ! i)"
    "lpm_scan d rt None (- 1) = None \<longleftrightarrow> (\<forall>re\<in>set rt. \<not> candidate d re)"
  proof (atomize (full), cases)
    case none
    have "\<not> candidate d re" if "re \<in> set rt" for re
      using none(2) that bits_matched_nonneg [of "ntohl (rt_mask re)"] by fastforce
    then show "(lpm_scan d rt None (- 1) = Some re \<longleftrightarrow> (\<exists>i. is_longest_match d rt i \<and> re = rt ! i))
      \<and> (lpm_scan d rt None (- 1) = None \<longleftrightarrow> (\<forall>re\<in>set rt. \<not> candidate d re))"
      using none(1) by (auto simp: is_longest_match_def)
  next
    case found
    then have "rt ! i \<in> set rt" "candidate d (rt ! i)" by (auto simp: is_longest_match_def)
    then show "(lpm_scan d rt None (- 1) = Some re \<longleftrightarrow> (\<exists>i. is_longest_match d rt i \<and> re = rt ! i))
      \<and> (lpm_scan d rt None (- 1) = None \<longleftrightarrow> (\<forall>re\<in>set rt. \<not> candidate d re))"
      using found longest_match_unique by auto
  qed
qed

text \<open>C5: \<open>get_next_hop\<close> is longest prefix match: it returns a next hop and an interface exactly
  when an active entry matches the destination; they are those of the entry with the most mask
  bits, the first one if several have as many, and a gateway 0.0.0.0 stands for the destination
  itself.\<close>

theorem get_next_hop_longest_prefix:
  "(get_next_hop rs 32 destination = None \<longleftrightarrow> filter (candidate destination) (rtable rs) = [])
   \<and> (get_next_hop rs 32 destination = Some (hop, iface) \<longleftrightarrow>
        (\<exists>i. is_longest_match destination (rtable rs) i
           \<and> hop = (if rt_gw (rtable rs ! i) = 0 then destination else rt_gw (rtable rs ! i))
           \<and> iface = take 32 (rt_iface (rtable rs ! i))))"
proof (cases "lpm_scan destination (rtable rs) None (- 1)")
  case None
  then have n: "\<forall>re\<in>set (rtable rs). \<not> candidate destination re" using lpm_scan_iff(2) by blast
  then have "\<not> is_longest_match destination (rtable rs) i" for i by (auto simp: is_longest_match_def)
  with n None show ?thesis by (simp add: get_next_hop_def filter_empty_conv)
next
  case (Some re)
  then obtain i where i: "is_longest_match destination (rtable rs) i" "re = rtable rs ! i"
    using lpm_scan_iff(1) by blast
  then have "rtable rs ! i \<in> set (rtable rs)" "candidate destination (rtable rs ! i)"
    by (auto simp: is_longest_match_def)
  then have ne: "filter (candidate destination) (rtable rs) \<noteq> []" by (metis filter_empty_conv)
  have u: "is_longest_match destination (rtable rs) j \<longleftrightarrow> j = i" for j
    using i(1) longest_match_unique by blast
  from Some i(2) show ?thesis by (auto simp: get_next_hop_def strncpy_def ne u)
qed

section \<open>The order of the table and its copy on the card\<close>

definition rt_before :: "rtable_entry \<Rightarrow> rtable_entry \<Rightarrow> bool" where
  "rt_before a b \<longleftrightarrow> ntohl (rt_mask a) < ntohl (rt_mask b)
     \<or> (rt_mask a = rt_mask b \<and> ntohl (rt_ip a) < ntohl (rt_ip b))
     \<or> (rt_mask a = rt_mask b \<and> rt_ip a = rt_ip b \<and> \<not> rt_is_static a \<and> rt_is_static b)"

definition hw_route_writes :: "rtable_entry \<Rightarrow> u32 \<Rightarrow> nat \<Rightarrow> (hw_reg \<times> u32) list" where
  "hw_route_writes entry port i =
     [(ROUTE_TABLE_ENTRY_IP_REG, ntohl (rt_ip entry)), (ROUTE_TABLE_ENTRY_MASK_REG, ntohl (rt_mask entry)),
      (ROUTE_TABLE_ENTRY_NEXT_HOP_IP_REG, ntohl (rt_gw entry)), (ROUTE_TABLE_ENTRY_OUTPUT_PORT_REG, port),
      (WR_ADDR_REG ROUTE_TABLE, of_nat i)]"

text \<open>The loop over the 32 rows; \<open>cur\<close> has been advanced to the next active entry.\<close>

fun write_rtable_rows :: "nat \<Rightarrow> nat \<Rightarrow> rtable_entry list \<Rightarrow> hw_state \<Rightarrow> hw_state option" where
  "write_rtable_rows 0 i cur h = Some h"
| "write_rtable_rows (Suc n) i (entry # cur) h = do {
     port \<leftarrow> getOneHotPortNumber (rt_iface entry);
     write_rtable_rows n (Suc i) (dropWhile (\<lambda>e. \<not> rt_is_active e) cur)
       (writeRegs (hw_route_writes entry port i) h)
   }"
| "write_rtable_rows (Suc n) i [] h = write_rtable_rows n (Suc i) []
     (writeRegs [(ROUTE_TABLE_ENTRY_IP_REG, 0), (ROUTE_TABLE_ENTRY_MASK_REG, 0),
        (ROUTE_TABLE_ENTRY_NEXT_HOP_IP_REG, 0), (ROUTE_TABLE_ENTRY_OUTPUT_PORT_REG, 0),
        (WR_ADDR_REG ROUTE_TABLE, of_nat i)] h)"

definition write_rtable_to_hw :: "router_state \<Rightarrow> router_state option" where
  "write_rtable_to_hw rs = do {
     h \<leftarrow> write_rtable_rows TABLE_DEPTH 0 (dropWhile (\<lambda>e. \<not> rt_is_active e) (rtable rs)) (netfpga rs);
     Some (rs\<lparr>netfpga := h\<rparr>)
   }"

definition trigger_rtable_modified :: "router_state \<Rightarrow> router_state option" where
  "trigger_rtable_modified rs = do {
     sorted \<leftarrow> bubble_sort rt_before (rtable rs);
     let rs = rs\<lparr>rtable := sorted\<rparr>;
     if is_netfpga rs then write_rtable_to_hw rs else Some rs
   }"

section \<open>Operations\<close>

definition add_route :: "router_state \<Rightarrow> u32 \<Rightarrow> u32 \<Rightarrow> u32 \<Rightarrow> string \<Rightarrow> (int \<times> router_state) option" where
  "add_route rs dest gateway rmask interface = do {
     let entry = \<lparr>rt_ip = dest, rt_gw = gateway, rt_mask = rmask, rt_iface = strncpy interface IF_LEN,
                  rt_is_static = True, rt_is_active = True\<rparr>;
     rs \<leftarrow> trigger_rtable_modified (rs\<lparr>rtable := rtable rs @ [entry]\<rparr>);
     Some (0, rs)
   }"

definition same_route :: "u32 \<Rightarrow> u32 \<Rightarrow> rtable_entry \<Rightarrow> bool" where
  "same_route dest rmask entry \<longleftrightarrow> dest = rt_ip entry \<and> rmask = rt_mask entry"

definition del_route :: "router_state \<Rightarrow> u32 \<Rightarrow> u32 \<Rightarrow> (nat \<times> router_state) option" where
  "del_route rs dest rmask = do {
     let removed_routes = length (filter (same_route dest rmask) (rtable rs));
     rs \<leftarrow> trigger_rtable_modified
       (rs\<lparr>rtable := filter (\<lambda>e. \<not> same_route dest rmask e) (rtable rs)\<rparr>);
     Some (removed_routes, rs)
   }"

text \<open>The interface is compared on the length of the argument.\<close>

definition route_on :: "string \<Rightarrow> rtable_entry \<Rightarrow> bool" where
  "route_on interface entry \<longleftrightarrow> strncmp_eq (rt_iface entry) interface (length interface)"

fun deactivate_walk :: "string \<Rightarrow> rtable_entry list \<Rightarrow> rtable_entry list" where
  "deactivate_walk interface [] = []"
| "deactivate_walk interface (entry # next) =
     (if route_on interface entry
      then if rt_is_static entry
        then entry\<lparr>rt_is_active := False\<rparr> # deactivate_walk interface next
        else deactivate_walk interface next
      else entry # deactivate_walk interface next)"

definition deactivate_routes :: "router_state \<Rightarrow> string \<Rightarrow> (int \<times> router_state) option" where
  "deactivate_routes rs interface = do {
     rs \<leftarrow> trigger_rtable_modified (rs\<lparr>rtable := deactivate_walk interface (rtable rs)\<rparr>);
     Some (0, rs)
   }"

definition activate_routes :: "router_state \<Rightarrow> string \<Rightarrow> (int \<times> router_state) option" where
  "activate_routes rs interface = do {
     rs \<leftarrow> trigger_rtable_modified
       (rs\<lparr>rtable := map (\<lambda>e. if route_on interface e then e\<lparr>rt_is_active := True\<rparr> else e) (rtable rs)\<rparr>);
     Some (0, rs)
   }"

section \<open>The invariant\<close>

text \<open>The condition of the sort compares the keys (mask, address, static) lexicographically.\<close>

definition rt_key :: "rtable_entry \<Rightarrow> u32 \<times> u32 \<times> nat" where
  "rt_key e = (ntohl (rt_mask e), ntohl (rt_ip e), if rt_is_static e then 1 else 0)"

lemma rt_before_key: "rt_before a b \<longleftrightarrow> rt_key a < rt_key b"
  by (auto simp: rt_before_def rt_key_def) (metis ntohl_inject order_le_imp_less_or_eq)

lemma rt_before_order: "asymp rt_before" "transp (\<lambda>a b. \<not> rt_before a b)"
  by (auto intro!: asympI transpI simp: rt_before_key)

definition rtable_sorted :: "rtable_entry list \<Rightarrow> bool" where
  "rtable_sorted rt \<longleftrightarrow> sorted_wrt (\<lambda>a b. \<not> rt_before a b) rt"

definition active_routes :: "router_state \<Rightarrow> rtable_entry list" where
  "active_routes rs = filter rt_is_active (rtable rs)"

definition route_row :: "rtable_entry \<Rightarrow> u32 list option" where
  "route_row e = map_option (\<lambda>port. [ntohl (rt_ip e), ntohl (rt_mask e), ntohl (rt_gw e), port])
     (getOneHotPortNumber (rt_iface e))"

text \<open>The card holds the active entries in the order of the table, and zero rows behind them.\<close>

definition rtable_mirrored :: "router_state \<Rightarrow> bool" where
  "rtable_mirrored rs \<longleftrightarrow> (\<forall>j<32. if j < length (active_routes rs)
     then route_row (active_routes rs ! j) = Some (hw_rows (netfpga rs) ROUTE_TABLE j)
     else hw_rows (netfpga rs) ROUTE_TABLE j = [0, 0, 0, 0])"

definition rtable_ok :: "router_state \<Rightarrow> bool" where
  "rtable_ok rs \<longleftrightarrow> rtable_sorted (rtable rs) \<and> rt_iface ` set (rtable rs) \<subseteq> hw_ports
     \<and> (is_netfpga rs \<longrightarrow> rtable_mirrored rs)"

lemma idle_active: "dropWhile (\<lambda>e. \<not> rt_is_active e) (filter rt_is_active xs) = filter rt_is_active xs"
  by (induction xs) auto

lemma write_rtable_rows_active:
  "write_rtable_rows n i (dropWhile (\<lambda>e. \<not> rt_is_active e) xs) h
     = write_rtable_rows n i (filter rt_is_active xs) h"
proof (induction n arbitrary: i xs h)
  case (Suc n)
  show ?case
  proof (cases "dropWhile (\<lambda>e. \<not> rt_is_active e) xs")
    case Nil
    then have "filter rt_is_active xs = []" by (simp add: filter_empty_conv)
    with Nil show ?thesis by (simp only:)
  next
    case (Cons e ys)
    then have "rt_is_active e" by (metis (mono_tags, lifting) hd_dropWhile list.discI list.sel(1))
    moreover have "filter rt_is_active xs = filter rt_is_active (e # ys)"
      by (metis (mono_tags, lifting) Cons filter_append filter_False append_Nil set_takeWhileD takeWhile_dropWhile_id)
    ultimately have f: "filter rt_is_active xs = e # filter rt_is_active ys" by simp
    show ?thesis unfolding Cons f by (simp add: Suc.IH idle_active cong: Option.bind_cong)
  qed
qed simp

interpretation route_rows: row_writer ROUTE_TABLE
  "\<lambda>e. if rt_is_active e then route_row e else None" "\<lambda>vs. vs = [0, 0, 0, 0]"
  "\<lambda>n i cur h. write_rtable_rows n i (dropWhile (\<lambda>e. \<not> rt_is_active e) cur) h"
  by unfold_locales
    (auto simp: unat_row route_row_def hw_route_writes_def split: if_splits)

lemma write_rtable_to_hw_mirrors:
  assumes "rt_iface ` set (rtable rs) \<subseteq> hw_ports"
  shows "\<exists>h. write_rtable_to_hw rs = Some (rs\<lparr>netfpga := h\<rparr>) \<and> rtable_mirrored (rs\<lparr>netfpga := h\<rparr>)
    \<and> (\<forall>t. t \<noteq> ROUTE_TABLE \<longrightarrow> hw_rows h t = hw_rows (netfpga rs) t)"
proof -
  let ?a = "active_routes rs"
  have idle: "dropWhile (\<lambda>e. \<not> rt_is_active e) ?a = ?a"
    using idle_active [of "rtable rs"] by (simp add: active_routes_def)
  have act: "rt_is_active e \<and> route_row e \<noteq> None" if "e \<in> set ?a" for e
  proof -
    have "rt_iface e \<in> hw_ports" using that assms by (auto simp: active_routes_def)
    then show ?thesis using that one_hot_defined by (auto simp: active_routes_def route_row_def)
  qed
  have "\<forall>e\<in>set ?a. (if rt_is_active e then route_row e else None) \<noteq> None"
    using act by simp
  from route_rows.mirrors_table [OF this, unfolded idle, of "netfpga rs"]
  obtain h where h: "write_rtable_rows TABLE_DEPTH 0 ?a (netfpga rs) = Some h"
    and rows: "\<forall>j<TABLE_DEPTH. if j < length ?a
        then (if rt_is_active (?a ! j) then route_row (?a ! j) else None) = Some (hw_rows h ROUTE_TABLE j)
        else hw_rows h ROUTE_TABLE j = [0, 0, 0, 0]"
    and other: "\<forall>t. t \<noteq> ROUTE_TABLE \<longrightarrow> hw_rows h t = hw_rows (netfpga rs) t"
    by (elim exE conjE) (rule that)
  have "rtable_mirrored (rs\<lparr>netfpga := h\<rparr>)"
    unfolding rtable_mirrored_def
  proof (intro allI impI)
    fix j :: nat assume "j < 32"
    moreover have "active_routes (rs\<lparr>netfpga := h\<rparr>) = ?a" by (simp add: active_routes_def)
    ultimately show "if j < length (active_routes (rs\<lparr>netfpga := h\<rparr>))
      then route_row (active_routes (rs\<lparr>netfpga := h\<rparr>) ! j) = Some (hw_rows (netfpga (rs\<lparr>netfpga := h\<rparr>)) ROUTE_TABLE j)
      else hw_rows (netfpga (rs\<lparr>netfpga := h\<rparr>)) ROUTE_TABLE j = [0, 0, 0, 0]"
      using rows [rule_format, of j] act [OF nth_mem, of j] by (simp add: TABLE_DEPTH_def split: if_splits)
  qed
  moreover have "write_rtable_to_hw rs = Some (rs\<lparr>netfpga := h\<rparr>)"
    using h by (simp add: write_rtable_to_hw_def write_rtable_rows_active active_routes_def)
  ultimately show ?thesis using other by blast
qed

text \<open>What a table change followed by \<open>trigger_rtable_modified\<close> gives.\<close>

lemma trigger_rtable_modified_ok:
  assumes "rt_iface ` set (rtable rs) \<subseteq> hw_ports"
  shows "\<exists>rs'. trigger_rtable_modified rs = Some rs' \<and> rtable_ok rs' \<and> mset (rtable rs') = mset (rtable rs)
    \<and> rs' = rs\<lparr>rtable := rtable rs', netfpga := netfpga rs'\<rparr>
    \<and> (\<forall>t. t \<noteq> ROUTE_TABLE \<longrightarrow> hw_rows (netfpga rs') t = hw_rows (netfpga rs) t)"
proof -
  obtain ys where ys: "bubble_sort rt_before (rtable rs) = Some ys" "mset ys = mset (rtable rs)"
      "rtable_sorted ys"
    using bubble_sort_correct [OF rt_before_order] unfolding rtable_sorted_def by blast
  let ?r = "rs\<lparr>rtable := ys\<rparr>"
  have s: "set ys = set (rtable rs)" using ys(2) by (metis set_mset_mset)
  with assms have p: "rt_iface ` set (rtable ?r) \<subseteq> hw_ports" by simp
  show ?thesis
  proof (cases "is_netfpga rs")
    case True
    obtain h where "write_rtable_to_hw ?r = Some (?r\<lparr>netfpga := h\<rparr>)" "rtable_mirrored (?r\<lparr>netfpga := h\<rparr>)"
        "\<forall>t. t \<noteq> ROUTE_TABLE \<longrightarrow> hw_rows h t = hw_rows (netfpga rs) t"
      using write_rtable_to_hw_mirrors [OF p] by auto
    with ys True p show ?thesis
      by (auto simp: trigger_rtable_modified_def rtable_ok_def)
  next
    case False
    with ys p show ?thesis
      by (auto simp: trigger_rtable_modified_def rtable_ok_def)
  qed
qed

lemma deactivate_walk_ifaces: "rt_iface ` set (deactivate_walk ifc rt) \<subseteq> rt_iface ` set rt"
  by (induction ifc rt rule: deactivate_walk.induct) auto

lemma trigger_after:
  assumes "rt_iface ` set (rtable rs) \<subseteq> hw_ports"
  obtains rs' where "trigger_rtable_modified rs = Some rs'" "rtable_ok rs'"
    "mset (rtable rs') = mset (rtable rs)" "rs' = rs\<lparr>rtable := rtable rs', netfpga := netfpga rs'\<rparr>"
    "\<forall>t. t \<noteq> ROUTE_TABLE \<longrightarrow> hw_rows (netfpga rs') t = hw_rows (netfpga rs) t"
  using trigger_rtable_modified_ok [OF assms] by blast



text \<open>After \<open>deactivate_routes\<close> no active route leads over the interface: the dynamic ones are
  gone, the static ones are kept inactive, and the routes over other interfaces are untouched.
  \<open>activate_routes\<close> makes every route over the interface active and changes no other. Both leave
  the table in its invariant.\<close>

theorem interface_routes_switch:
  assumes "rt_iface ` set (rtable rs) \<subseteq> hw_ports"
  shows "(\<exists>rs'. deactivate_routes rs interface = Some (0, rs') \<and> rtable_ok rs'
      \<and> filter_mset (route_on interface) (mset (rtable rs')) = {#e\<lparr>rt_is_active := False\<rparr>. e \<in>#
            filter_mset (\<lambda>e. route_on interface e \<and> rt_is_static e) (mset (rtable rs))#}
      \<and> filter_mset (\<lambda>e. \<not> route_on interface e) (mset (rtable rs'))
          = filter_mset (\<lambda>e. \<not> route_on interface e) (mset (rtable rs)))
    \<and> (\<exists>rs'. activate_routes rs interface = Some (0, rs') \<and> rtable_ok rs'
      \<and> filter_mset (route_on interface) (mset (rtable rs')) = {#e\<lparr>rt_is_active := True\<rparr>. e \<in>#
            filter_mset (route_on interface) (mset (rtable rs))#}
      \<and> filter_mset (\<lambda>e. \<not> route_on interface e) (mset (rtable rs'))
          = filter_mset (\<lambda>e. \<not> route_on interface e) (mset (rtable rs)))"
proof (rule conjI)
  have on: "route_on interface (e\<lparr>rt_is_active := b\<rparr>) = route_on interface e" for e b
    by (simp add: route_on_def)
  let ?d = "rs\<lparr>rtable := deactivate_walk interface (rtable rs)\<rparr>"
  have "rt_iface ` set (rtable ?d) \<subseteq> hw_ports" using assms deactivate_walk_ifaces by fastforce
  then obtain rd where rd: "trigger_rtable_modified ?d = Some rd" "rtable_ok rd"
      "mset (rtable rd) = mset (deactivate_walk interface (rtable rs))"
    using trigger_rtable_modified_ok [of ?d] by auto
  have "filter_mset (route_on interface) (mset (deactivate_walk interface rt)) = {#e\<lparr>rt_is_active := False\<rparr>. e \<in>#
      filter_mset (\<lambda>e. route_on interface e \<and> rt_is_static e) (mset rt)#}
    \<and> filter_mset (\<lambda>e. \<not> route_on interface e) (mset (deactivate_walk interface rt))
      = filter_mset (\<lambda>e. \<not> route_on interface e) (mset rt)" for rt
    by (induction rt) (auto simp: on)
  with rd show "\<exists>rs'. deactivate_routes rs interface = Some (0, rs') \<and> rtable_ok rs'
      \<and> filter_mset (route_on interface) (mset (rtable rs')) = {#e\<lparr>rt_is_active := False\<rparr>. e \<in>#
            filter_mset (\<lambda>e. route_on interface e \<and> rt_is_static e) (mset (rtable rs))#}
      \<and> filter_mset (\<lambda>e. \<not> route_on interface e) (mset (rtable rs'))
          = filter_mset (\<lambda>e. \<not> route_on interface e) (mset (rtable rs))"
    by (intro exI [of _ rd]) (simp add: deactivate_routes_def)
next
  have on: "route_on interface (e\<lparr>rt_is_active := b\<rparr>) = route_on interface e" for e b
    by (simp add: route_on_def)
  let ?f = "\<lambda>e. if route_on interface e then e\<lparr>rt_is_active := True\<rparr> else e"
  let ?a = "rs\<lparr>rtable := map ?f (rtable rs)\<rparr>"
  have "rt_iface ` set (rtable ?a) \<subseteq> hw_ports" using assms by (auto split: if_splits)
  then obtain ra where ra: "trigger_rtable_modified ?a = Some ra" "rtable_ok ra"
      "mset (rtable ra) = mset (map ?f (rtable rs))"
    using trigger_rtable_modified_ok [of ?a] by auto
  have "filter_mset (route_on interface) (mset (map ?f rt)) = {#e\<lparr>rt_is_active := True\<rparr>. e \<in>#
      filter_mset (route_on interface) (mset rt)#}
    \<and> filter_mset (\<lambda>e. \<not> route_on interface e) (mset (map ?f rt))
      = filter_mset (\<lambda>e. \<not> route_on interface e) (mset rt)" for rt
    by (induction rt) (auto simp: on)
  with ra show "\<exists>rs'. activate_routes rs interface = Some (0, rs') \<and> rtable_ok rs'
      \<and> filter_mset (route_on interface) (mset (rtable rs')) = {#e\<lparr>rt_is_active := True\<rparr>. e \<in>#
            filter_mset (route_on interface) (mset (rtable rs))#}
      \<and> filter_mset (\<lambda>e. \<not> route_on interface e) (mset (rtable rs'))
          = filter_mset (\<lambda>e. \<not> route_on interface e) (mset (rtable rs))"
    by (intro exI [of _ ra]) (simp add: activate_routes_def)
qed

definition sample_route :: rtable_entry where
  "sample_route = \<lparr>rt_ip = 0x0002000A, rt_gw = 0x0101000A, rt_mask = 0x00FFFFFF, rt_iface = ''eth1'',
     rt_is_static = True, rt_is_active = True\<rparr>"

theorem interface_routes_switch_witness:
  "\<exists>rs'. deactivate_routes (empty_router\<lparr>rtable := [sample_route]\<rparr>) ''eth1'' = Some (0, rs')
    \<and> filter_mset (route_on ''eth1'') (mset (rtable rs')) = {#sample_route\<lparr>rt_is_active := False\<rparr>#}"
  using interface_routes_switch [of "empty_router\<lparr>rtable := [sample_route]\<rparr>" "''eth1''"]
  by (auto simp: empty_router_def hw_ports_def sample_route_def route_on_def strncmp_eq_def)

section \<open>Software and hardware lookup agree\<close>

text \<open>
  The lookup of the card (ip_lpm.v and unencoded_cam_lut_sm.v under lib/verilog): the first row
  whose address agrees with the destination on the bits of its mask; a next hop 0 is the
  destination. The value is the next hop and the output port.
\<close>

definition hw_route_lookup :: "(nat \<Rightarrow> u32 list) \<Rightarrow> u32 \<Rightarrow> (u32 \<times> u32) option" where
  "hw_route_lookup rows dst =
     (case find (\<lambda>i. rows i ! 0 AND rows i ! 1 = dst AND rows i ! 1) [0..<TABLE_DEPTH] of
        None \<Rightarrow> None
      | Some i \<Rightarrow> Some (if rows i ! 2 = 0 then dst else rows i ! 2, rows i ! 3))"

definition contiguous_mask :: "u32 \<Rightarrow> bool" where
  "contiguous_mask m \<longleftrightarrow> (\<exists>k\<le>32. m = NOT (mask k))"

lemma bits_matched_bits: "bits_matched m = int (length (filter (bit m) [0..<32]))"
proof -
  have "(drop_bit i m AND 1 \<noteq> 0) = bit m i" for i
    by (simp add: and_one_eq odd_iff_mod_2_eq_one [symmetric] bit_iff_odd_drop_bit)
  then show ?thesis by (simp add: bits_matched_def)
qed

lemma bits_matched_contiguous: "k \<le> 32 \<Longrightarrow> bits_matched (NOT (mask k)) = 32 - int k"
proof -
  assume k: "k \<le> 32"
  have "filter (bit (NOT (mask k) :: u32)) [0..<32] = filter (\<lambda>i. k \<le> i) [0..<32]"
    by (rule filter_cong) (auto simp: bit_simps)
  also have "\<dots> = [k..<32]"
  proof -
    have "[0..<32] = [0..<k] @ [k..<32]" using k by (metis le_add_diff_inverse upt_add_eq_append zero_le)
    then show ?thesis by simp
  qed
  finally show ?thesis using k by (simp add: bits_matched_bits)
qed

lemma contiguous_mask_bits:
  assumes "contiguous_mask a" "contiguous_mask b" "a \<le> b"
  shows "bits_matched a \<le> bits_matched b"
proof -
  obtain k l where k: "k \<le> 32" "a = NOT (mask k)" and l: "l \<le> 32" "b = NOT (mask l)"
    using assms by (auto simp: contiguous_mask_def)
  have u: "uint (NOT (mask n) :: u32) = 2 ^ 32 - 2 ^ n" if "n \<le> 32" for n
  proof -
    have "NOT (mask n :: u32) = - 1 - mask n" by (simp add: not_eq_complement)
    moreover have "(mask n :: u32) \<le> - 1" by simp
    ultimately have "uint (NOT (mask n) :: u32) = uint (- 1 :: u32) - uint (mask n :: u32)"
      using uint_minus_simple_alt by metis
    moreover have "uint (mask n :: u32) = 2 ^ n - 1"
      unfolding uint_mask_eq using that by (simp add: min_def mask_eq_exp_minus_1)
    moreover have "uint (- 1 :: u32) = 2 ^ 32 - 1"
      by (simp add: unsigned_minus_1_eq_mask mask_eq_exp_minus_1)
    ultimately show ?thesis by simp
  qed
  have "(2 :: int) ^ l \<le> 2 ^ k" using assms(3) u [OF k(1)] u [OF l(1)] k l by (simp add: word_le_def)
  then have "l \<le> k" by (metis power_increasing_iff one_less_numeral_iff semiring_norm(76))
  then show ?thesis using k l by (simp add: bits_matched_contiguous)
qed

lemma lpm_scan_active: "lpm_scan d (filter rt_is_active rt) lpm b = lpm_scan d rt lpm b"
  by (induction d rt lpm b rule: lpm_scan.induct) auto

text \<open>C6: when the table is in its invariant, fits the card and has contiguous masks, the card
  forwards as the software would: every destination that \<open>get_next_hop\<close> resolves is resolved by
  the card to the same next hop, and to the port of the same interface.\<close>

theorem hardware_routes_as_software:
  assumes "rtable_ok rs" "is_netfpga rs" "length (active_routes rs) \<le> 32"
    "\<forall>e\<in>set (active_routes rs). contiguous_mask (ntohl (rt_mask e))"
    "get_next_hop rs 32 destination = Some (hop, iface)"
  shows "\<exists>port. getOneHotPortNumber iface = Some port
    \<and> hw_route_lookup (hw_rows (netfpga rs) ROUTE_TABLE) (ntohl destination) = Some (ntohl hop, port)"
proof -
  let ?af = "active_routes rs" and ?d = destination
  let ?rows = "hw_rows (netfpga rs) ROUTE_TABLE"
  let ?P = "\<lambda>i. ?rows i ! 0 AND ?rows i ! 1 = ntohl ?d AND ?rows i ! 1"
  obtain re where re: "lpm_scan ?d ?af None (- 1) = Some re"
      "hop = (if rt_gw re = 0 then ?d else rt_gw re)" "iface = strncpy (rt_iface re) 32"
    using assms(5) by (auto simp: get_next_hop_def active_routes_def lpm_scan_active split: option.splits)
  then obtain i where i: "is_longest_match ?d ?af i" "re = ?af ! i"
    using lpm_scan_iff(1) by blast
  then have il: "i < length ?af" "candidate ?d (?af ! i)" by (simp_all add: is_longest_match_def)
  have row: "route_row (?af ! j) = Some (?rows j)" if "j < length ?af" for j
    using assms(1,2,3) that by (auto simp: rtable_ok_def rtable_mirrored_def)
  have P: "?P j \<longleftrightarrow> candidate ?d (?af ! j)" if jl: "j < length ?af" for j
  proof -
    have "rt_is_active (?af ! j)" using nth_mem [OF jl] by (simp add: active_routes_def)
    moreover obtain port where "?rows j = [ntohl (rt_ip (?af ! j)), ntohl (rt_mask (?af ! j)),
        ntohl (rt_gw (?af ! j)), port]"
      using row [OF jl] by (auto simp: route_row_def dest: sym)
    ultimately show ?thesis by (simp add: candidate_def route_matches_def)
  qed
  have first: "\<not> ?P j" if "j < i" for j
  proof
    assume "?P j"
    with that il(1) P have c: "candidate ?d (?af ! j)" by simp
    have jl: "j < length ?af" using that il(1) by simp
    with c that i(1) have lt: "bits_matched (ntohl (rt_mask (?af ! j))) < bits_matched (ntohl (rt_mask (?af ! i)))"
      by (simp add: is_longest_match_def)
    have "sorted_wrt (\<lambda>a b. \<not> rt_before a b) ?af"
      using assms(1) by (auto simp: rtable_ok_def rtable_sorted_def active_routes_def intro: sorted_wrt_filter)
    then have "\<not> rt_before (?af ! j) (?af ! i)" using that il(1) by (auto dest: sorted_wrt_nth_less)
    then have "ntohl (rt_mask (?af ! i)) \<le> ntohl (rt_mask (?af ! j))" by (auto simp: rt_before_def not_less)
    moreover have "contiguous_mask (ntohl (rt_mask (?af ! i)))" "contiguous_mask (ntohl (rt_mask (?af ! j)))"
      using assms(4) il(1) jl by auto
    ultimately show False using contiguous_mask_bits lt by fastforce
  qed
  have "find ?P [0..<TABLE_DEPTH] = Some i"
    unfolding find_Some_iff
    using il P [OF il(1)] first assms(3) by (intro exI [of _ i]) (auto simp: TABLE_DEPTH_def)
  moreover obtain port where port: "getOneHotPortNumber (rt_iface re) = Some port"
      "?rows i = [ntohl (rt_ip re), ntohl (rt_mask re), ntohl (rt_gw re), port]"
    using row [OF il(1)] i(2) by (auto simp: route_row_def)
  moreover have "length (rt_iface re) \<le> 32"
    using port(1) one_hot_defined [of "rt_iface re"] by (auto simp: hw_ports_def)
  moreover have "ntohl (rt_gw re) = 0 \<longleftrightarrow> rt_gw re = 0"
    using ntohl_inject [of "rt_gw re" 0] by (simp add: ntohl_def le32_def byte_of_def)
  ultimately show ?thesis using re by (simp add: hw_route_lookup_def)
qed

theorem hardware_routes_as_software_witness:
  "\<exists>rs'. add_route empty_router 0x0002000A 0x0101000A 0x00FFFFFF ''eth1'' = Some (0, rs')
    \<and> hw_route_lookup (hw_rows (netfpga rs') ROUTE_TABLE) (ntohl 0x0702000A) = Some (ntohl 0x0101000A, 4)"
proof -
  let ?r = "empty_router\<lparr>rtable := [sample_route]\<rparr>"
  have "rt_iface ` set (rtable ?r) \<subseteq> hw_ports" by (simp add: sample_route_def hw_ports_def)
  then obtain rs' where t: "trigger_rtable_modified ?r = Some rs'" and ok: "rtable_ok rs'"
    and m: "mset (rtable rs') = mset (rtable ?r)"
    and f: "rs' = ?r\<lparr>rtable := rtable rs', netfpga := netfpga rs'\<rparr>"
    by (rule trigger_after)
  have rt: "rtable rs' = [sample_route]" using m by simp
  have n: "is_netfpga rs'" by (subst f) (simp add: empty_router_def)
  have a: "add_route empty_router 0x0002000A 0x0101000A 0x00FFFFFF ''eth1'' = Some (0, rs')"
    using t by (simp add: add_route_def empty_router_def sample_route_def strncpy_def IF_LEN_def)
  have "ntohl 0x00FFFFFF = NOT (mask 8)"
    by (simp add: ntohl_def le32_def byte_of_def mask_eq_exp_minus_1)
  then have c: "contiguous_mask (ntohl 0x00FFFFFF)"
    unfolding contiguous_mask_def by (intro exI [of _ 8]) simp
  have "get_next_hop rs' 32 0x0702000A = Some (0x0101000A, ''eth1'')"
    by (simp add: get_next_hop_def rt sample_route_def route_matches_def ntohl_def le32_def byte_of_def
        bits_matched_def strncpy_def)
  then have "\<exists>port. getOneHotPortNumber ''eth1'' = Some port
    \<and> hw_route_lookup (hw_rows (netfpga rs') ROUTE_TABLE) (ntohl 0x0702000A) = Some (ntohl 0x0101000A, port)"
    using ok n c by (intro hardware_routes_as_software [of rs'])
      (simp_all add: active_routes_def rt sample_route_def)
  then show ?thesis using a by (auto simp: getOneHotPortNumber_def)
qed

end
