(* ===== verification/Ctable.thy ===== *)
theory Ctable
  imports Rtable
begin

text \<open>
  The content table of the CCDN router, or_ctable.c: which neighbour serves which version of a
  content name. It is a list of at most 32 entries with the most recently confirmed entry first,
  copied to the card after every change.
\<close>

section \<open>The code\<close>

definition NUM_UPPORT :: nat where "NUM_UPPORT = 1"
definition NUM_DNPORT :: nat where "NUM_DNPORT = 3"
definition DIVIDE_LINE :: u32 where "DIVIDE_LINE = 20"

lemmas port_limits = NUM_UPPORT_def NUM_DNPORT_def DIVIDE_LINE_def

definition get_nexthop_by_iface :: "router_state \<Rightarrow> string \<Rightarrow> u32 option" where
  "get_nexthop_by_iface rs interface =
     map_option rt_ip (find (\<lambda>re. strncmp_eq (rt_iface re) interface IF_LEN) (rtable rs))"

definition hw_content_writes :: "ctable_entry \<Rightarrow> u32 \<Rightarrow> nat \<Rightarrow> (hw_reg \<times> u32) list" where
  "hw_content_writes entry port i =
     [(CCCP_TABLE_ENTRY_NAME_REG, ntohl (ct_content entry)), (CCCP_TABLE_ENTRY_VN_REG, ucast (ct_ver_num entry)),
      (CCCP_TABLE_ENTRY_NEXT_HOP_IP_REG, ntohl (ct_nexthop entry)), (CCCP_TABLE_ENTRY_OUTPUT_PORT_REG, port),
      (WR_ADDR_REG CCCP_TABLE, of_nat i)]"

text \<open>The rows behind the list are cleared without a write to the version register.\<close>

fun write_ctable_rows :: "nat \<Rightarrow> nat \<Rightarrow> ctable_entry list \<Rightarrow> hw_state \<Rightarrow> hw_state option" where
  "write_ctable_rows 0 i cur h = Some h"
| "write_ctable_rows (Suc n) i (entry # cur) h = do {
     port \<leftarrow> getOneHotPortNumber (ct_iface entry);
     write_ctable_rows n (Suc i) cur (writeRegs (hw_content_writes entry port i) h)
   }"
| "write_ctable_rows (Suc n) i [] h = write_ctable_rows n (Suc i) []
     (writeRegs [(CCCP_TABLE_ENTRY_NAME_REG, 0), (CCCP_TABLE_ENTRY_NEXT_HOP_IP_REG, 0),
        (CCCP_TABLE_ENTRY_OUTPUT_PORT_REG, 0), (WR_ADDR_REG CCCP_TABLE, of_nat i)] h)"

definition write_ctable_to_hw :: "router_state \<Rightarrow> router_state option" where
  "write_ctable_to_hw rs = do {
     h \<leftarrow> write_ctable_rows TABLE_DEPTH 0 (ctable rs) (netfpga rs);
     Some (rs\<lparr>netfpga := h\<rparr>)
   }"

definition trigger_ctable_modified :: "router_state \<Rightarrow> router_state option" where
  "trigger_ctable_modified rs = (if is_netfpga rs then write_ctable_to_hw rs else Some rs)"

definition same_content :: "u32 \<Rightarrow> string \<Rightarrow> ctable_entry \<Rightarrow> bool" where
  "same_content ct_name interface ce \<longleftrightarrow>
     ntohl (ct_content ce) = ntohl ct_name \<and> strncmp_eq (ct_iface ce) interface IF_LEN"

text \<open>\<open>node_update\<close> moves the node to the front, \<open>node_insert_front\<close> drops the last node and puts
  the new one in front.\<close>

fun ct_to_front :: "(ctable_entry \<Rightarrow> bool) \<Rightarrow> ctable_entry list \<Rightarrow> ctable_entry list option" where
  "ct_to_front P [] = None"
| "ct_to_front P (ce # next) = (if P ce then Some (ce # next) else
     (case ct_to_front P next of None \<Rightarrow> None | Some rest \<Rightarrow> Some (hd rest # ce # tl rest)))"

definition add_content ::
    "router_state \<Rightarrow> u32 \<Rightarrow> u16 \<Rightarrow> u32 \<Rightarrow> string \<Rightarrow> (int \<times> router_state) option" where
  "add_content rs ct_name ver_num next_hop interface =
    (let entry = \<lparr>ct_content = ct_name, ct_ver_num = ver_num, ct_nexthop = next_hop,
           ct_iface = strncpy interface IF_LEN, ct_is_static = True, ct_is_active = True\<rparr>;
         table_len = length (ctable rs)
     in case ct_to_front (same_content ct_name interface) (ctable rs) of
       Some moved \<Rightarrow> do {
         rs \<leftarrow> trigger_ctable_modified (rs\<lparr>ctable := moved\<rparr>);
         Some (1, rs)
       }
     | None \<Rightarrow>
         if table_len \<le> MAX_CTABLE_DEPTH then
           if table_len < MAX_CTABLE_DEPTH then do {
             rs \<leftarrow> trigger_ctable_modified (rs\<lparr>ctable := entry # ctable rs\<rparr>);
             Some (0, rs)
           } else do {
             rs \<leftarrow> trigger_ctable_modified (rs\<lparr>ctable := entry # butlast (ctable rs)\<rparr>);
             Some (2, rs)
           }
         else Some (- 1, rs))"

definition del_content :: "router_state \<Rightarrow> u32 \<Rightarrow> u16 \<Rightarrow> string \<Rightarrow> (nat \<times> router_state) option" where
  "del_content rs ct_name ver_num interface = do {
     let removed_contents = length (filter (same_content ct_name interface) (ctable rs));
     rs \<leftarrow> trigger_ctable_modified
       (rs\<lparr>ctable := filter (\<lambda>ce. \<not> same_content ct_name interface ce) (ctable rs)\<rparr>);
     Some (removed_contents, rs)
   }"

text \<open>
  The walk of \<open>get_nexthop_by_content\<close>. \<open>down\<close> and \<open>up\<close> are the filled parts of the four arrays:
  port and next hop of the hits so far; they have \<open>NUM_DNPORT + 1\<close> and \<open>NUM_UPPORT + 1\<close> slots,
  and a store behind them is a fault. The result is the remaining table, the flag
  \<open>is_modified\<close> and the arrays.
\<close>

type_synonym port_hits = "(u32 \<times> u32) list"

fun content_walk :: "u32 \<Rightarrow> u16 \<Rightarrow> u32 \<Rightarrow> ctable_entry list \<Rightarrow> port_hits \<Rightarrow> port_hits \<Rightarrow>
    (ctable_entry list \<times> bool \<times> port_hits \<times> port_hits) option" where
  "content_walk ct_name ct_vn inport [] down up = Some ([], False, down, up)"
| "content_walk ct_name ct_vn inport (ce # next) down up =
     (if ntohl ct_name = ntohl (ct_content ce) then
        if ct_vn > ct_ver_num ce then do {
          (es, m, d, u) \<leftarrow> content_walk ct_name ct_vn inport next down up;
          Some (es, True, d, u)
        }
        else if ct_vn = ct_ver_num ce then do {
          outport \<leftarrow> getOneHotPortNumber (ct_iface ce);
          if outport \<noteq> inport then
            if outport < DIVIDE_LINE then
              if length down > NUM_DNPORT then None
              else if Suc (length down) > NUM_DNPORT \<or> length up > NUM_UPPORT
              then Some (ce # next, False, down @ [(outport, ct_nexthop ce)], up)
              else do {
                (es, m, d, u) \<leftarrow> content_walk ct_name ct_vn inport next (down @ [(outport, ct_nexthop ce)]) up;
                Some (ce # es, m, d, u)
              }
            else
              if length up > NUM_UPPORT then None
              else if length down > NUM_DNPORT \<or> Suc (length up) > NUM_UPPORT
              then Some (ce # next, False, down, up @ [(outport, ct_nexthop ce)])
              else do {
                (es, m, d, u) \<leftarrow> content_walk ct_name ct_vn inport next down (up @ [(outport, ct_nexthop ce)]);
                Some (ce # es, m, d, u)
              }
          else do {
            (es, m, d, u) \<leftarrow> content_walk ct_name ct_vn inport next down up;
            Some (es, True, d, u)
          }
        }
        else do {
          (es, m, d, u) \<leftarrow> content_walk ct_name ct_vn inport next down up;
          Some (ce # es, m, d, u)
        }
      else do {
        (es, m, d, u) \<leftarrow> content_walk ct_name ct_vn inport next down up;
        Some (ce # es, m, d, u)
      })"

definition choose_port :: "u32 \<Rightarrow> port_hits \<Rightarrow> u32 \<times> string" where
  "choose_port ct_name hits = (let (port, ip) = hits ! (unat (ntohl ct_name) mod length hits)
     in (ip, getIfaceFromOneHotPortNumber IF_LEN port))"

text \<open>A first component \<open>None\<close> is the return value 0, \<open>Some\<close> the two results returned with 1.\<close>

definition get_nexthop_by_content ::
    "router_state \<Rightarrow> u32 \<Rightarrow> u16 \<Rightarrow> string \<Rightarrow> ((u32 \<times> string) option \<times> router_state) option" where
  "get_nexthop_by_content rs ct_name ct_vn interface = do {
     inport \<leftarrow> getOneHotPortNumber interface;
     (es, is_modified, down, up) \<leftarrow> content_walk ct_name ct_vn inport (ctable rs) [] [];
     let rs = rs\<lparr>ctable := es\<rparr>;
     rs \<leftarrow> (if is_modified then trigger_ctable_modified rs else Some rs);
     if down = [] \<and> up = [] then Some (None, rs)
     else if 0 < length down \<and> length down \<le> NUM_DNPORT then Some (Some (choose_port ct_name down), rs)
     else if 0 < length up \<and> length up \<le> NUM_UPPORT then Some (Some (choose_port ct_name up), rs)
     else Some (None, rs)
   }"

section \<open>The copy on the card\<close>

definition content_row :: "ctable_entry \<Rightarrow> u32 list option" where
  "content_row e = map_option (\<lambda>port. [ntohl (ct_content e), ucast (ct_ver_num e), ntohl (ct_nexthop e), port])
     (getOneHotPortNumber (ct_iface e))"

definition ctable_mirrored :: "router_state \<Rightarrow> bool" where
  "ctable_mirrored rs \<longleftrightarrow> (\<forall>j<32. if j < length (ctable rs)
     then content_row (ctable rs ! j) = Some (hw_rows (netfpga rs) CCCP_TABLE j)
     else \<exists>v. hw_rows (netfpga rs) CCCP_TABLE j = [0, v, 0, 0])"

interpretation content_rows: row_writer CCCP_TABLE content_row "\<lambda>vs. \<exists>v. vs = [0, v, 0, 0]" write_ctable_rows
  by unfold_locales
    (auto simp: unat_row content_row_def hw_content_writes_def,
     rule exI, rule conjI, rule refl, rule exI, rule conjI, rule exI, rule refl, simp)

lemma trigger_ctable_modified_mirrors:
  assumes "ct_iface ` set (ctable rs) \<subseteq> hw_ports"
  obtains h where "trigger_ctable_modified rs = Some (rs\<lparr>netfpga := h\<rparr>)"
    "is_netfpga rs \<Longrightarrow> ctable_mirrored (rs\<lparr>netfpga := h\<rparr>)"
    "\<forall>t. t \<noteq> CCCP_TABLE \<longrightarrow> hw_rows h t = hw_rows (netfpga rs) t"
proof (cases "is_netfpga rs")
  case True
  have "\<forall>e\<in>set (ctable rs). content_row e \<noteq> None"
    using assms one_hot_defined by (auto simp: content_row_def)
  from content_rows.mirrors_table [OF this, of "netfpga rs"]
  obtain h where h: "write_ctable_rows TABLE_DEPTH 0 (ctable rs) (netfpga rs) = Some h"
    and rows: "\<forall>j<TABLE_DEPTH. if j < length (ctable rs)
        then content_row (ctable rs ! j) = Some (hw_rows h CCCP_TABLE j)
        else \<exists>v. hw_rows h CCCP_TABLE j = [0, v, 0, 0]"
    and other: "\<forall>t. t \<noteq> CCCP_TABLE \<longrightarrow> hw_rows h t = hw_rows (netfpga rs) t"
    by (elim exE conjE) (rule that)
  show ?thesis
  proof (rule that)
    show "trigger_ctable_modified rs = Some (rs\<lparr>netfpga := h\<rparr>)"
      using True h by (simp add: trigger_ctable_modified_def write_ctable_to_hw_def)
    show "ctable_mirrored (rs\<lparr>netfpga := h\<rparr>)"
      using rows by (simp add: ctable_mirrored_def TABLE_DEPTH_def)
  qed (fact other)
next
  case False
  then show ?thesis by (intro that [of "netfpga rs"]) (simp_all add: trigger_ctable_modified_def)
qed

section \<open>The invariant\<close>

definition content_key :: "ctable_entry \<Rightarrow> u32 \<times> string" where
  "content_key e = (ct_content e, ct_iface e)"

definition ctable_ok :: "router_state \<Rightarrow> bool" where
  "ctable_ok rs \<longleftrightarrow> length (ctable rs) \<le> MAX_CTABLE_DEPTH \<and> distinct (map content_key (ctable rs))
     \<and> ct_iface ` set (ctable rs) \<subseteq> hw_ports \<and> (is_netfpga rs \<longrightarrow> ctable_mirrored rs)"

lemma hw_ports_short: "name \<in> hw_ports \<Longrightarrow> length name < IF_LEN"
  by (auto simp: hw_ports_def IF_LEN_def)

lemma same_content_key:
  "ct_iface e \<in> hw_ports \<Longrightarrow> interface \<in> hw_ports \<Longrightarrow>
   same_content ct_name interface e \<longleftrightarrow> content_key e = (ct_name, interface)"
  by (auto simp: same_content_def content_key_def hw_ports_short)

lemma ct_to_front_None: "ct_to_front P xs = None \<longleftrightarrow> (\<forall>x\<in>set xs. \<not> P x)"
  by (induction xs) (auto split: option.splits)

lemma ct_to_front_Some:
  "ct_to_front P xs = Some ys \<Longrightarrow> \<exists>us x vs. xs = us @ x # vs \<and> P x \<and> (\<forall>u\<in>set us. \<not> P u) \<and> ys = x # us @ vs"
proof (induction xs arbitrary: ys)
  case (Cons a xs)
  show ?case
  proof (cases "P a")
    case True
    with Cons.prems show ?thesis by (intro exI [of _ "[]"]) auto
  next
    case False
    with Cons.prems obtain r where r: "ct_to_front P xs = Some r" "ys = hd r # a # tl r"
      by (auto split: option.splits)
    with Cons.IH obtain us x vs where "xs = us @ x # vs" "P x" "\<forall>u\<in>set us. \<not> P u" "r = x # us @ vs"
      by blast
    with False r show ?thesis by (intro exI [of _ "a # us"] exI [of _ x] exI [of _ vs]) auto
  qed
qed simp

lemma trigger_keeps_ok:
  assumes "length es \<le> MAX_CTABLE_DEPTH" "distinct (map content_key es)" "ct_iface ` set es \<subseteq> hw_ports"
  shows "\<exists>rs'. trigger_ctable_modified (rs\<lparr>ctable := es\<rparr>) = Some rs' \<and> ctable_ok rs' \<and> ctable rs' = es
    \<and> rs' = rs\<lparr>ctable := es, netfpga := netfpga rs'\<rparr>
    \<and> (\<forall>t. t \<noteq> CCCP_TABLE \<longrightarrow> hw_rows (netfpga rs') t = hw_rows (netfpga rs) t)"
proof -
  from assms(3) have "ct_iface ` set (ctable (rs\<lparr>ctable := es\<rparr>)) \<subseteq> hw_ports" by simp
  then obtain h where "trigger_ctable_modified (rs\<lparr>ctable := es\<rparr>) = Some (rs\<lparr>ctable := es, netfpga := h\<rparr>)"
      "is_netfpga rs \<Longrightarrow> ctable_mirrored (rs\<lparr>ctable := es, netfpga := h\<rparr>)"
      "\<forall>t. t \<noteq> CCCP_TABLE \<longrightarrow> hw_rows h t = hw_rows (netfpga rs) t"
    by (rule trigger_ctable_modified_mirrors) simp_all
  with assms show ?thesis
    by (intro exI [of _ "rs\<lparr>ctable := es, netfpga := h\<rparr>"]) (auto simp: ctable_ok_def)
qed

lemma add_content_front:
  assumes "ctable_ok rs" "interface \<in> hw_ports"
  shows "\<exists>ret rs'. add_content rs ct_name ver_num next_hop interface = Some (ret, rs') \<and> ctable_ok rs'
    \<and> rs' = rs\<lparr>ctable := ctable rs', netfpga := netfpga rs'\<rparr>
    \<and> (if (ct_name, interface) \<in> content_key ` set (ctable rs)
       then ret = 1 \<and> (\<exists>us e vs. ctable rs = us @ e # vs \<and> content_key e = (ct_name, interface)
              \<and> ctable rs' = e # us @ vs)
       else ret = (if length (ctable rs) < 32 then 0 else 2)
         \<and> ctable rs' = \<lparr>ct_content = ct_name, ct_ver_num = ver_num, ct_nexthop = next_hop,
              ct_iface = interface, ct_is_static = True, ct_is_active = True\<rparr> # take 31 (ctable rs))"
proof -
  let ?P = "same_content ct_name interface"
  let ?e = "\<lparr>ct_content = ct_name, ct_ver_num = ver_num, ct_nexthop = next_hop,
              ct_iface = interface, ct_is_static = True, ct_is_active = True\<rparr>"
  have ok: "length (ctable rs) \<le> 32" "distinct (map content_key (ctable rs))"
      "ct_iface ` set (ctable rs) \<subseteq> hw_ports"
    using assms(1) by (simp_all add: ctable_ok_def MAX_CTABLE_DEPTH_def)
  have P: "?P e \<longleftrightarrow> content_key e = (ct_name, interface)" if "e \<in> set (ctable rs)" for e
    using that ok(3) assms(2) by (intro same_content_key) auto
  have short: "strncpy interface IF_LEN = interface"
    using hw_ports_short [OF assms(2)] by simp
  show ?thesis
  proof (cases "ct_to_front ?P (ctable rs)")
    case (Some moved)
    then obtain us e vs where m: "ctable rs = us @ e # vs" "?P e" "moved = e # us @ vs"
      using ct_to_front_Some by blast
    then have k: "content_key e = (ct_name, interface)" using P by simp
    then have hit: "(ct_name, interface) \<in> content_key ` set (ctable rs)" using m(1) by force
    have "length moved \<le> MAX_CTABLE_DEPTH" "distinct (map content_key moved)"
        "ct_iface ` set moved \<subseteq> hw_ports"
      using ok m by (auto simp: MAX_CTABLE_DEPTH_def)
    from trigger_keeps_ok [OF this, where rs = rs]
    obtain rs' where "trigger_ctable_modified (rs\<lparr>ctable := moved\<rparr>) = Some rs'" "ctable_ok rs'"
        "ctable rs' = moved" "rs' = rs\<lparr>ctable := moved, netfpga := netfpga rs'\<rparr>"
      by blast
    then show ?thesis using hit m k Some
      by (intro exI [of _ 1] exI [of _ rs']) (auto simp: add_content_def Let_def)
  next
    case None
    then have new: "(ct_name, interface) \<notin> content_key ` set (ctable rs)"
      using P by (auto simp: ct_to_front_None)
    let ?es = "?e # take 31 (ctable rs)"
    have "content_key ` set (take 31 (ctable rs)) \<subseteq> content_key ` set (ctable rs)"
      "ct_iface ` set (take 31 (ctable rs)) \<subseteq> ct_iface ` set (ctable rs)"
      by (auto dest: in_set_takeD)
    moreover have "distinct (map content_key (take 31 (ctable rs)))"
      using ok(2) by (simp add: take_map [symmetric])
    ultimately have "length ?es \<le> MAX_CTABLE_DEPTH" "distinct (map content_key ?es)"
        "ct_iface ` set ?es \<subseteq> hw_ports"
      using new ok assms(2) by (auto simp: MAX_CTABLE_DEPTH_def content_key_def)
    from trigger_keeps_ok [OF this, where rs = rs]
    obtain rs' where rs': "trigger_ctable_modified (rs\<lparr>ctable := ?es\<rparr>) = Some rs'"
        "ctable_ok rs'" "ctable rs' = ?es" "rs' = rs\<lparr>ctable := ?es, netfpga := netfpga rs'\<rparr>"
      by blast
    have full: "butlast (ctable rs) = take 31 (ctable rs)" if "\<not> length (ctable rs) < 32"
      using that ok(1) by (simp add: butlast_conv_take)
    from rs' new None ok(1) full show ?thesis
      by (intro exI [of _ "if length (ctable rs) < 32 then 0 else 2"] exI [of _ rs'])
        (auto simp: add_content_def Let_def short MAX_CTABLE_DEPTH_def)
  qed
qed

text \<open>C11: \<open>add_content\<close> keeps the content table in its invariant: at most 32 entries, one per
  name and interface, copied to the card. A known name and interface returns 1 and moves its entry
  to the front, as it is: neither the version nor the next hop of the reply is taken over. A new
  one is put in front, with 0 while the table has room and with 2 when the entry at the end is
  given up for it. Apart from the content table and the card nothing changes.\<close>

theorem add_content_most_recent_first:
  assumes "ctable_ok rs" "interface \<in> hw_ports"
  shows "\<exists>ret rs'. add_content rs ct_name ver_num next_hop interface = Some (ret, rs') \<and> ctable_ok rs'
    \<and> rs' = rs\<lparr>ctable := ctable rs', netfpga := netfpga rs'\<rparr>
    \<and> (if (ct_name, interface) \<in> content_key ` set (ctable rs)
       then ret = 1 \<and> (\<exists>us e vs. ctable rs = us @ e # vs \<and> content_key e = (ct_name, interface)
              \<and> ctable rs' = e # us @ vs)
       else ret = (if length (ctable rs) < 32 then 0 else 2)
         \<and> ctable rs' = \<lparr>ct_content = ct_name, ct_ver_num = ver_num, ct_nexthop = next_hop,
              ct_iface = interface, ct_is_static = True, ct_is_active = True\<rparr> # take 31 (ctable rs))"
  using assms by (rule add_content_front)

definition sample_content :: ctable_entry where
  "sample_content = \<lparr>ct_content = 0x01010101, ct_ver_num = 3, ct_nexthop = 0x0A00000A, ct_iface = ''eth0'',
     ct_is_static = True, ct_is_active = True\<rparr>"

text \<open>The empty router with a cleared table on the card satisfies the invariant.\<close>

definition cleared_router :: router_state where
  "cleared_router = empty_router\<lparr>netfpga := \<lparr>hw_regs = \<lambda>_. 0, hw_rows = \<lambda>_ _. [0, 0, 0, 0]\<rparr>\<rparr>"

lemma cleared_router_ok: "ctable_ok cleared_router"
  by (simp add: cleared_router_def empty_router_def ctable_ok_def ctable_mirrored_def MAX_CTABLE_DEPTH_def)

theorem add_content_most_recent_first_witness:
  "\<exists>rs'. add_content cleared_router 0x01010101 3 0x0A00000A ''eth0'' = Some (0, rs') \<and> ctable_ok rs'
    \<and> ctable rs' = [sample_content]"
  using add_content_most_recent_first [OF cleared_router_ok, of "''eth0''" "0x01010101" 3 "0x0A00000A"]
  by (auto simp: hw_ports_def sample_content_def cleared_router_def empty_router_def)

lemma del_content_key:
  assumes "ctable_ok rs" "interface \<in> hw_ports"
  shows "\<exists>rs'. del_content rs ct_name ver_num interface
      = Some (if (ct_name, interface) \<in> content_key ` set (ctable rs) then 1 else 0, rs')
    \<and> ctable_ok rs' \<and> rs' = rs\<lparr>ctable := ctable rs', netfpga := netfpga rs'\<rparr>
    \<and> ctable rs' = filter (\<lambda>e. content_key e \<noteq> (ct_name, interface)) (ctable rs)"
proof -
  have ok: "length (ctable rs) \<le> MAX_CTABLE_DEPTH" "distinct (map content_key (ctable rs))"
      "ct_iface ` set (ctable rs) \<subseteq> hw_ports"
    using assms(1) by (simp_all add: ctable_ok_def)
  let ?k = "\<lambda>e. content_key e = (ct_name, interface)"
  have f: "filter (same_content ct_name interface) (ctable rs) = filter ?k (ctable rs)"
      "filter (\<lambda>e. \<not> same_content ct_name interface e) (ctable rs) = filter (\<lambda>e. \<not> ?k e) (ctable rs)"
    using ok(3) assms(2) same_content_key by (intro filter_cong; force)+
  have count: "length (filter ?k es) = (if (ct_name, interface) \<in> content_key ` set es then 1 else 0)"
    if "distinct (map content_key es)" for es
    using that by (induction es) (auto simp: filter_empty_conv)
  have "length (filter (\<lambda>e. \<not> ?k e) (ctable rs)) \<le> MAX_CTABLE_DEPTH"
      "distinct (map content_key (filter (\<lambda>e. \<not> ?k e) (ctable rs)))"
      "ct_iface ` set (filter (\<lambda>e. \<not> ?k e) (ctable rs)) \<subseteq> hw_ports"
    using ok by (auto intro: distinct_map_filter order.trans [OF length_filter_le])
  from trigger_keeps_ok [OF this, where rs = rs]
  obtain rs' where rs': "trigger_ctable_modified (rs\<lparr>ctable := filter (\<lambda>e. \<not> ?k e) (ctable rs)\<rparr>) = Some rs'"
      "ctable_ok rs'" "ctable rs' = filter (\<lambda>e. \<not> ?k e) (ctable rs)"
      "rs' = rs\<lparr>ctable := filter (\<lambda>e. \<not> ?k e) (ctable rs), netfpga := netfpga rs'\<rparr>"
    by blast
  then show ?thesis
    by (intro exI [of _ rs']) (simp add: del_content_def f count [OF ok(2)])
qed

text \<open>\<open>del_content\<close> removes exactly the entry of the name and interface, whatever its
  version, returns how many it removed (0 or 1), and keeps the invariant.\<close>

theorem del_content_removes_key:
  assumes "ctable_ok rs" "interface \<in> hw_ports"
  shows "\<exists>rs'. del_content rs ct_name ver_num interface
      = Some (if (ct_name, interface) \<in> content_key ` set (ctable rs) then 1 else 0, rs')
    \<and> ctable_ok rs' \<and> rs' = rs\<lparr>ctable := ctable rs', netfpga := netfpga rs'\<rparr>
    \<and> ctable rs' = filter (\<lambda>e. content_key e \<noteq> (ct_name, interface)) (ctable rs)"
  using assms by (rule del_content_key)

theorem del_content_removes_key_witness:
  "\<exists>rs rs'. ctable rs = [sample_content] \<and> del_content rs 0x01010101 9 ''eth0'' = Some (1, rs') \<and> ctable rs' = []"
proof -
  obtain rs' where a: "ctable_ok rs'" "ctable rs' = [sample_content]"
    using trigger_keeps_ok [of "[sample_content]" cleared_router]
    by (auto simp: sample_content_def hw_ports_def MAX_CTABLE_DEPTH_def)
  have "''eth0'' \<in> hw_ports" by (simp add: hw_ports_def)
  from del_content_removes_key [OF a(1) this, of "0x01010101" 9]
  obtain rs'' where "del_content rs' 0x01010101 9 ''eth0''
      = Some (if (0x01010101, ''eth0'') \<in> content_key ` set (ctable rs') then 1 else 0, rs'')"
    "ctable rs'' = filter (\<lambda>e. content_key e \<noteq> (0x01010101, ''eth0'')) (ctable rs')"
    by blast
  with a(2) show ?thesis
    by (intro exI [of _ rs'] exI [of _ rs'']) (simp add: sample_content_def content_key_def)
qed

section \<open>Lookup by content\<close>

text \<open>
  What the lookup should do: drop the entries of the name that are older than the request, and
  the entry of the requested version that points back to where the request came from; choose
  among the other entries of the version.
\<close>

definition content_stale :: "u32 \<Rightarrow> u16 \<Rightarrow> string \<Rightarrow> ctable_entry \<Rightarrow> bool" where
  "content_stale ct_name ct_vn interface e \<longleftrightarrow> ct_content e = ct_name
     \<and> (ct_ver_num e < ct_vn \<or> ct_ver_num e = ct_vn \<and> ct_iface e = interface)"

definition content_hit :: "u32 \<Rightarrow> u16 \<Rightarrow> string \<Rightarrow> ctable_entry \<Rightarrow> bool" where
  "content_hit ct_name ct_vn interface e \<longleftrightarrow> ct_content e = ct_name
     \<and> ct_ver_num e = ct_vn \<and> ct_iface e \<noteq> interface"

definition down_port :: "ctable_entry \<Rightarrow> bool" where
  "down_port e \<longleftrightarrow> ct_iface e \<in> {''eth0'', ''eth1'', ''eth2''}"

definition hit_slot :: "ctable_entry \<Rightarrow> u32 \<times> u32" where
  "hit_slot e = (the (getOneHotPortNumber (ct_iface e)), ct_nexthop e)"

definition content_hits :: "u32 \<Rightarrow> u16 \<Rightarrow> string \<Rightarrow> bool \<Rightarrow> ctable_entry list \<Rightarrow> ctable_entry list" where
  "content_hits ct_name ct_vn interface d es =
     filter (\<lambda>e. content_hit ct_name ct_vn interface e \<and> down_port e = d) es"

lemma one_hot_inject:
  "a \<in> hw_ports \<Longrightarrow> b \<in> hw_ports \<Longrightarrow> getOneHotPortNumber a = getOneHotPortNumber b \<longleftrightarrow> a = b"
  by (auto simp: hw_ports_def getOneHotPortNumber_def)

lemma eth_ports_hw: "eth_ports \<subseteq> hw_ports"
  by (auto simp: eth_ports_def hw_ports_def)

lemma content_walk_spec:
  assumes "ct_iface ` set es \<subseteq> eth_ports" "interface \<in> eth_ports" "getOneHotPortNumber interface = Some inport"
    "length down + length (content_hits ct_name ct_vn interface True es) \<le> NUM_DNPORT"
    "length up + length (content_hits ct_name ct_vn interface False es) \<le> NUM_UPPORT"
  shows "content_walk ct_name ct_vn inport es down up =
    Some (filter (\<lambda>e. \<not> content_stale ct_name ct_vn interface e) es,
      \<exists>e\<in>set es. content_stale ct_name ct_vn interface e,
      down @ map hit_slot (content_hits ct_name ct_vn interface True es),
      up @ map hit_slot (content_hits ct_name ct_vn interface False es))"
  using assms
proof (induction es arbitrary: down up)
  case (Cons e es)
  let ?hits = "content_hits ct_name ct_vn interface"
  have e: "ct_iface e \<in> eth_ports" using Cons.prems(1) by simp
  then obtain port where port: "getOneHotPortNumber (ct_iface e) = Some port"
    using one_hot_defined eth_ports_hw by blast
  have same: "port = inport \<longleftrightarrow> ct_iface e = interface"
    using one_hot_inject [of "ct_iface e" interface] e Cons.prems(2,3) port eth_ports_hw by auto
  have dn: "port < DIVIDE_LINE \<longleftrightarrow> down_port e"
    using e port by (auto simp: eth_ports_def getOneHotPortNumber_def down_port_def DIVIDE_LINE_def)
  have slot: "hit_slot e = (port, ct_nexthop e)" using port by (simp add: hit_slot_def)
  show ?case
  proof (cases "content_hit ct_name ct_vn interface e")
    case hit: True
    then have c: "ct_content e = ct_name" "ct_ver_num e = ct_vn" "port \<noteq> inport"
      using same by (auto simp: content_hit_def)
    then have ns: "\<not> content_stale ct_name ct_vn interface e" using hit by (simp add: content_stale_def content_hit_def)
    have step: "content_walk ct_name ct_vn inport (e # es) down up =
       (if port < DIVIDE_LINE then
              if length down > NUM_DNPORT then None
              else if Suc (length down) > NUM_DNPORT \<or> length up > NUM_UPPORT
              then Some (e # es, False, down @ [hit_slot e], up)
              else do {
                (es, m, d, u) \<leftarrow> content_walk ct_name ct_vn inport es (down @ [hit_slot e]) up;
                Some (e # es, m, d, u)
              }
            else
              if length up > NUM_UPPORT then None
              else if length down > NUM_DNPORT \<or> Suc (length up) > NUM_UPPORT
              then Some (e # es, False, down, up @ [hit_slot e])
              else do {
                (es, m, d, u) \<leftarrow> content_walk ct_name ct_vn inport es down (up @ [hit_slot e]);
                Some (e # es, m, d, u)
              })"
      using c port slot by simp
    show ?thesis
    proof (cases "down_port e")
      case True
      then have h: "?hits True (e # es) = e # ?hits True es" "?hits False (e # es) = ?hits False es"
        using hit by (simp_all add: content_hits_def)
      have lim: "\<not> length down > NUM_DNPORT" "\<not> Suc (length down) > NUM_DNPORT" "\<not> length up > NUM_UPPORT"
        using Cons.prems(4,5) unfolding h by simp_all
      have "content_walk ct_name ct_vn inport es (down @ [hit_slot e]) up =
        Some (filter (\<lambda>e. \<not> content_stale ct_name ct_vn interface e) es,
        \<exists>e\<in>set es. content_stale ct_name ct_vn interface e,
        (down @ [hit_slot e]) @ map hit_slot (?hits True es), up @ map hit_slot (?hits False es))"
        using Cons.prems unfolding h by (intro Cons.IH) simp_all
      with step lim dn True ns h show ?thesis by simp
    next
      case False
      then have h: "?hits True (e # es) = ?hits True es" "?hits False (e # es) = e # ?hits False es"
        using hit by (simp_all add: content_hits_def)
      have lim: "\<not> length up > NUM_UPPORT" "\<not> Suc (length up) > NUM_UPPORT" "\<not> length down > NUM_DNPORT"
        using Cons.prems(4,5) unfolding h by simp_all
      have "content_walk ct_name ct_vn inport es down (up @ [hit_slot e]) =
        Some (filter (\<lambda>e. \<not> content_stale ct_name ct_vn interface e) es,
        \<exists>e\<in>set es. content_stale ct_name ct_vn interface e,
        down @ map hit_slot (?hits True es), (up @ [hit_slot e]) @ map hit_slot (?hits False es))"
        using Cons.prems unfolding h by (intro Cons.IH) simp_all
      with step lim dn False ns h show ?thesis by simp
    qed
  next
    case False
    then have h: "?hits b (e # es) = ?hits b es" for b by (simp add: content_hits_def)
    with Cons.prems Cons.IH [of down up] have IH: "content_walk ct_name ct_vn inport es down up =
      Some (filter (\<lambda>e. \<not> content_stale ct_name ct_vn interface e) es,
        \<exists>e\<in>set es. content_stale ct_name ct_vn interface e,
        down @ map hit_slot (?hits True es), up @ map hit_slot (?hits False es))" by simp
    have "content_walk ct_name ct_vn inport (e # es) down up = do {
        (fs, m, d, u) \<leftarrow> content_walk ct_name ct_vn inport es down up;
        Some (if content_stale ct_name ct_vn interface e then (fs, True, d, u) else (e # fs, m, d, u))}"
      using False port same by (auto simp: content_stale_def content_hit_def split: option.splits)
    then show ?thesis by (simp add: IH h)
  qed
qed (simp add: content_hits_def)

lemma eth_hits_bounded:
  assumes "distinct (map content_key es)" "ct_iface ` set es \<subseteq> eth_ports"
  shows "length (content_hits ct_name ct_vn interface True es) \<le> NUM_DNPORT"
    "length (content_hits ct_name ct_vn interface False es) \<le> NUM_UPPORT"
proof -
  let ?hits = "\<lambda>b. content_hits ct_name ct_vn interface b es"
  have d: "distinct (map ct_iface (?hits b))" for b
  proof -
    have "distinct (map content_key (?hits b))"
      unfolding content_hits_def using assms(1) by (rule distinct_map_filter)
    moreover have "map content_key (?hits b) = map (\<lambda>i. (ct_name, i)) (map ct_iface (?hits b))"
      by (auto simp: content_hits_def content_hit_def content_key_def)
    ultimately show ?thesis by (metis distinct_map)
  qed
  have "set (map ct_iface (?hits True)) \<subseteq> {''eth0'', ''eth1'', ''eth2''}"
    by (auto simp: content_hits_def down_port_def)
  moreover have "set (map ct_iface (?hits False)) \<subseteq> {''eth3''}"
    using assms(2) by (auto simp: content_hits_def down_port_def eth_ports_def)
  ultimately show "length (?hits True) \<le> NUM_DNPORT" "length (?hits False) \<le> NUM_UPPORT"
    using card_mono [of "{''eth0'', ''eth1'', ''eth2''}" "set (map ct_iface (?hits True))"]
      card_mono [of "{''eth3''}" "set (map ct_iface (?hits False))"]
    by (simp_all only: distinct_card [OF d] length_map) (simp_all add: port_limits)
qed

lemma choose_port_slot:
  assumes "hits \<noteq> []" "ct_iface ` set hits \<subseteq> eth_ports"
  shows "choose_port ct_name (map hit_slot hits)
    = (let e = hits ! (unat (ntohl ct_name) mod length hits) in (ct_nexthop e, ct_iface e))"
proof -
  let ?e = "hits ! (unat (ntohl ct_name) mod length hits)"
  have "unat (ntohl ct_name) mod length hits < length hits" using assms(1) by simp
  then have "?e \<in> set hits" and n: "map hit_slot hits ! (unat (ntohl ct_name) mod length hits) = hit_slot ?e"
    by (auto simp: nth_map)
  then have "ct_iface ?e \<in> eth_ports" using assms(2) by auto
  then have "getIfaceFromOneHotPortNumber IF_LEN (the (getOneHotPortNumber (ct_iface ?e))) = ct_iface ?e"
    by (auto simp: eth_ports_def getOneHotPortNumber_def getIfaceFromOneHotPortNumber_def IF_LEN_def)
  then show ?thesis by (simp add: choose_port_def n hit_slot_def Let_def)
qed

lemma content_lookup:
  assumes "ctable_ok rs" "ct_iface ` set (ctable rs) \<subseteq> eth_ports" "interface \<in> eth_ports"
  shows "\<exists>rs'. get_nexthop_by_content rs ct_name ct_vn interface =
      Some (let down = content_hits ct_name ct_vn interface True (ctable rs);
                up = content_hits ct_name ct_vn interface False (ctable rs);
                hits = (if down \<noteq> [] then down else up)
            in if hits = [] then None
               else let e = hits ! (unat (ntohl ct_name) mod length hits)
                    in Some (ct_nexthop e, ct_iface e), rs')
    \<and> ctable rs' = filter (\<lambda>e. \<not> content_stale ct_name ct_vn interface e) (ctable rs)
    \<and> ctable_ok rs' \<and> rs' = rs\<lparr>ctable := ctable rs', netfpga := netfpga rs'\<rparr>"
proof -
  let ?hits = "\<lambda>b. content_hits ct_name ct_vn interface b (ctable rs)"
  let ?es = "filter (\<lambda>e. \<not> content_stale ct_name ct_vn interface e) (ctable rs)"
  let ?m = "\<exists>e\<in>set (ctable rs). content_stale ct_name ct_vn interface e"
  have ok: "length (ctable rs) \<le> MAX_CTABLE_DEPTH" "distinct (map content_key (ctable rs))"
      "ct_iface ` set (ctable rs) \<subseteq> hw_ports"
    using assms(1) by (simp_all add: ctable_ok_def)
  obtain inport where inp: "getOneHotPortNumber interface = Some inport"
    using one_hot_defined assms(3) eth_ports_hw by blast
  note b = eth_hits_bounded [OF ok(2) assms(2), of ct_name ct_vn interface]
  have walk: "content_walk ct_name ct_vn inport (ctable rs) [] [] =
      Some (?es, ?m, map hit_slot (?hits True), map hit_slot (?hits False))"
    using content_walk_spec [OF assms(2,3) inp, of "[]" ct_name ct_vn "[]"] b by simp
  have "length ?es \<le> MAX_CTABLE_DEPTH" "distinct (map content_key ?es)" "ct_iface ` set ?es \<subseteq> hw_ports"
    using ok by (auto intro: distinct_map_filter order.trans [OF length_filter_le])
  from trigger_keeps_ok [OF this, where rs = rs]
  obtain rt where t: "trigger_ctable_modified (rs\<lparr>ctable := ?es\<rparr>) = Some rt" "ctable_ok rt"
      "ctable rt = ?es" "rt = rs\<lparr>ctable := ?es, netfpga := netfpga rt\<rparr>"
    by blast
  obtain rs' where rs': "(if ?m then trigger_ctable_modified (rs\<lparr>ctable := ?es\<rparr>) else Some (rs\<lparr>ctable := ?es\<rparr>)) = Some rs'"
      "ctable_ok rs'" "ctable rs' = ?es" "rs' = rs\<lparr>ctable := ?es, netfpga := netfpga rs'\<rparr>"
  proof (cases ?m)
    case True
    with t that show ?thesis by simp
  next
    case False
    then have "?es = ctable rs" by (auto simp: filter_id_conv)
    with False assms(1) that [of rs] show ?thesis by simp
  qed
  have sub: "ct_iface ` set (?hits b) \<subseteq> eth_ports" for b
    using assms(2) by (auto simp: content_hits_def)
  have "get_nexthop_by_content rs ct_name ct_vn interface =
     (if ?hits True = [] \<and> ?hits False = [] then Some (None, rs')
      else if ?hits True \<noteq> [] then Some (Some (choose_port ct_name (map hit_slot (?hits True))), rs')
      else Some (Some (choose_port ct_name (map hit_slot (?hits False))), rs'))"
    unfolding get_nexthop_by_content_def inp Option.bind.simps walk prod.case Let_def rs'(1)
    using b by simp
  then show ?thesis
    using rs' choose_port_slot [OF _ sub [of True]] choose_port_slot [OF _ sub [of False]]
    by (intro exI [of _ rs']) (auto simp: Let_def)
qed

text \<open>C7: on a content table over the four interfaces, a request arriving on one of them never
  overruns the hit arrays and never gives up: the lookup drops exactly the stale entries of the
  name, writes the table to the card only then, and answers from the entries of the requested
  version on other interfaces, downward ones before the upward one, choosing among them by the
  name modulo their number. It reports no hit exactly when there is no such entry. The invariant
  is kept.\<close>

theorem content_lookup_correct:
  assumes "ctable_ok rs" "ct_iface ` set (ctable rs) \<subseteq> eth_ports" "interface \<in> eth_ports"
  shows "\<exists>rs'. get_nexthop_by_content rs ct_name ct_vn interface =
      Some (let down = content_hits ct_name ct_vn interface True (ctable rs);
                up = content_hits ct_name ct_vn interface False (ctable rs);
                hits = (if down \<noteq> [] then down else up)
            in if hits = [] then None
               else let e = hits ! (unat (ntohl ct_name) mod length hits)
                    in Some (ct_nexthop e, ct_iface e), rs')
    \<and> ctable rs' = filter (\<lambda>e. \<not> content_stale ct_name ct_vn interface e) (ctable rs)
    \<and> ctable_ok rs' \<and> rs' = rs\<lparr>ctable := ctable rs', netfpga := netfpga rs'\<rparr>"
  using assms by (rule content_lookup)

theorem content_lookup_correct_witness:
  "\<exists>rs rs'. ctable rs = [sample_content]
    \<and> get_nexthop_by_content rs 0x01010101 3 ''eth3'' = Some (Some (0x0A00000A, ''eth0''), rs')
    \<and> ctable rs' = [sample_content]"
proof -
  obtain rs where a: "ctable_ok rs" "ctable rs = [sample_content]"
    using trigger_keeps_ok [of "[sample_content]" cleared_router]
    by (auto simp: sample_content_def hw_ports_def MAX_CTABLE_DEPTH_def)
  then have e: "ct_iface ` set (ctable rs) \<subseteq> eth_ports" by (simp add: sample_content_def eth_ports_def)
  have "''eth3'' \<in> eth_ports" by (simp add: eth_ports_def)
  from content_lookup_correct [OF a(1) e this, of "0x01010101" 3]
  obtain rs' where "get_nexthop_by_content rs 0x01010101 3 ''eth3'' =
      Some (let down = content_hits 0x01010101 3 ''eth3'' True (ctable rs);
                up = content_hits 0x01010101 3 ''eth3'' False (ctable rs);
                hits = (if down \<noteq> [] then down else up)
            in if hits = [] then None
               else let e = hits ! (unat (ntohl 0x01010101) mod length hits)
                    in Some (ct_nexthop e, ct_iface e), rs')"
    "ctable rs' = filter (\<lambda>e. \<not> content_stale 0x01010101 3 ''eth3'' e) (ctable rs)"
    by blast
  with a(2) show ?thesis
    by (intro exI [of _ rs] exI [of _ rs'])
      (simp add: content_hits_def content_hit_def content_stale_def down_port_def sample_content_def)
qed

end
