(* ===== verification/Iface.thy ===== *)
theory Iface
  imports Netfpga
begin

text \<open>
  The interface list, or_iface.c and the interface functions of or_main.c: lookups, updates, the
  activity test at the head of packet processing, and the interfaces added at startup.
\<close>

text \<open>A change through the pointer to the first entry that satisfies a condition.\<close>

fun update_first :: "('a \<Rightarrow> bool) \<Rightarrow> ('a \<Rightarrow> 'a) \<Rightarrow> 'a list \<Rightarrow> 'a list" where
  "update_first P f [] = []"
| "update_first P f (x # xs) = (if P x then f x # xs else x # update_first P f xs)"

lemma length_update_first [simp]: "length (update_first P f xs) = length xs"
  by (induction xs) auto

lemma update_first_none [simp]: "(\<forall>x\<in>set xs. \<not> P x) \<Longrightarrow> update_first P f xs = xs"
  by (induction xs) auto

lemma map_update_first: "(\<And>x. P x \<Longrightarrow> g (f x) = g x) \<Longrightarrow> map g (update_first P f xs) = map g xs"
  by (induction xs) auto

lemma find_update_first:
  "find P xs = Some x \<Longrightarrow> P (f x) \<Longrightarrow> find P (update_first P f xs) = Some (f x)"
  by (induction xs) (auto split: if_splits)

lemma set_update_first: "x \<in> set (update_first P f xs) \<Longrightarrow> x \<in> set xs \<or> (\<exists>y\<in>set xs. P y \<and> x = f y)"
  by (induction xs) (auto split: if_splits)

definition SR_NAMELEN :: nat where "SR_NAMELEN = 32"

definition iface_match_ip :: "router_state \<Rightarrow> u32 \<Rightarrow> bool" where
  "iface_match_ip rs ip \<longleftrightarrow> list_ex (\<lambda>entry. if_is_active entry \<and> if_ip entry = ip) (if_list rs)"

definition iface_named :: "string \<Rightarrow> iface_entry \<Rightarrow> bool" where
  "iface_named interface entry \<longleftrightarrow> strncmp_eq interface (if_name entry) SR_NAMELEN"

definition get_iface :: "router_state \<Rightarrow> string \<Rightarrow> iface_entry option" where
  "get_iface rs interface = find (iface_named interface) (if_list rs)"

definition get_interface :: "router_state \<Rightarrow> string \<Rightarrow> iface_entry option" where
  "get_interface rs name = find (\<lambda>vns_if. strncmp_eq (if_name vns_if) name SR_NAMELEN) (if_list rs)"

definition iface_update :: "router_state \<Rightarrow> string \<Rightarrow> u32 \<Rightarrow> u32 \<Rightarrow> int \<times> router_state" where
  "iface_update rs interface ip imask = (case get_iface rs interface of None \<Rightarrow> (0, rs)
     | Some _ \<Rightarrow> (1, rs\<lparr>if_list := update_first (iface_named interface)
         (\<lambda>e. e\<lparr>if_ip := ip, if_mask := imask\<rparr>) (if_list rs)\<rparr>))"

definition iface_is_active :: "router_state \<Rightarrow> string \<Rightarrow> (bool \<times> router_state) option" where
  "iface_is_active rs interface = do {
     rs \<leftarrow> lock_if_list_rd rs;
     let retval = (case get_iface rs interface of None \<Rightarrow> False | Some entry \<Rightarrow> if_is_active entry);
     rs \<leftarrow> unlock_if_list rs;
     Some (retval, rs)
   }"

definition get_nbr_by_rid :: "iface_entry \<Rightarrow> u32 \<Rightarrow> nbr_router option" where
  "get_nbr_by_rid iface rid = find (\<lambda>nbr. nbr_router_id nbr = rid) (if_nbr_routers iface)"

lemma get_interface_same: "get_interface rs name = get_iface rs name"
  by (simp add: get_interface_def get_iface_def iface_named_def [abs_def] strncmp_eq_sym)

lemma get_iface_frame [frame_simps]: "get_iface (set_lock l s rs) i = get_iface rs i"
  by (simp add: get_iface_def set_lock_fields)

lemma iface_match_ip_frame [frame_simps]: "iface_match_ip (set_lock l s rs) ip = iface_match_ip rs ip"
  by (simp add: iface_match_ip_def set_lock_fields)

lemma iface_is_active_free:
  assumes "locks rs L_if_list = Free"
  shows "iface_is_active rs interface = Some (case get_iface rs interface of None \<Rightarrow> False
      | Some entry \<Rightarrow> if_is_active entry, rs)"
  using assms by (simp add: iface_is_active_def lock_wrappers fault_simps frame_simps)

lemma iface_update_get:
  "get_iface rs interface = Some e \<Longrightarrow>
   get_iface (snd (iface_update rs interface ip m)) interface = Some (e\<lparr>if_ip := ip, if_mask := m\<rparr>)"
proof -
  assume e: "get_iface rs interface = Some e"
  then have "iface_named interface e" by (auto simp: get_iface_def find_Some_iff)
  then have "iface_named interface (e\<lparr>if_ip := ip, if_mask := m\<rparr>)" by (simp add: iface_named_def)
  with e find_update_first [of "iface_named interface" "if_list rs" e "\<lambda>e. e\<lparr>if_ip := ip, if_mask := m\<rparr>"]
  show ?thesis by (simp add: iface_update_def get_iface_def)
qed

section \<open>Startup\<close>

text \<open>The two registers of an interface address, the first byte of the address highest.\<close>

definition mac_hi_of :: "mac \<Rightarrow> u32" where
  "mac_hi_of a = push_bit 8 (ucast (byte_of 0 a)) OR ucast (byte_of 1 a)"

definition mac_lo_of :: "mac \<Rightarrow> u32" where
  "mac_lo_of a = push_bit 24 (ucast (byte_of 2 a)) OR push_bit 16 (ucast (byte_of 3 a))
     OR push_bit 8 (ucast (byte_of 4 a)) OR ucast (byte_of 5 a)"

record sr_vns_if =
  vns_name :: string
  vns_addr :: mac
  vns_ip :: u32
  vns_mask :: u32
  vns_speed :: u32

fun contains :: "string \<Rightarrow> string \<Rightarrow> bool" where
  "contains needle [] = (needle = [])"
| "contains needle (c # cs) = (take (length needle) (c # cs) = needle \<or> contains needle cs)"

definition init_add_interface ::
    "(string \<Rightarrow> string \<Rightarrow> int) \<Rightarrow> router_state \<Rightarrow> sr_vns_if \<Rightarrow> router_state option" where
  "init_add_interface strcmp rs vns_if =
     (if contains ''cpu'' (vns_name vns_if) then Some rs
      else do {
        let ie = \<lparr>if_name = vns_name vns_if, if_addr = vns_addr vns_if, if_ip = vns_ip vns_if,
              if_mask = vns_mask vns_if, if_speed = vns_speed vns_if, if_is_active = True,
              if_last_sent_hello = 0, if_nbr_routers = [], if_is_wan = False\<rparr>;
        let rs = (if strncmp_eq (if_name ie) ''eth0'' IF_LEN then rs\<lparr>router_id := if_ip ie\<rparr> else rs);
        let rs = rs\<lparr>if_list := if_list rs @ [ie]\<rparr>;
        rs \<leftarrow> (if is_netfpga rs then do {
            port \<leftarrow> getPortNumber (vns_name vns_if);
            Some (write_hw_iface_mac rs (ucast port) (mac_hi_of (vns_addr vns_if)) (mac_lo_of (vns_addr vns_if)))
          } else Some rs);
        (r, rs) \<leftarrow> add_local_ip_filter strcmp rs (vns_ip vns_if) (vns_name vns_if);
        Some rs
      })"

end
