(* ===== verification/Arp.thy ===== *)
theory Arp
  imports Iface
begin

text \<open>
  Address resolution, or_arp.c, with \<open>send_ip\<close> of or_main.c on top of it: the ARP cache and its
  copy on the card, the queue of packets that wait for a reply, requests and replies.
\<close>

section \<open>The cache\<close>

definition in_arp_cache :: "router_state \<Rightarrow> u32 \<Rightarrow> arp_cache_entry option" where
  "in_arp_cache rs next_hop = find (\<lambda>arp_entry. next_hop = ac_ip arp_entry) (arp_cache rs)"

definition get_from_arp_cache :: "router_state \<Rightarrow> u32 \<Rightarrow> arp_cache_entry option" where
  "get_from_arp_cache rs next_hop = in_arp_cache rs next_hop"

definition write_arp_cache_entry_to_hw :: "arp_cache_entry option \<Rightarrow> nat \<Rightarrow> hw_state \<Rightarrow> hw_state" where
  "write_arp_cache_entry_to_hw entry row h = (case entry of
      Some e \<Rightarrow> writeRegs [(ARP_TABLE_ENTRY_MAC_HI_REG, mac_hi_of (ac_arp_ha e)),
        (ARP_TABLE_ENTRY_MAC_LO_REG, mac_lo_of (ac_arp_ha e)),
        (ARP_TABLE_ENTRY_NEXT_HOP_IP_REG, ntohl (ac_ip e)), (WR_ADDR_REG ARP_TABLE, of_nat row)] h
    | None \<Rightarrow> writeRegs [(ARP_TABLE_ENTRY_MAC_HI_REG, 0), (ARP_TABLE_ENTRY_MAC_LO_REG, 0),
        (ARP_TABLE_ENTRY_NEXT_HOP_IP_REG, 0), (WR_ADDR_REG ARP_TABLE, of_nat row)] h)"

text \<open>First the static entries, then the others, then zeros in the remaining rows.\<close>

fun write_static_rows :: "arp_cache_entry list \<Rightarrow> nat \<Rightarrow> hw_state \<Rightarrow> nat \<times> hw_state" where
  "write_static_rows [] i h = (i, h)"
| "write_static_rows (entry # cur) i h =
     (if i < TABLE_DEPTH then
        if ac_is_static entry
        then write_static_rows cur (Suc i) (write_arp_cache_entry_to_hw (Some entry) i h)
        else write_static_rows cur i h
      else (i, h))"

fun zero_arp_rows :: "nat \<Rightarrow> nat \<Rightarrow> hw_state \<Rightarrow> hw_state" where
  "zero_arp_rows 0 i h = h"
| "zero_arp_rows (Suc n) i h = zero_arp_rows n (Suc i) (write_arp_cache_entry_to_hw None i h)"

fun write_dynamic_rows :: "arp_cache_entry list \<Rightarrow> nat \<Rightarrow> hw_state \<Rightarrow> hw_state" where
  "write_dynamic_rows [] i h = zero_arp_rows (TABLE_DEPTH - i) i h"
| "write_dynamic_rows (entry # cur) i h =
     (if i < TABLE_DEPTH then
        if \<not> ac_is_static entry
        then write_dynamic_rows cur (Suc i) (write_arp_cache_entry_to_hw (Some entry) i h)
        else write_dynamic_rows cur i h
      else h)"

definition write_arp_cache_to_hw :: "router_state \<Rightarrow> router_state" where
  "write_arp_cache_to_hw rs = (let (i, h) = write_static_rows (arp_cache rs) 0 (netfpga rs)
     in rs\<lparr>netfpga := write_dynamic_rows (arp_cache rs) i h\<rparr>)"

definition trigger_arp_cache_modified :: "router_state \<Rightarrow> router_state" where
  "trigger_arp_cache_modified rs = (if is_netfpga rs then write_arp_cache_to_hw rs else rs)"

definition update_arp_cache :: "router_state \<Rightarrow> u32 \<Rightarrow> mac \<Rightarrow> int \<Rightarrow> int \<times> router_state" where
  "update_arp_cache rs remote_ip remote_mac is_static =
    (let ttl = (if is_static = 1 then 0 else clock rs);
         rs1 = (case in_arp_cache rs remote_ip of
             Some _ \<Rightarrow> rs\<lparr>arp_cache := update_first (\<lambda>e. remote_ip = ac_ip e)
                (\<lambda>e. e\<lparr>ac_arp_ha := remote_mac, ac_TTL := ttl, ac_is_static := (is_static \<noteq> 0)\<rparr>) (arp_cache rs)\<rparr>
           | None \<Rightarrow> rs\<lparr>arp_cache := arp_cache rs @
                [\<lparr>ac_ip = remote_ip, ac_arp_ha = remote_mac, ac_TTL = ttl, ac_is_static = (is_static \<noteq> 0)\<rparr>]\<rparr>)
     in (0, trigger_arp_cache_modified rs1))"

definition del_arp_cache :: "router_state \<Rightarrow> u32 \<Rightarrow> nat \<times> router_state" where
  "del_arp_cache rs ip = (length (filter (\<lambda>e. ac_ip e = ip) (arp_cache rs)),
     rs\<lparr>arp_cache := filter (\<lambda>e. ac_ip e \<noteq> ip) (arp_cache rs)\<rparr>)"

text \<open>
  The removal of timed out entries is commented out in the source, so the walk only computes ages
  and \<open>timedout_entry\<close> stays 0.
\<close>

fun expire_walk :: "int \<Rightarrow> arp_cache_entry list \<Rightarrow> arp_cache_entry list \<times> bool" where
  "expire_walk now [] = ([], False)"
| "expire_walk now (entry # next) =
     (let (rest, timedout_entry) = expire_walk now next in (entry # rest, timedout_entry))"

definition expire_arp_cache :: "router_state \<Rightarrow> router_state" where
  "expire_arp_cache rs = (let (entries, timedout_entry) = expire_walk (clock rs) (arp_cache rs);
       rs1 = rs\<lparr>arp_cache := entries\<rparr>
     in if timedout_entry then trigger_arp_cache_modified rs1 else rs1)"

section \<open>Requests and replies\<close>

text \<open>Every byte of the new frames is written below, so the memory they start from is taken to
  be zero.\<close>

definition ARP_OP_REQUEST :: u16 where "ARP_OP_REQUEST = 1"
definition ARP_OP_REPLY :: u16 where "ARP_OP_REPLY = 2"

definition arp_frame :: "eth_hdr \<Rightarrow> arp_hdr \<Rightarrow> packet" where
  "arp_frame e a = enc_eth_hdr e @ enc_arp_hdr a"

definition blank_eth :: eth_hdr where "blank_eth = dec_eth_hdr (replicate 14 0)"
definition blank_arp :: arp_hdr where "blank_arp = dec_arp_hdr (replicate 28 0)"

definition arp_request_frame :: "iface_entry \<Rightarrow> u32 \<Rightarrow> packet" where
  "arp_request_frame ie tip =
     arp_frame (populate_eth_hdr blank_eth (Some 0xFFFFFFFFFFFF) (if_addr ie) ETH_TYPE_ARP)
       (populate_arp_hdr blank_arp None tip (if_addr ie) (if_ip ie) ARP_OP_REQUEST)"

definition send_arp_request :: "router_state \<Rightarrow> u32 \<Rightarrow> string \<Rightarrow> router_state option" where
  "send_arp_request rs tip interface = do {
     ie \<leftarrow> get_interface rs interface;
     (r, rs) \<leftarrow> send_packet (arp_request_frame ie tip) interface rs;
     Some rs
   }"

definition arp_reply_frame :: "iface_entry \<Rightarrow> eth_hdr \<Rightarrow> arp_hdr \<Rightarrow> packet" where
  "arp_reply_frame iface eth arp_req =
     arp_frame (populate_eth_hdr blank_eth (Some (eth_shost eth)) (if_addr iface) ETH_TYPE_ARP)
       (populate_arp_hdr blank_arp (Some (arp_sha arp_req)) (arp_sip arp_req) (if_addr iface) (if_ip iface)
          ARP_OP_REPLY)"

definition send_arp_reply :: "router_state \<Rightarrow> packet \<Rightarrow> iface_entry \<Rightarrow> router_state option" where
  "send_arp_reply rs p iface = do {
     eth \<leftarrow> get_eth_hdr p;
     arp_req \<leftarrow> get_arp_hdr p;
     (r, rs) \<leftarrow> send_packet (arp_reply_frame iface eth arp_req) (if_name iface) rs;
     Some rs
   }"

definition process_arp_request :: "router_state \<Rightarrow> packet \<Rightarrow> string \<Rightarrow> router_state option" where
  "process_arp_request rs p interface = do {
     arp \<leftarrow> get_arp_hdr p;
     rs \<leftarrow> lock_if_list_rd rs;
     rs \<leftarrow> (case find (\<lambda>n. if_ip n = arp_tip arp) (if_list rs) of
        Some n \<Rightarrow> send_arp_reply rs p n
      | None \<Rightarrow> Some rs);
     unlock_if_list rs
   }"

section \<open>The queue\<close>

definition get_from_arp_queue :: "router_state \<Rightarrow> u32 \<Rightarrow> arp_queue_entry option" where
  "get_from_arp_queue rs next_hop = find (\<lambda>aqe. aq_next_hop aqe = next_hop) (arp_queue rs)"

definition arp_queue_entry_add_packet :: "packet \<Rightarrow> arp_queue_entry \<Rightarrow> arp_queue_entry" where
  "arp_queue_entry_add_packet p aqe = aqe\<lparr>aq_head := aq_head aqe @ [p]\<rparr>"

definition arp_queue_add :: "router_state \<Rightarrow> packet \<Rightarrow> string \<Rightarrow> u32 \<Rightarrow> router_state option" where
  "arp_queue_add rs p out_iface_name next_hop =
     (case get_from_arp_queue rs next_hop of
        None \<Rightarrow> do {
          let aqe = \<lparr>aq_out_iface_name = strncpy out_iface_name IF_LEN, aq_next_hop = next_hop,
            aq_requests = 1, aq_last_req_time = clock rs, aq_head = []\<rparr>;
          rs \<leftarrow> send_arp_request rs next_hop out_iface_name;
          Some (rs\<lparr>arp_queue := arp_queue rs @ [arp_queue_entry_add_packet p aqe]\<rparr>)
        }
      | Some _ \<Rightarrow> Some (rs\<lparr>arp_queue := update_first (\<lambda>aqe. aq_next_hop aqe = next_hop)
          (arp_queue_entry_add_packet p) (arp_queue rs)\<rparr>))"

definition send_ip :: "router_state \<Rightarrow> packet \<Rightarrow> u32 \<Rightarrow> string \<Rightarrow> (int \<times> router_state) option" where
  "send_ip rs p next_hop out_iface =
     (case get_from_arp_cache rs next_hop of
        Some ace \<Rightarrow> do {
          eth \<leftarrow> get_eth_hdr p;
          p1 \<leftarrow> put_eth_hdr (eth\<lparr>eth_dhost := ac_arp_ha ace\<rparr>) p;
          (r, rs) \<leftarrow> send_packet p1 out_iface rs;
          if r \<noteq> 0 then Some (1, rs) else Some (0, rs)
        }
      | None \<Rightarrow> do {
          rs \<leftarrow> arp_queue_add rs p out_iface next_hop;
          Some (0, rs)
        })"

text \<open>
  The packets of entry \<open>k\<close> of the queue are sent from the front; the successor of a packet is
  read before it is sent, and the packet is removed afterwards.
\<close>

definition drop_packet :: "nat \<Rightarrow> router_state \<Rightarrow> router_state" where
  "drop_packet k rs = rs\<lparr>arp_queue := (arp_queue rs)[k := (arp_queue rs ! k)\<lparr>aq_head := tl (aq_head (arp_queue rs ! k))\<rparr>]\<rparr>"

definition drop_entry :: "nat \<Rightarrow> router_state \<Rightarrow> router_state" where
  "drop_entry k rs = rs\<lparr>arp_queue := take k (arp_queue rs) @ drop (Suc k) (arp_queue rs)\<rparr>"

partial_function (option) send_entry_packets :: "nat \<Rightarrow> router_state \<Rightarrow> router_state option" where
  "send_entry_packets k rs = (case aq_head (arp_queue rs ! k) of
      [] \<Rightarrow> Some rs
    | p # next_packet \<Rightarrow> do {
        (r, rs) \<leftarrow> send_ip rs p (aq_next_hop (arp_queue rs ! k)) (aq_out_iface_name (arp_queue rs ! k));
        let rs = drop_packet k rs;
        if next_packet = [] then Some rs else send_entry_packets k rs
      })"

partial_function (option) queued_packets_from :: "u32 \<Rightarrow> nat \<Rightarrow> router_state \<Rightarrow> router_state option" where
  "queued_packets_from dest_ip k rs =
     (if k < length (arp_queue rs) then do {
        let last = (Suc k = length (arp_queue rs));
        if dest_ip = aq_next_hop (arp_queue rs ! k) then do {
          rs \<leftarrow> send_entry_packets k rs;
          let rs = drop_entry k rs;
          if last then Some rs else queued_packets_from dest_ip k rs
        } else if last then Some rs else queued_packets_from dest_ip (Suc k) rs
      } else Some rs)"

definition send_queued_packets :: "router_state \<Rightarrow> u32 \<Rightarrow> mac \<Rightarrow> router_state option" where
  "send_queued_packets rs dest_ip dest_mac = queued_packets_from dest_ip 0 rs"

definition update_arp_queue :: "router_state \<Rightarrow> arp_hdr \<Rightarrow> string \<Rightarrow> router_state option" where
  "update_arp_queue rs arp_header interface = queued_packets_from (arp_sip arp_header) 0 rs"

definition process_arp_reply :: "router_state \<Rightarrow> packet \<Rightarrow> string \<Rightarrow> router_state option" where
  "process_arp_reply rs p interface = do {
     arp \<leftarrow> get_arp_hdr p;
     rs \<leftarrow> lock_arp_cache_wr rs;
     let (r, rs) = update_arp_cache rs (arp_sip arp) (arp_sha arp) 0;
     rs \<leftarrow> unlock_arp_cache rs;
     rs \<leftarrow> lock_arp_cache_rd rs;
     rs \<leftarrow> lock_arp_queue_wr rs;
     rs \<leftarrow> send_queued_packets rs (arp_sip arp) (arp_sha arp);
     rs \<leftarrow> unlock_arp_queue rs;
     unlock_arp_cache rs
   }"

definition process_arp_packet :: "router_state \<Rightarrow> packet \<Rightarrow> string \<Rightarrow> router_state option" where
  "process_arp_packet rs p interface = do {
     arp \<leftarrow> get_arp_hdr p;
     if ntohs (arp_op arp) = ARP_OP_REQUEST then process_arp_request rs p interface
     else if ntohs (arp_op arp) = ARP_OP_REPLY then process_arp_reply rs p interface
     else Some rs
   }"

section \<open>The copy of the cache on the card\<close>

definition arp_row :: "arp_cache_entry \<Rightarrow> u32 list" where
  "arp_row e = [mac_hi_of (ac_arp_ha e), mac_lo_of (ac_arp_ha e), ntohl (ac_ip e)]"

text \<open>The order in which entries get rows: static entries have priority.\<close>

definition arp_hw_order :: "arp_cache_entry list \<Rightarrow> arp_cache_entry list" where
  "arp_hw_order es = filter ac_is_static es @ filter (\<lambda>e. \<not> ac_is_static e) es"

fun write_arp_rows :: "nat \<Rightarrow> nat \<Rightarrow> arp_cache_entry list \<Rightarrow> hw_state \<Rightarrow> hw_state" where
  "write_arp_rows 0 i cur h = h"
| "write_arp_rows (Suc n) i (e # cur) h = write_arp_rows n (Suc i) cur (write_arp_cache_entry_to_hw (Some e) i h)"
| "write_arp_rows (Suc n) i [] h = write_arp_rows n (Suc i) [] (write_arp_cache_entry_to_hw None i h)"

interpretation arp_rows: row_writer ARP_TABLE "\<lambda>e. Some (arp_row e)" "\<lambda>vs. vs = [0, 0, 0]"
  "\<lambda>n i cur h. Some (write_arp_rows n i cur h)"
  by unfold_locales (auto simp: unat_row arp_row_def write_arp_cache_entry_to_hw_def)

lemma zero_arp_rows: "zero_arp_rows n i h = write_arp_rows n i [] h"
  by (induction n i h rule: zero_arp_rows.induct) auto

lemma write_dynamic_rows:
  "i \<le> TABLE_DEPTH \<Longrightarrow> write_dynamic_rows cur i h
     = write_arp_rows (TABLE_DEPTH - i) i (filter (\<lambda>e. \<not> ac_is_static e) cur) h"
proof (induction cur i h rule: write_dynamic_rows.induct)
  case (2 e cur i h)
  show ?case
  proof (cases "i < TABLE_DEPTH")
    case True
    then obtain n where n: "TABLE_DEPTH - i = Suc n" "TABLE_DEPTH - Suc i = n"
      by (metis Suc_diff_Suc)
    with 2 True show ?thesis by simp
  qed (use 2 in simp)
qed (simp add: zero_arp_rows)

lemma write_static_rows:
  "i \<le> TABLE_DEPTH \<Longrightarrow> (case write_static_rows cur i h of (j, h') \<Rightarrow> write_dynamic_rows cur' j h')
     = write_arp_rows (TABLE_DEPTH - i) i (filter ac_is_static cur @ filter (\<lambda>e. \<not> ac_is_static e) cur') h"
proof (induction cur i h rule: write_static_rows.induct)
  case (1 i h)
  then show ?case by (simp add: write_dynamic_rows)
next
  case (2 e cur i h)
  show ?case
  proof (cases "i < TABLE_DEPTH")
    case True
    then obtain n where n: "TABLE_DEPTH - i = Suc n" "TABLE_DEPTH - Suc i = n"
      by (metis Suc_diff_Suc)
    with 2 True show ?thesis by simp
  qed (use 2 in \<open>simp add: write_dynamic_rows\<close>)
qed

definition arp_mirrored :: "router_state \<Rightarrow> bool" where
  "arp_mirrored rs \<longleftrightarrow> (\<forall>j<32. hw_rows (netfpga rs) ARP_TABLE j =
     (if j < length (arp_cache rs) then arp_row (arp_hw_order (arp_cache rs) ! j) else [0, 0, 0]))"

lemma write_arp_cache_to_hw_mirrors:
  "arp_mirrored (write_arp_cache_to_hw rs)"
  "\<exists>h. write_arp_cache_to_hw rs = rs\<lparr>netfpga := h\<rparr> \<and> (\<forall>t. t \<noteq> ARP_TABLE \<longrightarrow> hw_rows h t = hw_rows (netfpga rs) t)"
proof -
  let ?o = "arp_hw_order (arp_cache rs)"
  let ?h = "write_arp_rows TABLE_DEPTH 0 ?o (netfpga rs)"
  have w: "write_arp_cache_to_hw rs = rs\<lparr>netfpga := ?h\<rparr>"
    using write_static_rows [of 0 "arp_cache rs" "arp_cache rs" "netfpga rs"]
    by (simp add: write_arp_cache_to_hw_def arp_hw_order_def split: prod.splits)
  have len: "length ?o = length (arp_cache rs)"
    using sum_length_filter_compl [of ac_is_static "arp_cache rs"] by (simp add: arp_hw_order_def)
  have "\<forall>e\<in>set ?o. Some (arp_row e) \<noteq> None" by simp
  from arp_rows.mirrors_table [OF this, of "netfpga rs"]
  have rows: "\<forall>j<TABLE_DEPTH. if j < length ?o then Some (arp_row (?o ! j)) = Some (hw_rows ?h ARP_TABLE j)
        else hw_rows ?h ARP_TABLE j = [0, 0, 0]"
    and other: "\<forall>t. t \<noteq> ARP_TABLE \<longrightarrow> hw_rows ?h t = hw_rows (netfpga rs) t"
    by auto
  show "arp_mirrored (write_arp_cache_to_hw rs)"
    unfolding w arp_mirrored_def
  proof (intro allI impI)
    fix j :: nat assume "j < 32"
    then show "hw_rows (netfpga (rs\<lparr>netfpga := ?h\<rparr>)) ARP_TABLE j =
      (if j < length (arp_cache (rs\<lparr>netfpga := ?h\<rparr>)) then arp_row (arp_hw_order (arp_cache (rs\<lparr>netfpga := ?h\<rparr>)) ! j)
       else [0, 0, 0])"
      using rows [rule_format, of j] by (simp add: TABLE_DEPTH_def len split: if_splits)
  qed
  show "\<exists>h. write_arp_cache_to_hw rs = rs\<lparr>netfpga := h\<rparr> \<and> (\<forall>t. t \<noteq> ARP_TABLE \<longrightarrow> hw_rows h t = hw_rows (netfpga rs) t)"
    using w other by blast
qed

lemma trigger_arp_cache_modified_frame:
  "trigger_arp_cache_modified rs = rs\<lparr>netfpga := netfpga (trigger_arp_cache_modified rs)\<rparr>"
proof (cases "is_netfpga rs")
  case True
  obtain h where "write_arp_cache_to_hw rs = rs\<lparr>netfpga := h\<rparr>"
    using write_arp_cache_to_hw_mirrors(2) by blast
  with True show ?thesis by (simp add: trigger_arp_cache_modified_def)
qed (simp add: trigger_arp_cache_modified_def)

lemma trigger_arp_cache_modified_mirrors:
  "is_netfpga rs \<Longrightarrow> arp_mirrored (trigger_arp_cache_modified rs)"
  by (simp add: trigger_arp_cache_modified_def write_arp_cache_to_hw_mirrors)

lemma update_arp_cache_facts:
  assumes "distinct (map ac_ip (arp_cache rs))" "update_arp_cache rs ip m s = (r, rs')"
  shows "r = 0 \<and> get_from_arp_cache rs' ip = Some \<lparr>ac_ip = ip, ac_arp_ha = m,
            ac_TTL = (if s = 1 then 0 else clock rs), ac_is_static = (s \<noteq> 0)\<rparr>
    \<and> (\<forall>other. other \<noteq> ip \<longrightarrow> get_from_arp_cache rs' other = get_from_arp_cache rs other)
    \<and> distinct (map ac_ip (arp_cache rs'))
    \<and> (is_netfpga rs \<longrightarrow> arp_mirrored rs')
    \<and> rs' = rs\<lparr>arp_cache := arp_cache rs', netfpga := netfpga rs'\<rparr>"
proof -
  let ?e = "\<lparr>ac_ip = ip, ac_arp_ha = m, ac_TTL = (if s = 1 then 0 else clock rs), ac_is_static = (s \<noteq> 0)\<rparr>"
  let ?f = "\<lambda>e. e\<lparr>ac_arp_ha := m, ac_TTL := (if s = 1 then 0 else clock rs), ac_is_static := (s \<noteq> 0)\<rparr>"
  define es where "es = (case in_arp_cache rs ip of
      Some _ \<Rightarrow> update_first (\<lambda>e. ip = ac_ip e) ?f (arp_cache rs) | None \<Rightarrow> arp_cache rs @ [?e])"
  have rs': "rs' = trigger_arp_cache_modified (rs\<lparr>arp_cache := es\<rparr>)" "r = 0"
    using assms(2) by (auto simp: update_arp_cache_def Let_def es_def split: option.splits)
  have find_other: "find (\<lambda>e. other = ac_ip e) (update_first (\<lambda>e. ip = ac_ip e) ?f xs) = find (\<lambda>e. other = ac_ip e) xs"
    if "other \<noteq> ip" for other xs
    using that by (induction xs) auto
  have find_app: "find P (xs @ [x]) = (case find P xs of None \<Rightarrow> if P x then Some x else None | Some y \<Rightarrow> Some y)"
    for P xs and x :: arp_cache_entry
    by (induction xs) auto
  have es: "find (\<lambda>e. ip = ac_ip e) es = Some ?e \<and> distinct (map ac_ip es)
     \<and> (\<forall>other. other \<noteq> ip \<longrightarrow> find (\<lambda>e. other = ac_ip e) es = find (\<lambda>e. other = ac_ip e) (arp_cache rs))"
  proof (cases "in_arp_cache rs ip")
    case None
    then have "ip \<notin> ac_ip ` set (arp_cache rs)" by (auto simp: in_arp_cache_def find_None_iff)
    with None assms(1) show ?thesis
      by (auto simp: es_def find_app in_arp_cache_def split: option.splits)
  next
    case (Some a)
    then have a: "ac_ip a = ip" by (auto simp: in_arp_cache_def find_Some_iff)
    then have fa: "?f a = ?e" by simp
    have e: "es = update_first (\<lambda>e. ip = ac_ip e) ?f (arp_cache rs)" by (simp add: es_def Some)
    have "find (\<lambda>e. ip = ac_ip e) (arp_cache rs) = Some a" using Some by (simp add: in_arp_cache_def)
    from find_update_first [OF this, of ?f] have "find (\<lambda>e. ip = ac_ip e) es = Some ?e"
      unfolding e fa by simp
    moreover have "map ac_ip es = map ac_ip (arp_cache rs)" unfolding e by (rule map_update_first) simp
    ultimately show ?thesis using assms(1) find_other unfolding e by metis
  qed
  have fr: "rs' = rs\<lparr>arp_cache := es, netfpga := netfpga rs'\<rparr>"
    using trigger_arp_cache_modified_frame [of "rs\<lparr>arp_cache := es\<rparr>"] rs' by simp
  have c: "arp_cache rs' = es" by (subst fr) simp
  have "is_netfpga rs \<longrightarrow> arp_mirrored rs'"
    using rs' trigger_arp_cache_modified_mirrors [of "rs\<lparr>arp_cache := es\<rparr>"] by simp
  moreover have "get_from_arp_cache rs' ip = Some ?e" "distinct (map ac_ip (arp_cache rs'))"
      "\<forall>other. other \<noteq> ip \<longrightarrow> get_from_arp_cache rs' other = get_from_arp_cache rs other"
    using es by (simp_all add: c get_from_arp_cache_def in_arp_cache_def)
  moreover have "rs' = rs\<lparr>arp_cache := arp_cache rs', netfpga := netfpga rs'\<rparr>"
    unfolding c by (rule fr)
  ultimately show ?thesis using rs'(2) by blast
qed

text \<open>After \<open>update_arp_cache\<close> the address resolves to the given hardware address with the
  given kind and, unless it is static, the current time, every other address resolves as before,
  an address still has at most one entry, and the card holds the cache with static entries first.
  Only the cache and the card change.\<close>

theorem update_arp_cache_resolves:
  assumes "distinct (map ac_ip (arp_cache rs))" "update_arp_cache rs ip m s = (r, rs')"
  shows "r = 0 \<and> get_from_arp_cache rs' ip = Some \<lparr>ac_ip = ip, ac_arp_ha = m,
            ac_TTL = (if s = 1 then 0 else clock rs), ac_is_static = (s \<noteq> 0)\<rparr>
    \<and> (\<forall>other. other \<noteq> ip \<longrightarrow> get_from_arp_cache rs' other = get_from_arp_cache rs other)
    \<and> distinct (map ac_ip (arp_cache rs'))
    \<and> (is_netfpga rs \<longrightarrow> arp_mirrored rs')
    \<and> rs' = rs\<lparr>arp_cache := arp_cache rs', netfpga := netfpga rs'\<rparr>"
  using assms by (rule update_arp_cache_facts)

theorem update_arp_cache_resolves_witness:
  "\<exists>r rs'. update_arp_cache empty_router 9 0x0102 0 = (r, rs') \<and> r = 0
     \<and> get_from_arp_cache rs' 9 = Some \<lparr>ac_ip = 9, ac_arp_ha = 0x0102, ac_TTL = 0, ac_is_static = False\<rparr>"
proof -
  obtain r rs' where u: "update_arp_cache empty_router 9 0x0102 0 = (r, rs')" by (cases "update_arp_cache empty_router 9 0x0102 0")
  have "distinct (map ac_ip (arp_cache empty_router))" by (simp add: empty_router_def)
  from update_arp_cache_resolves [OF this u] u show ?thesis by (simp add: empty_router_def)
qed

section \<open>Sending and queueing\<close>

text \<open>A packet with its destination hardware address set.\<close>

definition frame_to :: "mac \<Rightarrow> packet \<Rightarrow> packet" where
  "frame_to m p = [byte_of 0 m, byte_of 1 m, byte_of 2 m, byte_of 3 m, byte_of 4 m, byte_of 5 m] @ drop 6 p"

lemma put_dhost:
  assumes "get_eth_hdr p = Some eth"
  shows "put_eth_hdr (eth\<lparr>eth_dhost := m\<rparr>) p = Some (frame_to m p)"
proof -
  have l: "14 \<le> length p" and eth: "eth = dec_eth_hdr (take 14 p)"
    using assms by (auto simp: get_eth_hdr_def load_def split: if_splits)
  have "enc_eth_hdr eth = take 14 p" unfolding eth by (rule eth_hdr.enc_dec) (use l in simp)
  moreover have "enc_eth_hdr (eth\<lparr>eth_dhost := m\<rparr>)
      = [byte_of 0 m, byte_of 1 m, byte_of 2 m, byte_of 3 m, byte_of 4 m, byte_of 5 m] @ drop 6 (enc_eth_hdr eth)"
    by (simp add: enc_eth_hdr_def)
  moreover have "drop 6 (take 14 p) @ drop 14 p = drop 6 p"
  proof -
    have "drop 6 (take 14 p) = take 8 (drop 6 p)" by (simp add: drop_take)
    moreover have "drop 14 p = drop 8 (drop 6 p)" by simp
    ultimately show ?thesis by (simp only: append_take_drop_id)
  qed
  ultimately show ?thesis using l by (simp add: put_eth_hdr_def store_def frame_to_def)
qed

lemma send_ip_cached:
  assumes "get_from_arp_cache rs next_hop = Some ace" "14 \<le> length p"
    "locks rs L_write = Free" "locks rs L_log_dumper = Free" "out_iface \<in> eth_ports"
  shows "send_ip rs p next_hop out_iface
    = Some (0, emit (Tx (pad_frame (frame_to (ac_arp_ha ace) p)) out_iface) rs)"
proof -
  obtain eth where "get_eth_hdr p = Some eth" using assms(2) get_eth_hdr_Some by blast
  then show ?thesis using assms
    by (simp add: send_ip_def put_dhost send_packet_ok)
qed

lemma send_ip_result:
  assumes "14 \<le> length p" "locks rs L_write = Free" "locks rs L_log_dumper = Free"
    "out_iface \<in> eth_ports" "get_iface rs out_iface = Some ie"
  shows "send_ip rs p next_hop out_iface = Some (0, case get_from_arp_cache rs next_hop of
      Some ace \<Rightarrow> emit (Tx (pad_frame (frame_to (ac_arp_ha ace) p)) out_iface) rs
    | None \<Rightarrow> if get_from_arp_queue rs next_hop = None
        then (emit (Tx (pad_frame (arp_request_frame ie next_hop)) out_iface) rs)\<lparr>arp_queue := arp_queue rs @
          [\<lparr>aq_out_iface_name = out_iface, aq_next_hop = next_hop, aq_requests = 1,
            aq_last_req_time = clock rs, aq_head = [p]\<rparr>]\<rparr>
        else rs\<lparr>arp_queue := update_first (\<lambda>aqe. aq_next_hop aqe = next_hop)
          (\<lambda>aqe. aqe\<lparr>aq_head := aq_head aqe @ [p]\<rparr>) (arp_queue rs)\<rparr>)"
proof (cases "get_from_arp_cache rs next_hop")
  case (Some ace)
  with send_ip_cached [OF this assms(1-4)] show ?thesis by simp
next
  case None
  have "strncpy out_iface IF_LEN = out_iface" using assms(4) by (auto simp: eth_ports_def IF_LEN_def)
  with None assms show ?thesis
    by (simp add: send_ip_def arp_queue_add_def send_arp_request_def get_interface_same send_packet_ok
        arp_queue_entry_add_packet_def [abs_def] emit_def split: option.split)
qed

text \<open>C8: \<open>send_ip\<close> on an interface of the router sends at once when the next hop is resolved:
  one frame, the packet with the destination address of the cache and its other bytes unchanged,
  padded to 60 bytes. Otherwise the packet is put at the end of the queue of the next hop, and an
  ARP request for the next hop is sent when, and only when, no packet was waiting for it before.\<close>

theorem send_ip_sends_or_queues:
  assumes "14 \<le> length p" "locks rs L_write = Free" "locks rs L_log_dumper = Free"
    "out_iface \<in> eth_ports" "get_iface rs out_iface = Some ie"
  shows "send_ip rs p next_hop out_iface = Some (0, case get_from_arp_cache rs next_hop of
      Some ace \<Rightarrow> emit (Tx (pad_frame (frame_to (ac_arp_ha ace) p)) out_iface) rs
    | None \<Rightarrow> if get_from_arp_queue rs next_hop = None
        then (emit (Tx (pad_frame (arp_request_frame ie next_hop)) out_iface) rs)\<lparr>arp_queue := arp_queue rs @
          [\<lparr>aq_out_iface_name = out_iface, aq_next_hop = next_hop, aq_requests = 1,
            aq_last_req_time = clock rs, aq_head = [p]\<rparr>]\<rparr>
        else rs\<lparr>arp_queue := update_first (\<lambda>aqe. aq_next_hop aqe = next_hop)
          (\<lambda>aqe. aqe\<lparr>aq_head := aq_head aqe @ [p]\<rparr>) (arp_queue rs)\<rparr>)"
  using assms by (rule send_ip_result)

definition sample_iface :: iface_entry where
  "sample_iface = \<lparr>if_name = ''eth0'', if_addr = 0x010203040506, if_ip = 0x0100000A, if_mask = 0x00FFFFFF,
     if_speed = 0, if_is_active = True, if_last_sent_hello = 0, if_nbr_routers = [], if_is_wan = False\<rparr>"

theorem send_ip_sends_or_queues_witness:
  "\<exists>rs'. send_ip (empty_router\<lparr>if_list := [sample_iface]\<rparr>) (replicate 40 0) 9 ''eth0'' = Some (0, rs')
     \<and> length (events rs') = 1 \<and> length (arp_queue rs') = 1"
proof -
  let ?rs = "empty_router\<lparr>if_list := [sample_iface]\<rparr>"
  have "get_iface ?rs ''eth0'' = Some sample_iface"
    by (simp add: get_iface_def iface_named_def sample_iface_def SR_NAMELEN_def)
  then have "send_ip ?rs (replicate 40 0) 9 ''eth0'' = Some (0, case get_from_arp_cache ?rs 9 of
      Some ace \<Rightarrow> emit (Tx (pad_frame (frame_to (ac_arp_ha ace) (replicate 40 0))) ''eth0'') ?rs
    | None \<Rightarrow> if get_from_arp_queue ?rs 9 = None
        then (emit (Tx (pad_frame (arp_request_frame sample_iface 9)) ''eth0'') ?rs)\<lparr>arp_queue := arp_queue ?rs @
          [\<lparr>aq_out_iface_name = ''eth0'', aq_next_hop = 9, aq_requests = 1,
            aq_last_req_time = clock ?rs, aq_head = [replicate 40 0]\<rparr>]\<rparr>
        else ?rs\<lparr>arp_queue := update_first (\<lambda>aqe. aq_next_hop aqe = 9)
          (\<lambda>aqe. aqe\<lparr>aq_head := aq_head aqe @ [replicate 40 0]\<rparr>) (arp_queue ?rs)\<rparr>)"
    by (intro send_ip_sends_or_queues) (simp_all add: empty_router_def eth_ports_def)
  then show ?thesis
    by (simp add: get_from_arp_cache_def in_arp_cache_def get_from_arp_queue_def empty_router_def emit_def)
qed

section \<open>Replies\<close>

definition queued_frames :: "mac \<Rightarrow> arp_queue_entry \<Rightarrow> event list" where
  "queued_frames m aqe = map (\<lambda>p. Tx (pad_frame (frame_to m p)) (aq_out_iface_name aqe)) (aq_head aqe)"

definition queue_entry_ok :: "arp_queue_entry \<Rightarrow> bool" where
  "queue_entry_ok aqe \<longleftrightarrow> aq_out_iface_name aqe \<in> eth_ports \<and> (\<forall>p\<in>set (aq_head aqe). 14 \<le> length p)"

lemma send_entry_packets_flush:
  assumes "k < length (arp_queue rs)" "arp_queue rs ! k = aqe" "queue_entry_ok aqe"
    "get_from_arp_cache rs (aq_next_hop aqe) = Some ace" "locks rs L_write = Free" "locks rs L_log_dumper = Free"
  shows "send_entry_packets k rs = Some (rs\<lparr>arp_queue := (arp_queue rs)[k := aqe\<lparr>aq_head := []\<rparr>],
     events := events rs @ queued_frames (ac_arp_ha ace) aqe\<rparr>)"
  using assms
proof (induction "aq_head aqe" arbitrary: aqe rs)
  case Nil
  then have "aqe\<lparr>aq_head := []\<rparr> = aqe" by simp
  then have "(arp_queue rs)[k := aqe\<lparr>aq_head := []\<rparr>] = arp_queue rs"
    using Nil.prems(2) by (metis list_update_id)
  then have "rs\<lparr>arp_queue := (arp_queue rs)[k := aqe\<lparr>aq_head := []\<rparr>]\<rparr> = rs" by simp
  with Nil show ?case
    by (subst send_entry_packets.simps) (simp add: queued_frames_def)
next
  case (Cons p ps)
  let ?m = "ac_arp_ha ace" and ?out = "aq_out_iface_name aqe"
  let ?rs1 = "emit (Tx (pad_frame (frame_to ?m p)) ?out) rs"
  let ?aqe = "aqe\<lparr>aq_head := ps\<rparr>"
  let ?rs2 = "rs\<lparr>arp_queue := (arp_queue rs)[k := ?aqe], events := events rs @ [Tx (pad_frame (frame_to ?m p)) ?out]\<rparr>"
  have p: "14 \<le> length p" "?out \<in> eth_ports" and ok: "queue_entry_ok ?aqe"
    using Cons.prems(3) Cons.hyps(2) [symmetric] by (auto simp: queue_entry_ok_def)
  have drop: "drop_packet k ?rs1 = ?rs2"
    using Cons.prems(2) Cons.hyps(2) [symmetric] by (simp add: drop_packet_def emit_def)
  have step: "send_entry_packets k rs = (if ps = [] then Some ?rs2 else send_entry_packets k ?rs2)"
  proof -
    have h: "aq_head (arp_queue rs ! k) = p # ps" using Cons.prems(2) Cons.hyps(2) by simp
    have "send_ip rs p (aq_next_hop (arp_queue rs ! k)) (aq_out_iface_name (arp_queue rs ! k)) = Some (0, ?rs1)"
      using send_ip_cached [OF Cons.prems(4) p(1) Cons.prems(5,6) p(2)] Cons.prems(2) by simp
    then show ?thesis by (subst send_entry_packets.simps) (simp add: h drop del: emit_def)
  qed
  have rest: "send_entry_packets k ?rs2 = Some (?rs2\<lparr>arp_queue := (arp_queue ?rs2)[k := ?aqe\<lparr>aq_head := []\<rparr>],
     events := events ?rs2 @ queued_frames ?m ?aqe\<rparr>)" if "ps \<noteq> []"
    using Cons.prems ok
    by (intro Cons.hyps(1)) (simp_all add: get_from_arp_cache_def in_arp_cache_def)
  have q: "queued_frames ?m aqe = Tx (pad_frame (frame_to ?m p)) ?out # queued_frames ?m ?aqe"
    by (simp add: queued_frames_def Cons.hyps(2) [symmetric])
  show ?case
  proof (cases "ps = []")
    case True
    then show ?thesis using step q by (simp add: queued_frames_def)
  next
    case False
    then show ?thesis using step rest q by simp
  qed
qed

lemma queued_packets_from_flush:
  assumes "get_from_arp_cache rs ip = Some ace" "locks rs L_write = Free" "locks rs L_log_dumper = Free"
    "\<forall>aqe\<in>set (arp_queue rs). queue_entry_ok aqe" "k \<le> length (arp_queue rs)"
  shows "queued_packets_from ip k rs = Some (rs\<lparr>
     arp_queue := take k (arp_queue rs) @ filter (\<lambda>aqe. aq_next_hop aqe \<noteq> ip) (drop k (arp_queue rs)),
     events := events rs @ concat (map (queued_frames (ac_arp_ha ace))
       (filter (\<lambda>aqe. aq_next_hop aqe = ip) (drop k (arp_queue rs))))\<rparr>)"
  using assms
proof (induction "length (arp_queue rs) - k" arbitrary: rs k)
  case 0
  then show ?case by (subst queued_packets_from.simps) simp
next
  case (Suc n)
  let ?q = "arp_queue rs" and ?m = "ac_arp_ha ace"
  have k: "k < length ?q" using Suc.hyps(2) by simp
  let ?aqe = "?q ! k"
  have d: "drop k ?q = ?aqe # drop (Suc k) ?q" using k by (simp add: Cons_nth_drop_Suc)
  have ok: "queue_entry_ok ?aqe" using Suc.prems(4) k by simp
  show ?case
  proof (cases "aq_next_hop ?aqe = ip")
    case False
    have "queued_packets_from ip k rs = queued_packets_from ip (Suc k) rs"
    proof (cases "Suc k = length ?q")
      case True
      then have "queued_packets_from ip (Suc k) rs = Some rs" by (subst queued_packets_from.simps) simp
      moreover have "queued_packets_from ip k rs = Some rs"
        using k False True by (subst queued_packets_from.simps) simp
      ultimately show ?thesis by simp
    qed (use k False in \<open>subst queued_packets_from.simps, simp\<close>)
    also have "\<dots> = Some (rs\<lparr>
       arp_queue := take (Suc k) ?q @ filter (\<lambda>aqe. aq_next_hop aqe \<noteq> ip) (drop (Suc k) ?q),
       events := events rs @ concat (map (queued_frames ?m)
         (filter (\<lambda>aqe. aq_next_hop aqe = ip) (drop (Suc k) ?q)))\<rparr>)"
      using Suc.prems k by (intro Suc.hyps(1)) (use Suc.hyps(2) in simp_all)
    finally show ?thesis using False k by (simp add: d take_Suc_conv_app_nth)
  next
    case True
    let ?rs1 = "rs\<lparr>arp_queue := ?q[k := ?aqe\<lparr>aq_head := []\<rparr>], events := events rs @ queued_frames ?m ?aqe\<rparr>"
    have f: "send_entry_packets k rs = Some ?rs1"
      using Suc.prems True k ok by (intro send_entry_packets_flush) simp_all
    let ?rs2 = "rs\<lparr>arp_queue := take k ?q @ drop (Suc k) ?q, events := events rs @ queued_frames ?m ?aqe\<rparr>"
    have g: "drop_entry k ?rs1 = ?rs2" by (simp add: drop_entry_def)
    have step: "queued_packets_from ip k rs = (if Suc k = length ?q then Some ?rs2 else queued_packets_from ip k ?rs2)"
      using k True f g by (subst queued_packets_from.simps) simp
    have "queued_packets_from ip k rs = queued_packets_from ip k ?rs2"
    proof (cases "Suc k = length ?q")
      case True
      then have "queued_packets_from ip k ?rs2 = Some ?rs2" using k by (subst queued_packets_from.simps) simp
      with True step show ?thesis by simp
    qed (simp add: step)
    also have "\<dots> = Some (?rs2\<lparr>
       arp_queue := take k (arp_queue ?rs2) @ filter (\<lambda>aqe. aq_next_hop aqe \<noteq> ip) (drop k (arp_queue ?rs2)),
       events := events ?rs2 @ concat (map (queued_frames ?m)
         (filter (\<lambda>aqe. aq_next_hop aqe = ip) (drop k (arp_queue ?rs2))))\<rparr>)"
    proof (rule Suc.hyps(1))
      show "n = length (arp_queue ?rs2) - k" using Suc.hyps(2) k by simp
      show "get_from_arp_cache ?rs2 ip = Some ace"
        using Suc.prems(1) by (simp add: get_from_arp_cache_def in_arp_cache_def)
      show "\<forall>aqe\<in>set (arp_queue ?rs2). queue_entry_ok aqe"
        using Suc.prems(4) by (auto dest: in_set_takeD in_set_dropD)
    qed (use Suc.prems k in simp_all)
    finally show ?thesis using True k by (simp add: d)
  qed
qed

text \<open>C9: an ARP reply resolves its sender and sets the waiting packets free: all packets queued
  for that address are sent, in the order of the queue, out of the interfaces they were queued
  for and to the hardware address of the reply; the queue keeps exactly the entries of other
  addresses, the address resolves to the reply's, and every lock taken is given back.\<close>

theorem arp_reply_flushes_queue:
  assumes "get_arp_hdr p = Some arp" "all_free rs" "\<forall>aqe\<in>set (arp_queue rs). queue_entry_ok aqe"
    "distinct (map ac_ip (arp_cache rs))"
  shows "\<exists>rs'. process_arp_reply rs p interface = Some rs'
    \<and> events rs' = events rs @ concat (map (queued_frames (arp_sha arp))
        (filter (\<lambda>aqe. aq_next_hop aqe = arp_sip arp) (arp_queue rs)))
    \<and> arp_queue rs' = filter (\<lambda>aqe. aq_next_hop aqe \<noteq> arp_sip arp) (arp_queue rs)
    \<and> map_option ac_arp_ha (get_from_arp_cache rs' (arp_sip arp)) = Some (arp_sha arp)
    \<and> (is_netfpga rs \<longrightarrow> arp_mirrored rs') \<and> all_free rs'"
proof -
  have fr: "locks rs l = Free" for l using assms(2) by (simp add: all_free_def)
  let ?w = "set_lock L_arp_cache Writing rs"
  obtain r ru where u: "update_arp_cache ?w (arp_sip arp) (arp_sha arp) 0 = (r, ru)"
    by (cases "update_arp_cache ?w (arp_sip arp) (arp_sha arp) 0")
  have "distinct (map ac_ip (arp_cache ?w))" using assms(4) by (simp add: frame_simps)
  from update_arp_cache_facts [OF this u] obtain ace where
      a: "get_from_arp_cache ru (arp_sip arp) = Some ace" "ac_arp_ha ace = arp_sha arp"
    and mir: "is_netfpga rs \<longrightarrow> arp_mirrored ru"
    and ru: "ru = ?w\<lparr>arp_cache := arp_cache ru, netfpga := netfpga ru\<rparr>"
    by (auto simp: frame_simps)
  have l: "locks ru = (\<lambda>_. Free)(L_arp_cache := Writing)" "arp_queue ru = arp_queue rs" "events ru = events rs"
    by (subst ru; simp add: fr set_lock_def fun_eq_iff)+
  let ?r1 = "set_lock L_arp_queue Writing (set_lock L_arp_cache (Reading 0) ru)"
  let ?r2 = "?r1\<lparr>arp_queue := filter (\<lambda>aqe. aq_next_hop aqe \<noteq> arp_sip arp) (arp_queue rs),
     events := events rs @ concat (map (queued_frames (arp_sha arp))
       (filter (\<lambda>aqe. aq_next_hop aqe = arp_sip arp) (arp_queue rs)))\<rparr>"
  have flush: "send_queued_packets ?r1 (arp_sip arp) (arp_sha arp) = Some ?r2"
    unfolding send_queued_packets_def
    using queued_packets_from_flush [of ?r1 "arp_sip arp" ace 0] a assms(3)
    by (simp add: frame_simps l get_from_arp_cache_def in_arp_cache_def)
  have "process_arp_reply rs p interface = Some (set_lock L_arp_cache Free (set_lock L_arp_queue Free ?r2))"
    using assms(1) u flush
    by (simp add: process_arp_reply_def lock_wrappers fault_simps fr l)
  moreover have "get_from_arp_cache (set_lock L_arp_cache Free (set_lock L_arp_queue Free ?r2)) (arp_sip arp) = Some ace"
    using a by (simp add: get_from_arp_cache_def in_arp_cache_def frame_simps)
  moreover have "is_netfpga rs \<longrightarrow> arp_mirrored (set_lock L_arp_cache Free (set_lock L_arp_queue Free ?r2))"
    using mir by (simp add: arp_mirrored_def frame_simps)
  moreover have "all_free (set_lock L_arp_cache Free (set_lock L_arp_queue Free ?r2))"
    by (simp add: all_free_def l fun_eq_iff)
  ultimately show ?thesis using a(2)
    by (intro exI [of _ "set_lock L_arp_cache Free (set_lock L_arp_queue Free ?r2)"]) (simp add: frame_simps)
qed

lemma arp_frame_headers:
  "get_eth_hdr (arp_frame e a @ rest) = Some e"
  "eth_type e = htons ETH_TYPE_ARP \<Longrightarrow> get_arp_hdr (arp_frame e a @ rest) = Some a"
proof -
  show eth: "get_eth_hdr (arp_frame e a @ rest) = Some e"
    by (simp add: get_eth_hdr_def load_def arp_frame_def eth_hdr.length_enc eth_hdr.dec_enc)
  show "eth_type e = htons ETH_TYPE_ARP \<Longrightarrow> get_arp_hdr (arp_frame e a @ rest) = Some a"
    by (simp add: get_arp_hdr_def eth)
      (simp add: load_def arp_frame_def eth_hdr.length_enc arp_hdr.length_enc arp_hdr.dec_enc layout_defs)
qed

lemma pad_frame_append: "\<exists>rest. pad_frame p = p @ rest"
  by (auto simp: pad_frame_def)

definition sample_arp_reply :: packet where
  "sample_arp_reply = arp_frame \<lparr>eth_dhost = 1, eth_shost = 2, eth_type = htons ETH_TYPE_ARP\<rparr>
     \<lparr>arp_hrd = htons 1, arp_pro = htons 0x0800, arp_hln = 6, arp_pln = 4, arp_op = htons 2,
      arp_sha = 2, arp_sip = 9, arp_tha = 1, arp_tip = 7\<rparr>"

lemma sample_arp_reply_hdr: "get_arp_hdr sample_arp_reply =
    Some \<lparr>arp_hrd = htons 1, arp_pro = htons 0x0800, arp_hln = 6, arp_pln = 4, arp_op = htons 2,
      arp_sha = 2, arp_sip = 9, arp_tha = 1, arp_tip = 7\<rparr>"
  using arp_frame_headers(2) [of _ _ "[]"] by (simp add: sample_arp_reply_def)

theorem arp_reply_flushes_queue_witness:
  "\<exists>rs rs'. length (arp_queue rs) = 1 \<and> process_arp_reply rs sample_arp_reply ''eth0'' = Some rs'
     \<and> arp_queue rs' = [] \<and> length (events rs') = 2"
proof -
  let ?e = "\<lparr>aq_out_iface_name = ''eth0'', aq_next_hop = 9, aq_requests = 1, aq_last_req_time = 0,
     aq_head = [replicate 40 0, replicate 50 1]\<rparr>"
  let ?rs = "empty_router\<lparr>arp_queue := [?e]\<rparr>"
  have "all_free ?rs" "\<forall>aqe\<in>set (arp_queue ?rs). queue_entry_ok aqe" "distinct (map ac_ip (arp_cache ?rs))"
    by (simp_all add: all_free_def empty_router_def queue_entry_ok_def eth_ports_def)
  from arp_reply_flushes_queue [OF sample_arp_reply_hdr this, of "''eth0''"]
  obtain rs' where "process_arp_reply ?rs sample_arp_reply ''eth0'' = Some rs'"
      "events rs' = events ?rs @ concat (map (queued_frames 2)
        (filter (\<lambda>aqe. aq_next_hop aqe = 9) (arp_queue ?rs)))"
      "arp_queue rs' = filter (\<lambda>aqe. aq_next_hop aqe \<noteq> 9) (arp_queue ?rs)"
    by auto
  then show ?thesis
    by (intro exI [of _ ?rs] exI [of _ rs']) (simp add: empty_router_def queued_frames_def)
qed

text \<open>An ARP request is answered exactly when it asks for the address of an interface: by one
  reply, to the hardware and network address of the asker, that gives the hardware address of that
  interface, sent out of that interface; nothing else changes, and the interface lock is given
  back.\<close>

theorem arp_request_answered:
  assumes "get_arp_hdr p = Some arp" "get_eth_hdr p = Some eth" "all_free rs"
    "if_name ` set (if_list rs) \<subseteq> eth_ports"
  shows "process_arp_request rs p interface = Some (case find (\<lambda>n. if_ip n = arp_tip arp) (if_list rs) of
      None \<Rightarrow> rs
    | Some n \<Rightarrow> emit (Tx (pad_frame (arp_reply_frame n eth arp)) (if_name n)) rs)
    \<and> get_eth_hdr (pad_frame (arp_reply_frame n eth arp)) = Some \<lparr>eth_dhost = eth_shost eth,
        eth_shost = if_addr n, eth_type = htons ETH_TYPE_ARP\<rparr>
    \<and> get_arp_hdr (pad_frame (arp_reply_frame n eth arp)) = Some \<lparr>arp_hrd = htons 1,
        arp_pro = htons 0x0800, arp_hln = 6, arp_pln = 4, arp_op = htons ARP_OP_REPLY,
        arp_sha = if_addr n, arp_sip = if_ip n, arp_tha = arp_sha arp, arp_tip = arp_sip arp\<rparr>"
proof (intro conjI)
  have fr: "locks rs l = Free" for l using assms(3) by (simp add: all_free_def)
  show "process_arp_request rs p interface = Some (case find (\<lambda>n. if_ip n = arp_tip arp) (if_list rs) of
      None \<Rightarrow> rs
    | Some n \<Rightarrow> emit (Tx (pad_frame (arp_reply_frame n eth arp)) (if_name n)) rs)"
  proof (cases "find (\<lambda>n. if_ip n = arp_tip arp) (if_list rs)")
    case None
    with assms(1) show ?thesis
      by (simp add: process_arp_request_def lock_wrappers fault_simps frame_simps fr)
  next
    case (Some n)
    then have "n \<in> set (if_list rs)" by (auto simp: find_Some_iff)
    then have "if_name n \<in> eth_ports" using assms(4) by auto
    with Some assms(1,2) show ?thesis
      by (simp add: process_arp_request_def lock_wrappers fault_simps frame_simps fr send_arp_reply_def
          send_packet_ok emit_def set_lock_def fun_upd_idem)
  qed
  let ?e = "\<lparr>eth_dhost = eth_shost eth, eth_shost = if_addr n, eth_type = htons ETH_TYPE_ARP\<rparr>"
  let ?a = "\<lparr>arp_hrd = htons 1, arp_pro = htons 0x0800, arp_hln = 6, arp_pln = 4,
        arp_op = htons ARP_OP_REPLY, arp_sha = if_addr n, arp_sip = if_ip n, arp_tha = arp_sha arp,
        arp_tip = arp_sip arp\<rparr>"
  have f: "arp_reply_frame n eth arp = arp_frame ?e ?a"
    by (simp add: arp_reply_frame_def populate_eth_hdr_def populate_arp_hdr_def Let_def
        blank_eth_def blank_arp_def dec_eth_hdr_def dec_arp_hdr_def)
  obtain rest where "pad_frame (arp_reply_frame n eth arp) = arp_frame ?e ?a @ rest"
    using pad_frame_append f by metis
  then show "get_eth_hdr (pad_frame (arp_reply_frame n eth arp)) = Some ?e"
    "get_arp_hdr (pad_frame (arp_reply_frame n eth arp)) = Some ?a"
    using arp_frame_headers [of ?e ?a rest] by simp_all
qed

definition sample_arp_request :: packet where
  "sample_arp_request = arp_frame \<lparr>eth_dhost = 0xFFFFFFFFFFFF, eth_shost = 2, eth_type = htons ETH_TYPE_ARP\<rparr>
     \<lparr>arp_hrd = htons 1, arp_pro = htons 0x0800, arp_hln = 6, arp_pln = 4, arp_op = htons 1,
      arp_sha = 2, arp_sip = 9, arp_tha = 0, arp_tip = 0x0100000A\<rparr>"

theorem arp_request_answered_witness:
  "\<exists>rs'. process_arp_request (empty_router\<lparr>if_list := [sample_iface]\<rparr>) sample_arp_request ''eth0'' = Some rs'
     \<and> length (events rs') = 1"
proof -
  let ?rs = "empty_router\<lparr>if_list := [sample_iface]\<rparr>"
  let ?a = "\<lparr>arp_hrd = htons 1, arp_pro = htons 0x0800, arp_hln = 6, arp_pln = 4, arp_op = htons 1,
      arp_sha = 2, arp_sip = 9, arp_tha = 0, arp_tip = 0x0100000A\<rparr>"
  let ?e = "\<lparr>eth_dhost = 0xFFFFFFFFFFFF, eth_shost = 2, eth_type = htons ETH_TYPE_ARP\<rparr>"
  have "get_arp_hdr sample_arp_request = Some ?a" "get_eth_hdr sample_arp_request = Some ?e"
    using arp_frame_headers [of ?e ?a "[]"] by (simp_all add: sample_arp_request_def)
  from arp_request_answered [OF this, of ?rs "''eth0''" sample_iface]
  show ?thesis by (simp add: all_free_def empty_router_def sample_iface_def eth_ports_def emit_def)
qed

end
