(* ===== verification/Icmp.thy ===== *)
theory Icmp
  imports Arp Rtable
begin

text \<open>
  ICMP, or_icmp.c: error messages and echo replies, echo requests for the \<open>sping\<close> command, and the
  queue of echo replies (or_sping.c).
\<close>

section \<open>The code\<close>

definition IP_PROTO_ICMP :: u8 where "IP_PROTO_ICMP = 1"
definition IP_PROTO_TCP :: u8 where "IP_PROTO_TCP = 6"
definition IP_PROTO_UDP :: u8 where "IP_PROTO_UDP = 0x11"
definition IP_PROTO_PWOSPF :: u8 where "IP_PROTO_PWOSPF = 0x59"
definition IP_PROTO_CCCP :: u8 where "IP_PROTO_CCCP = 0xd5"
definition ICMP_TYPE_DESTINATION_UNREACHABLE :: u8 where "ICMP_TYPE_DESTINATION_UNREACHABLE = 3"
definition ICMP_CODE_NET_UNREACHABLE :: u8 where "ICMP_CODE_NET_UNREACHABLE = 0"
definition ICMP_CODE_HOST_UNREACHABLE :: u8 where "ICMP_CODE_HOST_UNREACHABLE = 1"
definition ICMP_CODE_PROTOCOL_UNREACHABLE :: u8 where "ICMP_CODE_PROTOCOL_UNREACHABLE = 2"
definition ICMP_CODE_PORT_UNREACHABLE :: u8 where "ICMP_CODE_PORT_UNREACHABLE = 3"
definition ICMP_CODE_NET_UNKNOWN :: u8 where "ICMP_CODE_NET_UNKNOWN = 6"
definition ICMP_TYPE_TIME_EXCEEDED :: u8 where "ICMP_TYPE_TIME_EXCEEDED = 0xB"
definition ICMP_CODE_TTL_EXCEEDED :: u8 where "ICMP_CODE_TTL_EXCEEDED = 0"
definition ICMP_TYPE_ECHO_REQUEST :: u8 where "ICMP_TYPE_ECHO_REQUEST = 8"
definition ICMP_TYPE_ECHO_REPLY :: u8 where "ICMP_TYPE_ECHO_REPLY = 0"
definition ICMP_CODE_ECHO :: u8 where "ICMP_CODE_ECHO = 0"

lemmas icmp_consts = IP_PROTO_ICMP_def ICMP_TYPE_DESTINATION_UNREACHABLE_def
  ICMP_CODE_NET_UNREACHABLE_def ICMP_CODE_HOST_UNREACHABLE_def ICMP_CODE_PROTOCOL_UNREACHABLE_def
  ICMP_CODE_PORT_UNREACHABLE_def ICMP_CODE_NET_UNKNOWN_def ICMP_TYPE_TIME_EXCEEDED_def
  ICMP_CODE_TTL_EXCEEDED_def ICMP_TYPE_ECHO_REQUEST_def ICMP_TYPE_ECHO_REPLY_def ICMP_CODE_ECHO_def

text \<open>Filling a new packet with an ICMP message, from the payload to the Ethernet header.\<close>

definition fill_icmp_packet ::
    "iface_entry \<Rightarrow> u8 \<Rightarrow> u8 \<Rightarrow> u8 list \<Rightarrow> u32 \<Rightarrow> u32 \<Rightarrow> packet \<Rightarrow> packet option" where
  "fill_icmp_packet ie ty code payload src dst p = do {
     p \<leftarrow> populate_icmp ty code payload p;
     (c, m) \<leftarrow> compute_icmp_checksum (drop 34 p) (int (length payload));
     icmp \<leftarrow> get_icmp_hdr p;
     p \<leftarrow> put_icmp_hdr (icmp\<lparr>icmp_sum := htons c\<rparr>) p;
     p \<leftarrow> put_ip_hdr (populate_ip (of_nat (4 + length payload)) IP_PROTO_ICMP src dst) p;
     p \<leftarrow> set_ip_checksum p;
     eth \<leftarrow> get_eth_hdr p;
     put_eth_hdr (populate_eth_hdr eth None (if_addr ie) ETH_TYPE_IP) p
   }"

text \<open>
  The payload of an echo reply is the rest of the request; for a request shorter than the headers
  its length is negative. The payload of an error is four zero bytes, the IP header and the next
  eight bytes.
\<close>

definition icmp_payload :: "packet \<Rightarrow> u8 \<Rightarrow> u8 list option" where
  "icmp_payload src_packet ty =
     (if ty = ICMP_TYPE_ECHO_REPLY
      then if length src_packet < 38 then None else Some (drop 38 src_packet)
      else if length src_packet < 42 then None
      else Some (replicate 4 0 @ take 28 (drop 14 src_packet)))"

definition send_icmp_packet ::
    "router_state \<Rightarrow> packet \<Rightarrow> u8 \<Rightarrow> u8 \<Rightarrow> (int \<times> router_state) option" where
  "send_icmp_packet rs src_packet ty code = do {
     ip \<leftarrow> get_ip_hdr src_packet;
     case get_next_hop rs 32 (ip_src ip) of
       None \<Rightarrow> Some (1, rs)
     | Some (next_hop, iface) \<Rightarrow> do {
         iface_struct \<leftarrow> get_iface rs iface;
         payload \<leftarrow> icmp_payload src_packet ty;
         let own = (ty = ICMP_TYPE_ECHO_REPLY \<or> ty = ICMP_TYPE_DESTINATION_UNREACHABLE
             \<and> code = ICMP_CODE_PORT_UNREACHABLE);
         new_packet \<leftarrow> fill_icmp_packet iface_struct ty code payload
           (if own then ip_dst ip else if_ip iface_struct) (ip_src ip) (replicate (38 + length payload) 0);
         send_ip rs new_packet next_hop (if_name iface_struct)
       }
   }"

text \<open>The echo request of \<open>sping\<close>: the identifier, two zero bytes, and the padding 1, 2, \<dots>\<close>

definition send_icmp_echo_request_packet ::
    "router_state \<Rightarrow> u32 \<Rightarrow> u16 \<Rightarrow> (int \<times> router_state) option" where
  "send_icmp_echo_request_packet rs dst ident =
     (case get_next_hop rs 32 dst of
       None \<Rightarrow> Some (1, rs)
     | Some (next_hop, iface) \<Rightarrow> do {
         iface_struct \<leftarrow> get_iface rs iface;
         let payload = [byte_of 0 ident, byte_of 1 ident, 0, 0] @ populate_padding 56;
         p \<leftarrow> fill_icmp_packet iface_struct ICMP_TYPE_ECHO_REQUEST ICMP_CODE_ECHO payload
           (if_ip iface_struct) dst (replicate 98 0);
         send_ip rs p next_hop (if_name iface_struct)
       })"

definition process_icmp_echo_reply_packet :: "router_state \<Rightarrow> packet \<Rightarrow> (int \<times> router_state) option" where
  "process_icmp_echo_reply_packet rs p = do {
     let sping_entry = \<lparr>sq_packet = p, sq_arrival_time = clock rs\<rparr>;
     rs \<leftarrow> lock_mutex_sping_queue rs;
     let rs = emit (Signal C_sping) (rs\<lparr>sping_queue := sping_queue rs @ [sping_entry]\<rparr>);
     rs \<leftarrow> unlock_mutex_sping_queue rs;
     Some (1, rs)
   }"

definition process_icmp_packet :: "router_state \<Rightarrow> packet \<Rightarrow> string \<Rightarrow> router_state option" where
  "process_icmp_packet rs p interface = do {
     icmp \<leftarrow> get_icmp_hdr p;
     rs \<leftarrow> (if icmp_type icmp = ICMP_TYPE_ECHO_REQUEST
        then map_option snd (send_icmp_packet rs p ICMP_TYPE_ECHO_REPLY ICMP_CODE_ECHO) else Some rs);
     (if icmp_type icmp = ICMP_TYPE_ECHO_REPLY
        then map_option snd (process_icmp_echo_reply_packet rs p) else Some rs)
   }"

text \<open>The search of \<open>wait_for_reply\<close> under the lock, and one pass of the cleanup thread.\<close>

definition sping_id :: "packet \<Rightarrow> u16 option" where
  "sping_id p = (if length p < 40 then None else Some (le16 (p ! 38) (p ! 39)))"

fun sping_search :: "u16 \<Rightarrow> sping_queue_entry list \<Rightarrow> (bool \<times> sping_queue_entry list) option" where
  "sping_search ident [] = Some (False, [])"
| "sping_search ident (se # next) = do {
     pckt_id \<leftarrow> sping_id (sq_packet se);
     if pckt_id = ident then Some (True, next)
     else do {
       (found, rest) \<leftarrow> sping_search ident next;
       Some (found, se # rest)
     }
   }"

definition sping_queue_cleanup :: "router_state \<Rightarrow> router_state option" where
  "sping_queue_cleanup rs = do {
     rs \<leftarrow> lock_mutex_sping_queue rs;
     let rs = rs\<lparr>sping_queue := filter (\<lambda>sqe. \<not> clock rs - sq_arrival_time sqe > 30) (sping_queue rs)\<rparr>;
     unlock_mutex_sping_queue rs
   }"

section \<open>The packets it sends\<close>

lemma enc_lengths [simp]: "length (enc_eth_hdr e) = 14" "length (enc_ip_hdr h) = 20" "length (enc_icmp_hdr i) = 4"
  by (rule eth_hdr.length_enc ip_hdr.length_enc icmp_hdr.length_enc)+

text \<open>Header access in a packet given by its parts.\<close>

lemma parts_access:
  assumes "length e = 14" "length h = 20"
  shows "get_eth_hdr (e @ rest) = Some (dec_eth_hdr e)"
    "put_eth_hdr v (e @ rest) = Some (enc_eth_hdr v @ rest)"
    "get_ip_hdr (e @ h @ rest) = Some (dec_ip_hdr h)"
    "put_ip_hdr w (e @ h @ rest) = Some (e @ enc_ip_hdr w @ rest)"
    "length i = 4 \<Longrightarrow> get_icmp_hdr (e @ h @ i @ rest) = Some (dec_icmp_hdr i)"
    "length i = 4 \<Longrightarrow> put_icmp_hdr c (e @ h @ i @ rest) = Some (e @ h @ enc_icmp_hdr c @ rest)"
proof -
  note d = hdr_access_defs
  show "get_eth_hdr (e @ rest) = Some (dec_eth_hdr e)" "put_eth_hdr v (e @ rest) = Some (enc_eth_hdr v @ rest)"
    using assms by (simp_all add: d load_def store_def)
  show "get_ip_hdr (e @ h @ rest) = Some (dec_ip_hdr h)"
    "put_ip_hdr w (e @ h @ rest) = Some (e @ enc_ip_hdr w @ rest)"
    using assms by (simp_all add: d load_mid store_mid)
  show "length i = 4 \<Longrightarrow> get_icmp_hdr (e @ h @ i @ rest) = Some (dec_icmp_hdr i)"
    "length i = 4 \<Longrightarrow> put_icmp_hdr c (e @ h @ i @ rest) = Some (e @ h @ enc_icmp_hdr c @ rest)"
    using assms load_mid [of "e @ h" 34 i 4] store_mid [of "e @ h" 34 i 4] by (simp_all add: d)
qed

lemma set_ip_checksum_parts:
  assumes "length e = 14" "ip_hl h = 5"
  shows "\<exists>s. set_ip_checksum (e @ enc_ip_hdr h @ rest) = Some (e @ enc_ip_hdr (h\<lparr>ip_sum := s\<rparr>) @ rest)"
proof
  show "set_ip_checksum (e @ enc_ip_hdr h @ rest) = Some (e @ enc_ip_hdr (h\<lparr>ip_sum :=
      htons (fold_complement (cksum_loop (\<lambda>i. i = 5) 0 (ip_shorts (h\<lparr>ip_sum := 0\<rparr>)) 0))\<rparr>) @ rest)"
    using assms by (simp add: set_ip_checksum_def compute_ip_checksum_header parts_access ip_hdr.dec_enc)
qed

definition icmp_ip_hdr :: "nat \<Rightarrow> u32 \<Rightarrow> u32 \<Rightarrow> ip_hdr" where
  "icmp_ip_hdr n src dst = populate_ip (of_nat (4 + n)) IP_PROTO_ICMP src dst"

definition icmp_eth_hdr :: "iface_entry \<Rightarrow> eth_hdr" where
  "icmp_eth_hdr ie = \<lparr>eth_dhost = 0, eth_shost = if_addr ie, eth_type = htons ETH_TYPE_IP\<rparr>"

lemma fill_icmp_packet_parts:
  "\<exists>c s m. compute_icmp_checksum (enc_icmp_hdr \<lparr>icmp_type = ty, icmp_code = code, icmp_sum = 0\<rparr> @ payload)
        (int (length payload)) = Some (c, m)
     \<and> fill_icmp_packet ie ty code payload src dst (replicate (38 + length payload) 0) =
        Some (enc_eth_hdr (icmp_eth_hdr ie) @ enc_ip_hdr ((icmp_ip_hdr (length payload) src dst)\<lparr>ip_sum := s\<rparr>)
          @ enc_icmp_hdr \<lparr>icmp_type = ty, icmp_code = code, icmp_sum = htons c\<rparr> @ payload)
     \<and> set_ip_checksum (replicate 14 0 @ enc_ip_hdr (icmp_ip_hdr (length payload) src dst)
          @ enc_icmp_hdr \<lparr>icmp_type = ty, icmp_code = code, icmp_sum = htons c\<rparr> @ payload)
        = Some (replicate 14 0 @ enc_ip_hdr ((icmp_ip_hdr (length payload) src dst)\<lparr>ip_sum := s\<rparr>)
          @ enc_icmp_hdr \<lparr>icmp_type = ty, icmp_code = code, icmp_sum = htons c\<rparr> @ payload)"
proof -
  let ?n = "length payload"
  let ?z14 = "replicate 14 (0 :: u8)" and ?z20 = "replicate 20 (0 :: u8)"
  let ?ia = "\<lparr>icmp_type = ty, icmp_code = code, icmp_sum = 0\<rparr>"
  let ?h = "icmp_ip_hdr ?n src dst"
  have z: "replicate (38 + ?n) 0 = ?z14 @ ?z20 @ replicate 4 0 @ replicate ?n 0"
    by (simp flip: replicate_add)
  have "put_icmp_hdr ?ia (?z14 @ ?z20 @ replicate 4 0 @ replicate ?n 0) = Some (?z14 @ ?z20 @ enc_icmp_hdr ?ia @ replicate ?n 0)"
    by (rule parts_access) simp_all
  moreover have "store ?n id 38 payload (?z14 @ ?z20 @ enc_icmp_hdr ?ia @ replicate ?n 0) = Some (?z14 @ ?z20 @ enc_icmp_hdr ?ia @ payload)"
    using store_mid [of "?z14 @ ?z20 @ enc_icmp_hdr ?ia" 38 "replicate ?n 0" ?n id payload "[]"] by simp
  ultimately have 1: "populate_icmp ty code payload (replicate (38 + ?n) 0) = Some (?z14 @ ?z20 @ enc_icmp_hdr ?ia @ payload)"
    unfolding populate_icmp_def z by (simp add: layout_defs)
  have "2 * ((4 + ?n) div 2) \<le> 4 + ?n" by simp
  then obtain c m where c: "compute_icmp_checksum (enc_icmp_hdr ?ia @ payload) (int ?n) = Some (c, m)"
    by (auto simp: compute_icmp_checksum_def Let_def)
  let ?ib = "\<lparr>icmp_type = ty, icmp_code = code, icmp_sum = htons c\<rparr>"
  have 2: "get_icmp_hdr (?z14 @ ?z20 @ enc_icmp_hdr ?ia @ payload) = Some ?ia"
    "put_icmp_hdr ?ib (?z14 @ ?z20 @ enc_icmp_hdr ?ia @ payload) = Some (?z14 @ ?z20 @ enc_icmp_hdr ?ib @ payload)"
    using parts_access(5,6) [of ?z14 ?z20 "enc_icmp_hdr ?ia"] by (simp_all add: icmp_hdr.dec_enc)
  have 3: "put_ip_hdr ?h (?z14 @ ?z20 @ enc_icmp_hdr ?ib @ payload) = Some (?z14 @ enc_ip_hdr ?h @ enc_icmp_hdr ?ib @ payload)"
    by (rule parts_access) simp_all
  have "ip_hl ?h = 5" by (simp add: icmp_ip_hdr_def populate_ip_def)
  then obtain s where s: "set_ip_checksum (?z14 @ enc_ip_hdr ?h @ enc_icmp_hdr ?ib @ payload)
      = Some (?z14 @ enc_ip_hdr (?h\<lparr>ip_sum := s\<rparr>) @ enc_icmp_hdr ?ib @ payload)"
    using set_ip_checksum_parts [of ?z14] by (metis length_replicate)
  have 4: "get_eth_hdr (?z14 @ rest) = Some (dec_eth_hdr ?z14)"
    "put_eth_hdr v (?z14 @ rest) = Some (enc_eth_hdr v @ rest)" for rest v
    using parts_access(1,2) [of ?z14 ?z20] by simp_all
  have e: "populate_eth_hdr (dec_eth_hdr ?z14) None (if_addr ie) ETH_TYPE_IP = icmp_eth_hdr ie"
    by (simp add: populate_eth_hdr_def icmp_eth_hdr_def dec_eth_hdr_def le48_def)
  have d: "drop 34 (?z14 @ ?z20 @ enc_icmp_hdr ?ia @ payload) = enc_icmp_hdr ?ia @ payload" by simp
  have "fill_icmp_packet ie ty code payload src dst (replicate (38 + ?n) 0) =
      Some (enc_eth_hdr (icmp_eth_hdr ie) @ enc_ip_hdr (?h\<lparr>ip_sum := s\<rparr>) @ enc_icmp_hdr ?ib @ payload)"
    unfolding fill_icmp_packet_def icmp_ip_hdr_def [symmetric]
    by (simp only: 1 Option.bind.simps d c prod.case 2 icmp_hdr.simps 3 s 4 e)
  with c s show ?thesis by blast
qed


definition sample_router :: router_state where
  "sample_router = empty_router\<lparr>rtable := [\<lparr>rt_ip = 0, rt_gw = 0, rt_mask = 0, rt_iface = ''eth0'',
     rt_is_static = True, rt_is_active = True\<rparr>], if_list := [sample_iface]\<rparr>"

lemma sample_router_route:
  "get_next_hop sample_router 32 d = Some (d, ''eth0'')" "get_iface sample_router ''eth0'' = Some sample_iface"
  by (simp_all add: sample_router_def get_next_hop_def route_matches_def ntohl_def le32_def byte_of_def
      bits_matched_def get_iface_def iface_named_def sample_iface_def SR_NAMELEN_def)


text \<open>The loop of \<open>compute_icmp_checksum\<close> stops before the last byte of a message of odd
  length. With the zero byte that the checksum is defined to be padded with, the sum of such a
  message is not zero unless that byte is, so the checksum of an echo reply to a ping with an odd
  number of data bytes is wrong.\<close>

theorem icmp_checksum_wrong_for_odd_length:
  assumes "even (length q)" "length q < 65535" "b \<noteq> 0"
    "compute_icmp_checksum (enc_icmp_hdr i @ q @ [b]) (int (length (q @ [b]))) = Some (c, m)"
  shows "\<not> ones_sum_ok (enc_icmp_hdr (i\<lparr>icmp_sum := htons c\<rparr>) @ q @ [b, 0])"
proof -
  have last: "shorts (enc_icmp_hdr j @ q @ [b]) = shorts (enc_icmp_hdr j @ q)" for j
    using shorts_append [of "enc_icmp_hdr j @ q" "[b]"] assms(1) by simp
  have half: "nat (4 + int (length (q @ [b]))) div 2 = (4 + length q) div 2"
    unfolding nat_four_plus using assms(1) by (auto elim!: evenE)
  have z: "(enc_icmp_hdr i @ r)[2 := 0, 3 := 0] = enc_icmp_hdr (i\<lparr>icmp_sum := 0\<rparr>) @ r" for r
    by (simp add: enc_icmp_hdr_def byte_of_def)
  obtain m' where "compute_icmp_checksum (enc_icmp_hdr i @ q) (int (length q)) = Some (c, m')"
    using assms(1,4) unfolding compute_icmp_checksum_def half z last
    by (auto simp: Let_def z last split: if_splits)
  from icmp_checksum_ok [OF assms(1) _ this] assms(2)
  have ok: "ones_sum_ok (enc_icmp_hdr (i\<lparr>icmp_sum := htons c\<rparr>) @ q)" by simp
  let ?ss = "shorts (enc_icmp_hdr (i\<lparr>icmp_sum := htons c\<rparr>) @ q)"
  let ?N = "nsum (\<lambda>_. False) 0 ?ss"
  have "shorts (enc_icmp_hdr (i\<lparr>icmp_sum := htons c\<rparr>) @ q @ [b, 0]) = ?ss @ [le16 b 0]"
    using shorts_append [of "enc_icmp_hdr (i\<lparr>icmp_sum := htons c\<rparr>) @ q" "[b, 0]"] assms(1) by simp
  then have n: "nsum (\<lambda>_. False) 0 (shorts (enc_icmp_hdr (i\<lparr>icmp_sum := htons c\<rparr>) @ q @ [b, 0]))
      = ?N + 256 * unat b"
    by (simp add: nsum_append unat_le16)
  have "unat b < 256" using unsigned_less [of b, where ?'a = nat] by simp
  moreover have "0 < unat b" using assms(3) by (simp add: unat_gt_0)
  ultimately have "(256 * unat b) mod 65535 \<noteq> 0" by simp
  moreover have "(?N + 256 * unat b) mod 65535 = (256 * unat b) mod 65535"
    using ok by (metis add_0 mod_add_left_eq ones_sum_ok_def)
  ultimately show ?thesis unfolding ones_sum_ok_def n by simp
qed

theorem icmp_checksum_wrong_for_odd_length_witness:
  "\<exists>c m. compute_icmp_checksum (enc_icmp_hdr \<lparr>icmp_type = 0, icmp_code = 0, icmp_sum = 0\<rparr> @ [1, 2] @ [3]) 3 = Some (c, m)
    \<and> \<not> ones_sum_ok (enc_icmp_hdr \<lparr>icmp_type = 0, icmp_code = 0, icmp_sum = htons c\<rparr> @ [1, 2] @ [3, 0])"
proof -
  let ?i = "\<lparr>icmp_type = 0, icmp_code = 0, icmp_sum = 0\<rparr>"
  obtain c m where c: "compute_icmp_checksum (enc_icmp_hdr ?i @ [1, 2] @ [3]) (int (length ([1, 2] @ [3 :: u8]))) = Some (c, m)"
    by (auto simp: compute_icmp_checksum_def Let_def)
  have "even (length [1, 2 :: u8])" "length [1, 2 :: u8] < 65535" "(3 :: u8) \<noteq> 0" by simp_all
  note w = icmp_checksum_wrong_for_odd_length [OF this c]
  from c have "compute_icmp_checksum (enc_icmp_hdr ?i @ [1, 2] @ [3]) 3 = Some (c, m)"
    by (simp add: numeral_3_eq_3)
  moreover from w have "\<not> ones_sum_ok (enc_icmp_hdr \<lparr>icmp_type = 0, icmp_code = 0, icmp_sum = htons c\<rparr> @ [1, 2] @ [3, 0])"
    by simp
  ultimately show ?thesis by blast
qed

end
