(* ===== verification/Nat_Table.thy ===== *)
theory Nat_Table
  imports Icmp
begin

text \<open>
  Network address translation (or_nat.c, \<open>populate_nat_packet\<close> of or_utils.c): the accessors of
  the transport headers, the search of the table by an external or internal address and port,
  the creation of an entry with a random free port, and the rewriting of packets in both
  directions with the incremental update of their checksums. A pointer to an entry is its index
  in the table. The upkeep of the table is in theory Nat_Admin; the functions that would write the
  table to the card have empty bodies.
\<close>

datatype nat_type = NAT_EXTERNAL | NAT_INTERNAL

section \<open>Header access\<close>

definition get_nat_tcp_hdr :: "packet \<Rightarrow> nat_tcp_hdr option" where
  "get_nat_tcp_hdr = load 20 dec_nat_tcp_hdr (ETH_HDR_LEN + IP_HDR_LEN)"

definition put_nat_tcp_hdr :: "nat_tcp_hdr \<Rightarrow> packet \<Rightarrow> packet option" where
  "put_nat_tcp_hdr = store 20 enc_nat_tcp_hdr (ETH_HDR_LEN + IP_HDR_LEN)"

definition get_nat_udp_hdr :: "packet \<Rightarrow> nat_udp_hdr option" where
  "get_nat_udp_hdr = load 8 dec_nat_udp_hdr (ETH_HDR_LEN + IP_HDR_LEN)"

definition put_nat_udp_hdr :: "nat_udp_hdr \<Rightarrow> packet \<Rightarrow> packet option" where
  "put_nat_udp_hdr = store 8 enc_nat_udp_hdr (ETH_HDR_LEN + IP_HDR_LEN)"

definition get_nat_icmp_hdr :: "packet \<Rightarrow> nat_icmp_hdr option" where
  "get_nat_icmp_hdr = load 8 dec_nat_icmp_hdr (ETH_HDR_LEN + IP_HDR_LEN)"

definition put_nat_icmp_hdr :: "nat_icmp_hdr \<Rightarrow> packet \<Rightarrow> packet option" where
  "put_nat_icmp_hdr = store 8 enc_nat_icmp_hdr (ETH_HDR_LEN + IP_HDR_LEN)"

definition get_ip_hdr_from_icmp_data :: "packet \<Rightarrow> ip_hdr option" where
  "get_ip_hdr_from_icmp_data = load 20 dec_ip_hdr (ETH_HDR_LEN + IP_HDR_LEN + 8)"

definition put_ip_hdr_from_icmp_data :: "ip_hdr \<Rightarrow> packet \<Rightarrow> packet option" where
  "put_ip_hdr_from_icmp_data = store 20 enc_ip_hdr (ETH_HDR_LEN + IP_HDR_LEN + 8)"

definition get_icmp_hdr_from_icmp_data :: "packet \<Rightarrow> nat_icmp_hdr option" where
  "get_icmp_hdr_from_icmp_data = load 8 dec_nat_icmp_hdr (ETH_HDR_LEN + IP_HDR_LEN + 8 + IP_HDR_LEN)"

definition put_icmp_hdr_from_icmp_data :: "nat_icmp_hdr \<Rightarrow> packet \<Rightarrow> packet option" where
  "put_icmp_hdr_from_icmp_data = store 8 enc_nat_icmp_hdr (ETH_HDR_LEN + IP_HDR_LEN + 8 + IP_HDR_LEN)"

text \<open>\<open>*(ports + i)\<close> for the pointer \<open>ports\<close> that \<open>get_nat_port_list_from_icmp_data\<close> returns.\<close>

definition get_nat_port_list_from_icmp_data :: "nat \<Rightarrow> packet \<Rightarrow> u16 option" where
  "get_nat_port_list_from_icmp_data i =
     load 2 (\<lambda>bs. le16 (bs ! 0) (bs ! 1)) (ETH_HDR_LEN + IP_HDR_LEN + 8 + IP_HDR_LEN + 2 * i)"

definition put_nat_port_list_from_icmp_data :: "nat \<Rightarrow> u16 \<Rightarrow> packet \<Rightarrow> packet option" where
  "put_nat_port_list_from_icmp_data i =
     store 2 (\<lambda>w. [byte_of 0 w, byte_of 1 w]) (ETH_HDR_LEN + IP_HDR_LEN + 8 + IP_HDR_LEN + 2 * i)"

definition get_nat_echo_id_from_icmp_data :: "packet \<Rightarrow> u16 option" where
  "get_nat_echo_id_from_icmp_data p = map_option nicmp_opt1 (get_icmp_hdr_from_icmp_data p)"

section \<open>Searching the table\<close>

definition icmp_echo :: "u8 \<Rightarrow> bool" where
  "icmp_echo ty \<longleftrightarrow> ty = ICMP_TYPE_ECHO_REQUEST \<or> ty = ICMP_TYPE_ECHO_REPLY"

definition icmp_error :: "u8 \<Rightarrow> bool" where
  "icmp_error ty \<longleftrightarrow> ty = ICMP_TYPE_TIME_EXCEEDED \<or> ty = ICMP_TYPE_DESTINATION_UNREACHABLE"

text \<open>\<open>get_nat_port_from_icmp\<close> leaves the port 0 when it finds none.\<close>

definition get_nat_port_from_icmp :: "packet \<Rightarrow> nat_type \<Rightarrow> u16 option" where
  "get_nat_port_from_icmp p nat_type = do {
     icmp \<leftarrow> get_nat_icmp_hdr p;
     if icmp_echo (nicmp_type icmp) then Some (nicmp_opt1 icmp)
     else if icmp_error (nicmp_type icmp) then do {
       ip_data \<leftarrow> get_ip_hdr_from_icmp_data p;
       if ip_p ip_data = IP_PROTO_UDP \<or> ip_p ip_data = IP_PROTO_TCP
       then get_nat_port_list_from_icmp_data (if nat_type = NAT_EXTERNAL then 0 else 1) p
       else if ip_p ip_data = IP_PROTO_ICMP then get_nat_echo_id_from_icmp_data p
       else Some 0
     }
     else Some 0
   }"

definition nat_pair :: "u32 \<Rightarrow> u16 \<Rightarrow> nat_ip_port_pair" where
  "nat_pair ip port = \<lparr>nip_ip = ip, nip_port = port, nip_checksum = 0, nip_checksum_ip = 0, nip_checksum_port = 0\<rparr>"

definition get_nat_ip_port_pair :: "packet \<Rightarrow> nat_type \<Rightarrow> nat_ip_port_pair option" where
  "get_nat_ip_port_pair p nat_type = do {
     ip \<leftarrow> get_ip_hdr p;
     let addr = (if nat_type = NAT_EXTERNAL then ip_dst ip else ip_src ip);
     if ip_p ip = IP_PROTO_TCP then do {
       tcp \<leftarrow> get_nat_tcp_hdr p;
       Some (nat_pair addr (if nat_type = NAT_EXTERNAL then tcp_dport tcp else tcp_sport tcp))
     }
     else if ip_p ip = IP_PROTO_UDP then do {
       udp \<leftarrow> get_nat_udp_hdr p;
       Some (nat_pair addr (if nat_type = NAT_EXTERNAL then udp_dport udp else udp_sport udp))
     }
     else if ip_p ip = IP_PROTO_ICMP then map_option (nat_pair addr) (get_nat_port_from_icmp p nat_type)
     else Some (nat_pair 0 0)
   }"

definition found_nat_table_match :: "nat_entry \<Rightarrow> nat_ip_port_pair \<Rightarrow> nat_type \<Rightarrow> bool" where
  "found_nat_table_match ne nipp nat_type \<longleftrightarrow>
     (case nat_type of
        NAT_EXTERNAL \<Rightarrow> nip_ip (nat_ext ne) = nip_ip nipp \<and> nip_port (nat_ext ne) = nip_port nipp
      | NAT_INTERNAL \<Rightarrow> nip_ip (nat_int ne) = nip_ip nipp \<and> nip_port (nat_int ne) = nip_port nipp)"

fun first_match :: "('a \<Rightarrow> bool) \<Rightarrow> 'a list \<Rightarrow> nat option" where
  "first_match P [] = None"
| "first_match P (x # xs) = (if P x then Some 0 else map_option Suc (first_match P xs))"

text \<open>\<open>Some None\<close> is the null pointer.\<close>

definition get_nat_table_entry :: "router_state \<Rightarrow> packet \<Rightarrow> nat_type \<Rightarrow> nat option option" where
  "get_nat_table_entry rs p nat_type = do {
     pair \<leftarrow> get_nat_ip_port_pair p nat_type;
     Some (first_match (\<lambda>ne. found_nat_table_match ne pair nat_type) (nat_table rs))
   }"

section \<open>Creating an entry\<close>

definition get_src_port_number_from_icmp :: "packet \<Rightarrow> u16 option" where
  "get_src_port_number_from_icmp p = do {
     icmp \<leftarrow> get_nat_icmp_hdr p;
     if icmp_echo (nicmp_type icmp) then Some (nicmp_opt1 icmp)
     else if icmp_error (nicmp_type icmp) then get_nat_port_list_from_icmp_data 0 p
     else Some 0
   }"

definition get_src_port_number :: "packet \<Rightarrow> u8 \<Rightarrow> u16 option" where
  "get_src_port_number p ip_protocol =
     (if ip_protocol = IP_PROTO_TCP then map_option tcp_sport (get_nat_tcp_hdr p)
      else if ip_protocol = IP_PROTO_UDP then map_option udp_sport (get_nat_udp_hdr p)
      else if ip_protocol = IP_PROTO_ICMP then get_src_port_number_from_icmp p
      else Some 0)"

definition is_unique_nat_ext_port :: "router_state \<Rightarrow> u16 \<Rightarrow> bool" where
  "is_unique_nat_ext_port rs port \<longleftrightarrow> (\<forall>ne\<in>set (nat_table rs). nip_port (nat_ext ne) \<noteq> port)"

text \<open>The loop that draws ports until one fits. It does not end when none does.\<close>

partial_function (option) draw_nat_port :: "router_state \<Rightarrow> u16 \<Rightarrow> (u16 \<times> router_state) option" where
  "draw_nat_port rs port =
     (if port > 1024 \<and> is_unique_nat_ext_port rs port then Some (port, rs)
      else (case rand rs of (r, rs) \<Rightarrow> draw_nat_port rs (ucast r)))"

definition create_nat_table_entry :: "router_state \<Rightarrow> packet \<Rightarrow> u32 \<Rightarrow> (nat \<times> router_state) option" where
  "create_nat_table_entry rs p ext_ip = do {
     ip \<leftarrow> get_ip_hdr p;
     let (r, rs) = rand rs;
     (port, rs) \<leftarrow> draw_nat_port rs (ucast r);
     sport \<leftarrow> get_src_port_number p (ip_p ip);
     let ne = \<lparr>nat_ext = compute_nat_checksums (nat_pair ext_ip (htons port)),
           nat_int = compute_nat_checksums (nat_pair (ip_src ip) sport),
           nat_last_hits = 0, nat_last_hits_time = clock rs, nat_hits = 0, nat_avg_hits_per_second = Fin 0, nat_hw_row = 0xFF,
           nat_is_static = False\<rparr>;
     Some (length (nat_table rs), emit (Signal C_nat_table) (rs\<lparr>nat_table := nat_table rs @ [ne]\<rparr>))
   }"

section \<open>Rewriting a packet\<close>

text \<open>The data of an ICMP error: the header of the packet that caused it and the bytes behind.\<close>

definition populate_nat_icmp_error :: "packet \<Rightarrow> nat_entry \<Rightarrow> nat_type \<Rightarrow> packet option" where
  "populate_nat_icmp_error p ne nat_type = do {
     data_ip \<leftarrow> get_ip_hdr_from_icmp_data p;
     let data_ip = (case nat_type of
         NAT_EXTERNAL \<Rightarrow> data_ip\<lparr>ip_dst := nip_ip (nat_ext ne), ip_sum := nat_checksum (ip_sum data_ip)
             (nip_checksum_ip (nat_ext ne)) (nip_checksum_ip (nat_int ne))\<rparr>
       | NAT_INTERNAL \<Rightarrow> data_ip\<lparr>ip_src := nip_ip (nat_int ne), ip_sum := nat_checksum (ip_sum data_ip)
             (nip_checksum_ip (nat_int ne)) (nip_checksum_ip (nat_ext ne))\<rparr>);
     ip \<leftarrow> get_ip_hdr p;
     p \<leftarrow> put_ip_hdr (ip\<lparr>ip_sum := 0\<rparr>) p;
     p \<leftarrow> put_ip_hdr_from_icmp_data data_ip p;
     if ip_p data_ip = IP_PROTO_TCP \<or> ip_p data_ip = IP_PROTO_UDP
     then (case nat_type of
         NAT_EXTERNAL \<Rightarrow> put_nat_port_list_from_icmp_data 1 (nip_port (nat_ext ne)) p
       | NAT_INTERNAL \<Rightarrow> put_nat_port_list_from_icmp_data 0 (nip_port (nat_int ne)) p)
     else if ip_p data_ip = IP_PROTO_ICMP then do {
       icmp_data \<leftarrow> get_icmp_hdr_from_icmp_data p;
       if icmp_echo (nicmp_type icmp_data)
       then put_icmp_hdr_from_icmp_data (case nat_type of
           NAT_EXTERNAL \<Rightarrow> icmp_data\<lparr>nicmp_opt1 := nip_port (nat_ext ne), nicmp_sum := nat_checksum (nicmp_sum icmp_data)
               (nip_checksum_port (nat_ext ne)) (nip_checksum_port (nat_int ne))\<rparr>
         | NAT_INTERNAL \<Rightarrow> icmp_data\<lparr>nicmp_opt1 := nip_port (nat_int ne), nicmp_sum := nat_checksum (nicmp_sum icmp_data)
               (nip_checksum_port (nat_int ne)) (nip_checksum_port (nat_ext ne))\<rparr>) p
       else Some p
     }
     else Some p
   }"

definition populate_nat_packet :: "packet \<Rightarrow> nat_entry \<Rightarrow> nat_type \<Rightarrow> packet option" where
  "populate_nat_packet p ne nat_type = do {
     ip \<leftarrow> get_ip_hdr p;
     p \<leftarrow> put_ip_hdr (case nat_type of
         NAT_EXTERNAL \<Rightarrow> ip\<lparr>ip_src := nip_ip (nat_ext ne)\<rparr>
       | NAT_INTERNAL \<Rightarrow> ip\<lparr>ip_dst := nip_ip (nat_int ne)\<rparr>) p;
     if ip_p ip = IP_PROTO_TCP then do {
       tcp \<leftarrow> get_nat_tcp_hdr p;
       put_nat_tcp_hdr (case nat_type of
           NAT_EXTERNAL \<Rightarrow> tcp\<lparr>tcp_sport := nip_port (nat_ext ne)\<rparr>
         | NAT_INTERNAL \<Rightarrow> tcp\<lparr>tcp_dport := nip_port (nat_int ne)\<rparr>) p
     }
     else if ip_p ip = IP_PROTO_UDP then do {
       udp \<leftarrow> get_nat_udp_hdr p;
       put_nat_udp_hdr (case nat_type of
           NAT_EXTERNAL \<Rightarrow> udp\<lparr>udp_sport := nip_port (nat_ext ne)\<rparr>
         | NAT_INTERNAL \<Rightarrow> udp\<lparr>udp_dport := nip_port (nat_int ne)\<rparr>) p
     }
     else if ip_p ip = IP_PROTO_ICMP then do {
       icmp \<leftarrow> get_nat_icmp_hdr p;
       if icmp_echo (nicmp_type icmp)
       then put_nat_icmp_hdr (icmp\<lparr>nicmp_opt1 := nip_port (case nat_type of
           NAT_EXTERNAL \<Rightarrow> nat_ext ne | NAT_INTERNAL \<Rightarrow> nat_int ne)\<rparr>) p
       else if icmp_error (nicmp_type icmp) then populate_nat_icmp_error p ne nat_type
       else Some p
     }
     else Some p
   }"

text \<open>
  The checksums that both directions recompute after \<open>populate_nat_packet\<close>; \<open>new\<close> is the pair the
  packet now carries and \<open>old\<close> the one it carried before. The update of the IP checksum subtracts
  the sum over address and port where only the address has changed.
\<close>

definition nat_transport_checksum :: "packet \<Rightarrow> nat_ip_port_pair \<Rightarrow> nat_ip_port_pair \<Rightarrow> packet option" where
  "nat_transport_checksum p new old = do {
     ip \<leftarrow> get_ip_hdr p;
     if ip_p ip = IP_PROTO_TCP then do {
       tcp \<leftarrow> get_nat_tcp_hdr p;
       put_nat_tcp_hdr (tcp\<lparr>tcp_sum := nat_checksum (tcp_sum tcp) (nip_checksum new) (nip_checksum old)\<rparr>) p
     }
     else if ip_p ip = IP_PROTO_UDP then do {
       udp \<leftarrow> get_nat_udp_hdr p;
       put_nat_udp_hdr (udp\<lparr>udp_sum := nat_checksum (udp_sum udp) (nip_checksum new) (nip_checksum old)\<rparr>) p
     }
     else if ip_p ip = IP_PROTO_ICMP then do {
       icmp \<leftarrow> get_nat_icmp_hdr p;
       if icmp_echo (nicmp_type icmp)
       then put_nat_icmp_hdr (icmp\<lparr>nicmp_sum :=
           nat_checksum (nicmp_sum icmp) (nip_checksum_port new) (nip_checksum_port old)\<rparr>) p
       else if icmp_error (nicmp_type icmp) then do {
         (c, m) \<leftarrow> compute_icmp_checksum (drop (ETH_HDR_LEN + IP_HDR_LEN) p) (int (unat (ntohs (ip_len ip))) - 24);
         put_nat_icmp_hdr (icmp\<lparr>nicmp_sum := htons c\<rparr>) p
       }
       else Some p
     }
     else Some p
   }"

definition nat_ip_checksum :: "packet \<Rightarrow> nat_ip_port_pair \<Rightarrow> nat_ip_port_pair \<Rightarrow> packet option" where
  "nat_ip_checksum p new old = do {
     ip \<leftarrow> get_ip_hdr p;
     put_ip_hdr (ip\<lparr>ip_sum := nat_checksum (ip_sum ip) (nip_checksum_ip new) (nip_checksum old)\<rparr>) p
   }"

definition nat_hit :: "nat \<Rightarrow> router_state \<Rightarrow> router_state" where
  "nat_hit k rs = rs\<lparr>nat_table := (nat_table rs)[k := (nat_table rs ! k)\<lparr>nat_hits := nat_hits (nat_table rs ! k) + 1\<rparr>]\<rparr>"

section \<open>The two directions\<close>

definition process_nat_ext_packet :: "router_state \<Rightarrow> packet \<Rightarrow> (packet \<times> router_state) option" where
  "process_nat_ext_packet rs p = do {
     found \<leftarrow> get_nat_table_entry rs p NAT_EXTERNAL;
     case found of
       None \<Rightarrow> Some (p, rs)
     | Some k \<Rightarrow> do {
         let rs = nat_hit k rs;
         let ne = nat_table rs ! k;
         p \<leftarrow> populate_nat_packet p ne NAT_INTERNAL;
         p \<leftarrow> nat_transport_checksum p (nat_int ne) (nat_ext ne);
         p \<leftarrow> nat_ip_checksum p (nat_int ne) (nat_ext ne);
         Some (p, rs)
       }
   }"

text \<open>For a protocol other than TCP, UDP and ICMP the pointer to the entry is null when its hits are counted.\<close>

definition process_nat_int_packet :: "router_state \<Rightarrow> packet \<Rightarrow> u32 \<Rightarrow> (packet \<times> router_state) option" where
  "process_nat_int_packet rs p ext_ip = do {
     ip \<leftarrow> get_ip_hdr p;
     if ip_p ip = IP_PROTO_TCP \<or> ip_p ip = IP_PROTO_UDP \<or> ip_p ip = IP_PROTO_ICMP then do {
       found \<leftarrow> get_nat_table_entry rs p NAT_INTERNAL;
       (k, rs) \<leftarrow> (case found of Some k \<Rightarrow> Some (k, rs) | None \<Rightarrow> create_nat_table_entry rs p ext_ip);
       let ne = nat_table rs ! k;
       p \<leftarrow> populate_nat_packet p ne NAT_EXTERNAL;
       let rs = nat_hit k rs;
       p \<leftarrow> nat_transport_checksum p (nat_ext ne) (nat_int ne);
       p \<leftarrow> nat_ip_checksum p (nat_ext ne) (nat_int ne);
       Some (p, rs)
     }
     else None
   }"

section \<open>Packets by their parts\<close>

lemma nat_enc_lengths [simp]: "length (enc_nat_tcp_hdr t) = 20" "length (enc_nat_udp_hdr u) = 8"
    "length (enc_nat_icmp_hdr i) = 8"
  by (rule nat_tcp_hdr.length_enc nat_udp_hdr.length_enc nat_icmp_hdr.length_enc)+

lemmas nat_access_defs = get_nat_tcp_hdr_def put_nat_tcp_hdr_def get_nat_udp_hdr_def put_nat_udp_hdr_def
  get_nat_icmp_hdr_def put_nat_icmp_hdr_def layout_defs

lemmas nat_codecs [simp] = ip_hdr.dec_enc nat_tcp_hdr.dec_enc nat_udp_hdr.dec_enc nat_icmp_hdr.dec_enc

lemma nat_parts:
  assumes "length e = 14"
  shows "get_ip_hdr (e @ enc_ip_hdr h @ rest) = Some h"
    "put_ip_hdr h' (e @ enc_ip_hdr h @ rest) = Some (e @ enc_ip_hdr h' @ rest)"
    "get_nat_tcp_hdr (e @ enc_ip_hdr h @ enc_nat_tcp_hdr t @ d) = Some t"
    "put_nat_tcp_hdr t' (e @ enc_ip_hdr h @ enc_nat_tcp_hdr t @ d) = Some (e @ enc_ip_hdr h @ enc_nat_tcp_hdr t' @ d)"
    "get_nat_udp_hdr (e @ enc_ip_hdr h @ enc_nat_udp_hdr u @ d) = Some u"
    "put_nat_udp_hdr u' (e @ enc_ip_hdr h @ enc_nat_udp_hdr u @ d) = Some (e @ enc_ip_hdr h @ enc_nat_udp_hdr u' @ d)"
    "get_nat_icmp_hdr (e @ enc_ip_hdr h @ enc_nat_icmp_hdr i @ d) = Some i"
    "put_nat_icmp_hdr i' (e @ enc_ip_hdr h @ enc_nat_icmp_hdr i @ d) = Some (e @ enc_ip_hdr h @ enc_nat_icmp_hdr i' @ d)"
proof -
  show "get_ip_hdr (e @ enc_ip_hdr h @ rest) = Some h"
    "put_ip_hdr h' (e @ enc_ip_hdr h @ rest) = Some (e @ enc_ip_hdr h' @ rest)"
    using assms parts_access(3,4) [of e "enc_ip_hdr h"] by simp_all
  note l = load_mid [of "e @ enc_ip_hdr h" 34] and s = store_mid [of "e @ enc_ip_hdr h" 34]
  show "get_nat_tcp_hdr (e @ enc_ip_hdr h @ enc_nat_tcp_hdr t @ d) = Some t"
    "get_nat_udp_hdr (e @ enc_ip_hdr h @ enc_nat_udp_hdr u @ d) = Some u"
    "get_nat_icmp_hdr (e @ enc_ip_hdr h @ enc_nat_icmp_hdr i @ d) = Some i"
    using assms l [of "enc_nat_tcp_hdr t" 20 dec_nat_tcp_hdr d] l [of "enc_nat_udp_hdr u" 8 dec_nat_udp_hdr d]
      l [of "enc_nat_icmp_hdr i" 8 dec_nat_icmp_hdr d] by (simp_all add: nat_access_defs)
  show "put_nat_tcp_hdr t' (e @ enc_ip_hdr h @ enc_nat_tcp_hdr t @ d) = Some (e @ enc_ip_hdr h @ enc_nat_tcp_hdr t' @ d)"
    "put_nat_udp_hdr u' (e @ enc_ip_hdr h @ enc_nat_udp_hdr u @ d) = Some (e @ enc_ip_hdr h @ enc_nat_udp_hdr u' @ d)"
    "put_nat_icmp_hdr i' (e @ enc_ip_hdr h @ enc_nat_icmp_hdr i @ d) = Some (e @ enc_ip_hdr h @ enc_nat_icmp_hdr i' @ d)"
    using assms s [of "enc_nat_tcp_hdr t" 20 enc_nat_tcp_hdr t' d] s [of "enc_nat_udp_hdr u" 8 enc_nat_udp_hdr u' d]
      s [of "enc_nat_icmp_hdr i" 8 enc_nat_icmp_hdr i' d] by (simp_all add: nat_access_defs)
qed

lemma ip_packet_parts:
  assumes "get_ip_hdr p = Some h"
  obtains e d where "length e = 14" "p = e @ enc_ip_hdr h @ d" "d = drop 34 p"
proof
  show "p = take 14 p @ enc_ip_hdr h @ drop 34 p" "length (take 14 p) = 14" "drop 34 p = drop 34 p"
    using ip_hdr.load_parts [of 14 p h] assms by (simp_all add: hdr_access_defs)
qed

text \<open>The three kinds of flow that are translated, with their packets by parts.\<close>

datatype flow = Tcp_flow nat_tcp_hdr | Udp_flow nat_udp_hdr | Echo_flow nat_icmp_hdr

fun enc_flow :: "flow \<Rightarrow> u8 list" where
  "enc_flow (Tcp_flow t) = enc_nat_tcp_hdr t"
| "enc_flow (Udp_flow u) = enc_nat_udp_hdr u"
| "enc_flow (Echo_flow i) = enc_nat_icmp_hdr i"

fun flow_proto :: "flow \<Rightarrow> u8" where
  "flow_proto (Tcp_flow t) = IP_PROTO_TCP"
| "flow_proto (Udp_flow u) = IP_PROTO_UDP"
| "flow_proto (Echo_flow i) = IP_PROTO_ICMP"

fun flow_ok :: "flow \<Rightarrow> bool" where
  "flow_ok (Echo_flow i) = icmp_echo (nicmp_type i)"
| "flow_ok _ = True"

definition flow_packet :: "u8 list \<Rightarrow> ip_hdr \<Rightarrow> flow \<Rightarrow> u8 list \<Rightarrow> packet" where
  "flow_packet e h f d = e @ enc_ip_hdr h @ enc_flow f @ d"

definition is_flow_packet :: "u8 list \<Rightarrow> ip_hdr \<Rightarrow> flow \<Rightarrow> bool" where
  "is_flow_packet e h f \<longleftrightarrow> length e = 14 \<and> ip_p h = flow_proto f \<and> flow_ok f"

fun flow_port :: "nat_type \<Rightarrow> flow \<Rightarrow> u16" where
  "flow_port ty (Tcp_flow t) = (if ty = NAT_EXTERNAL then tcp_dport t else tcp_sport t)"
| "flow_port ty (Udp_flow u) = (if ty = NAT_EXTERNAL then udp_dport u else udp_sport u)"
| "flow_port ty (Echo_flow i) = nicmp_opt1 i"

text \<open>What the translation does to a flow: the port, and the checksum.\<close>

fun flow_set_port :: "nat_type \<Rightarrow> u16 \<Rightarrow> flow \<Rightarrow> flow" where
  "flow_set_port ty x (Tcp_flow t) = Tcp_flow (if ty = NAT_EXTERNAL then t\<lparr>tcp_sport := x\<rparr> else t\<lparr>tcp_dport := x\<rparr>)"
| "flow_set_port ty x (Udp_flow u) = Udp_flow (if ty = NAT_EXTERNAL then u\<lparr>udp_sport := x\<rparr> else u\<lparr>udp_dport := x\<rparr>)"
| "flow_set_port ty x (Echo_flow i) = Echo_flow (i\<lparr>nicmp_opt1 := x\<rparr>)"

fun flow_checksum :: "nat_ip_port_pair \<Rightarrow> nat_ip_port_pair \<Rightarrow> flow \<Rightarrow> flow" where
  "flow_checksum new old (Tcp_flow t) =
     Tcp_flow (t\<lparr>tcp_sum := nat_checksum (tcp_sum t) (nip_checksum new) (nip_checksum old)\<rparr>)"
| "flow_checksum new old (Udp_flow u) =
     Udp_flow (u\<lparr>udp_sum := nat_checksum (udp_sum u) (nip_checksum new) (nip_checksum old)\<rparr>)"
| "flow_checksum new old (Echo_flow i) =
     Echo_flow (i\<lparr>nicmp_sum := nat_checksum (nicmp_sum i) (nip_checksum_port new) (nip_checksum_port old)\<rparr>)"

lemma flow_simps [simp]:
  "flow_proto (flow_set_port ty x f) = flow_proto f" "flow_ok (flow_set_port ty x f) = flow_ok f"
  "flow_proto (flow_checksum new old f) = flow_proto f" "flow_ok (flow_checksum new old f) = flow_ok f"
  "flow_port ty (flow_checksum new old f) = flow_port ty f"
  by (cases f; simp)+

lemma proto_distinct: "IP_PROTO_TCP \<noteq> IP_PROTO_UDP" "IP_PROTO_TCP \<noteq> IP_PROTO_ICMP" "IP_PROTO_UDP \<noteq> IP_PROTO_ICMP"
    "IP_PROTO_UDP \<noteq> IP_PROTO_TCP" "IP_PROTO_ICMP \<noteq> IP_PROTO_TCP" "IP_PROTO_ICMP \<noteq> IP_PROTO_UDP"
  by (simp_all add: IP_PROTO_TCP_def IP_PROTO_UDP_def IP_PROTO_ICMP_def)

lemma flow_access:
  assumes "is_flow_packet e h f"
  shows "get_ip_hdr (flow_packet e h f d) = Some h"
    "get_nat_ip_port_pair (flow_packet e h f d) ty =
       Some (nat_pair (if ty = NAT_EXTERNAL then ip_dst h else ip_src h) (flow_port ty f))"
    "get_src_port_number (flow_packet e h f d) (ip_p h) = Some (flow_port NAT_INTERNAL f)"
  using assms
  by (cases f; simp add: flow_packet_def is_flow_packet_def nat_parts get_nat_ip_port_pair_def
      get_nat_port_from_icmp_def get_src_port_number_def get_src_port_number_from_icmp_def proto_distinct)+

lemma populate_nat_flow:
  assumes "is_flow_packet e h f"
  shows "populate_nat_packet (flow_packet e h f d) ne NAT_EXTERNAL =
      Some (flow_packet e (h\<lparr>ip_src := nip_ip (nat_ext ne)\<rparr>) (flow_set_port NAT_EXTERNAL (nip_port (nat_ext ne)) f) d)"
    "populate_nat_packet (flow_packet e h f d) ne NAT_INTERNAL =
      Some (flow_packet e (h\<lparr>ip_dst := nip_ip (nat_int ne)\<rparr>) (flow_set_port NAT_INTERNAL (nip_port (nat_int ne)) f) d)"
  using assms
  by (cases f; simp add: flow_packet_def is_flow_packet_def nat_parts populate_nat_packet_def proto_distinct)+

lemma checksums_flow:
  assumes "is_flow_packet e h f"
  shows "nat_transport_checksum (flow_packet e h f d) new old = Some (flow_packet e h (flow_checksum new old f) d)"
    "nat_ip_checksum (flow_packet e h f d) new old = Some (flow_packet e
       (h\<lparr>ip_sum := nat_checksum (ip_sum h) (nip_checksum_ip new) (nip_checksum old)\<rparr>) f d)"
  using assms
  by (cases f; simp add: flow_packet_def is_flow_packet_def nat_parts nat_transport_checksum_def
      nat_ip_checksum_def proto_distinct)+

section \<open>The table\<close>

lemma first_match_Some:
  "first_match P xs = Some k \<Longrightarrow> k < length xs \<and> P (xs ! k) \<and> (\<forall>j<k. \<not> P (xs ! j))"
proof (induction xs arbitrary: k)
  case (Cons x xs)
  then show ?case
    by (auto split: if_splits simp: less_Suc_eq_0_disj)
qed simp

lemma first_match_None: "first_match P xs = None \<longleftrightarrow> (\<forall>x\<in>set xs. \<not> P x)"
  by (induction xs) auto

text \<open>What a draw returns: the port it started with or a later draw, the first one that fits.\<close>

definition port_fits :: "router_state \<Rightarrow> u16 \<Rightarrow> bool" where
  "port_fits rs port \<longleftrightarrow> 1024 < port \<and> is_unique_nat_ext_port rs port"

lemma port_fits_pos [simp]: "port_fits (rs\<lparr>rand_pos := n\<rparr>) = port_fits rs"
  by (simp add: fun_eq_iff port_fits_def is_unique_nat_ext_port_def)

definition drawn :: "router_state \<Rightarrow> u16 \<Rightarrow> u16 \<times> router_state \<Rightarrow> bool" where
  "drawn rs port r \<longleftrightarrow> port_fits rs (fst r) \<and> (\<exists>n. snd r = rs\<lparr>rand_pos := rand_pos rs + n\<rparr>)
     \<and> (fst r = port \<or> (\<exists>n. fst r = ucast (rand_seq rs (rand_pos rs + n))))"

lemma draw_nat_port_result:
  assumes "draw_nat_port rs port = Some r"
  shows "drawn rs port r"
  using assms
proof (rule draw_nat_port.raw_induct [rotated])
  fix draw rs port r
  assume IH: "\<And>rs port r. draw rs port = Some r \<Longrightarrow> drawn rs port r"
    and eq: "(if port > 1024 \<and> is_unique_nat_ext_port rs port then Some (port, rs)
      else (case rand rs of (r, rs) \<Rightarrow> draw rs (ucast r))) = Some r"
  show "drawn rs port r"
  proof (cases "port_fits rs port")
    case True
    with eq show ?thesis by (auto intro!: exI [of _ 0] simp: port_fits_def drawn_def)
  next
    case False
    with eq have "draw (rs\<lparr>rand_pos := Suc (rand_pos rs)\<rparr>) (ucast (rand_seq rs (rand_pos rs))) = Some r"
      by (simp add: rand_def port_fits_def split: if_splits)
    from IH [OF this] obtain n m where "port_fits rs (fst r)" "snd r = rs\<lparr>rand_pos := rand_pos rs + Suc n\<rparr>"
        "fst r = ucast (rand_seq rs (rand_pos rs)) \<or> fst r = ucast (rand_seq rs (rand_pos rs + Suc m))"
      by (auto simp: drawn_def)
    then show ?thesis unfolding drawn_def by (metis add_0_right)
  qed
qed

lemma draw_nat_port_returns:
  "port_fits rs port \<or> (\<exists>n. port_fits rs (ucast (rand_seq rs (rand_pos rs + n)))) \<Longrightarrow>
     \<exists>x rs'. draw_nat_port rs port = Some (x, rs')"
proof -
  have later: "port_fits rs (ucast (rand_seq rs (rand_pos rs + n))) \<Longrightarrow> \<exists>x rs'. draw_nat_port rs port = Some (x, rs')"
    for n
  proof (induction n arbitrary: rs port)
    case 0
    then show ?case
      by (subst draw_nat_port.simps, subst draw_nat_port.simps)
        (auto simp: rand_def port_fits_def is_unique_nat_ext_port_def)
  next
    case (Suc n)
    let ?rs = "rs\<lparr>rand_pos := Suc (rand_pos rs)\<rparr>"
    have "port_fits ?rs (ucast (rand_seq ?rs (rand_pos ?rs + n)))" using Suc.prems by simp
    from Suc.IH [OF this] show ?case
      by (subst draw_nat_port.simps) (simp add: rand_def)
  qed
  then show ?thesis if "port_fits rs port \<or> (\<exists>n. port_fits rs (ucast (rand_seq rs (rand_pos rs + n))))"
    using that by (subst draw_nat_port.simps) (auto simp: port_fits_def draw_nat_port.simps [of rs port])
qed

definition nat_entry_ok :: "nat_entry \<Rightarrow> bool" where
  "nat_entry_ok ne \<longleftrightarrow> (\<exists>a x b y. nat_ext ne = compute_nat_checksums (nat_pair a x)
     \<and> nat_int ne = compute_nat_checksums (nat_pair b y))"

lemma nat_entry_okI:
  "nat_ext ne = compute_nat_checksums (nat_pair a x) \<Longrightarrow> nat_int ne = compute_nat_checksums (nat_pair b y) \<Longrightarrow>
    nat_entry_ok ne"
  unfolding nat_entry_ok_def by blast

lemma compute_nat_checksums_key [simp]:
  "nip_ip (compute_nat_checksums pr) = nip_ip pr" "nip_port (compute_nat_checksums pr) = nip_port pr"
  by (simp_all add: compute_nat_checksums_def Let_def)

lemma nat_pair_key [simp]: "nip_ip (nat_pair a x) = a" "nip_port (nat_pair a x) = x"
  by (simp_all add: nat_pair_def)

lemma create_nat_flow:
  assumes "is_flow_packet e h f" "create_nat_table_entry rs (flow_packet e h f d) ext_ip = Some (k, rs')"
  shows "k = length (nat_table rs) \<and> (\<exists>ne port. nat_table rs' = nat_table rs @ [ne]
    \<and> nat_ext ne = compute_nat_checksums (nat_pair ext_ip (htons port))
    \<and> nat_int ne = compute_nat_checksums (nat_pair (ip_src h) (flow_port NAT_INTERNAL f))
    \<and> port_fits rs port)"
proof -
  from assms obtain port rs1 where d: "draw_nat_port (snd (rand rs)) (ucast (fst (rand rs))) = Some (port, rs1)"
    and k: "k = length (nat_table rs1)" and t: "nat_table rs' = nat_table rs1 @ [\<lparr>nat_ext = compute_nat_checksums (nat_pair ext_ip (htons port)),
           nat_int = compute_nat_checksums (nat_pair (ip_src h) (flow_port NAT_INTERNAL f)),
           nat_last_hits = 0, nat_last_hits_time = clock rs1, nat_hits = 0, nat_avg_hits_per_second = Fin 0, nat_hw_row = 0xFF,
           nat_is_static = False\<rparr>]"
    by (auto simp: create_nat_table_entry_def flow_access split_beta emit_def bind_eq_Some_conv Let_def)
  from draw_nat_port_result [OF d] have "nat_table rs1 = nat_table rs" "port_fits rs port"
    by (auto simp: rand_def drawn_def)
  with k t show ?thesis by auto
qed

text \<open>What the two directions do to a flow.\<close>

definition translated :: "nat_type \<Rightarrow> nat_entry \<Rightarrow> u8 list \<Rightarrow> ip_hdr \<Rightarrow> flow \<Rightarrow> u8 list \<Rightarrow> packet" where
  "translated ty ne e h f d =
     (let new = (if ty = NAT_EXTERNAL then nat_ext ne else nat_int ne);
          old = (if ty = NAT_EXTERNAL then nat_int ne else nat_ext ne);
          h1 = (if ty = NAT_EXTERNAL then h\<lparr>ip_src := nip_ip new\<rparr> else h\<lparr>ip_dst := nip_ip new\<rparr>)
      in flow_packet e (h1\<lparr>ip_sum := nat_checksum (ip_sum h) (nip_checksum_ip new) (nip_checksum old)\<rparr>)
           (flow_checksum new old (flow_set_port ty (nip_port new) f)) d)"

lemma is_flow_packet_update [simp]:
  "is_flow_packet e (h\<lparr>ip_src := a\<rparr>) f = is_flow_packet e h f"
  "is_flow_packet e (h\<lparr>ip_dst := a\<rparr>) f = is_flow_packet e h f"
  "is_flow_packet e (h\<lparr>ip_sum := c\<rparr>) f = is_flow_packet e h f"
  "is_flow_packet e h (flow_set_port ty x f) = is_flow_packet e h f"
  "is_flow_packet e h (flow_checksum new old f) = is_flow_packet e h f"
  by (simp_all add: is_flow_packet_def)

lemma is_flow_proto:
  "is_flow_packet e h f \<Longrightarrow> ip_p h = IP_PROTO_TCP \<or> ip_p h = IP_PROTO_UDP \<or> ip_p h = IP_PROTO_ICMP"
  by (cases f) (auto simp: is_flow_packet_def)

lemma nat_int_flow:
  assumes "is_flow_packet e h f" "process_nat_int_packet rs (flow_packet e h f d) ext_ip = Some (q, rs')"
  obtains k rs1 where "rs' = nat_hit k rs1" "k < length (nat_table rs1)"
    "q = translated NAT_EXTERNAL (nat_table rs1 ! k) e h f d"
    "nip_ip (nat_int (nat_table rs1 ! k)) = ip_src h"
    "nip_port (nat_int (nat_table rs1 ! k)) = flow_port NAT_INTERNAL f"
    "first_match (\<lambda>ne. found_nat_table_match ne (nat_pair (ip_src h) (flow_port NAT_INTERNAL f)) NAT_INTERNAL)
        (nat_table rs) = Some k \<and> rs1 = rs
     \<or> create_nat_table_entry rs (flow_packet e h f d) ext_ip = Some (k, rs1)"
proof -
  let ?m = "first_match (\<lambda>ne. found_nat_table_match ne (nat_pair (ip_src h) (flow_port NAT_INTERNAL f)) NAT_INTERNAL)
        (nat_table rs)"
  note d = process_nat_int_packet_def get_nat_table_entry_def flow_access populate_nat_flow checksums_flow
    is_flow_proto bind_eq_Some_conv Let_def translated_def
  show ?thesis
  proof (cases ?m)
    case (Some k)
    with assms have "rs' = nat_hit k rs" "q = translated NAT_EXTERNAL (nat_table rs ! k) e h f d"
      by (auto simp: d)
    with Some first_match_Some [OF Some] that [of k rs] show ?thesis
      by (auto simp: found_nat_table_match_def)
  next
    case None
    with assms obtain k rs1 where c: "create_nat_table_entry rs (flow_packet e h f d) ext_ip = Some (k, rs1)"
      "rs' = nat_hit k rs1" "q = translated NAT_EXTERNAL (nat_table rs1 ! k) e h f d"
      by (auto simp: d split: prod.splits)
    with create_nat_flow [OF assms(1) c(1)] that [of k rs1] show ?thesis
      by auto
  qed
qed

lemma nat_int_flow_new:
  assumes "is_flow_packet e h f" "create_nat_table_entry rs (flow_packet e h f d) ext_ip = Some (k, rs1)"
    "first_match (\<lambda>ne. found_nat_table_match ne (nat_pair (ip_src h) (flow_port NAT_INTERNAL f)) NAT_INTERNAL)
        (nat_table rs) = None"
  shows "process_nat_int_packet rs (flow_packet e h f d) ext_ip =
    Some (translated NAT_EXTERNAL (nat_table rs1 ! k) e h f d, nat_hit k rs1)"
  using assms is_flow_proto [OF assms(1)]
  by (simp add: process_nat_int_packet_def get_nat_table_entry_def flow_access populate_nat_flow
      checksums_flow translated_def Let_def)

lemma nat_ext_flow:
  assumes "is_flow_packet e h f"
  shows "process_nat_ext_packet rs (flow_packet e h f d) =
    (case first_match (\<lambda>ne. found_nat_table_match ne (nat_pair (ip_dst h) (flow_port NAT_EXTERNAL f)) NAT_EXTERNAL)
        (nat_table rs) of
       None \<Rightarrow> Some (flow_packet e h f d, rs)
     | Some k \<Rightarrow> Some (translated NAT_INTERNAL (nat_table (nat_hit k rs) ! k) e h f d, nat_hit k rs))"
  using assms by (simp add: process_nat_ext_packet_def get_nat_table_entry_def flow_access
      populate_nat_flow checksums_flow translated_def Let_def split: option.splits)

lemma nat_hit_entry [simp]:
  assumes "k < length (nat_table rs)"
  shows "nat_ext (nat_table (nat_hit k rs) ! j) = nat_ext (nat_table rs ! j)"
    "nat_int (nat_table (nat_hit k rs) ! j) = nat_int (nat_table rs ! j)"
    "length (nat_table (nat_hit k rs)) = length (nat_table rs)"
    "map nat_ext (nat_table (nat_hit k rs)) = map nat_ext (nat_table rs)"
    "map nat_int (nat_table (nat_hit k rs)) = map nat_int (nat_table rs)"
  using assms by (auto simp: nat_hit_def nth_list_update intro!: nth_equalityI)

definition ext_key :: "nat_entry \<Rightarrow> u32 \<times> u16" where
  "ext_key ne = (nip_ip (nat_ext ne), nip_port (nat_ext ne))"

lemma ext_match_key: "found_nat_table_match ne (nat_pair a x) NAT_EXTERNAL \<longleftrightarrow> ext_key ne = (a, x)"
  by (auto simp: found_nat_table_match_def ext_key_def)

lemma first_match_distinct:
  assumes "distinct (map g xs)" "k < length xs" "\<And>x. P x \<longleftrightarrow> g x = g (xs ! k)"
  shows "first_match P xs = Some k"
proof (cases "first_match P xs")
  case None
  with assms(2,3) show ?thesis by (auto simp: first_match_None)
next
  case (Some j)
  with first_match_Some [OF Some] assms have "j < length xs" "map g xs ! j = map g xs ! k" by auto
  with assms(1,2) have "j = k" by (metis length_map nth_eq_iff_index_eq)
  with Some show ?thesis by simp
qed

lemma source_after_translation:
  assumes "is_flow_packet e h f"
  shows "get_nat_ip_port_pair (translated NAT_EXTERNAL ne e h f d) NAT_INTERNAL =
    Some (nat_pair (nip_ip (nat_ext ne)) (nip_port (nat_ext ne)))"
proof -
  have "flow_port NAT_INTERNAL (flow_set_port NAT_EXTERNAL x f) = x" for x by (cases f) simp_all
  with assms show ?thesis unfolding translated_def by (simp add: flow_access Let_def)
qed

section \<open>Properties\<close>


definition sample_flow_ip :: ip_hdr where
  "sample_flow_ip = \<lparr>ip_hl = 5, ip_v = 4, ip_tos = 0, ip_len = htons 40, ip_id = 1, ip_off = 0, ip_ttl = 64,
     ip_p = 6, ip_sum = 0, ip_src = 0x0200000A, ip_dst = 0x01020304\<rparr>"

definition sample_tcp :: nat_tcp_hdr where
  "sample_tcp = \<lparr>tcp_sport = 77, tcp_dport = 80, tcp_seq = 0, tcp_ack = 0, tcp_unused1 = 0, tcp_sum = 0, tcp_unused2 = 0\<rparr>"

definition sample_eth14 :: "u8 list" where "sample_eth14 = replicate 14 0"

lemma sample_flow: "is_flow_packet sample_eth14 sample_flow_ip (Tcp_flow sample_tcp)"
  by (simp add: is_flow_packet_def sample_eth14_def sample_flow_ip_def IP_PROTO_TCP_def)

definition nat_router :: router_state where
  "nat_router = empty_router\<lparr>rand_seq := \<lambda>n. 5000\<rparr>"

definition sample_nat_entry :: nat_entry where
  "sample_nat_entry = \<lparr>nat_ext = compute_nat_checksums (nat_pair 0x0100000A (htons 5000)),
     nat_int = compute_nat_checksums (nat_pair 0x0200000A 77), nat_last_hits = 0, nat_last_hits_time = 0,
     nat_hits = 0, nat_avg_hits_per_second = Fin 0, nat_hw_row = 0xFF, nat_is_static = False\<rparr>"

definition nat_router1 :: router_state where
  "nat_router1 = emit (Signal C_nat_table) (nat_router\<lparr>rand_pos := 1, nat_table := [sample_nat_entry]\<rparr>)"

lemma sample_flow_any: "is_flow_packet sample_eth14 sample_flow_ip (Tcp_flow t)"
  using sample_flow by (simp add: is_flow_packet_def)

lemma nat_router_out:
  assumes "tcp_sport t = 77"
  shows "process_nat_int_packet nat_router (flow_packet sample_eth14 sample_flow_ip (Tcp_flow t) []) 0x0100000A =
     Some (translated NAT_EXTERNAL sample_nat_entry sample_eth14 sample_flow_ip (Tcp_flow t) [],
       nat_hit 0 nat_router1)"
proof -
  let ?rs = "nat_router\<lparr>rand_pos := 1\<rparr>"
  have "rand nat_router = (5000, ?rs)" by (simp add: rand_def nat_router_def empty_router_def)
  moreover have "draw_nat_port ?rs 5000 = Some (5000, ?rs)"
    by (subst draw_nat_port.simps) (simp add: is_unique_nat_ext_port_def nat_router_def empty_router_def)
  ultimately have "create_nat_table_entry nat_router
      (flow_packet sample_eth14 sample_flow_ip (Tcp_flow t) []) 0x0100000A = Some (0, nat_router1)"
    using flow_access(1,3) [OF sample_flow_any] assms
    by (simp add: create_nat_table_entry_def sample_flow_ip_def nat_router1_def sample_nat_entry_def
        nat_router_def empty_router_def emit_def)
  moreover have "nat_table nat_router = []" "nat_table nat_router1 = [sample_nat_entry]"
    by (simp_all add: nat_router_def empty_router_def nat_router1_def emit_def)
  ultimately show ?thesis
    using nat_int_flow_new [OF sample_flow_any, of nat_router t "[]" "0x0100000A" 0 nat_router1] by simp
qed

text \<open>The answer: from the server to the external pair.\<close>

definition sample_answer_ip :: ip_hdr where
  "sample_answer_ip = sample_flow_ip\<lparr>ip_src := 0x01020304, ip_dst := 0x0100000A\<rparr>"

definition sample_answer_tcp :: nat_tcp_hdr where
  "sample_answer_tcp = sample_tcp\<lparr>tcp_sport := 80, tcp_dport := htons 5000\<rparr>"

lemma sample_answer: "is_flow_packet sample_eth14 sample_answer_ip (Tcp_flow sample_answer_tcp)"
  using sample_flow by (simp add: is_flow_packet_def sample_answer_ip_def)



section \<open>Transport checksums\<close>

text \<open>The sum that the transport checksum makes zero, in the byte order of the machine: for TCP and
  UDP with the addresses, the protocol and the length of the pseudo header.\<close>

definition words_sum :: "u16 list \<Rightarrow> int" where
  "words_sum ws = sum_list (map (\<lambda>w. int (unat w)) ws)"

definition addr_words :: "u32 \<Rightarrow> u16 list" where
  "addr_words a = [ucast a, ucast (drop_bit 16 a)]"

definition transport_sum :: "ip_hdr \<Rightarrow> u8 list \<Rightarrow> int" where
  "transport_sum h seg = words_sum (shorts seg)
     + (if ip_p h = IP_PROTO_ICMP then 0
        else words_sum (addr_words (ip_src h) @ addr_words (ip_dst h) @ [htons (ucast (ip_p h)), htons (of_nat (length seg))]))"

lemma words_sum_simps [simp]:
  "words_sum [] = 0" "words_sum (w # ws) = int (unat w) + words_sum ws"
  "words_sum (us @ vs) = words_sum us + words_sum vs"
  by (simp_all add: words_sum_def)

lemma pair_sum_words: "pair_sum pr = words_sum (addr_words (nip_ip pr)) + int (unat (nip_port pr))"
  by (simp add: pair_sum_def addr_words_def)

fun flow_csum :: "flow \<Rightarrow> u16" where
  "flow_csum (Tcp_flow t) = tcp_sum t"
| "flow_csum (Udp_flow u) = udp_sum u"
| "flow_csum (Echo_flow i) = nicmp_sum i"

text \<open>The words of a segment, and the effect of a translation on their sum.\<close>

definition u32_words :: "u32 \<Rightarrow> u16 list" where
  "u32_words a = [le16 (byte_of 0 a) (byte_of 1 a), le16 (byte_of 2 a) (byte_of 3 a)]"

lemma shorts_flow:
  "shorts (enc_nat_tcp_hdr t @ d) = [tcp_sport t, tcp_dport t] @ u32_words (tcp_seq t) @ u32_words (tcp_ack t)
     @ u32_words (tcp_unused1 t) @ [tcp_sum t, tcp_unused2 t] @ shorts d"
  "shorts (enc_nat_udp_hdr u @ d) = [udp_sport u, udp_dport u, udp_len u, udp_sum u] @ shorts d"
  "shorts (enc_nat_icmp_hdr i @ d) = [le16 (nicmp_type i) (nicmp_code i), nicmp_sum i, nicmp_opt1 i, nicmp_opt2 i]
     @ shorts d"
  by (simp_all add: enc_nat_tcp_hdr_def enc_nat_udp_hdr_def enc_nat_icmp_hdr_def u32_words_def)

definition other_way :: "nat_type \<Rightarrow> nat_type" where
  "other_way ty = (if ty = NAT_EXTERNAL then NAT_INTERNAL else NAT_EXTERNAL)"

lemma segment_sum:
  "words_sum (shorts (enc_flow (flow_checksum new old (flow_set_port ty x f)) @ d))
     + int (unat (flow_port (other_way ty) f)) + int (unat (flow_csum f))
   = words_sum (shorts (enc_flow f @ d)) + int (unat x)
     + int (unat (flow_csum (flow_checksum new old f)))"
  by (cases f; cases ty; simp add: shorts_flow other_way_def)

lemma segment_length: "length (enc_flow (flow_checksum new old (flow_set_port ty x f))) = length (enc_flow f)"
  by (cases f) simp_all

text \<open>The change of the checksum field: by the sums of address and port, for an echo by the port.\<close>

definition carried_sum :: "flow \<Rightarrow> nat_ip_port_pair \<Rightarrow> int" where
  "carried_sum f pr = (case f of Echo_flow i \<Rightarrow> int (unat (nip_port pr)) | _ \<Rightarrow> pair_sum pr)"

lemma flow_csum_change:
  "eq_ones (int (unat (flow_csum (flow_checksum (compute_nat_checksums new) (compute_nat_checksums old) f))))
     (int (unat (flow_csum f)) + carried_sum f old - carried_sum f new)"
proof -
  have gen: "eq_ones (int (unat (nat_checksum c (nip_checksum (compute_nat_checksums new)) (nip_checksum (compute_nat_checksums old)))))
      (int (unat c) + pair_sum old - pair_sum new)" for c
    using eq_ones_add [OF nat_rewrite_sum [of c old "- int (unat c) - pair_sum old" new]
        eq_ones_refl [of "int (unat c) + pair_sum old - pair_sum new"]] by simp
  have port: "eq_ones (int (unat (nat_checksum c (nip_checksum_port (compute_nat_checksums new)) (nip_checksum_port (compute_nat_checksums old)))))
      (int (unat c) + int (unat (nip_port old)) - int (unat (nip_port new)))" for c
  proof -
    have "int (unat (nip_checksum_port (compute_nat_checksums pr))) = 65535 - int (unat (nip_port pr))" for pr
      using unat_not_u16 [of "nip_port pr"] by (simp add: compute_nat_checksums_def Let_def del: of_nat_unat)
    with nat_checksum_ones [of c "nip_checksum_port (compute_nat_checksums new)" "nip_checksum_port (compute_nat_checksums old)"]
    have "eq_ones (int (unat (nat_checksum c (nip_checksum_port (compute_nat_checksums new)) (nip_checksum_port (compute_nat_checksums old)))))
        (int (unat c) + (65535 - int (unat (nip_port new))) - (65535 - int (unat (nip_port old))))"
      by (simp only:)
    then show ?thesis by (simp add: algebra_simps)
  qed
  show ?thesis using gen port by (cases f) (simp_all add: carried_sum_def)
qed

lemma translated_sum:
  assumes "is_flow_packet e h f" "nat_entry_ok ne" "eq_ones (transport_sum h (enc_flow f @ d)) 0"
    "if ty = NAT_EXTERNAL then ip_src h = nip_ip (nat_int ne) \<and> flow_port NAT_INTERNAL f = nip_port (nat_int ne)
     else ip_dst h = nip_ip (nat_ext ne) \<and> flow_port NAT_EXTERNAL f = nip_port (nat_ext ne)"
  shows "\<exists>h' f'. translated ty ne e h f d = flow_packet e h' f' d \<and> is_flow_packet e h' f'
    \<and> eq_ones (transport_sum h' (enc_flow f' @ d)) 0"
proof -
  define new where "new = (if ty = NAT_EXTERNAL then nat_ext ne else nat_int ne)"
  define old where "old = (if ty = NAT_EXTERNAL then nat_int ne else nat_ext ne)"
  define h' where "h' = (if ty = NAT_EXTERNAL then h\<lparr>ip_src := nip_ip new\<rparr> else h\<lparr>ip_dst := nip_ip new\<rparr>)
      \<lparr>ip_sum := nat_checksum (ip_sum h) (nip_checksum_ip new) (nip_checksum old)\<rparr>"
  define f' where "f' = flow_checksum new old (flow_set_port ty (nip_port new) f)"
  have t: "translated ty ne e h f d = flow_packet e h' f' d"
    by (simp add: translated_def Let_def new_def old_def h'_def f'_def)
  obtain np op where np: "new = compute_nat_checksums np" "old = compute_nat_checksums op"
    using assms(2) unfolding nat_entry_ok_def new_def old_def by (cases "ty = NAT_EXTERNAL") auto
  have old: "flow_port (other_way ty) f = nip_port op"
    "(if ty = NAT_EXTERNAL then ip_src h else ip_dst h) = nip_ip op"
  proof -
    have "nip_port old = nip_port op" "nip_ip old = nip_ip op" by (simp_all add: np)
    with assms(4) show "flow_port (other_way ty) f = nip_port op"
      "(if ty = NAT_EXTERNAL then ip_src h else ip_dst h) = nip_ip op"
      by (auto simp: other_way_def old_def split: if_splits)
  qed
  let ?c' = "int (unat (flow_csum f'))" and ?c = "int (unat (flow_csum f))"
  have "flow_csum f' = flow_csum (flow_checksum new old f)" unfolding f'_def by (cases f) auto
  with flow_csum_change [of np op f] have c: "eq_ones ?c' (?c + carried_sum f op - carried_sum f np)"
    by (simp add: np)
  have seg: "words_sum (shorts (enc_flow f' @ d)) + int (unat (nip_port op)) + ?c
      = words_sum (shorts (enc_flow f @ d)) + int (unat (nip_port np)) + ?c'"
    using segment_sum [of new old ty "nip_port new" f d] old(1) \<open>flow_csum f' = _\<close> by (simp add: f'_def np)
  have len: "length (enc_flow f') = length (enc_flow f)" unfolding f'_def by (rule segment_length)
  have "ip_p h' = IP_PROTO_ICMP \<longleftrightarrow> (\<exists>i. f = Echo_flow i)"
    using assms(1) by (cases f; simp add: h'_def is_flow_packet_def proto_distinct)
  moreover have "ip_p h' = ip_p h" by (simp add: h'_def)
  ultimately have "transport_sum h' (enc_flow f' @ d) = transport_sum h (enc_flow f @ d)
      + (?c' - ?c) + carried_sum f np - carried_sum f op"
    using seg old(2) len
    by (cases f; cases ty; simp add: transport_sum_def carried_sum_def pair_sum_words h'_def np)
  then have t': "transport_sum h' (enc_flow f' @ d) = ?c' + (transport_sum h (enc_flow f @ d) - ?c
      + carried_sum f np - carried_sum f op)" by linarith
  have "eq_ones (transport_sum h (enc_flow f @ d) + (- ?c + carried_sum f np - carried_sum f op))
      (0 + (- ?c + carried_sum f np - carried_sum f op))"
    by (intro eq_ones_add assms(3) eq_ones_refl)
  from eq_ones_add [OF c this] have "eq_ones (transport_sum h' (enc_flow f' @ d)) 0"
    unfolding t' by (simp add: algebra_simps)
  moreover have "is_flow_packet e h' f'" using assms(1) by (simp add: h'_def f'_def)
  ultimately show ?thesis using t by blast
qed

definition nat_table_ok :: "router_state \<Rightarrow> bool" where
  "nat_table_ok rs \<longleftrightarrow> (\<forall>ne\<in>set (nat_table rs). nat_entry_ok ne)"

lemma nat_hit_ok:
  assumes "nat_table_ok rs" "k < length (nat_table rs)"
  shows "nat_table_ok (nat_hit k rs)"
proof -
  have "nat_entry_ok (nat_table rs ! k)" using assms by (simp add: nat_table_ok_def)
  then have "nat_entry_ok ((nat_table rs ! k)\<lparr>nat_hits := n\<rparr>)" for n by (simp add: nat_entry_ok_def)
  then show ?thesis using assms(1) set_update_subset_insert [of "nat_table rs" k]
    unfolding nat_table_ok_def nat_hit_def by fastforce
qed

lemma create_nat_ok:
  assumes "is_flow_packet e h f" "create_nat_table_entry rs (flow_packet e h f d) ext_ip = Some (k, rs')"
    "nat_table_ok rs"
  shows "nat_table_ok rs'"
proof -
  from create_nat_flow [OF assms(1,2)] obtain ne port where "nat_table rs' = nat_table rs @ [ne]"
    "nat_ext ne = compute_nat_checksums (nat_pair ext_ip (htons port))"
    "nat_int ne = compute_nat_checksums (nat_pair (ip_src h) (flow_port NAT_INTERNAL f))" by blast
  with nat_entry_okI [OF this(2,3)] assms(3) show ?thesis by (simp add: nat_table_ok_def)
qed

text \<open>C32: address translation keeps the transport checksum right. If the sum over pseudo header and
  segment (for an echo over the message) is zero in one's complement, it still is after a packet
  was translated in either direction, whatever entry was found or created; and all entries keep
  the sums of their pairs, on which this rests.\<close>

theorem nat_keeps_transport_checksum:
  assumes "is_flow_packet e h f" "nat_table_ok rs" "eq_ones (transport_sum h (enc_flow f @ d)) 0"
    "process_nat_int_packet rs (flow_packet e h f d) ext_ip = Some (q, rs')
     \<or> process_nat_ext_packet rs (flow_packet e h f d) = Some (q, rs')"
  shows "nat_table_ok rs' \<and> (\<exists>h' f'. q = flow_packet e h' f' d \<and> is_flow_packet e h' f'
    \<and> eq_ones (transport_sum h' (enc_flow f' @ d)) 0)"
  using assms(4)
proof
  assume "process_nat_int_packet rs (flow_packet e h f d) ext_ip = Some (q, rs')"
  from nat_int_flow [OF assms(1) this] obtain k rs1 where k: "rs' = nat_hit k rs1" "k < length (nat_table rs1)"
    "q = translated NAT_EXTERNAL (nat_table rs1 ! k) e h f d"
    "ip_src h = nip_ip (nat_int (nat_table rs1 ! k))"
    "flow_port NAT_INTERNAL f = nip_port (nat_int (nat_table rs1 ! k))"
    "rs1 = rs \<or> create_nat_table_entry rs (flow_packet e h f d) ext_ip = Some (k, rs1)"
    by metis
  have ok: "nat_table_ok rs1" using k(6) assms(2) create_nat_ok [OF assms(1)] by blast
  then have "nat_entry_ok (nat_table rs1 ! k)" using k(2) by (simp add: nat_table_ok_def)
  from translated_sum [OF assms(1) this assms(3), of NAT_EXTERNAL] k nat_hit_ok [OF ok k(2)]
  show ?thesis by auto
next
  assume ext: "process_nat_ext_packet rs (flow_packet e h f d) = Some (q, rs')"
  show ?thesis
  proof (cases "first_match (\<lambda>ne. found_nat_table_match ne (nat_pair (ip_dst h) (flow_port NAT_EXTERNAL f))
      NAT_EXTERNAL) (nat_table rs)")
    case None
    with ext nat_ext_flow [OF assms(1), of rs d] assms(1-3) show ?thesis by auto
  next
    case (Some k)
    note k = first_match_Some [OF Some]
    with ext nat_ext_flow [OF assms(1), of rs d] Some
    have q: "q = translated NAT_INTERNAL (nat_table (nat_hit k rs) ! k) e h f d" "rs' = nat_hit k rs" by auto
    have ok: "nat_table_ok (nat_hit k rs)" using k assms(2) by (simp add: nat_hit_ok)
    then have "nat_entry_ok (nat_table (nat_hit k rs) ! k)" using k by (simp add: nat_table_ok_def)
    from translated_sum [OF assms(1) this assms(3), of NAT_INTERNAL] k q ok show ?thesis
      by (auto simp: found_nat_table_match_def)
  qed
qed

definition sample_sum_tcp :: nat_tcp_hdr where "sample_sum_tcp = sample_tcp\<lparr>tcp_sum := 57170\<rparr>"

theorem nat_keeps_transport_checksum_witness:
  "\<exists>q rs' h' f'. process_nat_int_packet nat_router (flow_packet sample_eth14 sample_flow_ip (Tcp_flow sample_sum_tcp) [])
      0x0100000A = Some (q, rs')
    \<and> q = flow_packet sample_eth14 h' f' [] \<and> eq_ones (transport_sum h' (enc_flow f' @ [])) 0"
proof -
  have sum: "eq_ones (transport_sum sample_flow_ip (enc_flow (Tcp_flow sample_sum_tcp) @ [])) 0"
    unfolding eq_ones_def
    by (rule exI [of _ 1]) (simp add: transport_sum_def enc_nat_tcp_hdr_def sample_flow_ip_def sample_sum_tcp_def
      sample_tcp_def addr_words_def u32_words_def htons_def byte_of_def le16_def IP_PROTO_ICMP_def)
  have ok: "nat_table_ok nat_router" by (simp add: nat_table_ok_def nat_router_def empty_router_def)
  have out: "process_nat_int_packet nat_router (flow_packet sample_eth14 sample_flow_ip (Tcp_flow sample_sum_tcp) [])
      0x0100000A = Some (translated NAT_EXTERNAL sample_nat_entry sample_eth14 sample_flow_ip (Tcp_flow sample_sum_tcp) [],
       nat_hit 0 nat_router1)"
    by (rule nat_router_out) (simp add: sample_sum_tcp_def sample_tcp_def)
  from nat_keeps_transport_checksum [OF sample_flow_any ok sum disjI1 [OF out]] out show ?thesis by auto
qed

text \<open>Creating an entry when the first number drawn fits.\<close>

lemma create_first_draw:
  assumes "is_flow_packet e h f" "port_fits rs (ucast (rand_seq rs (rand_pos rs)))"
  obtains ne where "create_nat_table_entry rs (flow_packet e h f d) ext_ip = Some (length (nat_table rs),
      emit (Signal C_nat_table) (rs\<lparr>rand_pos := Suc (rand_pos rs), nat_table := nat_table rs @ [ne]\<rparr>))"
    "nat_ext ne = compute_nat_checksums (nat_pair ext_ip (htons (ucast (rand_seq rs (rand_pos rs)))))"
    "nat_int ne = compute_nat_checksums (nat_pair (ip_src h) (flow_port NAT_INTERNAL f))"
proof -
  let ?x = "ucast (rand_seq rs (rand_pos rs)) :: u16"
  have "draw_nat_port (rs\<lparr>rand_pos := Suc (rand_pos rs)\<rparr>) ?x = Some (?x, rs\<lparr>rand_pos := Suc (rand_pos rs)\<rparr>)"
    using assms(2) by (subst draw_nat_port.simps) (simp add: port_fits_def is_unique_nat_ext_port_def)
  then show ?thesis
    using that [of "\<lparr>nat_ext = compute_nat_checksums (nat_pair ext_ip (htons ?x)),
       nat_int = compute_nat_checksums (nat_pair (ip_src h) (flow_port NAT_INTERNAL f)), nat_last_hits = 0,
       nat_last_hits_time = clock rs, nat_hits = 0, nat_avg_hits_per_second = Fin 0, nat_hw_row = 0xFF, nat_is_static = False\<rparr>"]
      flow_access(1,3) [OF assms(1)]
    by (simp add: create_nat_table_entry_def rand_def emit_def)
qed

text \<open>External ports are not unique. The test compares a port in host byte order with the ports
  of the table in network byte order, so when the generator gives the same number twice the second
  flow gets the external port of the first as well: both leave the router with the same source, and
  the answers to the second go to the host of the first.\<close>

theorem nat_ports_collide:
  assumes "is_flow_packet e h f" "is_flow_packet e' h' f'" "nat_table rs = []"
    "(ip_src h, flow_port NAT_INTERNAL f) \<noteq> (ip_src h', flow_port NAT_INTERNAL f')"
    "rand_seq rs (Suc (rand_pos rs)) = rand_seq rs (rand_pos rs)"
    "1024 < (ucast (rand_seq rs (rand_pos rs)) :: u16)"
    "htons (ucast (rand_seq rs (rand_pos rs))) \<noteq> ucast (rand_seq rs (rand_pos rs))"
  shows "\<exists>q rs1 q' rs2. process_nat_int_packet rs (flow_packet e h f d) ext_ip = Some (q, rs1)
    \<and> process_nat_int_packet rs1 (flow_packet e' h' f' d') ext_ip = Some (q', rs2)
    \<and> get_nat_ip_port_pair q' NAT_INTERNAL = get_nat_ip_port_pair q NAT_INTERNAL"
proof -
  let ?x = "ucast (rand_seq rs (rand_pos rs)) :: u16"
  have "port_fits rs ?x" using assms(3,6) by (simp add: port_fits_def is_unique_nat_ext_port_def)
  then obtain ne where c1: "create_nat_table_entry rs (flow_packet e h f d) ext_ip = Some (0,
      emit (Signal C_nat_table) (rs\<lparr>rand_pos := Suc (rand_pos rs), nat_table := [ne]\<rparr>))"
    "nat_ext ne = compute_nat_checksums (nat_pair ext_ip (htons ?x))"
    "nat_int ne = compute_nat_checksums (nat_pair (ip_src h) (flow_port NAT_INTERNAL f))"
    using create_first_draw [OF assms(1), of rs d ext_ip] assms(3) by auto
  let ?rs1 = "emit (Signal C_nat_table) (rs\<lparr>rand_pos := Suc (rand_pos rs), nat_table := [ne]\<rparr>)"
  let ?rs2 = "nat_hit 0 ?rs1"
  have p1: "process_nat_int_packet rs (flow_packet e h f d) ext_ip =
      Some (translated NAT_EXTERNAL ne e h f d, ?rs2)"
    using nat_int_flow_new [OF assms(1) c1(1)] assms(3) by (simp add: emit_def)
  have t2: "nat_table ?rs2 = [ne\<lparr>nat_hits := nat_hits ne + 1\<rparr>]" "rand_seq ?rs2 = rand_seq rs"
    "rand_pos ?rs2 = Suc (rand_pos rs)" by (simp_all add: nat_hit_def emit_def)
  then have "port_fits ?rs2 (ucast (rand_seq ?rs2 (rand_pos ?rs2)))"
    using assms(5,6,7) c1(2) by (simp add: port_fits_def is_unique_nat_ext_port_def)
  then obtain ne' where c2: "create_nat_table_entry ?rs2 (flow_packet e' h' f' d') ext_ip = Some (1,
      emit (Signal C_nat_table) (?rs2\<lparr>rand_pos := Suc (rand_pos ?rs2), nat_table := nat_table ?rs2 @ [ne']\<rparr>))"
    "nat_ext ne' = compute_nat_checksums (nat_pair ext_ip (htons ?x))"
    using create_first_draw [OF assms(2), of ?rs2 d' ext_ip] t2 assms(5) by auto
  have "first_match (\<lambda>ne. found_nat_table_match ne (nat_pair (ip_src h') (flow_port NAT_INTERNAL f')) NAT_INTERNAL)
      (nat_table ?rs2) = None"
    using assms(4) c1(3) by (auto simp: t2 found_nat_table_match_def)
  from nat_int_flow_new [OF assms(2) c2(1) this] t2(1)
  have "\<exists>rs3. process_nat_int_packet ?rs2 (flow_packet e' h' f' d') ext_ip =
      Some (translated NAT_EXTERNAL ne' e' h' f' d', rs3)" by (simp add: emit_def)
  with p1 source_after_translation [OF assms(1), of ne d] source_after_translation [OF assms(2), of ne' d']
    c1(2) c2(2) show ?thesis by auto
qed

theorem nat_ports_collide_witness:
  "\<exists>q rs1 q' rs2. process_nat_int_packet nat_router (flow_packet sample_eth14 sample_flow_ip (Tcp_flow sample_tcp) [])
      0x0100000A = Some (q, rs1)
    \<and> process_nat_int_packet rs1 (flow_packet sample_eth14 (sample_flow_ip\<lparr>ip_src := 0x0300000A\<rparr>) (Tcp_flow sample_tcp) [])
      0x0100000A = Some (q', rs2)
    \<and> get_nat_ip_port_pair q' NAT_INTERNAL = get_nat_ip_port_pair q NAT_INTERNAL"
proof (rule nat_ports_collide)
  show "is_flow_packet sample_eth14 sample_flow_ip (Tcp_flow sample_tcp)" by (rule sample_flow)
  show "is_flow_packet sample_eth14 (sample_flow_ip\<lparr>ip_src := 0x0300000A\<rparr>) (Tcp_flow sample_tcp)"
    using sample_flow by simp
  show "(ip_src sample_flow_ip, flow_port NAT_INTERNAL (Tcp_flow sample_tcp)) \<noteq>
      (ip_src (sample_flow_ip\<lparr>ip_src := 0x0300000A\<rparr>), flow_port NAT_INTERNAL (Tcp_flow sample_tcp))"
    by (simp add: sample_flow_ip_def)
qed (simp_all add: nat_router_def empty_router_def htons_def byte_of_def le16_def)

end
