(* ===== verification/Dijkstra.thy ===== *)
theory Dijkstra
  imports Iface Rtable
begin

text \<open>
  The computation of the dynamic routes (or_dijkstra.c): the shortest distances in hops from this
  router over the links that PWOSPF reports as active, the wrapped routes with the first router on
  the way, and the routing table entries made of them. A pointer to a router of the list is its
  index where the code loops over the list, and the id of the router in \<open>prev_router\<close>, where a
  router that is no longer in the list is a dangling pointer.
\<close>

record route_wrapper =
  rw_entry :: rtable_entry
  rw_distance :: u16
  rw_next_rid :: u32
  rw_directly_connected :: bool

section \<open>Shortest distances\<close>

definition get_router_by_rid :: "u32 \<Rightarrow> pwospf_router list \<Rightarrow> pwospf_router option" where
  "get_router_by_rid rid rl = find (\<lambda>r. pr_router_id r = rid) rl"

definition INFINITE_DISTANCE :: u32 where "INFINITE_DISTANCE = 0xFFFFFFFF"

fun shortest_scan :: "nat \<Rightarrow> pwospf_router list \<Rightarrow> nat option \<Rightarrow> u32 \<Rightarrow> nat option" where
  "shortest_scan i [] shortest_router shortest_distance = shortest_router"
| "shortest_scan i (r # rl) shortest_router shortest_distance =
     (if \<not> pr_shortest_path_found r \<and> pr_distance r < shortest_distance
      then shortest_scan (Suc i) rl (Some i) (pr_distance r)
      else shortest_scan (Suc i) rl shortest_router shortest_distance)"

definition get_shortest :: "pwospf_router list \<Rightarrow> nat option" where
  "get_shortest rl = shortest_scan 0 rl None INFINITE_DISTANCE"

text \<open>\<open>wid\<close> and \<open>wd\<close> are the id and the distance of \<open>w\<close>, which the loop does not change.\<close>

fun relax_interfaces :: "u32 \<Rightarrow> u32 \<Rightarrow> pwospf_interface list \<Rightarrow> pwospf_router list \<Rightarrow> pwospf_router list" where
  "relax_interfaces wid wd [] rl = rl"
| "relax_interfaces wid wd (i # cur) rl =
     relax_interfaces wid wd cur
       (if pi_router_id i \<noteq> 0 \<and> pi_is_active i
        then (case get_router_by_rid (pi_router_id i) rl of
            Some v \<Rightarrow> if \<not> pr_shortest_path_found v \<and> wd + 1 < pr_distance v
              then update_first (\<lambda>r. pr_router_id r = pi_router_id i)
                (\<lambda>v. v\<lparr>pr_distance := wd + 1, pr_prev_router := Some wid\<rparr>) rl
              else rl
          | None \<Rightarrow> rl)
        else rl)"

definition update_neighbor_distance :: "nat \<Rightarrow> pwospf_router list \<Rightarrow> pwospf_router list" where
  "update_neighbor_distance k rl =
     relax_interfaces (pr_router_id (rl ! k)) (pr_distance (rl ! k)) (pr_interface_list (rl ! k)) rl"

definition unfound :: "pwospf_router list \<Rightarrow> nat" where
  "unfound rl = length (filter (\<lambda>r. \<not> pr_shortest_path_found r) rl)"

lemma update_first_found:
  "(\<And>r. pr_shortest_path_found (f r) = pr_shortest_path_found r) \<Longrightarrow>
     map pr_shortest_path_found (update_first P f rl) = map pr_shortest_path_found rl"
  by (induction rl) auto

lemma relax_found [simp]:
  "map pr_shortest_path_found (relax_interfaces wid wd is rl) = map pr_shortest_path_found rl"
  by (induction wid wd "is" rl rule: relax_interfaces.induct)
    (auto simp: update_first_found split: option.splits)

lemma unfound_map: "unfound rl = length (filter Not (map pr_shortest_path_found rl))"
  by (simp add: unfound_def filter_map o_def)

text \<open>The scan returns an unmarked router with the least distance, if there is a finite one.\<close>

definition nearest :: "pwospf_router list \<Rightarrow> u32 \<Rightarrow> nat \<Rightarrow> bool" where
  "nearest rl d j \<longleftrightarrow> j < length rl \<and> \<not> pr_shortest_path_found (rl ! j) \<and> pr_distance (rl ! j) < d
     \<and> (\<forall>r\<in>set rl. pr_shortest_path_found r \<or> pr_distance (rl ! j) \<le> pr_distance r)"

lemma shortest_scan_result:
  "(shortest_scan i rl best d = best \<and> (\<forall>r\<in>set rl. pr_shortest_path_found r \<or> d \<le> pr_distance r))
   \<or> (\<exists>j. shortest_scan i rl best d = Some (i + j) \<and> nearest rl d j)"
proof (induction i rl best d rule: shortest_scan.induct)
  case (2 i r rl best d)
  show ?case
  proof (cases "\<not> pr_shortest_path_found r \<and> pr_distance r < d")
    case True
    from 2(1) [OF this] consider
        "shortest_scan (Suc i) rl (Some i) (pr_distance r) = Some i"
        "\<forall>x\<in>set rl. pr_shortest_path_found x \<or> pr_distance r \<le> pr_distance x"
      | j where "shortest_scan (Suc i) rl (Some i) (pr_distance r) = Some (Suc i + j)" "nearest rl (pr_distance r) j"
      by blast
    then show ?thesis
    proof cases
      case 1
      then have "nearest (r # rl) d 0" using True by (simp add: nearest_def)
      with 1(1) True show ?thesis by (intro disjI2 exI [of _ 0]) simp
    next
      case 2
      then have "nearest (r # rl) d (Suc j)" using True by (auto simp: nearest_def)
      with 2(1) True show ?thesis by (intro disjI2 exI [of _ "Suc j"]) simp
    qed
  next
    case False
    from 2(2) [OF this] show ?thesis
    proof
      assume "\<exists>j. shortest_scan (Suc i) rl best d = Some (Suc i + j) \<and> nearest rl d j"
      then obtain j where j: "shortest_scan (Suc i) rl best d = Some (Suc i + j)" "nearest rl d j" by blast
      then have "nearest (r # rl) d (Suc j)" using False by (auto simp: nearest_def not_less)
      with j(1) False show ?thesis by (intro disjI2 exI [of _ "Suc j"]) auto
    qed (use False in auto)
  qed
qed simp

lemma get_shortest_Some: "get_shortest rl = Some k \<Longrightarrow> nearest rl INFINITE_DISTANCE k"
  using shortest_scan_result [of 0 rl None INFINITE_DISTANCE] by (auto simp: get_shortest_def)

lemma get_shortest_None:
  "get_shortest rl = None \<Longrightarrow> r \<in> set rl \<Longrightarrow> pr_shortest_path_found r \<or> INFINITE_DISTANCE \<le> pr_distance r"
  using shortest_scan_result [of 0 rl None INFINITE_DISTANCE] by (auto simp: get_shortest_def)

text \<open>The loop of \<open>compute_rtable\<close> marks a router and relaxes its links; it ends because each round
  but the first marks one more router.\<close>

definition settle :: "nat \<Rightarrow> pwospf_router list \<Rightarrow> pwospf_router list" where
  "settle k rl = update_neighbor_distance k (rl[k := (rl ! k)\<lparr>pr_shortest_path_found := True\<rparr>])"

lemma unfound_settle:
  assumes "k < length rl"
  shows "unfound (settle k rl) = (if pr_shortest_path_found (rl ! k) then unfound rl else unfound rl - 1)"
    "\<not> pr_shortest_path_found (rl ! k) \<Longrightarrow> 0 < unfound rl"
proof -
  have s: "rl = take k rl @ rl ! k # drop (Suc k) rl" using assms by (rule id_take_nth_drop)
  have u: "unfound (take k rl @ r # drop (Suc k) rl) = unfound (take k rl) + unfound (drop (Suc k) rl)
      + (if pr_shortest_path_found r then 0 else 1)" for r
    by (simp add: unfound_def)
  have "unfound (settle k rl) = unfound (rl[k := (rl ! k)\<lparr>pr_shortest_path_found := True\<rparr>])"
    by (simp add: settle_def update_neighbor_distance_def unfound_map)
  also have "\<dots> = unfound (take k rl) + unfound (drop (Suc k) rl)"
    using assms by (simp add: upd_conv_take_nth_drop u)
  moreover have "unfound rl = unfound (take k rl) + unfound (drop (Suc k) rl)
      + (if pr_shortest_path_found (rl ! k) then 0 else 1)" using u [of "rl ! k"] s by simp
  ultimately show "unfound (settle k rl) = (if pr_shortest_path_found (rl ! k) then unfound rl else unfound rl - 1)"
    "\<not> pr_shortest_path_found (rl ! k) \<Longrightarrow> 0 < unfound rl"
    by simp_all
qed

fun loop_measure :: "nat option \<times> pwospf_router list \<Rightarrow> nat" where
  "loop_measure (None, rl) = 0"
| "loop_measure (Some k, rl) = (if pr_shortest_path_found (rl ! k) then Suc (unfound rl) else unfound rl)"

lemma loop_measure_get_shortest: "loop_measure (get_shortest rl, rl) \<le> unfound rl"
  by (cases "get_shortest rl") (auto dest: get_shortest_Some simp: nearest_def)

function shortest_path_loop :: "nat option \<Rightarrow> pwospf_router list \<Rightarrow> pwospf_router list" where
  "shortest_path_loop None rl = rl"
| "shortest_path_loop (Some k) rl = (if k < length rl
     then shortest_path_loop (get_shortest (settle k rl)) (settle k rl) else rl)"
  by pat_completeness auto
termination
proof (relation "measure loop_measure")
  fix k rl assume "k < length (rl :: pwospf_router list)"
  then show "((get_shortest (settle k rl), settle k rl), (Some k, rl)) \<in> measure loop_measure"
    using loop_measure_get_shortest [of "settle k rl"] unfound_settle [of k rl]
    by (cases "pr_shortest_path_found (rl ! k)") auto
qed simp

definition init_distance :: "u32 \<Rightarrow> pwospf_router \<Rightarrow> pwospf_router" where
  "init_distance our_router_id r =
     (if pr_router_id r = our_router_id then r\<lparr>pr_distance := 0, pr_shortest_path_found := True\<rparr>
      else if pr_router_id r \<noteq> 0 then r\<lparr>pr_distance := INFINITE_DISTANCE, pr_shortest_path_found := False\<rparr>
      else r)"

fun router_index :: "u32 \<Rightarrow> pwospf_router list \<Rightarrow> nat option" where
  "router_index rid [] = None"
| "router_index rid (r # rl) = (if pr_router_id r = rid then Some 0 else map_option Suc (router_index rid rl))"

definition compute_distances :: "u32 \<Rightarrow> pwospf_router list \<Rightarrow> pwospf_router list" where
  "compute_distances our_router_id rl = (let rl = map (init_distance our_router_id) rl
     in shortest_path_loop (router_index our_router_id rl) rl)"

section \<open>Routes\<close>

text \<open>The walk along \<open>prev_router\<close> to the router next to the source: the first one whose
  predecessor has distance 0. A missing or dangling predecessor is a fault.\<close>

partial_function (option) first_router :: "pwospf_router list \<Rightarrow> pwospf_router \<Rightarrow> u32 option" where
  "first_router rl cur_router = do {
     pid \<leftarrow> pr_prev_router cur_router;
     prev_router \<leftarrow> get_router_by_rid pid rl;
     if pr_distance prev_router \<noteq> 0 then first_router rl prev_router else Some (pr_router_id cur_router)
   }"

definition next_rid_of :: "pwospf_router list \<Rightarrow> pwospf_router \<Rightarrow> pwospf_interface \<Rightarrow> u32 option" where
  "next_rid_of rl r i = (if pr_prev_router r = None then Some (pi_router_id i) else first_router rl r)"

definition same_subnet :: "pwospf_interface \<Rightarrow> route_wrapper \<Rightarrow> bool" where
  "same_subnet i w \<longleftrightarrow> rt_ip (rw_entry w) = pi_subnet i AND pi_mask i \<and> rt_mask (rw_entry w) = pi_mask i"

text \<open>\<open>get_route_wrapper\<close> returns the first wrapper of a subnet.\<close>

definition get_route_wrapper :: "pwospf_interface \<Rightarrow> route_wrapper list \<Rightarrow> route_wrapper option" where
  "get_route_wrapper i head = find (same_subnet i) head"

fun add_route_wrappers ::
    "u32 \<Rightarrow> pwospf_router list \<Rightarrow> pwospf_router \<Rightarrow> pwospf_interface list \<Rightarrow> route_wrapper list \<Rightarrow> route_wrapper list option" where
  "add_route_wrappers our_rid rl r [] head = Some head"
| "add_route_wrappers our_rid rl r (i # cur) head =
     (case get_route_wrapper i head of
        Some wrapper \<Rightarrow>
          if pr_distance r \<ge> ucast (rw_distance wrapper) then add_route_wrappers our_rid rl r cur head
          else do {
            nrid \<leftarrow> next_rid_of rl r i;
            add_route_wrappers our_rid rl r cur (update_first (same_subnet i)
              (\<lambda>w. w\<lparr>rw_distance := ucast (pr_distance r), rw_next_rid := nrid,
                     rw_directly_connected := (our_rid = pr_router_id r \<or> rw_directly_connected w)\<rparr>) head)
          }
      | None \<Rightarrow> do {
          nrid \<leftarrow> next_rid_of rl r i;
          add_route_wrappers our_rid rl r cur (head @
            [\<lparr>rw_entry = \<lparr>rt_ip = pi_subnet i AND pi_mask i, rt_gw = 0, rt_mask = pi_mask i, rt_iface = [],
                rt_is_static = False, rt_is_active = False\<rparr>,
              rw_distance = ucast (pr_distance r), rw_next_rid = nrid,
              rw_directly_connected = (our_rid = pr_router_id r)\<rparr>])
        })"

fun wrap_routers :: "u32 \<Rightarrow> pwospf_router list \<Rightarrow> pwospf_router list \<Rightarrow> route_wrapper list \<Rightarrow> route_wrapper list option" where
  "wrap_routers our_rid rl [] head = Some head"
| "wrap_routers our_rid rl (r # cur) head = do {
     head \<leftarrow> add_route_wrappers our_rid rl r (pr_interface_list r) head;
     wrap_routers our_rid rl cur head
   }"

definition build_route_wrapper_list :: "u32 \<Rightarrow> pwospf_router list \<Rightarrow> route_wrapper list option" where
  "build_route_wrapper_list our_rid rl = wrap_routers our_rid rl rl []"

definition get_iface_by_rid :: "u32 \<Rightarrow> iface_entry list \<Rightarrow> iface_entry option" where
  "get_iface_by_rid rid ifs = (if rid = 0 then None
     else find (\<lambda>i. \<exists>nbr\<in>set (if_nbr_routers i). nbr_router_id nbr = rid) ifs)"

definition get_iface_by_subnet_mask :: "u32 \<Rightarrow> u32 \<Rightarrow> iface_entry list \<Rightarrow> iface_entry option" where
  "get_iface_by_subnet_mask subnet m ifs = find (\<lambda>i. if_ip i AND if_mask i = subnet \<and> if_mask i = m) ifs"

definition route_of_wrapper :: "iface_entry list \<Rightarrow> route_wrapper \<Rightarrow> rtable_entry list option" where
  "route_of_wrapper ifs wrapper =
     (case (case get_iface_by_rid (rw_next_rid wrapper) ifs of Some iface \<Rightarrow> Some iface
        | None \<Rightarrow> get_iface_by_subnet_mask (rt_ip (rw_entry wrapper)) (rt_mask (rw_entry wrapper)) ifs) of
        None \<Rightarrow> Some []
      | Some iface \<Rightarrow> do {
          gw \<leftarrow> (if rw_directly_connected wrapper then Some 0
             else map_option nbr_ip (get_nbr_by_rid iface (rw_next_rid wrapper)));
          Some [(rw_entry wrapper)\<lparr>rt_iface := if_name iface, rt_gw := gw, rt_is_active := True, rt_is_static := False\<rparr>]
        })"

fun routes_of_wrappers :: "iface_entry list \<Rightarrow> route_wrapper list \<Rightarrow> rtable_entry list option" where
  "routes_of_wrappers ifs [] = Some []"
| "routes_of_wrappers ifs (w # cur) = do {
     es \<leftarrow> route_of_wrapper ifs w;
     rest \<leftarrow> routes_of_wrappers ifs cur;
     Some (es @ rest)
   }"

definition compute_rtable ::
    "u32 \<Rightarrow> pwospf_router list \<Rightarrow> iface_entry list \<Rightarrow> (rtable_entry list \<times> pwospf_router list) option" where
  "compute_rtable our_router_id rl ifs = do {
     let rl = compute_distances our_router_id rl;
     wrappers \<leftarrow> build_route_wrapper_list our_router_id rl;
     routes \<leftarrow> routes_of_wrappers ifs wrappers;
     Some (routes, rl)
   }"

text \<open>One round of \<open>dijkstra_thread\<close>; \<open>timed_out\<close> is whether the wait ended without a signal.\<close>

definition dijkstra_round :: "bool \<Rightarrow> router_state \<Rightarrow> router_state option" where
  "dijkstra_round timed_out rs =
     (if timed_out \<and> dijkstra_dirty rs = 0 then Some rs
      else do {
        let rs = rs\<lparr>dijkstra_dirty := 0\<rparr>;
        rs \<leftarrow> lock_if_list_rd rs;
        rs \<leftarrow> lock_rtable_wr rs;
        rs \<leftarrow> lock_mutex_pwospf_router_list rs;
        (routes, rl) \<leftarrow> compute_rtable (router_id rs) (pwospf_router_list rs) (if_list rs);
        rs \<leftarrow> trigger_rtable_modified (rs\<lparr>rtable := filter rt_is_static (rtable rs) @ routes, pwospf_router_list := rl\<rparr>);
        rs \<leftarrow> unlock_mutex_pwospf_router_list rs;
        rs \<leftarrow> unlock_rtable rs;
        unlock_if_list rs
      })"

definition dijkstra_trigger :: "router_state \<Rightarrow> router_state" where
  "dijkstra_trigger rs = emit (Signal C_dijkstra) (rs\<lparr>dijkstra_dirty := 1\<rparr>)"

section \<open>The graph of the routers\<close>

text \<open>What the computation reads: the ids of the routers and their interface lists.\<close>

type_synonym topology = "(u32 \<times> pwospf_interface list) list"

definition topo :: "pwospf_router list \<Rightarrow> topology" where
  "topo rl = map (\<lambda>r. (pr_router_id r, pr_interface_list r)) rl"

definition targets :: "pwospf_interface list \<Rightarrow> u32 set" where
  "targets is = pi_router_id ` {i \<in> set is. pi_is_active i \<and> pi_router_id i \<noteq> 0}"

definition link :: "topology \<Rightarrow> u32 \<Rightarrow> u32 \<Rightarrow> bool" where
  "link t u v \<longleftrightarrow> v \<in> fst ` set t \<and> (\<exists>is. (u, is) \<in> set t \<and> v \<in> targets is)"

primrec hops :: "topology \<Rightarrow> u32 \<Rightarrow> nat \<Rightarrow> u32 \<Rightarrow> bool" where
  "hops t s 0 v \<longleftrightarrow> v = s"
| "hops t s (Suc n) v \<longleftrightarrow> (\<exists>u. hops t s n u \<and> link t u v)"

lemma targets_Cons:
  "targets (i # is) = (if pi_router_id i \<noteq> 0 \<and> pi_is_active i then insert (pi_router_id i) (targets is) else targets is)"
  by (auto simp: targets_def)

lemma targets_Nil [simp]: "targets [] = {}"
  by (simp add: targets_def)

text \<open>The shortest distance from \<open>s\<close> to \<open>v\<close> is \<open>n\<close> hops.\<close>

definition is_dist :: "topology \<Rightarrow> u32 \<Rightarrow> u32 \<Rightarrow> nat \<Rightarrow> bool" where
  "is_dist t s v n \<longleftrightarrow> hops t s n v \<and> (\<forall>m<n. \<not> hops t s m v)"

lemma is_dist_le: "is_dist t s v n \<Longrightarrow> hops t s m v \<Longrightarrow> n \<le> m"
  unfolding is_dist_def using not_le by blast

section \<open>Relaxing the links of a router\<close>

lemma update_first_map:
  "distinct (map g xs) \<Longrightarrow> update_first (\<lambda>x. g x = a) f xs = map (\<lambda>x. if g x = a then f x else x) xs"
proof (induction xs)
  case (Cons x xs)
  have "map (\<lambda>y. if g y = g x then f y else y) xs = xs"
    using Cons.prems by (intro map_idI) (auto dest: image_eqI [where f = g, OF sym])
  with Cons show ?case by auto
qed simp

definition relaxed :: "u32 \<Rightarrow> u32 \<Rightarrow> u32 set \<Rightarrow> pwospf_router \<Rightarrow> pwospf_router" where
  "relaxed wid wd T v =
     (if \<not> pr_shortest_path_found v \<and> pr_router_id v \<in> T \<and> wd + 1 < pr_distance v
      then v\<lparr>pr_distance := wd + 1, pr_prev_router := Some wid\<rparr> else v)"

lemma relaxed_fields [simp]:
  "pr_router_id (relaxed wid wd T v) = pr_router_id v" "pr_interface_list (relaxed wid wd T v) = pr_interface_list v"
  "pr_shortest_path_found (relaxed wid wd T v) = pr_shortest_path_found v"
  by (simp_all add: relaxed_def)

lemma get_router_by_rid_Some:
  "get_router_by_rid a rl = Some v \<Longrightarrow> v \<in> set rl \<and> pr_router_id v = a"
  by (auto simp: get_router_by_rid_def find_Some_iff)

lemma get_router_by_rid_mem:
  assumes "distinct (map pr_router_id rl)" "r \<in> set rl"
  shows "get_router_by_rid (pr_router_id r) rl = Some r"
  using assms by (induction rl) (auto simp: get_router_by_rid_def)

lemma relax_one:
  assumes "distinct (map pr_router_id rl)"
  shows "(case get_router_by_rid a rl of
       Some v \<Rightarrow> if \<not> pr_shortest_path_found v \<and> wd + 1 < pr_distance v
         then update_first (\<lambda>r. pr_router_id r = a) (\<lambda>v. v\<lparr>pr_distance := wd + 1, pr_prev_router := Some wid\<rparr>) rl
         else rl
     | None \<Rightarrow> rl) = map (relaxed wid wd {a}) rl"
proof (cases "get_router_by_rid a rl")
  case None
  then have "\<forall>r\<in>set rl. pr_router_id r \<noteq> a" by (auto simp: get_router_by_rid_def find_None_iff)
  then have "map (relaxed wid wd {a}) rl = map id rl" by (intro map_cong refl) (auto simp: relaxed_def)
  with None show ?thesis by simp
next
  case (Some v)
  have same: "r = v" if "r \<in> set rl" "pr_router_id r = a" for r
    using get_router_by_rid_mem [OF assms that(1)] Some that(2) by simp
  show ?thesis
  proof (cases "\<not> pr_shortest_path_found v \<and> wd + 1 < pr_distance v")
    case True
    then show ?thesis using Some same
      by (auto simp: update_first_map [OF assms] relaxed_def)
  next
    case False
    then have "map (relaxed wid wd {a}) rl = map id rl"
      using same by (intro map_cong refl) (auto simp: relaxed_def)
    with Some False show ?thesis by auto
  qed
qed

lemma relax_interfaces_map:
  "distinct (map pr_router_id rl) \<Longrightarrow>
     relax_interfaces wid wd is rl = map (relaxed wid wd (targets is)) rl"
proof (induction "is" arbitrary: rl)
  case Nil
  then show ?case by (simp add: relaxed_def targets_def)
next
  case (Cons i "is")
  have comp: "relaxed wid wd (targets is) (relaxed wid wd {a} v) = relaxed wid wd (insert a (targets is)) v" for a v
    by (auto simp: relaxed_def)
  have d: "distinct (map pr_router_id (map (relaxed wid wd {a}) rl))" for a
    using Cons.prems by (simp add: o_def)
  show ?case
  proof (cases "pi_router_id i \<noteq> 0 \<and> pi_is_active i")
    case True
    then have "targets (i # is) = insert (pi_router_id i) (targets is)" by (auto simp: targets_def)
    with True show ?thesis
      using Cons.IH [OF d] by (simp add: relax_one [OF Cons.prems] comp o_def)
  next
    case False
    then have "targets (i # is) = targets is" by (auto simp: targets_def)
    moreover have "relax_interfaces wid wd (i # is) rl = relax_interfaces wid wd is rl"
      using False by auto
    ultimately show ?thesis using Cons by simp
  qed
qed

section \<open>The invariant of the loop\<close>

definition found_count :: "pwospf_router list \<Rightarrow> nat" where
  "found_count rl = length (filter pr_shortest_path_found rl)"

definition dist :: "pwospf_router \<Rightarrow> nat" where
  "dist r = unat (pr_distance r)"

lemma dist_le_INFINITE: "dist r \<le> 4294967295"
proof -
  have "unat (pr_distance r) < 2 ^ LENGTH(32)" by (rule unsigned_less)
  then show ?thesis by (simp add: dist_def)
qed

lemma dist_INFINITE: "INFINITE_DISTANCE \<le> pr_distance r \<longleftrightarrow> dist r = 4294967295"
  using dist_le_INFINITE [of r] by (auto simp: dist_def INFINITE_DISTANCE_def word_le_nat_alt)

text \<open>\<open>reached_by\<close>: the distance of a router comes from a marked neighbour, which is its predecessor.\<close>

definition reached_by :: "pwospf_router list \<Rightarrow> pwospf_router \<Rightarrow> bool" where
  "reached_by rl v \<longleftrightarrow> (\<exists>r\<in>set rl. pr_shortest_path_found r \<and> link (topo rl) (pr_router_id r) (pr_router_id v)
     \<and> dist v = Suc (dist r) \<and> pr_prev_router v = Some (pr_router_id r))"

text \<open>The links of the marked routers outside \<open>X\<close> have been relaxed.\<close>

definition dijkstra_inv :: "u32 \<Rightarrow> u32 set \<Rightarrow> pwospf_router list \<Rightarrow> bool" where
  "dijkstra_inv s X rl \<longleftrightarrow> distinct (map pr_router_id rl) \<and> length rl < 4294967295
     \<and> (\<exists>r\<in>set rl. pr_shortest_path_found r \<and> pr_router_id r = s)
     \<and> (\<forall>r\<in>set rl. pr_shortest_path_found r \<longrightarrow> is_dist (topo rl) s (pr_router_id r) (dist r) \<and> dist r < found_count rl
          \<and> (pr_router_id r = s \<or> reached_by rl r))
     \<and> (\<forall>r\<in>set rl. \<forall>v\<in>set rl. pr_shortest_path_found r \<longrightarrow> pr_router_id r \<notin> X \<longrightarrow>
          link (topo rl) (pr_router_id r) (pr_router_id v) \<longrightarrow> dist v \<le> Suc (dist r))
     \<and> (\<forall>v\<in>set rl. \<not> pr_shortest_path_found v \<longrightarrow> dist v = 4294967295 \<or> reached_by rl v)"

lemma dijkstra_invD:
  assumes "dijkstra_inv s X rl"
  shows "distinct (map pr_router_id rl)" "length rl < 4294967295"
    "\<exists>r\<in>set rl. pr_shortest_path_found r \<and> pr_router_id r = s"
    "r \<in> set rl \<Longrightarrow> pr_shortest_path_found r \<Longrightarrow> is_dist (topo rl) s (pr_router_id r) (dist r)"
    "r \<in> set rl \<Longrightarrow> pr_shortest_path_found r \<Longrightarrow> dist r < found_count rl"
    "r \<in> set rl \<Longrightarrow> pr_shortest_path_found r \<Longrightarrow> pr_router_id r = s \<or> reached_by rl r"
    "r \<in> set rl \<Longrightarrow> v \<in> set rl \<Longrightarrow> pr_shortest_path_found r \<Longrightarrow> pr_router_id r \<notin> X \<Longrightarrow>
       link (topo rl) (pr_router_id r) (pr_router_id v) \<Longrightarrow> dist v \<le> Suc (dist r)"
    "v \<in> set rl \<Longrightarrow> \<not> pr_shortest_path_found v \<Longrightarrow> dist v = 4294967295 \<or> reached_by rl v"
  using assms unfolding dijkstra_inv_def by blast+

lemma found_count_le: "found_count rl \<le> length rl"
  by (simp add: found_count_def)

lemma link_source:
  assumes "distinct (map pr_router_id rl)" "u \<in> set rl"
  shows "link (topo rl) (pr_router_id u) v \<longleftrightarrow> v \<in> pr_router_id ` set rl \<and> v \<in> targets (pr_interface_list u)"
proof -
  have "r = u" if "r \<in> set rl" "pr_router_id r = pr_router_id u" for r
    using get_router_by_rid_mem [OF assms(1)] assms(2) that by (metis option.inject)
  then show ?thesis using assms(2) unfolding link_def topo_def by force
qed

text \<open>Relaxing the links of the router that was just marked.\<close>

lemma dijkstra_inv_relax:
  assumes inv: "dijkstra_inv s {pr_router_id u} rl" and u: "u \<in> set rl" "pr_shortest_path_found u"
  shows "dijkstra_inv s {} (map (relaxed (pr_router_id u) (pr_distance u) (targets (pr_interface_list u))) rl)"
proof -
  let ?f = "relaxed (pr_router_id u) (pr_distance u) (targets (pr_interface_list u))"
  note i = dijkstra_invD [OF inv]
  have t: "topo (map ?f rl) = topo rl" by (simp add: topo_def)
  have fc: "found_count (map ?f rl) = found_count rl" by (simp add: found_count_def filter_map o_def)
  have found: "?f r = r" if "pr_shortest_path_found r" for r using that by (simp add: relaxed_def)
  have "dist u < 4294967294" using i(2) i(5) [OF u] found_count_le [of rl] by linarith
  then have du: "unat (pr_distance u + 1) = Suc (dist u)"
    unfolding dist_def by (subst unat_word_ariths(1)) simp
  have link: "link (topo rl) (pr_router_id u) (pr_router_id v) \<longleftrightarrow> pr_router_id v \<in> targets (pr_interface_list u)"
    if "v \<in> set rl" for v
    using link_source [OF i(1) u(1)] that by simp
  have le: "dist (?f v) \<le> dist v" for v
    by (auto simp: relaxed_def dist_def du word_less_nat_alt)
  have reach: "reached_by (map ?f rl) v" if "reached_by rl v" for v
    using that found unfolding reached_by_def t by force
  have changed: "reached_by (map ?f rl) (?f v)" if "v \<in> set rl" "?f v \<noteq> v" for v
  proof -
    have "pr_router_id v \<in> targets (pr_interface_list u)" "?f v = v\<lparr>pr_distance := pr_distance u + 1,
        pr_prev_router := Some (pr_router_id u)\<rparr>" using that(2) by (auto simp: relaxed_def split: if_splits)
    then show ?thesis using link [OF that(1)] u found [OF u(2)] unfolding reached_by_def t
      by (auto simp: dist_def du intro!: bexI [of _ u])
  qed
  show ?thesis
    unfolding dijkstra_inv_def
  proof (intro conjI ballI impI)
    show "distinct (map pr_router_id (map ?f rl))" using i(1) by (simp add: o_def)
    show "length (map ?f rl) < 4294967295" using i(2) by simp
    show "\<exists>r\<in>set (map ?f rl). pr_shortest_path_found r \<and> pr_router_id r = s" using i(3) by auto
  next
    fix r assume "r \<in> set (map ?f rl)" "pr_shortest_path_found r"
    then have r: "r \<in> set rl" "pr_shortest_path_found r" using found by auto
    show "is_dist (topo (map ?f rl)) s (pr_router_id r) (dist r)" "dist r < found_count (map ?f rl)"
      using i(4,5) [OF r] by (simp_all add: t fc)
    show "pr_router_id r = s \<or> reached_by (map ?f rl) r" using i(6) [OF r] reach by blast
  next
    fix r v assume a: "r \<in> set (map ?f rl)" "v \<in> set (map ?f rl)" "pr_shortest_path_found r"
      "link (topo (map ?f rl)) (pr_router_id r) (pr_router_id v)"
    then obtain w where w: "w \<in> set rl" "v = ?f w" and r: "r \<in> set rl" using found by auto
    have l: "link (topo rl) (pr_router_id r) (pr_router_id w)" using a(4) w(2) by (simp add: t)
    show "dist v \<le> Suc (dist r)"
    proof (cases "pr_router_id r = pr_router_id u")
      case False
      then show ?thesis using i(7) [OF r w(1) a(3) _ l] le [of w] w(2) by simp
    next
      case True
      then have "r = u" using get_router_by_rid_mem [OF i(1)] r u(1) by (metis option.inject)
      show ?thesis
      proof (cases "pr_shortest_path_found w")
        case True
        have "hops (topo rl) s (Suc (dist u)) (pr_router_id w)"
          using i(4) [OF u] l \<open>r = u\<close> by (auto simp: is_dist_def)
        from is_dist_le [OF i(4) [OF w(1) True] this] show ?thesis
          using w(2) found [OF True] \<open>r = u\<close> by simp
      next
        case False
        then show ?thesis using link [OF w(1)] l \<open>r = u\<close> w(2) du
          by (auto simp: relaxed_def dist_def word_less_nat_alt)
      qed
    qed
  next
    fix v assume "v \<in> set (map ?f rl)" "\<not> pr_shortest_path_found v"
    then obtain w where w: "w \<in> set rl" "v = ?f w" "\<not> pr_shortest_path_found w" by auto
    show "dist v = 4294967295 \<or> reached_by (map ?f rl) v"
      using i(8) [OF w(1,3)] changed [OF w(1)] reach w(2) by (cases "?f w = w") auto
  qed
qed

text \<open>The nearest unmarked router has its distance: a shorter path would leave the marked routers at a
  router that is nearer.\<close>

lemma path_leaves_marked:
  assumes inv: "dijkstra_inv s {} rl" and "hops (topo rl) s n x" "x \<in> pr_router_id ` set rl"
  shows "(\<exists>v\<in>set rl. \<not> pr_shortest_path_found v \<and> dist v \<le> n) \<or> (\<forall>v\<in>set rl. pr_router_id v = x \<longrightarrow> pr_shortest_path_found v)"
  using assms(2,3)
proof (induction n arbitrary: x)
  case 0
  then show ?case using dijkstra_invD(1,3) [OF inv] get_router_by_rid_mem by (metis hops.simps(1) option.inject)
next
  case (Suc n)
  note i = dijkstra_invD [OF inv]
  from Suc.prems(1) obtain u where u: "hops (topo rl) s n u" "link (topo rl) u x" by auto
  from u(2) obtain r where r: "r \<in> set rl" "pr_router_id r = u" by (auto simp: link_def topo_def)
  from Suc.IH [OF u(1)] r consider v where "v \<in> set rl" "\<not> pr_shortest_path_found v" "dist v \<le> n"
    | "pr_shortest_path_found r" by blast
  then show ?case
  proof cases
    case 1
    then show ?thesis by (meson le_SucI)
  next
    case 2
    have d: "dist r \<le> n" using is_dist_le [OF i(4) [OF r(1) 2]] u(1) r(2) by simp
    have "dist v \<le> Suc n" if "v \<in> set rl" "pr_router_id v = x" for v
      using i(7) [OF r(1) that(1) 2] u(2) r(2) that(2) d by simp
    then show ?thesis by blast
  qed
qed

lemma map_list_update_same: "k < length xs \<Longrightarrow> g y = g (xs ! k) \<Longrightarrow> map g (xs[k := y]) = map g xs"
  by (metis list_update_id map_update nth_map)

lemma dijkstra_inv_mark:
  assumes inv: "dijkstra_inv s {} rl" and k: "nearest rl INFINITE_DISTANCE k"
  shows "dijkstra_inv s {pr_router_id (rl ! k)} (rl[k := (rl ! k)\<lparr>pr_shortest_path_found := True\<rparr>])"
proof -
  note i = dijkstra_invD [OF inv]
  let ?u = "rl ! k" and ?u' = "(rl ! k)\<lparr>pr_shortest_path_found := True\<rparr>"
  let ?rl = "rl[k := ?u']"
  have kl: "k < length rl" "?u \<in> set rl" "\<not> pr_shortest_path_found ?u" using k by (auto simp: nearest_def)
  have near: "dist ?u \<le> dist v" if "v \<in> set rl" "\<not> pr_shortest_path_found v" for v
    using k that by (auto simp: nearest_def dist_def word_le_nat_alt)
  have fin: "dist ?u \<noteq> 4294967295" using k dist_INFINITE [of ?u] by (auto simp: nearest_def not_less [symmetric])
  from i(8) [OF kl(2,3)] fin obtain w where w: "w \<in> set rl" "pr_shortest_path_found w"
    "link (topo rl) (pr_router_id w) (pr_router_id ?u)" "dist ?u = Suc (dist w)"
    "pr_prev_router ?u = Some (pr_router_id w)"
    by (auto simp: reached_by_def)
  have t: "topo ?rl = topo rl" using kl(1) by (simp add: topo_def map_list_update_same)
  have mem: "r \<in> set ?rl \<longleftrightarrow> r = ?u' \<or> (r \<in> set rl \<and> r \<noteq> ?u)" for r
    using set_update_distinct [OF _ kl(1), of ?u'] i(1) by (simp add: distinct_map)
  have fc: "found_count ?rl = Suc (found_count rl)"
  proof -
    have s: "rl = take k rl @ ?u # drop (Suc k) rl" using kl(1) by (rule id_take_nth_drop)
    have "found_count rl = found_count (take k rl) + found_count (drop (Suc k) rl)"
      using kl(3) arg_cong [OF s, of found_count] by (simp add: found_count_def)
    then show ?thesis using kl(1) by (simp add: upd_conv_take_nth_drop found_count_def)
  qed
  have dist_u: "is_dist (topo rl) s (pr_router_id ?u) (dist ?u)"
    unfolding is_dist_def
  proof (intro conjI allI impI notI)
    show "hops (topo rl) s (dist ?u) (pr_router_id ?u)"
      using i(4) [OF w(1,2)] w(3,4) by (auto simp: is_dist_def)
    fix m assume m: "m < dist ?u" "hops (topo rl) s m (pr_router_id ?u)"
    from path_leaves_marked [OF inv m(2)] kl near m(1) show False by fastforce
  qed
  have reach: "reached_by ?rl v" if "reached_by rl v" for v
    using that kl(3) mem unfolding reached_by_def t by blast
  have reach_u: "reached_by ?rl ?u'"
    using reach [of ?u] i(8) [OF kl(2,3)] fin unfolding reached_by_def by (simp add: dist_def)
  show ?thesis
    unfolding dijkstra_inv_def t
  proof (intro conjI ballI impI)
    show "distinct (map pr_router_id ?rl)"
      using i(1) kl(1) by (simp add: map_list_update_same)
    show "length ?rl < 4294967295" using i(2) by simp
    show "\<exists>r\<in>set ?rl. pr_shortest_path_found r \<and> pr_router_id r = s" using i(3) kl(3) mem by blast
  next
    fix r assume r: "r \<in> set ?rl" "pr_shortest_path_found r"
    consider "r = ?u'" | "r \<in> set rl" using mem r(1) by blast
    note cases = this
    from cases show "is_dist (topo rl) s (pr_router_id r) (dist r)"
      using dist_u i(4) r(2) by cases (auto simp: dist_def)
    from cases show "dist r < found_count ?rl"
      using i(5) [OF w(1,2)] w(4) i(5) r(2) unfolding fc by cases (auto simp: dist_def intro: less_SucI)
    from cases show "pr_router_id r = s \<or> reached_by ?rl r"
      using reach_u i(6) r(2) reach by cases auto
  next
    fix r v assume a: "r \<in> set ?rl" "v \<in> set ?rl" "pr_shortest_path_found r" "pr_router_id r \<notin> {pr_router_id ?u}"
      "link (topo rl) (pr_router_id r) (pr_router_id v)"
    then have "r \<in> set rl" using mem by auto
    moreover obtain v' where "v' \<in> set rl" "pr_router_id v' = pr_router_id v" "dist v' = dist v"
      using a(2) mem kl(2) by (auto simp: dist_def)
    ultimately show "dist v \<le> Suc (dist r)" using i(7) [of r v'] a(3,5) by simp
  next
    fix v assume "v \<in> set ?rl" "\<not> pr_shortest_path_found v"
    then have "v \<in> set rl" "\<not> pr_shortest_path_found v" using mem by auto
    from i(8) [OF this] reach show "dist v = 4294967295 \<or> reached_by ?rl v" by blast
  qed
qed

lemma settle_inv:
  assumes "dijkstra_inv s {} rl \<and> nearest rl INFINITE_DISTANCE k
    \<or> dijkstra_inv s {pr_router_id (rl ! k)} rl \<and> k < length rl \<and> pr_shortest_path_found (rl ! k)"
  shows "dijkstra_inv s {} (settle k rl)" "topo (settle k rl) = topo rl"
proof -
  let ?u = "(rl ! k)\<lparr>pr_shortest_path_found := True\<rparr>"
  let ?rl = "rl[k := ?u]"
  have k: "k < length rl" using assms by (auto simp: nearest_def)
  have inv: "dijkstra_inv s {pr_router_id ?u} ?rl"
    using assms
  proof
    assume "dijkstra_inv s {} rl \<and> nearest rl INFINITE_DISTANCE k"
    with dijkstra_inv_mark show ?thesis by auto
  next
    assume a: "dijkstra_inv s {pr_router_id (rl ! k)} rl \<and> k < length rl \<and> pr_shortest_path_found (rl ! k)"
    then have "?u = rl ! k" by simp
    then have "?rl = rl" by (metis list_update_id)
    with a show ?thesis by simp
  qed
  have u: "?u \<in> set ?rl" using k by (rule set_update_memI)
  have "settle k rl = map (relaxed (pr_router_id ?u) (pr_distance ?u) (targets (pr_interface_list ?u))) ?rl"
    using k relax_interfaces_map [OF dijkstra_invD(1) [OF inv]]
    by (simp add: settle_def update_neighbor_distance_def)
  then show "dijkstra_inv s {} (settle k rl)" "topo (settle k rl) = topo rl"
    using dijkstra_inv_relax [OF inv u] k by (simp_all add: topo_def map_list_update_same)
qed

lemma shortest_path_loop_inv:
  assumes "case ko of None \<Rightarrow> dijkstra_inv s {} rl \<and> get_shortest rl = None
    | Some k \<Rightarrow> dijkstra_inv s {} rl \<and> nearest rl INFINITE_DISTANCE k
        \<or> dijkstra_inv s {pr_router_id (rl ! k)} rl \<and> k < length rl \<and> pr_shortest_path_found (rl ! k)"
  shows "dijkstra_inv s {} (shortest_path_loop ko rl) \<and> get_shortest (shortest_path_loop ko rl) = None
    \<and> topo (shortest_path_loop ko rl) = topo rl"
  using assms
proof (induction ko rl rule: shortest_path_loop.induct)
  case (2 k rl)
  then have k: "k < length rl" by (auto simp: nearest_def)
  note inv = settle_inv [of s rl k]
  have "case get_shortest (settle k rl) of None \<Rightarrow> dijkstra_inv s {} (settle k rl) \<and> get_shortest (settle k rl) = None
    | Some k' \<Rightarrow> dijkstra_inv s {} (settle k rl) \<and> nearest (settle k rl) INFINITE_DISTANCE k'
        \<or> dijkstra_inv s {pr_router_id (settle k rl ! k')} (settle k rl) \<and> k' < length (settle k rl)
          \<and> pr_shortest_path_found (settle k rl ! k')"
    using inv(1) 2(2) by (auto split: option.split dest: get_shortest_Some)
  from 2(1) [OF k this] k inv(2) 2(2) show ?case by simp
qed simp

lemma router_index_Some:
  "s \<in> pr_router_id ` set rl \<Longrightarrow> \<exists>k<length rl. router_index s rl = Some k \<and> pr_router_id (rl ! k) = s"
  by (induction rl) auto

lemma init_distance_id [simp]: "pr_router_id (init_distance s r) = pr_router_id r"
  by (simp add: init_distance_def)

lemma topo_init [simp]: "topo (map (init_distance s) rl) = topo rl"
  by (simp add: topo_def init_distance_def)

lemma dijkstra_inv_init:
  assumes "distinct (map pr_router_id rl)" "0 \<notin> pr_router_id ` set rl" "s \<in> pr_router_id ` set rl"
    "length rl < 4294967295"
  shows "dijkstra_inv s {s} (map (init_distance s) rl)"
proof -
  have f: "pr_shortest_path_found (init_distance s r) \<longleftrightarrow> pr_router_id r = s"
    "pr_router_id r = s \<Longrightarrow> dist (init_distance s r) = 0"
    "pr_router_id r \<noteq> s \<Longrightarrow> dist (init_distance s r) = 4294967295" if "r \<in> set rl" for r
    using assms(2) that by (auto simp: init_distance_def dist_def INFINITE_DISTANCE_def)
  obtain r where r: "r \<in> set rl" "pr_router_id r = s" using assms(3) by auto
  have "0 < found_count (map (init_distance s) rl)"
    using f(1) [OF r(1)] r unfolding found_count_def by (auto simp: filter_empty_conv)
  then show ?thesis
    unfolding dijkstra_inv_def topo_init using assms(1,4) f r
    by (auto simp: o_def is_dist_def)
qed

lemma compute_distances_inv:
  assumes "distinct (map pr_router_id rl)" "0 \<notin> pr_router_id ` set rl" "s \<in> pr_router_id ` set rl"
    "length rl < 4294967295"
  shows "dijkstra_inv s {} (compute_distances s rl) \<and> get_shortest (compute_distances s rl) = None
    \<and> topo (compute_distances s rl) = topo rl"
proof -
  let ?rl = "map (init_distance s) rl"
  have "pr_router_id ` set ?rl = pr_router_id ` set rl" by (simp add: image_image)
  with router_index_Some assms(3) obtain k where k: "k < length ?rl" "router_index s ?rl = Some k"
    "pr_router_id (?rl ! k) = s" by metis
  then have "pr_router_id (rl ! k) = s" by simp
  then have "pr_shortest_path_found (?rl ! k)" using k(1) by (simp add: init_distance_def)
  then show ?thesis
    using shortest_path_loop_inv [of s ?rl "Some k"] dijkstra_inv_init [OF assms] k
    by (simp add: compute_distances_def Let_def)
qed

lemma marked_when_done:
  assumes inv: "dijkstra_inv s {} rl" "get_shortest rl = None"
    and "hops (topo rl) s n x" "v \<in> set rl" "pr_router_id v = x"
  shows "pr_shortest_path_found v"
  using assms(3-5)
proof (induction n arbitrary: x v)
  case 0
  then show ?case using dijkstra_invD(1,3) [OF inv(1)] get_router_by_rid_mem by (metis hops.simps(1) option.inject)
next
  case (Suc n)
  note i = dijkstra_invD [OF inv(1)]
  from Suc.prems(1) obtain u where u: "hops (topo rl) s n u" "link (topo rl) u x" by auto
  from u(2) obtain r where r: "r \<in> set rl" "pr_router_id r = u" by (auto simp: link_def topo_def)
  have f: "pr_shortest_path_found r" using Suc.IH u(1) r by blast
  have "dist v \<le> Suc (dist r)" using i(7) [OF r(1) Suc.prems(2) f] u(2) r(2) Suc.prems(3) by simp
  moreover have "Suc (dist r) < 4294967295" using i(2) i(5) [OF r(1) f] found_count_le [of rl] by linarith
  ultimately show ?case using get_shortest_None [OF inv(2) Suc.prems(2)] by (auto simp: dist_INFINITE)
qed

section \<open>Properties\<close>

text \<open>C29: \<open>compute_rtable\<close> finds shortest paths. In the graph of the active links between the routers
  of the list, every router gets the least number of hops from this router as its distance, and
  the largest number when there is no path; the ids and the interface lists do not change.\<close>

theorem shortest_distances:
  assumes "distinct (map pr_router_id rl)" "0 \<notin> pr_router_id ` set rl" "s \<in> pr_router_id ` set rl"
    "length rl < 4294967295"
  shows "topo (compute_distances s rl) = topo rl
    \<and> (\<forall>r\<in>set (compute_distances s rl).
        if \<exists>n. hops (topo rl) s n (pr_router_id r) then is_dist (topo rl) s (pr_router_id r) (unat (pr_distance r))
        else pr_distance r = INFINITE_DISTANCE)"
proof -
  let ?rl = "compute_distances s rl"
  have inv: "dijkstra_inv s {} ?rl" "get_shortest ?rl = None" "topo ?rl = topo rl"
    using compute_distances_inv [OF assms] by auto
  have "if \<exists>n. hops (topo rl) s n (pr_router_id r) then is_dist (topo rl) s (pr_router_id r) (unat (pr_distance r))
      else pr_distance r = INFINITE_DISTANCE" if r: "r \<in> set ?rl" for r
  proof (cases "pr_shortest_path_found r")
    case True
    with dijkstra_invD(4) [OF inv(1) r] inv(3) show ?thesis by (auto simp: dist_def is_dist_def)
  next
    case False
    with marked_when_done [OF inv(1,2) _ r] inv(3) have "\<not> (\<exists>n. hops (topo rl) s n (pr_router_id r))" by auto
    moreover have "pr_distance r = INFINITE_DISTANCE"
      using get_shortest_None [OF inv(2) r] False
      by (simp add: dist_INFINITE) (simp add: dist_def INFINITE_DISTANCE_def word_unat_eq_iff)
    ultimately show ?thesis by simp
  qed
  with inv(3) show ?thesis by blast
qed

text \<open>C30: the predecessors lead back along a shortest path. For every router that can be reached, the
  walk of \<open>add_route_wrappers\<close> ends, without meeting a missing or dangling predecessor, at a
  neighbour of this router from which the rest of a shortest path leads to it.\<close>

theorem first_router_on_shortest_path:
  assumes "distinct (map pr_router_id rl)" "0 \<notin> pr_router_id ` set rl" "s \<in> pr_router_id ` set rl"
    "length rl < 4294967295" "r \<in> set (compute_distances s rl)" "pr_router_id r \<noteq> s"
    "hops (topo rl) s n (pr_router_id r)"
  shows "\<exists>x. first_router (compute_distances s rl) r = Some x \<and> link (topo rl) s x
    \<and> hops (topo rl) x (unat (pr_distance r) - 1) (pr_router_id r)"
proof -
  let ?rl = "compute_distances s rl"
  have inv: "dijkstra_inv s {} ?rl" "get_shortest ?rl = None" "topo ?rl = topo rl"
    using compute_distances_inv [OF assms(1-4)] by auto
  note i = dijkstra_invD [OF inv(1)]
  have "\<exists>x. first_router ?rl v = Some x \<and> link (topo ?rl) s x \<and> hops (topo ?rl) x m (pr_router_id v)"
    if "v \<in> set ?rl" "pr_shortest_path_found v" "pr_router_id v \<noteq> s" "dist v = Suc m" for v m
    using that
  proof (induction m arbitrary: v)
    case (0 v)
    then obtain w where w: "w \<in> set ?rl" "pr_shortest_path_found w" "link (topo ?rl) (pr_router_id w) (pr_router_id v)"
      "dist w = 0" "pr_prev_router v = Some (pr_router_id w)"
      using i(6) [OF 0(1,2)] by (auto simp: reached_by_def)
    have "pr_router_id w = s" using i(4) [OF w(1,2)] w(4) by (simp add: is_dist_def)
    then show ?case using w get_router_by_rid_mem [OF i(1) w(1)]
      by (subst first_router.simps) (simp add: dist_def unat_eq_0)
  next
    case (Suc m v)
    then obtain w where w: "w \<in> set ?rl" "pr_shortest_path_found w" "link (topo ?rl) (pr_router_id w) (pr_router_id v)"
      "dist w = Suc m" "pr_prev_router v = Some (pr_router_id w)"
      using i(6) [OF Suc.prems(1,2)] by (auto simp: reached_by_def)
    have "pr_router_id w \<noteq> s"
      using is_dist_le [OF i(4) [OF w(1,2)], of 0] w(4) by auto
    from Suc.IH [OF w(1,2) this w(4)] obtain x where x: "first_router ?rl w = Some x" "link (topo ?rl) s x"
      "hops (topo ?rl) x m (pr_router_id w)" by blast
    have "pr_distance w \<noteq> 0" using w(4) by (auto simp: dist_def)
    then have "first_router ?rl v = Some x" using w(5) x(1) get_router_by_rid_mem [OF i(1) w(1)]
      by (subst first_router.simps) simp
    with x(2,3) w(3) show ?case by auto
  qed
  note walk = this
  have f: "pr_shortest_path_found r" using marked_when_done [OF inv(1,2) _ assms(5) refl] inv(3) assms(7) by simp
  have "dist r \<noteq> 0"
  proof
    assume "dist r = 0"
    with i(4) [OF assms(5) f] assms(6) show False by (simp add: is_dist_def)
  qed
  then obtain m where "dist r = Suc m" by (cases "dist r") auto
  with walk [OF assms(5) f assms(6) this] inv(3) show ?thesis by (simp add: dist_def)
qed

definition sample_link :: "u32 \<Rightarrow> u32 \<Rightarrow> pwospf_interface" where
  "sample_link net rid = \<lparr>pi_subnet = net, pi_mask = 0x00FFFFFF, pi_router_id = rid, pi_is_active = True\<rparr>"

definition sample_ospf :: "u32 \<Rightarrow> pwospf_interface list \<Rightarrow> pwospf_router" where
  "sample_ospf rid is = \<lparr>pr_router_id = rid, pr_area_id = 0, pr_seq = 0, pr_last_update = 0, pr_distance = 0,
     pr_shortest_path_found = False, pr_interface_list = is, pr_prev_router = None\<rparr>"

text \<open>Three routers in a row.\<close>

definition sample_net :: "pwospf_router list" where
  "sample_net = [sample_ospf 1 [sample_link 10 2], sample_ospf 2 [sample_link 10 1, sample_link 20 3],
     sample_ospf 3 [sample_link 20 2]]"

lemma sample_net_ok:
  "distinct (map pr_router_id sample_net)" "0 \<notin> pr_router_id ` set sample_net"
  "1 \<in> pr_router_id ` set sample_net" "length sample_net < 4294967295"
  by (simp_all add: sample_net_def sample_ospf_def)

lemma sample_net_hops: "hops (topo sample_net) 1 2 3"
proof -
  have t: "topo sample_net = [(1, [sample_link 10 2]), (2, [sample_link 10 1, sample_link 20 3]), (3, [sample_link 20 2])]"
    by (simp add: topo_def sample_net_def sample_ospf_def)
  have l: "targets (sample_link n a # is) = (if a = 0 then targets is else insert a (targets is))" for n a "is"
    by (simp add: targets_Cons sample_link_def)
  have "link (topo sample_net) 1 2" "link (topo sample_net) 2 3"
    unfolding link_def t by (simp_all add: l)
  then have "hops (topo sample_net) 1 (Suc (Suc 0)) 3" by auto
  then show ?thesis by (simp only: numeral_2_eq_2)
qed

lemma sample_net_distances: "\<exists>r\<in>set (compute_distances 1 sample_net). pr_router_id r = 3"
proof -
  have "map fst (topo (compute_distances 1 sample_net)) = map fst (topo sample_net)"
    using compute_distances_inv [OF sample_net_ok] by simp
  then have "map pr_router_id (compute_distances 1 sample_net) = [1, 2, 3]"
    by (simp add: topo_def o_def sample_net_def sample_ospf_def)
  then have "3 \<in> set (map pr_router_id (compute_distances 1 sample_net))" by simp
  then show ?thesis by auto
qed

theorem shortest_distances_witness:
  "\<exists>r\<in>set (compute_distances 1 sample_net). pr_router_id r = 3
     \<and> is_dist (topo sample_net) 1 3 (unat (pr_distance r))"
  using shortest_distances [OF sample_net_ok] sample_net_distances sample_net_hops by metis

theorem first_router_on_shortest_path_witness:
  "\<exists>r\<in>set (compute_distances 1 sample_net). pr_router_id r = 3
     \<and> (\<exists>x. first_router (compute_distances 1 sample_net) r = Some x \<and> link (topo sample_net) 1 x)"
proof -
  obtain r where r: "r \<in> set (compute_distances 1 sample_net)" "pr_router_id r = 3"
    using sample_net_distances by blast
  have "pr_router_id r \<noteq> 1" "hops (topo sample_net) 1 2 (pr_router_id r)" using r(2) sample_net_hops by simp_all
  from first_router_on_shortest_path [OF sample_net_ok r(1) this] r show ?thesis by blast
qed

end
