(* ===== verification/Pwospf.thy ===== *)
theory Pwospf
  imports Icmp Dijkstra
begin

text \<open>
  The routing protocol PWOSPF (or_pwospf.c): hello packets and the neighbours of an interface, link
  state updates and the list of routers, the advertisement of the own links, and one round of each
  of its threads. A router of the list and one of its interfaces are addressed by their indices.
\<close>

definition PWOSPF_TYPE_HELLO :: u8 where "PWOSPF_TYPE_HELLO = 1"
definition PWOSPF_TYPE_LINK_STATE_UPDATE :: u8 where "PWOSPF_TYPE_LINK_STATE_UPDATE = 4"
definition PWOSPF_HELLO_TIP :: u32 where "PWOSPF_HELLO_TIP = 0xe0000005"

section \<open>Validity\<close>

text \<open>The checksum is zeroed in the packet while it is recomputed, and stays zero.\<close>

definition is_pwospf_packet_valid :: "router_state \<Rightarrow> packet \<Rightarrow> (bool \<times> packet) option" where
  "is_pwospf_packet_valid rs p = do {
     pwospf \<leftarrow> get_pwospf_hdr p;
     if pwospf_ver pwospf \<noteq> 2 then Some (False, p)
     else do {
       (c, m) \<leftarrow> compute_pwospf_checksum (drop (ETH_HDR_LEN + IP_HDR_LEN) p);
       Some (htons (pwospf_sum pwospf) = c \<and> ntohs (pwospf_atype pwospf) = 0
           \<and> ntohl (pwospf_aid pwospf) = area_id rs \<and> ntohl (pwospf_rid pwospf) \<noteq> router_id rs,
         take (ETH_HDR_LEN + IP_HDR_LEN) p @ m)
     }
   }"

section \<open>Active links\<close>

definition set_pi_active :: "nat \<Rightarrow> nat \<Rightarrow> bool \<Rightarrow> pwospf_router list \<Rightarrow> pwospf_router list" where
  "set_pi_active j k b rl = rl[j := (rl ! j)\<lparr>pr_interface_list :=
     (pr_interface_list (rl ! j))[k := (pr_interface_list (rl ! j) ! k)\<lparr>pi_is_active := b\<rparr>]\<rparr>]"

definition same_link :: "pwospf_interface \<Rightarrow> pwospf_interface \<Rightarrow> bool" where
  "same_link pi_this pi_another \<longleftrightarrow> pi_subnet pi_this = pi_subnet pi_another \<and> pi_mask pi_this = pi_mask pi_another
     \<and> \<not> (pi_router_id pi_this = 0 \<or> pi_router_id pi_another = 0)"

text \<open>One interface \<open>k\<close> of router \<open>j\<close> against the interfaces of the router it names.\<close>

definition determine_active_interface :: "nat \<Rightarrow> nat \<Rightarrow> pwospf_router list \<Rightarrow> pwospf_router list" where
  "determine_active_interface j k rl =
     (let rl = set_pi_active j k False rl; pi_this = pr_interface_list (rl ! j) ! k
      in case router_index (pi_router_id pi_this) rl of
           None \<Rightarrow> rl
         | Some a \<Rightarrow> fold (\<lambda>m rl. if same_link pi_this (pr_interface_list (rl ! a) ! m)
               then set_pi_active a m True (set_pi_active j k True rl) else rl)
             [0..<length (pr_interface_list (rl ! a))] rl)"

definition determine_active_interfaces :: "nat \<Rightarrow> pwospf_router list \<Rightarrow> pwospf_router list" where
  "determine_active_interfaces j rl =
     fold (determine_active_interface j) [0..<length (pr_interface_list (rl ! j))] rl"

section \<open>Sending link state updates\<close>

definition lsu_advs :: "pwospf_interface list \<Rightarrow> pwospf_lsu_adv list" where
  "lsu_advs is = map (\<lambda>i. \<lparr>adv_sub = pi_subnet i, adv_mask = pi_mask i, adv_rid = pi_router_id i\<rparr>) is"

definition construct_pwospf_lsu_adv :: "router_state \<Rightarrow> pwospf_lsu_adv list option" where
  "construct_pwospf_lsu_adv rs = do {
     r \<leftarrow> get_router_by_rid (router_id rs) (pwospf_router_list rs);
     Some (lsu_advs (pr_interface_list r))
   }"

definition update_router :: "u32 \<Rightarrow> (pwospf_router \<Rightarrow> pwospf_router) \<Rightarrow> router_state \<Rightarrow> router_state" where
  "update_router rid f rs =
     rs\<lparr>pwospf_router_list := update_first (\<lambda>r. pr_router_id r = rid) f (pwospf_router_list rs)\<rparr>"

text \<open>Writing the checksum into a PWOSPF packet, and the link state packet of this router.\<close>

definition set_pwospf_checksum :: "u8 list \<Rightarrow> u8 list option" where
  "set_pwospf_checksum pw = do {
     (c, m) \<leftarrow> compute_pwospf_checksum pw;
     hdr \<leftarrow> load 24 dec_pwospf_hdr 0 m;
     store 24 enc_pwospf_hdr 0 (hdr\<lparr>pwospf_sum := htons c\<rparr>) m
   }"

definition construct_pwospf_lsu_packet :: "router_state \<Rightarrow> (u8 list \<times> router_state) option" where
  "construct_pwospf_lsu_packet rs = do {
     our_router \<leftarrow> get_router_by_rid (router_id rs) (pwospf_router_list rs);
     iface_adv \<leftarrow> construct_pwospf_lsu_adv rs;
     let len = 24 + 8 + length iface_adv * 12;
     pw \<leftarrow> set_pwospf_checksum
       (enc_pwospf_hdr (populate_pwospf PWOSPF_TYPE_LINK_STATE_UPDATE (of_nat len) (router_id rs) (area_id rs))
        @ enc_pwospf_lsu_hdr (populate_pwospf_lsu (pr_seq our_router) (of_nat (length iface_adv)))
        @ concat (map enc_pwospf_lsu_adv iface_adv));
     Some (pw, update_router (router_id rs) (\<lambda>r. r\<lparr>pr_last_update := clock rs, pr_seq := pr_seq r + 1\<rparr>) rs)
   }"

text \<open>The packet for one neighbour: the PWOSPF bytes in a new IP packet.\<close>

definition lsu_queue_packet :: "u8 list \<Rightarrow> iface_entry \<Rightarrow> nbr_router \<Rightarrow> packet option" where
  "lsu_queue_packet pw iface nbr = do {
     hdr \<leftarrow> load 24 dec_pwospf_hdr 0 pw;
     let foo = unat (ntohs (pwospf_len hdr));
     if length pw < foo then None
     else do {
       p \<leftarrow> put_ip_hdr (populate_ip (ntohs (pwospf_len hdr)) IP_PROTO_PWOSPF (if_ip iface) (nbr_ip nbr))
         (replicate (ETH_HDR_LEN + IP_HDR_LEN) 0 @ take foo pw);
       p \<leftarrow> set_ip_checksum p;
       eth \<leftarrow> get_eth_hdr p;
       put_eth_hdr (populate_eth_hdr eth None (if_addr iface) ETH_TYPE_IP) p
     }
   }"

definition lsu_queue_push :: "pwospf_lsu_queue_entry \<Rightarrow> router_state \<Rightarrow> router_state option" where
  "lsu_queue_push lqe rs = do {
     rs \<leftarrow> lock_mutex_pwospf_lsu_queue rs;
     let rs = rs\<lparr>pwospf_lsu_queue := pwospf_lsu_queue rs @ [lqe]\<rparr>;
     unlock_mutex_pwospf_lsu_queue rs
   }"

fun broadcast_to_nbrs :: "u8 list \<Rightarrow> u32 option \<Rightarrow> iface_entry \<Rightarrow> nbr_router list \<Rightarrow> router_state \<Rightarrow> router_state option" where
  "broadcast_to_nbrs pw src_ip iface [] rs = Some rs"
| "broadcast_to_nbrs pw src_ip iface (nbr # cur) rs =
     (if src_ip \<noteq> Some (nbr_ip nbr) then do {
        p \<leftarrow> lsu_queue_packet pw iface nbr;
        rs \<leftarrow> lsu_queue_push \<lparr>lq_ip = if_ip iface, lq_iface = if_name iface, lq_packet = p\<rparr> rs;
        broadcast_to_nbrs pw src_ip iface cur rs
      } else broadcast_to_nbrs pw src_ip iface cur rs)"

fun broadcast_to_ifaces :: "u8 list \<Rightarrow> u32 option \<Rightarrow> iface_entry list \<Rightarrow> router_state \<Rightarrow> router_state option" where
  "broadcast_to_ifaces pw src_ip [] rs = Some rs"
| "broadcast_to_ifaces pw src_ip (iface # iface_walker) rs = do {
     rs \<leftarrow> (if if_is_active iface then broadcast_to_nbrs pw src_ip iface (if_nbr_routers iface) rs else Some rs);
     broadcast_to_ifaces pw src_ip iface_walker rs
   }"

definition broadcast_pwospf_lsu_packet :: "router_state \<Rightarrow> u8 list \<Rightarrow> u32 option \<Rightarrow> router_state option" where
  "broadcast_pwospf_lsu_packet rs pw src_ip = broadcast_to_ifaces pw src_ip (if_list rs) rs"

definition start_lsu_bcast_flood :: "router_state \<Rightarrow> router_state option" where
  "start_lsu_bcast_flood rs =
     (if pwospf_lsu_broadcast rs = 0 then Some rs
      else do {
        (pw, rs) \<leftarrow> construct_pwospf_lsu_packet rs;
        rs \<leftarrow> broadcast_pwospf_lsu_packet rs pw None;
        our_router \<leftarrow> get_router_by_rid (router_id rs) (pwospf_router_list rs);
        Some (update_router (router_id rs) (\<lambda>r. r\<lparr>pr_last_update := clock rs\<rparr>) rs)
      })"

definition propagate_pwospf_changes :: "router_state \<Rightarrow> router_state option" where
  "propagate_pwospf_changes rs = (let rl = pwospf_router_list rs
     in start_lsu_bcast_flood (dijkstra_trigger
          (rs\<lparr>pwospf_router_list := fold determine_active_interfaces [0..<length rl] rl\<rparr>)))"

section \<open>Hello packets\<close>

text \<open>The interface of this router's entry that a new neighbour is recorded in: the first one of the
  subnet without a neighbour, or a new one.\<close>

definition free_pwospf_interface :: "iface_entry \<Rightarrow> pwospf_interface \<Rightarrow> bool" where
  "free_pwospf_interface iface pi \<longleftrightarrow> pi_subnet pi = if_ip iface AND if_mask iface \<and> pi_mask pi = if_mask iface
     \<and> pi_router_id pi = 0"

definition record_neighbor :: "iface_entry \<Rightarrow> u32 \<Rightarrow> pwospf_interface list \<Rightarrow> pwospf_interface list option" where
  "record_neighbor iface rid is =
     (if \<exists>pi\<in>set is. free_pwospf_interface iface pi
      then Some (update_first (free_pwospf_interface iface) (\<lambda>pi. pi\<lparr>pi_router_id := rid\<rparr>) is)
      else if is = [] then None
      else Some (is @ [\<lparr>pi_subnet = if_ip iface AND if_mask iface, pi_mask = if_mask iface,
          pi_router_id = rid, pi_is_active = False\<rparr>]))"

definition update_iface :: "string \<Rightarrow> (iface_entry \<Rightarrow> iface_entry) \<Rightarrow> router_state \<Rightarrow> router_state" where
  "update_iface interface f rs = rs\<lparr>if_list := update_first (iface_named interface) f (if_list rs)\<rparr>"

definition nbr_matches :: "u32 \<Rightarrow> u32 \<Rightarrow> nbr_router \<Rightarrow> bool" where
  "nbr_matches ip rid nbr \<longleftrightarrow> nbr_ip nbr = ip \<and> nbr_router_id nbr = rid"

text \<open>The loop over the neighbours keeps the last match.\<close>

fun update_last :: "('a \<Rightarrow> bool) \<Rightarrow> ('a \<Rightarrow> 'a) \<Rightarrow> 'a list \<Rightarrow> 'a list" where
  "update_last P f [] = []"
| "update_last P f (x # xs) =
     (if P x \<and> (\<forall>y\<in>set xs. \<not> P y) then f x # xs else x # update_last P f xs)"

text \<open>A packet with the wrong mask is dropped with the router list locked and the interface list
  locked for writing.\<close>

definition process_pwospf_hello_packet :: "router_state \<Rightarrow> packet \<Rightarrow> string \<Rightarrow> router_state option" where
  "process_pwospf_hello_packet rs p interface = do {
     iphdr \<leftarrow> get_ip_hdr p;
     pwospf \<leftarrow> get_pwospf_hdr p;
     hello \<leftarrow> get_pwospf_hello_hdr p;
     if pwospf_hello_interval rs \<noteq> ntohs (hello_hint hello) then Some rs
     else do {
       rs \<leftarrow> unlock_rtable rs;
       rs \<leftarrow> unlock_if_list rs;
       rs \<leftarrow> lock_if_list_wr rs;
       rs \<leftarrow> lock_rtable_rd rs;
       rs \<leftarrow> lock_mutex_pwospf_router_list rs;
       iface \<leftarrow> get_iface rs interface;
       if if_mask iface \<noteq> hello_mask hello then Some rs
       else if \<exists>nbr\<in>set (if_nbr_routers iface). nbr_matches (ip_src iphdr) (pwospf_rid pwospf) nbr
       then unlock_mutex_pwospf_router_list (update_iface interface (\<lambda>i. i\<lparr>if_nbr_routers :=
           update_last (nbr_matches (ip_src iphdr) (pwospf_rid pwospf))
             (\<lambda>nbr. nbr\<lparr>nbr_last_rcvd_hello := clock rs\<rparr>) (if_nbr_routers i)\<rparr>) rs)
       else do {
         let rs = update_iface interface (\<lambda>i. i\<lparr>if_nbr_routers := if_nbr_routers i
             @ [\<lparr>nbr_router_id = pwospf_rid pwospf, nbr_ip = ip_src iphdr, nbr_last_rcvd_hello = clock rs\<rparr>]\<rparr>) rs;
         r \<leftarrow> get_router_by_rid (router_id rs) (pwospf_router_list rs);
         is \<leftarrow> record_neighbor iface (pwospf_rid pwospf) (pr_interface_list r);
         let rs = update_router (router_id rs) (\<lambda>r. r\<lparr>pr_interface_list := is\<rparr>) rs;
         rs \<leftarrow> propagate_pwospf_changes rs;
         rs \<leftarrow> unlock_mutex_pwospf_router_list rs;
         Some (emit (Signal C_lsu_bcast) rs)
       }
     }
   }"

section \<open>Link state updates received\<close>

definition adv_interface :: "pwospf_lsu_adv \<Rightarrow> pwospf_interface" where
  "adv_interface adv = \<lparr>pi_subnet = adv_sub adv AND adv_mask adv, pi_mask = adv_mask adv,
     pi_router_id = adv_rid adv, pi_is_active = False\<rparr>"

text \<open>In the second branch the address is masked with itself instead of the mask.\<close>

definition new_adv_interface :: "pwospf_lsu_adv \<Rightarrow> pwospf_interface" where
  "new_adv_interface adv = (adv_interface adv)\<lparr>pi_subnet := adv_sub adv AND adv_sub adv\<rparr>"

definition adv_matches :: "pwospf_lsu_adv \<Rightarrow> pwospf_interface \<Rightarrow> bool" where
  "adv_matches adv pi \<longleftrightarrow> pi_subnet pi = adv_sub adv AND adv_mask adv \<and> pi_mask pi = adv_mask adv
     \<and> pi_router_id pi = adv_rid adv"

fun read_lsu_advs :: "packet \<Rightarrow> nat \<Rightarrow> nat \<Rightarrow> pwospf_lsu_adv list option" where
  "read_lsu_advs p i 0 = Some []"
| "read_lsu_advs p i (Suc n) = do {
     adv \<leftarrow> get_pwospf_lsu_adv p i;
     advs \<leftarrow> read_lsu_advs p (Suc i) n;
     Some (adv # advs)
   }"

fun add_new_advs :: "pwospf_lsu_adv list \<Rightarrow> pwospf_interface list \<Rightarrow> pwospf_interface list" where
  "add_new_advs [] is = is"
| "add_new_advs (adv # advs) is = add_new_advs advs
     (if \<exists>pi\<in>set is. adv_matches adv pi then is else is @ [new_adv_interface adv])"

text \<open>The new list, and whether anything was added or removed.\<close>

definition merge_advs :: "pwospf_lsu_adv list \<Rightarrow> pwospf_interface list \<Rightarrow> pwospf_interface list \<times> bool" where
  "merge_advs advs is =
     (if is = [] then (map adv_interface advs, True)
      else let added = add_new_advs advs is;
               kept = filter (\<lambda>pi. \<exists>adv\<in>set advs. adv_matches adv pi) added
           in (kept, length is < length added \<or> length kept < length added))"

definition populate_pwospf_router_interface_list ::
    "packet \<Rightarrow> pwospf_interface list \<Rightarrow> (pwospf_interface list \<times> bool) option" where
  "populate_pwospf_router_interface_list p is = do {
     lsu \<leftarrow> get_pwospf_lsu_hdr p;
     advs \<leftarrow> read_lsu_advs p 0 (unat (ntohl (lsu_num lsu)));
     Some (merge_advs advs is)
   }"

definition add_new_router_neighbor :: "router_state \<Rightarrow> packet \<Rightarrow> router_state option" where
  "add_new_router_neighbor rs p = do {
     pwospf \<leftarrow> get_pwospf_hdr p;
     lsu \<leftarrow> get_pwospf_lsu_hdr p;
     (is, changed) \<leftarrow> populate_pwospf_router_interface_list p [];
     Some (rs\<lparr>pwospf_router_list := pwospf_router_list rs @
       [\<lparr>pr_router_id = pwospf_rid pwospf, pr_area_id = ntohl (pwospf_aid pwospf), pr_seq = ntohs (lsu_seq lsu),
         pr_last_update = clock rs, pr_distance = 0, pr_shortest_path_found = False, pr_interface_list = is,
         pr_prev_router = None\<rparr>]\<rparr>)
   }"

text \<open>Rebroadcasting: the PWOSPF bytes with the decremented TTL and a new checksum.\<close>

definition rebroadcast_lsu_packet :: "router_state \<Rightarrow> packet \<Rightarrow> u16 \<Rightarrow> router_state option" where
  "rebroadcast_lsu_packet rs p ttl = do {
     pwospf \<leftarrow> get_pwospf_hdr p;
     ip \<leftarrow> get_ip_hdr p;
     let len = unat (ntohs (pwospf_len pwospf));
     let pw = take len (drop (ETH_HDR_LEN + IP_HDR_LEN) p);
     if length pw < len then None
     else do {
       lsu \<leftarrow> load 8 dec_pwospf_lsu_hdr 24 pw;
       pw \<leftarrow> store 8 enc_pwospf_lsu_hdr 24 (lsu\<lparr>lsu_ttl := htons ttl\<rparr>) pw;
       pw \<leftarrow> set_pwospf_checksum pw;
       broadcast_pwospf_lsu_packet rs pw (Some (ip_src ip))
     }
   }"

text \<open>The first part of \<open>process_pwospf_lsu_packet\<close>: the state, and the flags
  \<open>rebroadcast_packet\<close> and \<open>update_neighbors\<close>.\<close>

definition update_router_list :: "router_state \<Rightarrow> packet \<Rightarrow> (router_state \<times> bool \<times> bool) option" where
  "update_router_list rs p = do {
     pwospf \<leftarrow> get_pwospf_hdr p;
     lsu \<leftarrow> get_pwospf_lsu_hdr p;
     case get_router_by_rid (pwospf_rid pwospf) (pwospf_router_list rs) of
       Some router \<Rightarrow>
         if pr_seq router \<noteq> ntohs (lsu_seq lsu) \<and> ntohs (lsu_seq lsu) > pr_seq router then do {
           (is, changed) \<leftarrow> populate_pwospf_router_interface_list p (pr_interface_list router);
           Some (update_router (pwospf_rid pwospf) (\<lambda>r. r\<lparr>pr_last_update := clock rs,
               pr_seq := htons (lsu_seq lsu), pr_interface_list := is\<rparr>) rs, True, changed)
         }
         else Some (rs, False, False)
     | None \<Rightarrow> do {
         rs \<leftarrow> add_new_router_neighbor rs p;
         Some (rs, True, True)
       }
   }"

definition process_pwospf_lsu_packet :: "router_state \<Rightarrow> packet \<Rightarrow> string \<Rightarrow> router_state option" where
  "process_pwospf_lsu_packet rs p interface = do {
     pwospf \<leftarrow> get_pwospf_hdr p;
     lsu \<leftarrow> get_pwospf_lsu_hdr p;
     if router_id rs = pwospf_rid pwospf then Some rs
     else do {
       rs \<leftarrow> unlock_rtable rs;
       rs \<leftarrow> lock_rtable_wr rs;
       rs \<leftarrow> lock_mutex_pwospf_router_list rs;
       (rs, rebroadcast_packet, update_neighbors) \<leftarrow> update_router_list rs p;
       let ttl = ntohs (lsu_ttl lsu) - 1;
       let bcast_incoming_lsu_packet = (rebroadcast_packet \<and> ttl > 0);
       rs \<leftarrow> (if bcast_incoming_lsu_packet then rebroadcast_lsu_packet rs p ttl else Some rs);
       rs \<leftarrow> (if update_neighbors then propagate_pwospf_changes rs else Some rs);
       rs \<leftarrow> unlock_mutex_pwospf_router_list rs;
       Some (if update_neighbors \<or> bcast_incoming_lsu_packet then emit (Signal C_lsu_bcast) rs else rs)
     }
   }"

definition process_pwospf_packet :: "router_state \<Rightarrow> packet \<Rightarrow> string \<Rightarrow> router_state option" where
  "process_pwospf_packet rs p interface = do {
     (valid, p) \<leftarrow> is_pwospf_packet_valid rs p;
     if \<not> valid then Some rs
     else do {
       pwospf \<leftarrow> get_pwospf_hdr p;
       if pwospf_type pwospf = PWOSPF_TYPE_HELLO then process_pwospf_hello_packet rs p interface
       else if pwospf_type pwospf = PWOSPF_TYPE_LINK_STATE_UPDATE then process_pwospf_lsu_packet rs p interface
       else Some rs
     }
   }"

section \<open>The threads\<close>

text \<open>A neighbour has timed out; the interface list of this router after its removal: the last entry
  of the subnet keeps the subnet without a neighbour, otherwise the entry of the neighbour goes.\<close>

definition on_subnet :: "iface_entry \<Rightarrow> pwospf_interface \<Rightarrow> bool" where
  "on_subnet iface pi \<longleftrightarrow> pi_subnet pi = if_ip iface AND if_mask iface \<and> pi_mask pi = if_mask iface"

fun remove_first :: "('a \<Rightarrow> bool) \<Rightarrow> 'a list \<Rightarrow> 'a list" where
  "remove_first P [] = []"
| "remove_first P (x # xs) = (if P x then xs else x # remove_first P xs)"

definition forget_neighbor :: "iface_entry \<Rightarrow> u32 \<Rightarrow> pwospf_interface list \<Rightarrow> pwospf_interface list option" where
  "forget_neighbor iface rid is = (let count = length (filter (on_subnet iface) is) in
     if count = 0 then None
     else if count = 1 then Some (update_first (on_subnet iface) (\<lambda>pi. pi\<lparr>pi_router_id := 0\<rparr>) is)
     else Some (remove_first (\<lambda>pi. on_subnet iface pi \<and> rid = pi_router_id pi) is))"

definition nbr_timed_out :: "router_state \<Rightarrow> nbr_router \<Rightarrow> bool" where
  "nbr_timed_out rs nbr \<longleftrightarrow> clock rs - nbr_last_rcvd_hello nbr > 3 * int (unat (pwospf_hello_interval rs))"

fun timeout_walk :: "iface_entry \<Rightarrow> nbr_router list \<Rightarrow> router_state \<Rightarrow> (bool \<times> nbr_router list \<times> router_state) option" where
  "timeout_walk iface [] rs = Some (False, [], rs)"
| "timeout_walk iface (nbr # cur) rs =
     (if nbr_timed_out rs nbr then do {
        our_router \<leftarrow> get_router_by_rid (router_id rs) (pwospf_router_list rs);
        is \<leftarrow> forget_neighbor iface (nbr_router_id nbr) (pr_interface_list our_router);
        (t, nbrs, rs) \<leftarrow> timeout_walk iface cur (update_router (router_id rs) (\<lambda>r. r\<lparr>pr_interface_list := is\<rparr>) rs);
        Some (True, nbrs, rs)
      } else do {
        (t, nbrs, rs) \<leftarrow> timeout_walk iface cur rs;
        Some (t, nbr # nbrs, rs)
      })"

definition determine_timedout_interface :: "nat \<Rightarrow> router_state \<Rightarrow> (bool \<times> router_state) option" where
  "determine_timedout_interface k rs = do {
     let iface = if_list rs ! k;
     (interface_has_timedout, nbrs, rs) \<leftarrow> timeout_walk iface (if_nbr_routers iface) rs;
     Some (interface_has_timedout, rs\<lparr>if_list := (if_list rs)[k := (if_list rs ! k)\<lparr>if_nbr_routers := nbrs\<rparr>]\<rparr>)
   }"

definition hello_packet :: "router_state \<Rightarrow> iface_entry \<Rightarrow> packet option" where
  "hello_packet rs ie = do {
     pw \<leftarrow> set_pwospf_checksum
       (enc_pwospf_hdr (populate_pwospf PWOSPF_TYPE_HELLO 32 (router_id rs) (area_id rs))
        @ enc_pwospf_hello_hdr (populate_pwospf_hello (if_mask ie) (pwospf_hello_interval rs)));
     p \<leftarrow> put_ip_hdr (populate_ip 32 IP_PROTO_PWOSPF (if_ip ie) (htonl PWOSPF_HELLO_TIP))
       (replicate (ETH_HDR_LEN + IP_HDR_LEN) 0 @ pw);
     p \<leftarrow> set_ip_checksum p;
     eth \<leftarrow> get_eth_hdr p;
     put_eth_hdr (populate_eth_hdr eth (Some 0xFFFFFFFFFFFF) (if_addr ie) ETH_TYPE_IP) p
   }"

definition hello_on_interface :: "nat \<Rightarrow> router_state \<Rightarrow> (bool \<times> router_state) option" where
  "hello_on_interface k rs = do {
     let ie = if_list rs ! k;
     p \<leftarrow> hello_packet rs ie;
     (r, rs) \<leftarrow> send_packet p (if_name ie) rs;
     let rs = rs\<lparr>if_list := (if_list rs)[k := (if_list rs ! k)\<lparr>if_last_sent_hello := clock rs\<rparr>]\<rparr>;
     rs \<leftarrow> lock_mutex_pwospf_router_list rs;
     (t, rs) \<leftarrow> determine_timedout_interface k rs;
     rs \<leftarrow> unlock_mutex_pwospf_router_list rs;
     Some (t, rs)
   }"

fun hello_walk :: "nat list \<Rightarrow> router_state \<Rightarrow> (bool \<times> router_state) option" where
  "hello_walk [] rs = Some (False, rs)"
| "hello_walk (k # ks) rs = do {
     (t, rs) \<leftarrow> (if if_is_active (if_list rs ! k) then hello_on_interface k rs else Some (False, rs));
     (ts, rs) \<leftarrow> hello_walk ks rs;
     Some (t \<or> ts, rs)
   }"

definition broadcast_pwospf_hello_packet :: "router_state \<Rightarrow> router_state option" where
  "broadcast_pwospf_hello_packet rs = do {
     (interface_has_timedout, rs) \<leftarrow> hello_walk [0..<length (if_list rs)] rs;
     if interface_has_timedout then do {
       rs \<leftarrow> lock_mutex_pwospf_router_list rs;
       rs \<leftarrow> propagate_pwospf_changes rs;
       rs \<leftarrow> unlock_mutex_pwospf_router_list rs;
       Some (emit (Signal C_lsu_bcast) rs)
     }
     else Some rs
   }"

definition pwospf_hello_round :: "router_state \<Rightarrow> router_state option" where
  "pwospf_hello_round rs = do {
     rs \<leftarrow> lock_if_list_wr rs;
     rs \<leftarrow> broadcast_pwospf_hello_packet rs;
     unlock_if_list rs
   }"

text \<open>\<open>diff\<close> is signed and the interval is not, so the comparison is unsigned.\<close>

definition pwospf_lsu_round :: "router_state \<Rightarrow> router_state option" where
  "pwospf_lsu_round rs = do {
     rs \<leftarrow> lock_mutex_pwospf_router_list rs;
     let our_router = get_router_by_rid (router_id rs) (pwospf_router_list rs);
     rs \<leftarrow> unlock_mutex_pwospf_router_list rs;
     case our_router of
       None \<Rightarrow> Some rs
     | Some r \<Rightarrow>
         if (of_int (clock rs - pr_last_update r) :: u32) > pwospf_lsu_interval rs then do {
           rs \<leftarrow> lock_mutex_pwospf_router_list rs;
           rs \<leftarrow> start_lsu_bcast_flood rs;
           rs \<leftarrow> unlock_mutex_pwospf_router_list rs;
           Some (emit (Signal C_lsu_bcast) rs)
         }
         else Some rs
   }"

definition lsu_timed_out :: "router_state \<Rightarrow> pwospf_router \<Rightarrow> bool" where
  "lsu_timed_out rs r \<longleftrightarrow> pr_router_id r \<noteq> router_id rs
     \<and> (of_int (clock rs - pr_last_update r) :: u32) > pwospf_lsu_interval rs * 3"

definition pwospf_lsu_timeout_round :: "router_state \<Rightarrow> router_state option" where
  "pwospf_lsu_timeout_round rs = do {
     rs \<leftarrow> lock_mutex_pwospf_router_list rs;
     let timeout_occured = (\<exists>r\<in>set (pwospf_router_list rs). lsu_timed_out rs r);
     let rs = rs\<lparr>pwospf_router_list := filter (\<lambda>r. \<not> lsu_timed_out rs r) (pwospf_router_list rs)\<rparr>;
     rs \<leftarrow> (if timeout_occured then propagate_pwospf_changes rs else Some rs);
     rs \<leftarrow> unlock_mutex_pwospf_router_list rs;
     Some (if timeout_occured then emit (Signal C_lsu_bcast) rs else rs)
   }"

fun send_lsu_queue :: "pwospf_lsu_queue_entry list \<Rightarrow> router_state \<Rightarrow> router_state option" where
  "send_lsu_queue [] rs = Some rs"
| "send_lsu_queue (lqe # cur) rs = do {
     ip \<leftarrow> get_ip_hdr (lq_packet lqe);
     rs \<leftarrow> (case get_next_hop rs IF_LEN (ip_dst ip) of
         Some (next_hop, next_hop_iface) \<Rightarrow> map_option snd (send_ip rs (lq_packet lqe) next_hop next_hop_iface)
       | None \<Rightarrow> Some rs);
     send_lsu_queue cur rs
   }"

text \<open>What \<open>pwospf_lsu_bcast_thread\<close> does each time it is woken.\<close>

definition pwospf_lsu_bcast_round :: "router_state \<Rightarrow> router_state option" where
  "pwospf_lsu_bcast_round rs = do {
     rs \<leftarrow> lock_mutex_pwospf_lsu_bcast rs;
     rs \<leftarrow> lock_mutex_pwospf_lsu_queue rs;
     let lsu_queue = pwospf_lsu_queue rs;
     rs \<leftarrow> unlock_mutex_pwospf_lsu_queue (rs\<lparr>pwospf_lsu_queue := []\<rparr>);
     rs \<leftarrow> lock_arp_cache_rd rs;
     rs \<leftarrow> lock_arp_queue_wr rs;
     rs \<leftarrow> lock_if_list_rd rs;
     rs \<leftarrow> lock_rtable_rd rs;
     rs \<leftarrow> send_lsu_queue lsu_queue rs;
     rs \<leftarrow> unlock_rtable rs;
     rs \<leftarrow> unlock_if_list rs;
     rs \<leftarrow> unlock_arp_queue rs;
     rs \<leftarrow> unlock_arp_cache rs;
     unlock_mutex_pwospf_lsu_bcast rs
   }"

definition default_route_present :: "router_state \<Rightarrow> pwospf_interface option" where
  "default_route_present rs = map_option
     (\<lambda>re. \<lparr>pi_subnet = rt_ip re AND rt_mask re, pi_mask = rt_mask re, pi_router_id = 0, pi_is_active = False\<rparr>)
     (find (\<lambda>re. rt_is_static re \<and> rt_ip re = 0 \<and> rt_mask re = 0) (rtable rs))"

definition is_route_present :: "pwospf_router \<Rightarrow> pwospf_interface \<Rightarrow> bool" where
  "is_route_present router iface \<longleftrightarrow> (\<exists>pi\<in>set (pr_interface_list router). pi_subnet pi = pi_subnet iface
     \<and> pi_mask pi = pi_mask iface \<and> pi_router_id pi = pi_router_id iface)"

section \<open>Merging advertisements\<close>

definition pi_key :: "pwospf_interface \<Rightarrow> u32 \<times> u32 \<times> u32" where
  "pi_key pi = (pi_subnet pi, pi_mask pi, pi_router_id pi)"

definition adv_key :: "pwospf_lsu_adv \<Rightarrow> u32 \<times> u32 \<times> u32" where
  "adv_key adv = (adv_sub adv AND adv_mask adv, adv_mask adv, adv_rid adv)"

definition masked :: "pwospf_lsu_adv \<Rightarrow> bool" where
  "masked adv \<longleftrightarrow> adv_sub adv AND adv_mask adv = adv_sub adv"

lemma adv_matches_key: "adv_matches adv pi \<longleftrightarrow> pi_key pi = adv_key adv"
  by (auto simp: adv_matches_def pi_key_def adv_key_def)

lemma new_adv_key: "pi_key (new_adv_interface adv) = (adv_sub adv, adv_mask adv, adv_rid adv)"
  by (simp add: new_adv_interface_def adv_interface_def pi_key_def)

lemma new_adv_key_masked: "masked adv \<Longrightarrow> pi_key (new_adv_interface adv) = adv_key adv"
  by (simp add: new_adv_key adv_key_def masked_def)

text \<open>What is added: entries for advertisements the list did not have.\<close>

lemma add_new_advs_append:
  "\<exists>news. add_new_advs advs is = is @ news
     \<and> (\<forall>pi\<in>set news. \<exists>adv\<in>set advs. pi = new_adv_interface adv \<and> adv_key adv \<notin> pi_key ` set is)
     \<and> (news = [] \<longrightarrow> adv_key ` set advs \<subseteq> pi_key ` set is)"
proof (induction advs arbitrary: "is")
  case (Cons adv advs)
  show ?case
  proof (cases "adv_key adv \<in> pi_key ` set is")
    case True
    then have "\<exists>pi\<in>set is. adv_matches adv pi" by (force simp: adv_matches_key)
    then have s: "add_new_advs (adv # advs) is = add_new_advs advs is" by simp
    have "(adv_key ` set (adv # advs) \<subseteq> pi_key ` set is) = (adv_key ` set advs \<subseteq> pi_key ` set is)"
      using True by simp
    with Cons.IH [of "is"] show ?thesis unfolding s by (metis list.set_intros(2))
  next
    case False
    then have n: "\<not> (\<exists>pi\<in>set is. adv_matches adv pi)" by (force simp: adv_matches_key)
    from Cons.IH [of "is @ [new_adv_interface adv]"] obtain news where
      news: "add_new_advs advs (is @ [new_adv_interface adv]) = (is @ [new_adv_interface adv]) @ news"
      "\<forall>pi\<in>set news. \<exists>a\<in>set advs. pi = new_adv_interface a \<and> adv_key a \<notin> pi_key ` set (is @ [new_adv_interface adv])"
      by blast
    have e: "add_new_advs (adv # advs) is = is @ (new_adv_interface adv # news)"
      using n news(1) by simp
    have "\<exists>a\<in>set (adv # advs). pi = new_adv_interface a \<and> adv_key a \<notin> pi_key ` set is"
      if "pi \<in> set (new_adv_interface adv # news)" for pi
    proof (cases "pi = new_adv_interface adv")
      case False
      with that have "pi \<in> set news" by simp
      with news(2) obtain a where "a \<in> set advs" "pi = new_adv_interface a"
        "adv_key a \<notin> pi_key ` set (is @ [new_adv_interface adv])" by blast
      then show ?thesis by (intro bexI [of _ a]) simp_all
    qed (use False in simp)
    then show ?thesis unfolding e by (intro exI [of _ "new_adv_interface adv # news"]) simp
  qed
qed simp

lemma add_new_advs_keys:
  assumes "\<forall>adv\<in>set advs. masked adv"
  shows "pi_key ` set (add_new_advs advs is) = pi_key ` set is \<union> adv_key ` set advs"
  using assms
proof (induction advs arbitrary: "is")
  case (Cons adv advs)
  have "(\<exists>pi\<in>set is. adv_matches adv pi) \<longleftrightarrow> adv_key adv \<in> pi_key ` set is"
    by (force simp: adv_matches_key)
  with Cons show ?case by (auto simp: new_adv_key_masked)
qed simp

lemma length_filter_less_iff: "length (filter P xs) < length xs \<longleftrightarrow> (\<exists>x\<in>set xs. \<not> P x)"
  by (metis filter_True length_filter_less order_less_irrefl)

lemma kept_keys: "(\<exists>adv\<in>set advs. adv_matches adv pi) \<longleftrightarrow> pi_key pi \<in> adv_key ` set advs"
  by (auto simp: adv_matches_key)

text \<open>C35: when the advertised networks have no host bits, merging a link state update brings the
  interface list of a router to exactly the advertised links; entries that stay keep their place
  and are not changed. For a list that was not empty the result says whether the set of links has
  changed.\<close>

theorem lsu_merge_correct:
  assumes "\<forall>adv\<in>set advs. masked adv"
  shows "pi_key ` set (fst (merge_advs advs is)) = adv_key ` set advs
    \<and> (\<exists>news. fst (merge_advs advs is) = filter (\<lambda>pi. pi_key pi \<in> adv_key ` set advs) is @ news
        \<and> pi_key ` set news \<inter> pi_key ` set is = {})
    \<and> (is \<noteq> [] \<longrightarrow> (snd (merge_advs advs is) \<longleftrightarrow> pi_key ` set is \<noteq> adv_key ` set advs))"
proof (cases "is = []")
  case True
  have "pi_key (adv_interface adv) = adv_key adv" for adv
    by (simp add: adv_interface_def pi_key_def adv_key_def)
  then show ?thesis using True by (simp add: merge_advs_def image_image)
next
  case False
  obtain news where n: "add_new_advs advs is = is @ news"
    "\<forall>pi\<in>set news. \<exists>adv\<in>set advs. pi = new_adv_interface adv \<and> adv_key adv \<notin> pi_key ` set is"
    "news = [] \<longrightarrow> adv_key ` set advs \<subseteq> pi_key ` set is"
    using add_new_advs_append by blast
  have new: "pi_key pi \<in> adv_key ` set advs \<and> pi_key pi \<notin> pi_key ` set is" if "pi \<in> set news" for pi
    using n(2) that assms new_adv_key_masked by fastforce
  let ?P = "\<lambda>pi. pi_key pi \<in> adv_key ` set advs"
  have k: "fst (merge_advs advs is) = filter ?P is @ news"
    using False new n(1) by (simp add: merge_advs_def kept_keys)
  have keys: "pi_key ` set (is @ news) = pi_key ` set is \<union> adv_key ` set advs"
    using add_new_advs_keys [OF assms, of "is"] n(1) by simp
  have "x \<in> pi_key ` set (filter ?P is @ news)" if x: "x \<in> adv_key ` set advs" for x
  proof -
    from x keys have "x \<in> pi_key ` set (is @ news)" by blast
    then obtain pi where "pi \<in> set (is @ news)" "x = pi_key pi" by blast
    with x show ?thesis by auto
  qed
  moreover have "x \<in> adv_key ` set advs" if "x \<in> pi_key ` set (filter ?P is @ news)" for x
    using that new by auto
  ultimately have set_eq: "pi_key ` set (filter ?P is @ news) = adv_key ` set advs" by blast
  have "snd (merge_advs advs is) \<longleftrightarrow> news \<noteq> [] \<or> length (filter ?P is) < length is"
    using False n(1) k by (simp add: merge_advs_def kept_keys)
  moreover have "length (filter ?P is) < length is \<longleftrightarrow> \<not> pi_key ` set is \<subseteq> adv_key ` set advs"
    unfolding length_filter_less_iff by (simp add: image_subset_iff)
  moreover have "news \<noteq> [] \<longleftrightarrow> \<not> adv_key ` set advs \<subseteq> pi_key ` set is"
    using n(3) new [of "hd news"] by (cases "news = []") (auto dest: hd_in_set)
  ultimately have changed: "snd (merge_advs advs is) \<longleftrightarrow> pi_key ` set is \<noteq> adv_key ` set advs" by blast
  have "pi_key ` set news \<inter> pi_key ` set is = {}"
  proof (rule equals0I)
    fix x assume "x \<in> pi_key ` set news \<inter> pi_key ` set is"
    then obtain pi where "pi \<in> set news" "pi_key pi \<in> pi_key ` set is" by blast
    with new [of pi] show False by blast
  qed
  with k set_eq changed show ?thesis by (intro conjI exI [of _ news]) simp_all
qed

theorem lsu_merge_correct_witness:
  "pi_key ` set (fst (merge_advs [\<lparr>adv_sub = 10, adv_mask = 0xFF, adv_rid = 2\<rparr>] [sample_link 20 3]))
     = {(10, 0xFF, 2)}"
proof -
  let ?advs = "[\<lparr>adv_sub = 10, adv_mask = 0xFF, adv_rid = 2\<rparr>]"
  have "\<forall>adv\<in>set ?advs. masked adv" by (simp add: masked_def)
  from lsu_merge_correct [OF this, of "[sample_link 20 3]"] show ?thesis by (simp add: adv_key_def)
qed

text \<open>An advertised network with host bits never settles. Its entry is stored under the address
  as advertised but looked up and kept under the masked one, so the entry is dropped again in the
  same update, the list does not get the link, and every update of that router counts as a change
  and floods again.\<close>

theorem unmasked_adv_never_settles:
  assumes "is \<noteq> []" "adv \<in> set advs" "\<not> masked adv" "adv_key adv \<notin> pi_key ` set is"
    "\<forall>a\<in>set advs. masked a \<longrightarrow> adv_key a \<noteq> adv_key adv"
  shows "snd (merge_advs advs is) \<and> adv_key adv \<notin> pi_key ` set (fst (merge_advs advs is))"
proof -
  obtain news where n: "add_new_advs advs is = is @ news"
    "\<forall>pi\<in>set news. \<exists>a\<in>set advs. pi = new_adv_interface a \<and> adv_key a \<notin> pi_key ` set is"
    "news = [] \<longrightarrow> adv_key ` set advs \<subseteq> pi_key ` set is"
    using add_new_advs_append by blast
  have "news \<noteq> []" using n(3) assms(2,4) by blast
  then have "snd (merge_advs advs is)" using assms(1) n(1) by (simp add: merge_advs_def)
  moreover have "pi_key pi \<noteq> adv_key adv" if "pi \<in> set (is @ news)" for pi
  proof
    assume k: "pi_key pi = adv_key adv"
    with assms(4) that have "pi \<in> set news" by force
    with n(2) obtain a where a: "a \<in> set advs" "pi = new_adv_interface a" by blast
    from k a(2) have "adv_sub a = adv_sub adv AND adv_mask adv" "adv_mask a = adv_mask adv" "adv_rid a = adv_rid adv"
      by (simp_all add: new_adv_key adv_key_def)
    then have "masked a" "adv_key a = adv_key adv" by (simp_all add: masked_def adv_key_def and.assoc)
    with assms(5) a(1) show False by blast
  qed
  then have "adv_key adv \<notin> pi_key ` set (fst (merge_advs advs is))"
    using assms(1) n(1) by (fastforce simp: merge_advs_def)
  ultimately show ?thesis by blast
qed

theorem unmasked_adv_never_settles_witness:
  "snd (merge_advs [\<lparr>adv_sub = 0x010A, adv_mask = 0xFF, adv_rid = 2\<rparr>] [sample_link 20 3])"
proof -
  let ?adv = "\<lparr>adv_sub = 0x010A, adv_mask = 0xFF, adv_rid = 2\<rparr>"
  have "[sample_link 20 3] \<noteq> []" "?adv \<in> set [?adv]" "\<not> masked ?adv"
    "adv_key ?adv \<notin> pi_key ` set [sample_link 20 3]"
    "\<forall>a\<in>set [?adv]. masked a \<longrightarrow> adv_key a \<noteq> adv_key ?adv"
    by (simp_all add: masked_def adv_key_def pi_key_def sample_link_def)
  from unmasked_adv_never_settles [OF this] show ?thesis by blast
qed

section \<open>Flooding\<close>

lemma lsu_queue_packet_parts:
  assumes "load 24 dec_pwospf_hdr 0 pw = Some hdr" "unat (ntohs (pwospf_len hdr)) \<le> length pw"
  shows "\<exists>s. lsu_queue_packet pw iface nbr = Some (enc_eth_hdr (icmp_eth_hdr iface)
      @ enc_ip_hdr ((populate_ip (ntohs (pwospf_len hdr)) IP_PROTO_PWOSPF (if_ip iface) (nbr_ip nbr))\<lparr>ip_sum := s\<rparr>)
      @ take (unat (ntohs (pwospf_len hdr))) pw)
    \<and> set_ip_checksum (replicate 14 0
        @ enc_ip_hdr (populate_ip (ntohs (pwospf_len hdr)) IP_PROTO_PWOSPF (if_ip iface) (nbr_ip nbr))
        @ take (unat (ntohs (pwospf_len hdr))) pw)
      = Some (replicate 14 0
        @ enc_ip_hdr ((populate_ip (ntohs (pwospf_len hdr)) IP_PROTO_PWOSPF (if_ip iface) (nbr_ip nbr))\<lparr>ip_sum := s\<rparr>)
        @ take (unat (ntohs (pwospf_len hdr))) pw)"
proof -
  let ?z = "replicate 14 (0 :: u8)" and ?z20 = "replicate 20 (0 :: u8)"
  let ?h = "populate_ip (ntohs (pwospf_len hdr)) IP_PROTO_PWOSPF (if_ip iface) (nbr_ip nbr)"
  let ?pw = "take (unat (ntohs (pwospf_len hdr))) pw"
  have z: "replicate (ETH_HDR_LEN + IP_HDR_LEN) 0 @ ?pw = ?z @ ?z20 @ ?pw"
    unfolding layout_defs replicate_add append_assoc ..
  have 1: "put_ip_hdr ?h (?z @ ?z20 @ ?pw) = Some (?z @ enc_ip_hdr ?h @ ?pw)"
    by (rule parts_access) simp_all
  have "ip_hl ?h = 5" by (simp add: populate_ip_def)
  then obtain s where s: "set_ip_checksum (?z @ enc_ip_hdr ?h @ ?pw) = Some (?z @ enc_ip_hdr (?h\<lparr>ip_sum := s\<rparr>) @ ?pw)"
    using set_ip_checksum_parts [of ?z] by (metis length_replicate)
  have 2: "get_eth_hdr (?z @ rest) = Some (dec_eth_hdr ?z)"
    "put_eth_hdr v (?z @ rest) = Some (enc_eth_hdr v @ rest)" for rest v
    using parts_access(1,2) [of ?z ?z20] by simp_all
  have e: "populate_eth_hdr (dec_eth_hdr ?z) None (if_addr iface) ETH_TYPE_IP = icmp_eth_hdr iface"
    by (simp add: populate_eth_hdr_def icmp_eth_hdr_def dec_eth_hdr_def le48_def)
  have n: "\<not> length pw < unat (ntohs (pwospf_len hdr))" using assms(2) by simp
  have "lsu_queue_packet pw iface nbr = Some (enc_eth_hdr (icmp_eth_hdr iface) @ enc_ip_hdr (?h\<lparr>ip_sum := s\<rparr>) @ ?pw)"
    unfolding lsu_queue_packet_def Let_def
    by (simp only: assms(1) Option.bind.simps n if_False z 1 s 2 e)
  with s show ?thesis by blast
qed

text \<open>What the queue entry for a neighbour is, and the neighbours a flood goes to.\<close>

definition flood_entry :: "u8 list \<Rightarrow> iface_entry \<times> nbr_router \<Rightarrow> pwospf_lsu_queue_entry \<Rightarrow> bool" where
  "flood_entry pw t e \<longleftrightarrow> lq_ip e = if_ip (fst t) \<and> lq_iface e = if_name (fst t)
     \<and> (\<exists>h. get_ip_hdr (lq_packet e) = Some h \<and> ip_src h = if_ip (fst t) \<and> ip_dst h = nbr_ip (snd t)
          \<and> ip_p h = IP_PROTO_PWOSPF \<and> ip_len h = htons (20 + of_nat (length pw)))
     \<and> verify_checksum (drop 14 (lq_packet e)) 20 = Some 0 \<and> drop 34 (lq_packet e) = pw"

definition flood_targets :: "u32 option \<Rightarrow> iface_entry list \<Rightarrow> (iface_entry \<times> nbr_router) list" where
  "flood_targets src_ip il = concat (map (\<lambda>i. map (Pair i) (filter (\<lambda>n. src_ip \<noteq> Some (nbr_ip n)) (if_nbr_routers i)))
     (filter if_is_active il))"

definition pwospf_sized :: "u8 list \<Rightarrow> bool" where
  "pwospf_sized pw \<longleftrightarrow> (\<exists>hdr. load 24 dec_pwospf_hdr 0 pw = Some hdr \<and> unat (ntohs (pwospf_len hdr)) = length pw)"

lemma lsu_queue_packet_entry:
  assumes "pwospf_sized pw"
  shows "\<exists>p. lsu_queue_packet pw iface nbr = Some p
    \<and> flood_entry pw (iface, nbr) \<lparr>lq_ip = if_ip iface, lq_iface = if_name iface, lq_packet = p\<rparr>"
proof -
  from assms obtain hdr where hdr: "load 24 dec_pwospf_hdr 0 pw = Some hdr" "unat (ntohs (pwospf_len hdr)) = length pw"
    by (auto simp: pwospf_sized_def)
  let ?h = "populate_ip (ntohs (pwospf_len hdr)) IP_PROTO_PWOSPF (if_ip iface) (nbr_ip nbr)"
  from lsu_queue_packet_parts [OF hdr(1), of iface nbr] hdr(2) obtain s where
    p: "lsu_queue_packet pw iface nbr = Some (enc_eth_hdr (icmp_eth_hdr iface) @ enc_ip_hdr (?h\<lparr>ip_sum := s\<rparr>) @ pw)"
    and c: "set_ip_checksum (replicate 14 0 @ enc_ip_hdr ?h @ pw) = Some (replicate 14 0 @ enc_ip_hdr (?h\<lparr>ip_sum := s\<rparr>) @ pw)"
    by auto
  let ?p = "enc_eth_hdr (icmp_eth_hdr iface) @ enc_ip_hdr (?h\<lparr>ip_sum := s\<rparr>) @ pw"
  have "get_ip_hdr (replicate 14 0 @ enc_ip_hdr ?h @ pw) = Some ?h" "ip_hl ?h = 5"
    using parts_access(3) [of "replicate 14 0" "enc_ip_hdr ?h"] by (simp_all add: ip_hdr.dec_enc populate_ip_def)
  from set_ip_checksum_verified [OF this c] have v: "verify_checksum (drop 14 ?p) 20 = Some 0" by simp
  have g: "get_ip_hdr ?p = Some (?h\<lparr>ip_sum := s\<rparr>)"
    using parts_access(3) [of "enc_eth_hdr (icmp_eth_hdr iface)" "enc_ip_hdr (?h\<lparr>ip_sum := s\<rparr>)"] by (simp add: ip_hdr.dec_enc)
  have l: "ntohs (pwospf_len hdr) = of_nat (length pw)" unfolding hdr(2) [symmetric] by simp
  show ?thesis
    by (rule exI [of _ ?p]) (use p v g in \<open>simp add: flood_entry_def populate_ip_def l\<close>)
qed

lemma lsu_queue_push_free:
  assumes "locks rs L_pwospf_lsu_queue = Free"
  shows "lsu_queue_push e rs = Some (rs\<lparr>pwospf_lsu_queue := pwospf_lsu_queue rs @ [e]\<rparr>)"
proof -
  have "rs\<lparr>pwospf_lsu_queue := q, locks := locks rs\<rparr> = rs\<lparr>pwospf_lsu_queue := q\<rparr>" for q by simp
  with assms show ?thesis
    by (simp add: lsu_queue_push_def lock_wrappers free_locks set_lock_def fun_upd_idem)
qed

text \<open>Appending to the queue, entry by entry, for the neighbours of one interface and then for all.\<close>

definition queued :: "u8 list \<Rightarrow> (iface_entry \<times> nbr_router) list \<Rightarrow> router_state \<Rightarrow> router_state option \<Rightarrow> bool" where
  "queued pw ts rs r \<longleftrightarrow> (\<exists>qs. r = Some (rs\<lparr>pwospf_lsu_queue := pwospf_lsu_queue rs @ qs\<rparr>)
     \<and> list_all2 (flood_entry pw) ts qs)"

lemma queued_Nil: "queued pw [] rs (Some rs)"
  by (simp add: queued_def)

lemma queued_bind:
  assumes "queued pw ts rs r" "\<And>rs'. r = Some rs' \<Longrightarrow> locks rs' = locks rs \<Longrightarrow> queued pw us rs' (f rs')"
  shows "queued pw (ts @ us) rs (Option.bind r f)"
proof -
  from assms(1) obtain qs where qs: "r = Some (rs\<lparr>pwospf_lsu_queue := pwospf_lsu_queue rs @ qs\<rparr>)"
    "list_all2 (flood_entry pw) ts qs" by (auto simp: queued_def)
  with assms(2) [OF qs(1)] show ?thesis by (auto simp: queued_def intro: list_all2_appendI)
qed

lemma broadcast_to_nbrs_queued:
  assumes "pwospf_sized pw" "locks rs L_pwospf_lsu_queue = Free"
  shows "queued pw (map (Pair i) (filter (\<lambda>n. src_ip \<noteq> Some (nbr_ip n)) ns)) rs (broadcast_to_nbrs pw src_ip i ns rs)"
  using assms(2)
proof (induction ns arbitrary: rs)
  case (Cons n ns)
  obtain p where p: "lsu_queue_packet pw i n = Some p"
    "flood_entry pw (i, n) \<lparr>lq_ip = if_ip i, lq_iface = if_name i, lq_packet = p\<rparr>"
    using lsu_queue_packet_entry [OF assms(1)] by blast
  let ?r = "lsu_queue_push \<lparr>lq_ip = if_ip i, lq_iface = if_name i, lq_packet = p\<rparr> rs"
  have "queued pw [(i, n)] rs ?r"
    unfolding queued_def lsu_queue_push_free [OF Cons.prems] using p(2) by - (intro exI conjI, rule refl, simp)
  from queued_bind [OF this, of _ "broadcast_to_nbrs pw src_ip i ns"] Cons p(1) show ?case
    by (cases "src_ip = Some (nbr_ip n)") simp_all
qed (simp add: queued_Nil)

lemma broadcast_to_ifaces_queued:
  assumes "pwospf_sized pw" "locks rs L_pwospf_lsu_queue = Free"
  shows "queued pw (flood_targets src_ip il) rs (broadcast_to_ifaces pw src_ip il rs)"
  using assms(2)
proof (induction il arbitrary: rs)
  case (Cons i il)
  let ?r = "if if_is_active i then broadcast_to_nbrs pw src_ip i (if_nbr_routers i) rs else Some rs"
  let ?ts = "if if_is_active i then map (Pair i) (filter (\<lambda>n. src_ip \<noteq> Some (nbr_ip n)) (if_nbr_routers i)) else []"
  have "queued pw ?ts rs ?r" using broadcast_to_nbrs_queued [OF assms(1) Cons.prems] by (simp add: queued_Nil)
  from queued_bind [OF this, of _ "broadcast_to_ifaces pw src_ip il"] Cons
  have "queued pw (?ts @ flood_targets src_ip il) rs (Option.bind ?r (broadcast_to_ifaces pw src_ip il))" by simp
  moreover have "?ts @ flood_targets src_ip il = flood_targets src_ip (i # il)" by (simp add: flood_targets_def)
  ultimately show ?case by simp
qed (simp add: queued_Nil flood_targets_def)

text \<open>C36: a flood puts exactly one packet into the queue for every neighbour on an active interface
  except the one the update came from, in the order of the lists; each is an IP packet from that
  interface to that neighbour with a valid header checksum that carries the PWOSPF packet. Nothing
  else of the router changes.\<close>

theorem flood_reaches_neighbors:
  assumes "pwospf_sized pw" "locks rs L_pwospf_lsu_queue = Free"
  shows "\<exists>qs. broadcast_pwospf_lsu_packet rs pw src_ip = Some (rs\<lparr>pwospf_lsu_queue := pwospf_lsu_queue rs @ qs\<rparr>)
    \<and> list_all2 (flood_entry pw) (flood_targets src_ip (if_list rs)) qs"
  using broadcast_to_ifaces_queued [OF assms] by (simp add: broadcast_pwospf_lsu_packet_def queued_def)

definition sample_neighbor :: "u32 \<Rightarrow> u32 \<Rightarrow> nbr_router" where
  "sample_neighbor rid ip = \<lparr>nbr_router_id = rid, nbr_ip = ip, nbr_last_rcvd_hello = 0\<rparr>"

definition sample_pw :: "u8 list" where
  "sample_pw = enc_pwospf_hdr (populate_pwospf PWOSPF_TYPE_HELLO 32 2 0)
     @ enc_pwospf_hello_hdr (populate_pwospf_hello 0xFF 5)"

theorem flood_reaches_neighbors_witness:
  "\<exists>q. broadcast_pwospf_lsu_packet (empty_router\<lparr>if_list :=
      [sample_iface\<lparr>if_nbr_routers := [sample_neighbor 2 20, sample_neighbor 3 30]\<rparr>]\<rparr>) sample_pw (Some 20)
    = Some (empty_router\<lparr>if_list := [sample_iface\<lparr>if_nbr_routers := [sample_neighbor 2 20, sample_neighbor 3 30]\<rparr>],
        pwospf_lsu_queue := [q]\<rparr>)"
proof -
  let ?i = "sample_iface\<lparr>if_nbr_routers := [sample_neighbor 2 20, sample_neighbor 3 30]\<rparr>"
  let ?rs = "empty_router\<lparr>if_list := [?i]\<rparr>"
  have "load 24 dec_pwospf_hdr 0 sample_pw = Some (populate_pwospf PWOSPF_TYPE_HELLO 32 2 0)"
    using load_mid [of "[]" 0 "enc_pwospf_hdr (populate_pwospf PWOSPF_TYPE_HELLO 32 2 0)" 24 dec_pwospf_hdr]
    by (simp add: sample_pw_def pwospf_hdr.length_enc pwospf_hdr.dec_enc)
  then have "pwospf_sized sample_pw"
    by (simp add: pwospf_sized_def populate_pwospf_def sample_pw_def pwospf_hdr.length_enc pwospf_hello_hdr.length_enc)
  moreover have "locks ?rs L_pwospf_lsu_queue = Free" by (simp add: empty_router_def)
  ultimately obtain qs where q: "broadcast_pwospf_lsu_packet ?rs sample_pw (Some 20)
      = Some (?rs\<lparr>pwospf_lsu_queue := pwospf_lsu_queue ?rs @ qs\<rparr>)"
    "list_all2 (flood_entry sample_pw) (flood_targets (Some 20) (if_list ?rs)) qs"
    using flood_reaches_neighbors by blast
  have "flood_targets (Some 20) (if_list ?rs) = [(?i, sample_neighbor 3 30)]"
    by (simp add: flood_targets_def sample_iface_def sample_neighbor_def)
  with q(2) obtain e where "qs = [e]" by (auto simp: list_all2_Cons1)
  with q(1) show ?thesis by (intro exI [of _ e]) (simp add: empty_router_def)
qed

section \<open>The routers in the list\<close>

text \<open>Which routers are in the list changes only when an update from a new router arrives and when
  a router times out. \<open>routers_of\<close> is what everything else leaves alone.\<close>

definition routers_of :: "router_state \<Rightarrow> u32 \<times> u32 list" where
  "routers_of rs = (router_id rs, map pr_router_id (pwospf_router_list rs))"

lemma routers_of_simps [simp]:
  "routers_of (rs\<lparr>locks := f\<rparr>) = routers_of rs" "routers_of (emit e rs) = routers_of rs"
  "routers_of (rs\<lparr>if_list := il\<rparr>) = routers_of rs" "routers_of (rs\<lparr>rtable := rt\<rparr>) = routers_of rs"
  "routers_of (rs\<lparr>netfpga := h\<rparr>) = routers_of rs" "routers_of (rs\<lparr>dijkstra_dirty := d\<rparr>) = routers_of rs"
  "routers_of (rs\<lparr>arp_queue := aq\<rparr>) = routers_of rs" "routers_of (rs\<lparr>clock := t\<rparr>) = routers_of rs"
  "routers_of (rs\<lparr>pwospf_lsu_queue := q\<rparr>) = routers_of rs"
  "routers_of (update_iface interface g rs) = routers_of rs" "routers_of (dijkstra_trigger rs) = routers_of rs"
  by (simp_all add: routers_of_def emit_def update_iface_def dijkstra_trigger_def)

lemma routers_of_update_list:
  "map pr_router_id rl = map pr_router_id (pwospf_router_list rs) \<Longrightarrow>
     routers_of (rs\<lparr>pwospf_router_list := rl\<rparr>) = routers_of rs"
  by (simp add: routers_of_def)

lemma routers_of_update_router [simp]:
  "(\<And>r. pr_router_id (f r) = pr_router_id r) \<Longrightarrow> routers_of (update_router rid f rs) = routers_of rs"
  by (simp add: update_router_def routers_of_update_list map_update_first)

named_theorems routers_frame \<open>operations that leave the routers of the list alone\<close>

lemma routers_lock_ops [routers_frame]:
  "pthread_mutex_lock l rs = Some rs' \<Longrightarrow> routers_of rs' = routers_of rs"
  "pthread_mutex_unlock l rs = Some rs' \<Longrightarrow> routers_of rs' = routers_of rs"
  "pthread_rwlock_rdlock l rs = Some rs' \<Longrightarrow> routers_of rs' = routers_of rs"
  "pthread_rwlock_wrlock l rs = Some rs' \<Longrightarrow> routers_of rs' = routers_of rs"
  "pthread_rwlock_unlock l rs = Some rs' \<Longrightarrow> routers_of rs' = routers_of rs"
  by (auto dest!: lock_ops_frame simp: same_but_locks_def)

lemma routers_send_packet [routers_frame]:
  "send_packet p i rs = Some (r, rs') \<Longrightarrow> routers_of rs' = routers_of rs"
  by (auto simp: send_packet_def netfpga_output_def bind_eq_Some_conv dest!: routers_frame split: if_splits)

lemma routers_send_ip [routers_frame]:
  "send_ip rs p hop i = Some (r, rs') \<Longrightarrow> routers_of rs' = routers_of rs"
  by (auto simp: send_ip_def arp_queue_add_def send_arp_request_def bind_eq_Some_conv Let_def
      dest!: routers_frame split: if_splits option.splits)

lemma routers_trigger_rtable_modified [routers_frame]:
  "trigger_rtable_modified rs = Some rs' \<Longrightarrow> routers_of rs' = routers_of rs"
  by (auto simp: trigger_rtable_modified_def write_rtable_to_hw_def bind_eq_Some_conv Let_def split: if_splits)

lemma routers_broadcast_nbrs:
  "broadcast_to_nbrs pw src_ip i ns rs = Some rs' \<Longrightarrow> routers_of rs' = routers_of rs"
proof -
  have push: "lsu_queue_push e rs = Some rs' \<Longrightarrow> routers_of rs' = routers_of rs" for e rs rs'
    by (auto simp: lsu_queue_push_def lock_wrappers bind_eq_Some_conv dest!: routers_frame)
  show "broadcast_to_nbrs pw src_ip i ns rs = Some rs' \<Longrightarrow> routers_of rs' = routers_of rs"
    by (induction pw src_ip i ns rs rule: broadcast_to_nbrs.induct)
      (auto simp: bind_eq_Some_conv dest: push split: if_splits)
qed

lemma routers_broadcast [routers_frame]:
  "broadcast_to_ifaces pw src_ip il rs = Some rs' \<Longrightarrow> routers_of rs' = routers_of rs"
  by (induction pw src_ip il rs rule: broadcast_to_ifaces.induct)
    (auto simp: bind_eq_Some_conv dest: routers_broadcast_nbrs split: if_splits)

lemma routers_start_flood [routers_frame]:
  "start_lsu_bcast_flood rs = Some rs' \<Longrightarrow> routers_of rs' = routers_of rs"
  by (auto simp: start_lsu_bcast_flood_def construct_pwospf_lsu_packet_def broadcast_pwospf_lsu_packet_def
      bind_eq_Some_conv Let_def dest!: routers_frame split: if_splits)

lemma ids_list_update: "pr_router_id y = pr_router_id (rl ! k) \<Longrightarrow> map pr_router_id (rl[k := y]) = map pr_router_id rl"
  by (cases "k < length rl") (simp_all add: map_list_update_same list_update_beyond)

lemma ids_set_pi_active [simp]: "map pr_router_id (set_pi_active j k b rl) = map pr_router_id rl"
  by (simp add: set_pi_active_def ids_list_update del: map_update)

lemma ids_fold: "(\<And>x rl. map pr_router_id (f x rl) = map pr_router_id rl) \<Longrightarrow>
    map pr_router_id (fold f xs rl) = map pr_router_id rl"
  by (induction xs arbitrary: rl) simp_all

lemma ids_determine_active [simp]:
  "map pr_router_id (determine_active_interface j k rl) = map pr_router_id rl"
  "map pr_router_id (determine_active_interfaces j rl) = map pr_router_id rl"
  by (simp_all add: determine_active_interfaces_def determine_active_interface_def Let_def ids_fold
      split: option.split)

lemma routers_propagate [routers_frame]:
  "propagate_pwospf_changes rs = Some rs' \<Longrightarrow> routers_of rs' = routers_of rs"
  by (auto simp: propagate_pwospf_changes_def Let_def routers_of_update_list ids_fold dest!: routers_frame)

lemma ids_compute_distances [simp]: "map pr_router_id (compute_distances s rl) = map pr_router_id rl"
proof -
  have relax: "map pr_router_id (relax_interfaces wid wd is rl) = map pr_router_id rl" for wid wd "is" rl
    by (induction wid wd "is" rl rule: relax_interfaces.induct) (auto simp: map_update_first split: option.splits)
  have "map pr_router_id (settle k rl) = map pr_router_id rl" for k rl
    by (simp add: settle_def update_neighbor_distance_def relax ids_list_update del: map_update)
  then have "map pr_router_id (shortest_path_loop k rl) = map pr_router_id rl" for k rl
    by (induction k rl rule: shortest_path_loop.induct) simp_all
  then show ?thesis by (simp add: compute_distances_def Let_def o_def)
qed

lemma routers_dijkstra_round [routers_frame]:
  "dijkstra_round timed_out rs = Some rs' \<Longrightarrow> routers_of rs' = routers_of rs"
  by (auto simp: dijkstra_round_def compute_rtable_def lock_wrappers bind_eq_Some_conv Let_def
      routers_of_update_list dest!: routers_frame split: if_splits)

lemma routers_keeps_unlock: "routers_of rs = v \<Longrightarrow> keeps routers_of v (pthread_mutex_unlock l rs)"
  by (auto intro: keepsI dest: routers_frame)

text \<open>The invariant, for a router with the id \<open>i\<close>.\<close>

definition routers_inv :: "u32 \<Rightarrow> u32 \<times> u32 list \<Rightarrow> bool" where
  "routers_inv i x \<longleftrightarrow> distinct (snd x) \<and> i \<in> set (snd x) \<and> fst x = i"

abbreviation routers_ok :: "u32 \<Rightarrow> router_state \<Rightarrow> bool" where
  "routers_ok i rs \<equiv> routers_inv i (routers_of rs)"

lemma routers_hello [routers_frame]:
  "process_pwospf_hello_packet rs p interface = Some rs' \<Longrightarrow> routers_of rs' = routers_of rs"
  by (erule keepsD) (auto simp: process_pwospf_hello_packet_def lock_wrappers Let_def
      intro!: keeps_intros routers_keeps_unlock intro: keepsI dest!: routers_frame)

lemma routers_rebroadcast [routers_frame]:
  "rebroadcast_lsu_packet rs p ttl = Some rs' \<Longrightarrow> routers_of rs' = routers_of rs"
  by (erule keepsD) (auto simp: rebroadcast_lsu_packet_def broadcast_pwospf_lsu_packet_def Let_def
      intro!: keeps_intros intro: keepsI dest!: routers_frame)

text \<open>An update only adds a router whose id is not yet in the list.\<close>

lemma routers_update_router_list:
  assumes "update_router_list rs p = Some (rs', b, c)"
  shows "routers_of rs' = routers_of rs
    \<or> (\<exists>rid. rid \<notin> set (snd (routers_of rs)) \<and> routers_of rs' = (router_id rs, snd (routers_of rs) @ [rid]))"
proof -
  from assms obtain pwospf lsu where h: "get_pwospf_hdr p = Some pwospf" "get_pwospf_lsu_hdr p = Some lsu"
    by (auto simp: update_router_list_def bind_eq_Some_conv)
  show ?thesis
  proof (cases "get_router_by_rid (pwospf_rid pwospf) (pwospf_router_list rs)")
    case None
    then have "pwospf_rid pwospf \<notin> set (snd (routers_of rs))"
      by (auto simp: get_router_by_rid_def find_None_iff routers_of_def)
    with assms h None show ?thesis
      by (auto simp: update_router_list_def add_new_router_neighbor_def bind_eq_Some_conv routers_of_def)
  next
    case (Some r)
    with assms h show ?thesis
      by (auto simp: update_router_list_def bind_eq_Some_conv split: if_splits)
  qed
qed

lemma routers_ok_update_router_list:
  assumes "update_router_list rs p = Some (rs', b, c)"
  shows "routers_ok i rs \<longrightarrow> routers_ok i rs'"
  using routers_update_router_list [OF assms] by (auto simp: routers_inv_def) (auto simp: routers_of_def)

lemma routers_ok_lsu:
  assumes "routers_ok i rs"
  shows "keeps (routers_ok i) True (process_pwospf_lsu_packet rs p interface)"
  unfolding process_pwospf_lsu_packet_def lock_wrappers Let_def using assms
  by (auto intro!: keeps_intros dest!: routers_frame routers_ok_update_router_list split: if_splits) simp_all

lemma routers_ok_packet:
  assumes "process_pwospf_packet rs p interface = Some rs'" "routers_ok i rs"
  shows "routers_ok i rs'"
proof (rule keepsD [OF assms(1), of "routers_ok i" True, simplified])
  have hello: "keeps (routers_ok i) True (process_pwospf_hello_packet rs q interface)" for q
    by (auto intro!: keepsI dest!: routers_hello simp: assms(2))
  show "keeps (routers_ok i) True (process_pwospf_packet rs p interface)"
    unfolding process_pwospf_packet_def
    by (auto intro!: keeps_intros routers_ok_lsu hello simp: assms(2))
qed

lemma routers_timeout_walk:
  "timeout_walk i ns rs = Some (t, ns', rs') \<Longrightarrow> routers_of rs' = routers_of rs"
  by (induction i ns rs arbitrary: t ns' rs' rule: timeout_walk.induct)
    (fastforce simp: bind_eq_Some_conv split: if_splits)+

lemma routers_hello_walk [routers_frame]:
  "hello_walk ks rs = Some (t, rs') \<Longrightarrow> routers_of rs' = routers_of rs"
proof (induction ks rs arbitrary: t rs' rule: hello_walk.induct)
  case (2 k ks rs)
  have "hello_on_interface k rs = Some (u, rs1) \<Longrightarrow> routers_of rs1 = routers_of rs" for u rs1
    by (erule keepsD_pair) (auto simp: hello_on_interface_def determine_timedout_interface_def lock_wrappers Let_def
        intro!: keeps_intros intro: keepsI dest!: routers_frame routers_timeout_walk)
  with 2 show ?case by (fastforce simp: bind_eq_Some_conv split: if_splits)
qed simp

lemma routers_broadcast_hello [routers_frame]:
  "broadcast_pwospf_hello_packet rs = Some rs' \<Longrightarrow> routers_of rs' = routers_of rs"
  by (erule keepsD) (auto simp: broadcast_pwospf_hello_packet_def lock_wrappers
      intro!: keeps_intros intro: keepsI dest!: routers_frame)

lemma routers_hello_round:
  "pwospf_hello_round rs = Some rs' \<Longrightarrow> routers_of rs' = routers_of rs"
  by (erule keepsD) (auto simp: pwospf_hello_round_def lock_wrappers
      intro!: keeps_intros intro: keepsI dest!: routers_frame)

lemma routers_lsu_round:
  "pwospf_lsu_round rs = Some rs' \<Longrightarrow> routers_of rs' = routers_of rs"
  by (erule keepsD) (auto simp: pwospf_lsu_round_def lock_wrappers Let_def
      intro!: keeps_intros intro: keepsI dest!: routers_frame split: option.split)

lemma routers_bcast_round:
  "pwospf_lsu_bcast_round rs = Some rs' \<Longrightarrow> routers_of rs' = routers_of rs"
proof -
  have send: "send_lsu_queue q rs = Some rs' \<Longrightarrow> routers_of rs' = routers_of rs" for q rs rs'
  proof (induction q arbitrary: rs rs')
    case (Cons lqe cur)
    from Cons.prems show ?case
      by (rule keepsD)
        (auto intro!: keeps_intros dest!: routers_frame split: option.splits, auto intro!: keepsI dest!: Cons.IH)
  qed simp
  show "pwospf_lsu_bcast_round rs = Some rs' \<Longrightarrow> routers_of rs' = routers_of rs"
    by (erule keepsD) (auto simp: pwospf_lsu_bcast_round_def lock_wrappers Let_def
      intro!: keeps_intros intro: keepsI dest!: routers_frame send)
qed

lemma routers_ok_timeout:
  assumes "pwospf_lsu_timeout_round rs = Some rs'" "routers_ok i rs"
  shows "routers_ok i rs'"
proof (rule keepsD [OF assms(1), of "routers_ok i" True, simplified])
  have keep: "routers_ok i (rs1\<lparr>pwospf_router_list := filter (\<lambda>r. \<not> lsu_timed_out rs1 r) (pwospf_router_list rs1)\<rparr>)"
    if "routers_ok i rs1" for rs1
    using that by (auto simp: routers_inv_def routers_of_def lsu_timed_out_def distinct_map_filter)
  show "keeps (routers_ok i) True (pwospf_lsu_timeout_round rs)"
    unfolding pwospf_lsu_timeout_round_def lock_wrappers Let_def
    by (auto intro!: keeps_intros dest!: routers_frame split: if_splits simp: keep assms(2))
qed

text \<open>Everything that touches the router list: a packet that arrives, a round of one of the threads,
  and the passing of time.\<close>

inductive pwospf_step :: "router_state \<Rightarrow> router_state \<Rightarrow> bool" where
  packet: "process_pwospf_packet rs p interface = Some rs' \<Longrightarrow> pwospf_step rs rs'"
| hello: "pwospf_hello_round rs = Some rs' \<Longrightarrow> pwospf_step rs rs'"
| lsu: "pwospf_lsu_round rs = Some rs' \<Longrightarrow> pwospf_step rs rs'"
| timeout: "pwospf_lsu_timeout_round rs = Some rs' \<Longrightarrow> pwospf_step rs rs'"
| bcast: "pwospf_lsu_bcast_round rs = Some rs' \<Longrightarrow> pwospf_step rs rs'"
| dijkstra: "dijkstra_round timed_out rs = Some rs' \<Longrightarrow> pwospf_step rs rs'"
| tick: "pwospf_step rs (rs\<lparr>clock := t\<rparr>)"

text \<open>C37: in every state that PWOSPF reaches, the ids of the routers in the list are distinct and this
  router is one of them, so the lookups by id that the code asserts to succeed do, and the first
  two conditions of the shortest path theorem hold.\<close>

theorem router_list_invariant:
  assumes "pwospf_step\<^sup>*\<^sup>* rs rs'" "routers_ok i rs"
  shows "distinct (map pr_router_id (pwospf_router_list rs')) \<and> router_id rs' = i
    \<and> get_router_by_rid (router_id rs') (pwospf_router_list rs') \<noteq> None"
proof -
  from assms have "routers_ok i rs'"
  proof (induction rule: rtranclp_induct)
    case (step rs1 rs2)
    note ih = step.IH [OF step.prems]
    from step.hyps(2) show ?case
      by cases (use ih routers_ok_packet routers_ok_timeout routers_hello_round routers_lsu_round
          routers_bcast_round routers_dijkstra_round routers_of_simps(8) in metis)+
  qed
  then show ?thesis
    by (auto simp: routers_inv_def routers_of_def get_router_by_rid_def find_None_iff)
qed

section \<open>A router that times out\<close>

text \<open>Router 1 of three in a row, with a last update of router 3 that is newer than that of router 2.
  The card and the flooding are switched off.\<close>

definition row_net :: "pwospf_router list" where
  "row_net = [sample_ospf 1 [sample_link 10 2], sample_ospf 2 [sample_link 10 1, sample_link 20 3],
     (sample_ospf 3 [sample_link 20 2])\<lparr>pr_last_update := 100\<rparr>]"

definition settled_net :: "pwospf_router list" where
  "settled_net = [(sample_ospf 1 [sample_link 10 2])\<lparr>pr_shortest_path_found := True\<rparr>,
     (sample_ospf 2 [sample_link 10 1, sample_link 20 3])\<lparr>pr_shortest_path_found := True, pr_distance := 1,
        pr_prev_router := Some 1\<rparr>,
     (sample_ospf 3 [sample_link 20 2])\<lparr>pr_last_update := 100, pr_shortest_path_found := True, pr_distance := 2,
        pr_prev_router := Some 2\<rparr>]"

definition orphaned_net :: "pwospf_router list" where
  "orphaned_net = [(sample_ospf 1 [(sample_link 10 2)\<lparr>pi_is_active := False\<rparr>])\<lparr>pr_shortest_path_found := True\<rparr>,
     (sample_ospf 3 [(sample_link 20 2)\<lparr>pi_is_active := False\<rparr>])\<lparr>pr_last_update := 100,
        pr_shortest_path_found := True, pr_distance := 2, pr_prev_router := Some 2\<rparr>]"

lemmas sample_net_defs = row_net_def settled_net_def orphaned_net_def sample_ospf_def sample_link_def

definition sample_ospf_router :: "pwospf_router list \<Rightarrow> router_state" where
  "sample_ospf_router rl = empty_router\<lparr>router_id := 1, pwospf_lsu_broadcast := 0, is_netfpga := False,
     pwospf_router_list := rl\<rparr>"

lemma sample_ospf_router_fields [simp]:
  "router_id (sample_ospf_router rl) = 1" "pwospf_router_list (sample_ospf_router rl) = rl"
  "if_list (sample_ospf_router rl) = []" "locks (sample_ospf_router rl) l = Free" "rtable (sample_ospf_router rl) = []"
  "is_netfpga (sample_ospf_router rl) = False" "pwospf_lsu_broadcast (sample_ospf_router rl) = 0"
  "pwospf_lsu_interval (sample_ospf_router rl) = 30"
  "(sample_ospf_router rl)\<lparr>pwospf_router_list := rl'\<rparr> = sample_ospf_router rl'"
  "(sample_ospf_router rl)\<lparr>dijkstra_dirty := 0\<rparr> = sample_ospf_router rl"
  "(sample_ospf_router rl)\<lparr>rtable := []\<rparr> = sample_ospf_router rl"
  by (simp_all add: sample_ospf_router_def empty_router_def)

lemma settled_net_distances: "compute_distances 1 row_net = settled_net"
  by (simp add: compute_distances_def sample_net_defs init_distance_def get_shortest_def settle_def
      update_neighbor_distance_def INFINITE_DISTANCE_def get_router_by_rid_def)

lemma sample_dijkstra:
  "dijkstra_round False (sample_ospf_router row_net) = Some (sample_ospf_router settled_net)"
proof -
  obtain ws where w: "build_route_wrapper_list 1 settled_net = Some ws"
    by (simp add: build_route_wrapper_list_def sample_net_defs get_route_wrapper_def
      same_subnet_def next_rid_of_def first_router.simps get_router_by_rid_def)
  have r: "routes_of_wrappers [] ws = Some []"
    by (induction ws) (simp_all add: route_of_wrapper_def get_iface_by_rid_def get_iface_by_subnet_mask_def)
  have "compute_rtable 1 row_net [] = Some ([], settled_net)"
    by (simp add: compute_rtable_def settled_net_distances w r)
  then show ?thesis
    by (simp add: dijkstra_round_def lock_wrappers free_locks frame_simps trigger_rtable_modified_def
       bubble_sort.simps Let_def) (simp add: set_lock_def sample_ospf_router_def empty_router_def fun_eq_iff)
qed

lemma sample_timeout:
  "pwospf_lsu_timeout_round ((sample_ospf_router settled_net)\<lparr>clock := 150\<rparr>)
     = Some ((sample_ospf_router orphaned_net)\<lparr>clock := 150, dijkstra_dirty := 1,
         events := [Signal C_dijkstra, Signal C_lsu_bcast]\<rparr>)"
proof -
  have "filter (\<lambda>r. \<not> lsu_timed_out (set_lock l s ((sample_ospf_router settled_net)\<lparr>clock := 150\<rparr>)) r) settled_net
      = [settled_net ! 0, settled_net ! 2]" 
    "\<exists>r\<in>set settled_net. lsu_timed_out (set_lock l s ((sample_ospf_router settled_net)\<lparr>clock := 150\<rparr>)) r" for l s
    by (simp_all add: lsu_timed_out_def sample_net_defs frame_simps) (simp_all add: set_lock_def)
  moreover have "fold determine_active_interfaces [0..<length [settled_net ! 0, settled_net ! 2]] [settled_net ! 0, settled_net ! 2] = orphaned_net"
    by (simp add: sample_net_defs determine_active_interfaces_def determine_active_interface_def set_pi_active_def upt_rec)
  ultimately show ?thesis
    by (simp add: pwospf_lsu_timeout_round_def lock_wrappers free_locks frame_simps propagate_pwospf_changes_def start_lsu_bcast_flood_def
        dijkstra_trigger_def emit_def Let_def) (simp add: set_lock_def sample_ospf_router_def empty_router_def fun_eq_iff)
qed

text \<open>A router that times out while another one was reached through it leaves that one with a
  predecessor that has been freed: the next computation of the routes follows the pointer. Here
  router 3 is reached through router 2, router 2 times out, and the following round of
  \<open>dijkstra_thread\<close> faults.\<close>

theorem timed_out_predecessor_faults:
  "\<exists>rs1 rs2. dijkstra_round False (sample_ospf_router row_net) = Some rs1
     \<and> pwospf_lsu_timeout_round (rs1\<lparr>clock := 150\<rparr>) = Some rs2
     \<and> dijkstra_round False rs2 = None"
proof -
  let ?rl = "[orphaned_net ! 0, (orphaned_net ! 1)\<lparr>pr_distance := INFINITE_DISTANCE, pr_shortest_path_found := False\<rparr>]"
  have d: "compute_distances 1 orphaned_net = ?rl"
    by (simp add: compute_distances_def sample_net_defs init_distance_def get_shortest_def settle_def
      update_neighbor_distance_def INFINITE_DISTANCE_def get_router_by_rid_def)
  have "build_route_wrapper_list 1 ?rl = None"
    by (simp add: build_route_wrapper_list_def sample_net_defs get_route_wrapper_def
      same_subnet_def next_rid_of_def first_router.simps get_router_by_rid_def)
  then have "compute_rtable 1 orphaned_net ifs = None" for ifs
    by (simp only: compute_rtable_def d Let_def Option.bind.simps)
  then have "dijkstra_round False ((sample_ospf_router orphaned_net)\<lparr>clock := 150, dijkstra_dirty := 1,
         events := [Signal C_dijkstra, Signal C_lsu_bcast]\<rparr>) = None"
    by (simp add: dijkstra_round_def lock_wrappers free_locks frame_simps Let_def)
  with sample_dijkstra sample_timeout show ?thesis by blast
qed

theorem router_list_invariant_witness:
  "distinct (map pr_router_id (pwospf_router_list ((sample_ospf_router orphaned_net)\<lparr>clock := 150, dijkstra_dirty := 1,
     events := [Signal C_dijkstra, Signal C_lsu_bcast]\<rparr>)))"
proof -
  have "pwospf_step (sample_ospf_router row_net) (sample_ospf_router settled_net)"
    by (rule pwospf_step.dijkstra) (rule sample_dijkstra)
  moreover have "pwospf_step (sample_ospf_router settled_net) ((sample_ospf_router settled_net)\<lparr>clock := 150\<rparr>)"
    by (rule pwospf_step.tick)
  moreover have "pwospf_step ((sample_ospf_router settled_net)\<lparr>clock := 150\<rparr>)
      ((sample_ospf_router orphaned_net)\<lparr>clock := 150, dijkstra_dirty := 1, events := [Signal C_dijkstra, Signal C_lsu_bcast]\<rparr>)"
    by (rule pwospf_step.timeout) (rule sample_timeout)
  ultimately have run: "pwospf_step\<^sup>*\<^sup>* (sample_ospf_router row_net)
      ((sample_ospf_router orphaned_net)\<lparr>clock := 150, dijkstra_dirty := 1, events := [Signal C_dijkstra, Signal C_lsu_bcast]\<rparr>)"
    by (meson converse_rtranclp_into_rtranclp rtranclp.rtrancl_refl)
  have "routers_ok 1 (sample_ospf_router row_net)"
    by (simp add: routers_inv_def routers_of_def sample_net_defs)
  from router_list_invariant [OF run this] show ?thesis by blast
qed

text \<open>A link state update with router id 0 is accepted. The router it adds keeps the distance 0 it was
  created with, because the initialisation skips the id 0, and its links are taken for own links:
  here router 5 gets the distance 1 although no path from router 1 leads to it.\<close>

lemma router_zero_is_a_source:
  "map (\<lambda>r. (pr_router_id r, pr_distance r)) (compute_distances 1
     [sample_ospf 1 [sample_link 10 2], sample_ospf 0 [sample_link 30 5], sample_ospf 5 []])
   = [(1, 0), (0, 0), (5, 1)]"
  by (simp add: compute_distances_def sample_net_defs init_distance_def get_shortest_def settle_def
      update_neighbor_distance_def INFINITE_DISTANCE_def get_router_by_rid_def)

section \<open>A hello packet with another mask\<close>



end
