(* ===== verification/Arp_Queue.thy ===== *)
theory Arp_Queue
  imports Icmp
begin

text \<open>
  The ARP thread (\<open>arp_thread\<close>, \<open>process_arp_queue\<close> of or_arp.c): requests that were not answered
  are sent again, and after five of them the waiting packets are returned to their senders.
\<close>

section \<open>The code\<close>

text \<open>Whether the sender of a packet is told that it could not be delivered.\<close>

definition icmp_error_due :: "router_state \<Rightarrow> packet \<Rightarrow> bool option" where
  "icmp_error_due rs p = do {
     ip \<leftarrow> get_ip_hdr p;
     answerable \<leftarrow> (if ip_p ip \<noteq> IP_PROTO_ICMP then Some True
       else do {
         icmp \<leftarrow> get_icmp_hdr p;
         Some (icmp_type icmp = ICMP_TYPE_ECHO_REPLY \<or> icmp_type icmp = ICMP_TYPE_ECHO_REQUEST)
       });
     Some (answerable \<and> \<not> iface_match_ip rs (ip_src ip))
   }"

text \<open>The TTL was decremented before the packet was queued.\<close>

definition restore_ttl :: "packet \<Rightarrow> packet option" where
  "restore_ttl p = do {
     ip \<leftarrow> get_ip_hdr p;
     if ip_ttl ip < 255 then do {
       p \<leftarrow> put_ip_hdr (ip\<lparr>ip_ttl := ip_ttl ip + 1\<rparr>) p;
       set_ip_checksum p
     }
     else Some p
   }"

text \<open>The packets of entry \<open>k\<close>; \<open>send_icmp_packet\<close> may itself add packets to the queue, also to this
  entry, and those are handled before the entry is removed.\<close>

partial_function (option) return_packets :: "nat \<Rightarrow> router_state \<Rightarrow> router_state option" where
  "return_packets k rs = (case aq_head (arp_queue rs ! k) of
      [] \<Rightarrow> Some rs
    | p # next_packet_node \<Rightarrow> do {
        due \<leftarrow> icmp_error_due rs p;
        rs \<leftarrow> (if due then do {
            q \<leftarrow> restore_ttl p;
            (r, rs) \<leftarrow> send_icmp_packet rs q ICMP_TYPE_DESTINATION_UNREACHABLE ICMP_CODE_HOST_UNREACHABLE;
            Some rs
          } else Some rs);
        return_packets k (drop_packet k rs)
      })"

definition request_again :: "nat \<Rightarrow> router_state \<Rightarrow> router_state option" where
  "request_again k rs = do {
     let aqe = (arp_queue rs ! k)\<lparr>aq_last_req_time := clock rs, aq_requests := aq_requests (arp_queue rs ! k) + 1\<rparr>;
     send_arp_request (rs\<lparr>arp_queue := (arp_queue rs)[k := aqe]\<rparr>) (aq_next_hop aqe) (aq_out_iface_name aqe)
   }"

text \<open>The walk over the queue. The successor of an entry is read before the entry is handled, so
  entries that are added behind the last one meanwhile wait for the next round.\<close>

partial_function (option) process_entries_from :: "nat \<Rightarrow> router_state \<Rightarrow> router_state option" where
  "process_entries_from k rs =
     (if k < length (arp_queue rs) then do {
        let last = (Suc k = length (arp_queue rs));
        if clock rs - aq_last_req_time (arp_queue rs ! k) > 1 then
          if aq_requests (arp_queue rs ! k) < 5 then do {
            rs \<leftarrow> request_again k rs;
            if last then Some rs else process_entries_from (Suc k) rs
          }
          else do {
            rs \<leftarrow> return_packets k rs;
            let rs = drop_entry k rs;
            if last then Some rs else process_entries_from k rs
          }
        else if last then Some rs else process_entries_from (Suc k) rs
      } else Some rs)"

definition process_arp_queue :: "router_state \<Rightarrow> router_state option" where
  "process_arp_queue rs = process_entries_from 0 rs"

definition arp_thread_round :: "router_state \<Rightarrow> router_state option" where
  "arp_thread_round rs = do {
     rs \<leftarrow> lock_arp_cache_wr rs;
     rs \<leftarrow> unlock_arp_cache (expire_arp_cache rs);
     rs \<leftarrow> lock_arp_cache_rd rs;
     rs \<leftarrow> lock_arp_queue_wr rs;
     rs \<leftarrow> lock_if_list_rd rs;
     rs \<leftarrow> lock_rtable_rd rs;
     rs \<leftarrow> process_arp_queue rs;
     rs \<leftarrow> unlock_rtable rs;
     rs \<leftarrow> unlock_if_list rs;
     rs \<leftarrow> unlock_arp_queue rs;
     unlock_arp_cache rs
   }"

section \<open>What becomes of an entry\<close>

text \<open>A packet for whose sender the next hop is resolved is answered by one frame at once, or not at
  all when no error is due.\<close>

definition direct_answer :: "router_state \<Rightarrow> packet \<Rightarrow> event list \<Rightarrow> bool" where
  "direct_answer rs p ev \<longleftrightarrow> icmp_error_due rs p = Some False \<and> ev = []
     \<or> icmp_error_due rs p = Some True \<and> (\<exists>q ip hop iface ie ace f. restore_ttl p = Some q
         \<and> get_ip_hdr q = Some ip \<and> get_next_hop rs 32 (ip_src ip) = Some (hop, iface)
         \<and> get_iface rs iface = Some ie \<and> if_name ie \<in> eth_ports \<and> get_from_arp_cache rs hop = Some ace
         \<and> 42 \<le> length q
         \<and> fill_icmp_packet ie ICMP_TYPE_DESTINATION_UNREACHABLE ICMP_CODE_HOST_UNREACHABLE
             (replicate 4 0 @ take 28 (drop 14 q)) (if_ip ie) (ip_src ip) (replicate 70 0) = Some f
         \<and> ev = [Tx (pad_frame (frame_to (ac_arp_ha ace) f)) (if_name ie)])"

text \<open>What is left of an entry after a round, and what is sent for it; \<open>ans\<close> are the answers.\<close>

definition entry_left :: "router_state \<Rightarrow> arp_queue_entry \<Rightarrow> arp_queue_entry list" where
  "entry_left rs e = (if clock rs - aq_last_req_time e > 1
     then if aq_requests e < 5 then [e\<lparr>aq_last_req_time := clock rs, aq_requests := aq_requests e + 1\<rparr>] else []
     else [e])"

definition entry_sent :: "router_state \<Rightarrow> (packet \<Rightarrow> event list) \<Rightarrow> arp_queue_entry \<Rightarrow> event list" where
  "entry_sent rs ans e = (if clock rs - aq_last_req_time e > 1
     then if aq_requests e < 5
       then [Tx (pad_frame (arp_request_frame (the (get_interface rs (aq_out_iface_name e))) (aq_next_hop e)))
               (aq_out_iface_name e)]
       else concat (map ans (aq_head e))
     else [])"

definition entry_handled :: "router_state \<Rightarrow> (packet \<Rightarrow> event list) \<Rightarrow> arp_queue_entry \<Rightarrow> bool" where
  "entry_handled rs ans e \<longleftrightarrow> aq_out_iface_name e \<in> eth_ports \<and> get_interface rs (aq_out_iface_name e) \<noteq> None
     \<and> (\<forall>p\<in>set (aq_head e). direct_answer rs p (ans p))"

text \<open>The state during a round: only the queue and the log have changed.\<close>

abbreviation in_round :: "router_state \<Rightarrow> arp_queue_entry list \<Rightarrow> event list \<Rightarrow> router_state" where
  "in_round rs aq es \<equiv> rs\<lparr>arp_queue := aq, events := es\<rparr>"

lemma in_round_frame:
  "icmp_error_due (in_round rs aq es) = icmp_error_due rs" "get_next_hop (in_round rs aq es) = get_next_hop rs"
  "get_iface (in_round rs aq es) = get_iface rs" "get_interface (in_round rs aq es) = get_interface rs"
  "get_from_arp_cache (in_round rs aq es) = get_from_arp_cache rs"
  by (intro ext, simp add: icmp_error_due_def iface_match_ip_def get_next_hop_def get_iface_def
      get_interface_def get_from_arp_cache_def in_arp_cache_def)+

lemma fill_icmp_packet_length: "fill_icmp_packet ie ty code payload src dst p = Some f \<Longrightarrow> 14 \<le> length f"
proof -
  assume "fill_icmp_packet ie ty code payload src dst p = Some f"
  then obtain h q where "put_eth_hdr h q = Some f" by (auto simp: fill_icmp_packet_def bind_eq_Some_conv)
  then show ?thesis by (auto simp: put_eth_hdr_def store_def eth_hdr.length_enc split: if_splits)
qed

lemma direct_answer_sent:
  assumes "direct_answer rs p ev" "locks rs L_write = Free" "locks rs L_log_dumper = Free"
  shows "icmp_error_due rs p = Some False \<and> ev = [] \<or> icmp_error_due rs p = Some True
    \<and> (\<exists>q r. restore_ttl p = Some q
       \<and> send_icmp_packet (in_round rs aq es) q ICMP_TYPE_DESTINATION_UNREACHABLE ICMP_CODE_HOST_UNREACHABLE
          = Some (r, in_round rs aq (es @ ev)))"
proof (cases "icmp_error_due rs p = Some False \<and> ev = []")
  case False
  with assms(1) obtain q ip hop iface ie ace f where a: "icmp_error_due rs p = Some True" "restore_ttl p = Some q"
    "get_ip_hdr q = Some ip" "get_next_hop rs 32 (ip_src ip) = Some (hop, iface)" "get_iface rs iface = Some ie"
    "if_name ie \<in> eth_ports" "get_from_arp_cache rs hop = Some ace" "42 \<le> length q"
    "fill_icmp_packet ie ICMP_TYPE_DESTINATION_UNREACHABLE ICMP_CODE_HOST_UNREACHABLE
             (replicate 4 0 @ take 28 (drop 14 q)) (if_ip ie) (ip_src ip) (replicate 70 0) = Some f"
    "ev = [Tx (pad_frame (frame_to (ac_arp_ha ace) f)) (if_name ie)]"
    by (auto simp: direct_answer_def)
  have pay: "icmp_payload q ICMP_TYPE_DESTINATION_UNREACHABLE = Some (replicate 4 0 @ take 28 (drop 14 q))"
    using a(8) by (simp add: icmp_payload_def icmp_consts)
  have len: "38 + length (replicate 4 (0 :: u8) @ take 28 (drop 14 q)) = 70" using a(8) by simp
  have "send_ip (in_round rs aq es) f hop (if_name ie)
      = Some (0, emit (Tx (pad_frame (frame_to (ac_arp_ha ace) f)) (if_name ie)) (in_round rs aq es))"
    using a(6,7) assms(2,3) fill_icmp_packet_length [OF a(9)] by (intro send_ip_cached) (simp_all add: in_round_frame)
  then have "send_icmp_packet (in_round rs aq es) q ICMP_TYPE_DESTINATION_UNREACHABLE ICMP_CODE_HOST_UNREACHABLE
      = Some (0, in_round rs aq (es @ ev))"
    unfolding send_icmp_packet_def Let_def in_round_frame a(3,4,5) Option.bind.simps option.case prod.case pay len
    by (simp add: a(9) [unfolded icmp_consts] a(10) icmp_consts emit_def)
  with a(1,2) show ?thesis by blast
qed simp

lemma return_packets_answers:
  assumes "locks rs L_write = Free" "locks rs L_log_dumper = Free" "\<forall>p\<in>set (aq_head e). direct_answer rs p (ans p)"
  shows "return_packets (length done) (in_round rs (done @ e # rest) es)
    = Some (in_round rs (done @ e\<lparr>aq_head := []\<rparr> # rest) (es @ concat (map ans (aq_head e))))"
  using assms(3)
proof (induction "aq_head e" arbitrary: e es)
  case Nil
  then have "e\<lparr>aq_head := []\<rparr> = e" by (metis arp_queue_entry.surjective arp_queue_entry.update_convs(5))
  with Nil show ?case by (subst return_packets.simps) simp
next
  case (Cons p ps)
  have h: "aq_head e = p # ps" using Cons.hyps(2) by simp
  let ?st = "\<lambda>es. in_round rs (done @ e # rest) es"
  let ?e = "e\<lparr>aq_head := ps\<rparr>"
  have d: "direct_answer rs p (ans p)" using Cons.prems h by simp
  have drop: "drop_packet (length done) (?st es) = in_round rs (done @ ?e # rest) es" for es
    by (simp add: drop_packet_def h)
  have "return_packets (length done) (?st es) = return_packets (length done) (drop_packet (length done) (?st (es @ ans p)))"
    using direct_answer_sent [OF d assms(1,2), where aq = "done @ e # rest" and es = es]
    by (subst return_packets.simps) (auto simp: h in_round_frame)
  also have "\<dots> = Some (in_round rs (done @ ?e\<lparr>aq_head := []\<rparr> # rest) ((es @ ans p) @ concat (map ans ps)))"
    unfolding drop using Cons.hyps(1) [of ?e "es @ ans p"] Cons.prems h by simp
  finally show ?case by (simp add: h)
qed

lemma process_entries:
  assumes "locks rs L_write = Free" "locks rs L_log_dumper = Free" "\<forall>e\<in>set todo. entry_handled rs ans e"
  shows "process_entries_from (length done) (in_round rs (done @ todo) es)
    = Some (in_round rs (done @ concat (map (entry_left rs) todo)) (es @ concat (map (entry_sent rs ans) todo)))"
  using assms(3)
proof (induction todo arbitrary: "done" es)
  case Nil
  then show ?case by (subst process_entries_from.simps) simp
next
  case (Cons e todo)
  let ?k = "length done"
  have e: "aq_out_iface_name e \<in> eth_ports" "get_interface rs (aq_out_iface_name e) \<noteq> None"
    "\<forall>p\<in>set (aq_head e). direct_answer rs p (ans p)" "\<forall>e\<in>set todo. entry_handled rs ans e"
    using Cons.prems by (auto simp: entry_handled_def)
  note IH = Cons.IH [OF e(4)]
  consider "\<not> clock rs - aq_last_req_time e > 1" | "clock rs - aq_last_req_time e > 1" "aq_requests e < 5"
    | "clock rs - aq_last_req_time e > 1" "\<not> aq_requests e < 5" by blast
  then show ?case
  proof cases
    case 1
    then have "entry_left rs e = [e]" "entry_sent rs ans e = []" by (simp_all add: entry_left_def entry_sent_def)
    with 1 show ?thesis using IH [of "done @ [e]" es]
      by (subst process_entries_from.simps) auto
  next
    case 2
    let ?e = "e\<lparr>aq_last_req_time := clock rs, aq_requests := aq_requests e + 1\<rparr>"
    obtain ie where ie: "get_interface rs (aq_out_iface_name e) = Some ie" using e(2) by blast
    let ?ev = "Tx (pad_frame (arp_request_frame ie (aq_next_hop e))) (aq_out_iface_name e)"
    have "request_again ?k (in_round rs (done @ e # todo) es) = Some (in_round rs (done @ ?e # todo) (es @ [?ev]))"
      using assms(1,2) e(1) ie
      by (simp add: request_again_def send_arp_request_def get_interface_def send_packet_ok emit_def)
    moreover have "entry_left rs e = [?e]" "entry_sent rs ans e = [?ev]"
      using 2 by (simp_all add: entry_left_def entry_sent_def ie)
    ultimately show ?thesis using IH [of "done @ [?e]" "es @ [?ev]"] 2
      by (subst process_entries_from.simps) auto
  next
    case 3
    have r: "return_packets ?k (in_round rs (done @ e # todo) es)
        = Some (in_round rs (done @ e\<lparr>aq_head := []\<rparr> # todo) (es @ concat (map ans (aq_head e))))"
      using return_packets_answers [OF assms(1,2) e(3)] .
    have "drop_entry ?k (in_round rs (done @ e\<lparr>aq_head := []\<rparr> # todo) es') = in_round rs (done @ todo) es'" for es'
      by (simp add: drop_entry_def)
    moreover have "entry_left rs e = []" "entry_sent rs ans e = concat (map ans (aq_head e))"
      using 3 by (simp_all add: entry_left_def entry_sent_def)
    ultimately show ?thesis using IH [of "done" "es @ concat (map ans (aq_head e))"] 3 r
      by (subst process_entries_from.simps) (auto simp: Let_def)
  qed
qed


lemma restore_ttl_Some:
  assumes "get_ip_hdr p = Some h" "ip_hl h = 5" "ip_ttl h < 255"
  shows "\<exists>q s. restore_ttl p = Some q \<and> length q = length p
    \<and> get_ip_hdr q = Some (h\<lparr>ip_ttl := ip_ttl h + 1, ip_sum := s\<rparr>)"
proof -
  have l: "34 \<le> length p" using assms(1) get_ip_hdr_Some by blast
  let ?e = "take 14 p" and ?r = "drop 34 p" and ?h = "h\<lparr>ip_ttl := ip_ttl h + 1\<rparr>"
  have p: "p = ?e @ enc_ip_hdr h @ ?r"
    using get_ip_hdr_split [OF assms(1)] append_take_drop_id [of 14 p] by simp
  have e: "length ?e = 14" "length (enc_ip_hdr h) = 20" using l by simp_all
  obtain s where s: "set_ip_checksum (?e @ enc_ip_hdr ?h @ ?r) = Some (?e @ enc_ip_hdr (?h\<lparr>ip_sum := s\<rparr>) @ ?r)"
    using set_ip_checksum_parts [of ?e ?h ?r] e assms(2) by auto
  let ?q = "?e @ enc_ip_hdr (?h\<lparr>ip_sum := s\<rparr>) @ ?r"
  have "put_ip_hdr ?h p = Some (?e @ enc_ip_hdr ?h @ ?r)"
    by (subst p) (rule parts_access(4) [OF e])
  then have "restore_ttl p = Some ?q" using assms s by (simp add: restore_ttl_def)
  moreover have "length ?q = length p" using l by simp
  moreover have "get_ip_hdr ?q = Some (?h\<lparr>ip_sum := s\<rparr>)"
    using parts_access(3) [of ?e "enc_ip_hdr (?h\<lparr>ip_sum := s\<rparr>)" ?r] e by (simp add: ip_hdr.dec_enc)
  ultimately show ?thesis by blast
qed

definition sample_stranded :: packet where
  "sample_stranded = replicate 12 0 @ [8, 0, 0x45, 0, 0, 46, 0, 1, 0, 0, 63, 17, 0, 0,
     10, 0, 0, 9, 10, 0, 0, 2] @ replicate 26 0"

definition sample_waiting :: "u32 \<Rightarrow> nat \<Rightarrow> packet list \<Rightarrow> arp_queue_entry" where
  "sample_waiting hop n ps = \<lparr>aq_out_iface_name = ''eth0'', aq_next_hop = hop, aq_requests = n, aq_last_req_time = 0,
     aq_head = ps\<rparr>"

definition sample_queue_router :: router_state where
  "sample_queue_router = sample_router\<lparr>clock := 10, arp_cache :=
       [\<lparr>ac_ip = 0x0900000A, ac_arp_ha = 7, ac_TTL = 0, ac_is_static = False\<rparr>],
     arp_queue := [sample_waiting 20 2 [sample_stranded], sample_waiting 30 5 [sample_stranded]]\<rparr>"

lemma sample_stranded_answer: "\<exists>f. direct_answer sample_queue_router sample_stranded [Tx f ''eth0'']"
proof -
  let ?rs = sample_queue_router
  obtain h where h: "get_ip_hdr sample_stranded = Some h" "ip_hl h = 5" "ip_ttl h < 255" "ip_src h = 0x0900000A" "ip_p h = 17"
    by (simp add: sample_stranded_def hdr_access_defs load_def dec_ip_hdr_def lo_nibble_def le32_def)
  from restore_ttl_Some [OF h(1-3)] obtain q s where q: "restore_ttl sample_stranded = Some q" "length q = 60"
    "get_ip_hdr q = Some (h\<lparr>ip_ttl := ip_ttl h + 1, ip_sum := s\<rparr>)"
    by (auto simp: sample_stranded_def)
  have due: "icmp_error_due ?rs sample_stranded = Some True"
    using h by (simp add: icmp_error_due_def iface_match_ip_def sample_queue_router_def sample_router_def
        sample_iface_def icmp_consts)
  have route: "get_next_hop ?rs 32 d = Some (d, ''eth0'')" "get_iface ?rs ''eth0'' = Some sample_iface" for d
    using sample_router_route by (simp_all add: sample_queue_router_def get_next_hop_def get_iface_def)
  have "if_name sample_iface = ''eth0''" "if_name sample_iface \<in> eth_ports" by (simp_all add: sample_iface_def eth_ports_def)
  moreover have "get_from_arp_cache ?rs 0x0900000A = Some \<lparr>ac_ip = 0x0900000A, ac_arp_ha = 7, ac_TTL = 0, ac_is_static = False\<rparr>"
    by (simp add: get_from_arp_cache_def in_arp_cache_def sample_queue_router_def)
  moreover have "\<exists>f. fill_icmp_packet sample_iface ICMP_TYPE_DESTINATION_UNREACHABLE ICMP_CODE_HOST_UNREACHABLE
      (replicate 4 0 @ take 28 (drop 14 q)) (if_ip sample_iface) 0x0900000A (replicate 70 0) = Some f"
  proof -
    have "38 + length (replicate 4 0 @ take 28 (drop 14 q)) = 70" using q(2) by simp
    with fill_icmp_packet_parts [where payload = "replicate 4 0 @ take 28 (drop 14 q)"] show ?thesis by metis
  qed
  ultimately show ?thesis
    unfolding direct_answer_def using due q route h(4) by (auto intro!: exI)
qed


end
