(* ===== verification/Ip_Output.thy ===== *)
theory Ip_Output
  imports Nat_Table
begin

text \<open>
  The parts of IP processing that send (or_ip.c, or_main.c): the validity check, forwarding a
  packet over a route, and the output functions of the transport layer. The last part of forwarding
  is written out once in or_ip.c and four times, with the same text, in or_cccp.c; here it is one
  definition.
\<close>

definition IP_FRAG_MF :: u16 where "IP_FRAG_MF = 0x2000"
definition IP_FRAG_OFFMASK :: u16 where "IP_FRAG_OFFMASK = 0x1fff"

definition is_packet_valid :: "packet \<Rightarrow> bool option" where
  "is_packet_valid p = do {
     ip \<leftarrow> get_ip_hdr p;
     if ip_v ip \<noteq> 4 then Some False
     else if ip_hl ip \<noteq> 5 then Some False
     else if ntohs (ip_off ip) AND IP_FRAG_MF \<noteq> 0 \<or> ntohs (ip_off ip) AND IP_FRAG_OFFMASK \<noteq> 0 then Some False
     else do {
       v \<leftarrow> verify_checksum (drop ETH_HDR_LEN p) (4 * unat (ip_hl ip));
       Some (v = 0)
     }
   }"

definition send_unreachable :: "router_state \<Rightarrow> packet \<Rightarrow> u8 \<Rightarrow> router_state option" where
  "send_unreachable rs p code = map_option snd (send_icmp_packet rs p ICMP_TYPE_DESTINATION_UNREACHABLE code)"

text \<open>Translation of a packet that leaves through the WAN interface.\<close>

definition translate_outgoing :: "router_state \<Rightarrow> packet \<Rightarrow> iface_entry \<Rightarrow> (packet \<times> router_state) option" where
  "translate_outgoing rs p iface = (if if_is_wan iface then do {
       rs \<leftarrow> lock_nat_table rs;
       (p, rs) \<leftarrow> process_nat_int_packet rs p (if_ip iface);
       rs \<leftarrow> unlock_nat_table rs;
       Some (p, rs)
     } else Some (p, rs))"

text \<open>The headers of a packet that is passed on.\<close>

definition rewrite_headers :: "packet \<Rightarrow> iface_entry \<Rightarrow> packet option" where
  "rewrite_headers p sr_if = do {
     ip \<leftarrow> get_ip_hdr p;
     p \<leftarrow> put_ip_hdr (ip\<lparr>ip_ttl := ip_ttl ip - 1\<rparr>) p;
     p \<leftarrow> set_ip_checksum p;
     eth \<leftarrow> get_eth_hdr p;
     put_eth_hdr (populate_eth_hdr eth None (if_addr sr_if) ETH_TYPE_IP) p
   }"

definition forward_packet :: "router_state \<Rightarrow> packet \<Rightarrow> u32 \<Rightarrow> string \<Rightarrow> router_state option" where
  "forward_packet rs p next_hop next_hop_iface = do {
     iface \<leftarrow> get_iface rs next_hop_iface;
     (p, rs) \<leftarrow> translate_outgoing rs p iface;
     ip \<leftarrow> get_ip_hdr p;
     if ip_ttl ip = 1
     then map_option snd (send_icmp_packet rs p ICMP_TYPE_TIME_EXCEEDED ICMP_CODE_TTL_EXCEEDED)
     else do {
       sr_if \<leftarrow> get_iface rs next_hop_iface;
       p \<leftarrow> rewrite_headers p sr_if;
       map_option snd (send_ip rs p next_hop next_hop_iface)
     }
   }"

text \<open>\<open>send_ip_packet\<close> returns without giving the locks back when there is no route.\<close>

definition send_ip_packet :: "router_state \<Rightarrow> u8 \<Rightarrow> u32 \<Rightarrow> u32 \<Rightarrow> u8 list \<Rightarrow> (int \<times> router_state) option" where
  "send_ip_packet rs proto src dest payload = do {
     rs \<leftarrow> lock_arp_cache_rd rs;
     rs \<leftarrow> lock_arp_queue_wr rs;
     rs \<leftarrow> lock_if_list_rd rs;
     rs \<leftarrow> lock_rtable_rd rs;
     p \<leftarrow> put_ip_hdr (populate_ip (of_nat (length payload)) proto src dest)
       (replicate (ETH_HDR_LEN + IP_HDR_LEN) 0 @ payload);
     p \<leftarrow> set_ip_checksum p;
     case get_next_hop rs 32 dest of
       None \<Rightarrow> Some (1, rs)
     | Some (next_hop, iface) \<Rightarrow> do {
         iface_struct \<leftarrow> get_iface rs iface;
         eth \<leftarrow> get_eth_hdr p;
         p \<leftarrow> put_eth_hdr (populate_eth_hdr eth None (if_addr iface_struct) ETH_TYPE_IP) p;
         (ret, rs) \<leftarrow> send_ip rs p next_hop (if_name iface_struct);
         rs \<leftarrow> unlock_rtable rs;
         rs \<leftarrow> unlock_if_list rs;
         rs \<leftarrow> unlock_arp_queue rs;
         rs \<leftarrow> unlock_arp_cache rs;
         Some (ret, rs)
       }
   }"

definition integ_ip_output :: "router_state \<Rightarrow> u8 list \<Rightarrow> u8 \<Rightarrow> u32 \<Rightarrow> u32 \<Rightarrow> (int \<times> router_state) option" where
  "integ_ip_output rs payload proto src dest = send_ip_packet rs proto src dest payload"

definition find_srcip :: "router_state \<Rightarrow> u32 \<Rightarrow> (u32 \<times> router_state) option" where
  "find_srcip rs dest = do {
     rs \<leftarrow> lock_if_list_rd rs;
     rs \<leftarrow> lock_rtable_rd rs;
     srcip \<leftarrow> (case get_next_hop rs 32 dest of
         None \<Rightarrow> Some 0
       | Some (next_hop, iface) \<Rightarrow> map_option if_ip (get_iface rs iface));
     rs \<leftarrow> unlock_rtable rs;
     rs \<leftarrow> unlock_if_list rs;
     Some (srcip, rs)
   }"

section \<open>What is sent\<close>

text \<open>The packet \<open>q\<close> is \<open>p\<close> passed on over the interface \<open>ie\<close>: one hop less to live, a new header
  checksum that is right, the interface as the source of the frame, and everything else as it was.
  (The destination of the frame is set by \<open>send_ip\<close>.)\<close>

definition forwarded :: "iface_entry \<Rightarrow> packet \<Rightarrow> packet \<Rightarrow> bool" where
  "forwarded ie p q \<longleftrightarrow> (\<exists>eth h s. get_eth_hdr p = Some eth \<and> get_ip_hdr p = Some h
     \<and> get_eth_hdr q = Some (eth\<lparr>eth_shost := if_addr ie, eth_type := htons ETH_TYPE_IP\<rparr>)
     \<and> get_ip_hdr q = Some (h\<lparr>ip_ttl := ip_ttl h - 1, ip_sum := s\<rparr>)
     \<and> verify_checksum (drop 14 q) 20 = Some 0 \<and> drop 34 q = drop 34 p \<and> length q = length p)"

lemma packet_parts:
  assumes "get_ip_hdr p = Some h"
  shows "p = take 14 p @ enc_ip_hdr h @ drop 34 p" "length (take 14 p) = 14" "34 \<le> length p"
proof -
  show l: "34 \<le> length p" using assms get_ip_hdr_Some by blast
  then show "length (take 14 p) = 14" by simp
  show "p = take 14 p @ enc_ip_hdr h @ drop 34 p"
    using get_ip_hdr_split [OF assms] append_take_drop_id [of 14 p] by simp
qed

lemma rewrite_headers_forwarded:
  assumes h: "get_ip_hdr p = Some h" "ip_hl h = 5"
  shows "\<exists>q. rewrite_headers p ie = Some q \<and> forwarded ie p q"
proof -
  let ?e = "take 14 p" and ?r = "drop 34 p" and ?h = "h\<lparr>ip_ttl := ip_ttl h - 1\<rparr>"
  note pp = packet_parts [OF h(1)]
  let ?eth = "(dec_eth_hdr ?e)\<lparr>eth_shost := if_addr ie, eth_type := htons ETH_TYPE_IP\<rparr>"
  have hl: "ip_hl ?h = 5" using h(2) by simp
  obtain s where s: "set_ip_checksum (?e @ enc_ip_hdr ?h @ ?r) = Some (?e @ enc_ip_hdr (?h\<lparr>ip_sum := s\<rparr>) @ ?r)"
    using set_ip_checksum_parts [OF pp(2) hl] by blast
  let ?q = "enc_eth_hdr ?eth @ enc_ip_hdr (?h\<lparr>ip_sum := s\<rparr>) @ ?r"
  have 1: "put_ip_hdr ?h p = Some (?e @ enc_ip_hdr ?h @ ?r)"
    by (subst pp(1)) (rule parts_access(4) [OF pp(2) enc_lengths(2)])
  have 2: "get_eth_hdr (?e @ rest) = Some (dec_eth_hdr ?e)" "put_eth_hdr v (?e @ rest) = Some (enc_eth_hdr v @ rest)" for rest v
    using parts_access(1,2) [OF pp(2), of "enc_ip_hdr h"] by simp_all
  have 3: "populate_eth_hdr (dec_eth_hdr ?e) None (if_addr ie) ETH_TYPE_IP = ?eth" by (simp add: populate_eth_hdr_def)
  have "rewrite_headers p ie = Some ?q"
    unfolding rewrite_headers_def by (simp only: h(1) 1 s 2 3 Option.bind.simps)
  moreover have "get_ip_hdr (?e @ enc_ip_hdr ?h @ ?r) = Some ?h"
    by (subst parts_access(3) [OF pp(2) enc_lengths(2)]) (simp add: ip_hdr.dec_enc)
  from set_ip_checksum_verified [OF this hl s] have "verify_checksum (drop 14 ?q) 20 = Some 0" using pp(2) by simp
  moreover have "get_eth_hdr p = Some (dec_eth_hdr ?e)" using 2(1) [of "enc_ip_hdr h @ ?r"] pp(1) by simp
  moreover have "get_eth_hdr ?q = Some ?eth" "get_ip_hdr ?q = Some (?h\<lparr>ip_sum := s\<rparr>)"
    using parts_access(1,3) [of "enc_eth_hdr ?eth" "enc_ip_hdr (?h\<lparr>ip_sum := s\<rparr>)"]
    by (simp_all add: eth_hdr.dec_enc ip_hdr.dec_enc)
  moreover have "drop 34 ?q = ?r" "length ?q = length p" using pp(3) by simp_all
  ultimately show ?thesis unfolding forwarded_def using h(1) by (intro exI [of _ ?q]) blast
qed

lemma forwarded_length: "forwarded ie p q \<Longrightarrow> 34 \<le> length q"
  using packet_parts(3) by (auto simp: forwarded_def)

text \<open>The state after \<open>send_ip\<close>, by theorem \<open>send_ip_result\<close>.\<close>

definition sent_ip :: "router_state \<Rightarrow> iface_entry \<Rightarrow> packet \<Rightarrow> u32 \<Rightarrow> string \<Rightarrow> router_state" where
  "sent_ip rs ie p next_hop out_iface = (case get_from_arp_cache rs next_hop of
      Some ace \<Rightarrow> emit (Tx (pad_frame (frame_to (ac_arp_ha ace) p)) out_iface) rs
    | None \<Rightarrow> if get_from_arp_queue rs next_hop = None
        then (emit (Tx (pad_frame (arp_request_frame ie next_hop)) out_iface) rs)\<lparr>arp_queue := arp_queue rs @
          [\<lparr>aq_out_iface_name = out_iface, aq_next_hop = next_hop, aq_requests = 1,
            aq_last_req_time = clock rs, aq_head = [p]\<rparr>]\<rparr>
        else rs\<lparr>arp_queue := update_first (\<lambda>aqe. aq_next_hop aqe = next_hop)
          (\<lambda>aqe. aqe\<lparr>aq_head := aq_head aqe @ [p]\<rparr>) (arp_queue rs)\<rparr>)"

lemma sent_ip_locks:
  "(sent_ip (rs\<lparr>locks := f\<rparr>) ie p hop out)\<lparr>locks := g\<rparr> = sent_ip (rs\<lparr>locks := g\<rparr>) ie p hop out"
  "locks (sent_ip rs ie p hop out) = locks rs"
  by (simp_all add: sent_ip_def get_from_arp_cache_def in_arp_cache_def get_from_arp_queue_def emit_def
      split: option.split)

text \<open>Forwarding over an interface that is not the WAN interface.\<close>

lemma forward_packet_sends:
  assumes "get_ip_hdr p = Some h" "ip_hl h = 5" "ip_ttl h \<noteq> 1" "get_iface rs out = Some ie" "\<not> if_is_wan ie"
    "out \<in> eth_ports" "locks rs L_write = Free" "locks rs L_log_dumper = Free"
  shows "\<exists>q. forwarded ie p q \<and> forward_packet rs p hop out = Some (sent_ip rs ie q hop out)"
proof -
  obtain q where q: "rewrite_headers p ie = Some q" "forwarded ie p q"
    using rewrite_headers_forwarded [OF assms(1,2)] by blast
  then have "14 \<le> length q" using forwarded_length by fastforce
  from send_ip_result [OF this assms(7,8,6,4), of hop]
  have "send_ip rs q hop out = Some (0, sent_ip rs ie q hop out)" by (simp add: sent_ip_def)
  with q assms show ?thesis
    by (intro exI [of _ q]) (simp add: forward_packet_def translate_outgoing_def)
qed

section \<open>Output of the transport layer\<close>

text \<open>The output function of the transport layer, when there is no route: it returns 1 with four
  locks still held, so the thread that updates the routing table next waits for ever.\<close>

theorem send_ip_packet_no_route_locked:
  assumes "all_free rs" "get_next_hop rs 32 dest = None"
  shows "\<exists>rs'. send_ip_packet rs proto src dest payload = Some (1, rs')
    \<and> locks rs' L_rtable = Reading 0 \<and> locks rs' L_arp_queue = Writing
    \<and> lock_rtable_wr rs' = None \<and> lock_arp_cache_wr rs' = None"
proof -
  let ?rs = "set_lock L_rtable (Reading 0) (set_lock L_if_list (Reading 0) (set_lock L_arp_queue Writing
      (set_lock L_arp_cache (Reading 0) rs)))"
  let ?z = "replicate 14 (0 :: u8)" and ?z20 = "replicate 20 (0 :: u8)"
  let ?h = "populate_ip (of_nat (length payload)) proto src dest"
  have z: "replicate (ETH_HDR_LEN + IP_HDR_LEN) 0 @ payload = ?z @ ?z20 @ payload"
    unfolding layout_defs replicate_add append_assoc ..
  have 1: "put_ip_hdr ?h (?z @ ?z20 @ payload) = Some (?z @ enc_ip_hdr ?h @ payload)"
    by (rule parts_access) simp_all
  have "ip_hl ?h = 5" by (simp add: populate_ip_def)
  then obtain s where s: "set_ip_checksum (?z @ enc_ip_hdr ?h @ payload) = Some (?z @ enc_ip_hdr (?h\<lparr>ip_sum := s\<rparr>) @ payload)"
    using set_ip_checksum_parts [of ?z] by (metis length_replicate)
  have fr: "locks rs l = Free" for l using assms(1) by (simp add: all_free_def)
  have n: "get_next_hop ?rs 32 dest = None" using assms(2) by (simp add: get_next_hop_def frame_simps)
  have "send_ip_packet rs proto src dest payload = Some (1, ?rs)"
    unfolding send_ip_packet_def lock_wrappers z
    by (simp add: free_locks fr 1 s n)
  then show ?thesis
    by (simp add: lock_wrappers pthread_rwlock_wrlock_def)
qed

theorem send_ip_packet_no_route_locked_witness:
  "\<exists>rs'. send_ip_packet empty_router 6 1 2 [7, 8] = Some (1, rs') \<and> locks rs' L_arp_queue = Writing"
proof -
  have "all_free empty_router" "get_next_hop empty_router 32 2 = None"
    by (simp_all add: all_free_def empty_router_def get_next_hop_def)
  from send_ip_packet_no_route_locked [OF this] show ?thesis by blast
qed

end
