(* ===== verification/Cccp.thy ===== *)
theory Cccp
  imports Ip_Output Ctable
begin

text \<open>
  The content packets of CCDN (or_cccp.c). A request that names a content the table knows is sent to
  the server the content was seen at, a reply or the end of one teaches the table the server and
  the interface, a reject makes it forget, and every packet is then forwarded by IP.
\<close>

definition CCCP_TYPE_REQUEST :: u8 where "CCCP_TYPE_REQUEST = 0"
definition CCCP_TYPE_REPLY :: u8 where "CCCP_TYPE_REPLY = 1"
definition CCCP_TYPE_REJECT :: u8 where "CCCP_TYPE_REJECT = 2"
definition CCCP_TYPE_FINISH :: u8 where "CCCP_TYPE_FINISH = 3"

lemmas cccp_types = CCCP_TYPE_REQUEST_def CCCP_TYPE_REPLY_def CCCP_TYPE_REJECT_def CCCP_TYPE_FINISH_def

text \<open>The destination of a request, after the content table was asked.\<close>

definition redirect_request :: "router_state \<Rightarrow> packet \<Rightarrow> string \<Rightarrow> (packet \<times> router_state) option" where
  "redirect_request rs p interface = do {
     cccp \<leftarrow> get_cccp_hdr p;
     ip \<leftarrow> get_ip_hdr p;
     (hit, rs) \<leftarrow> get_nexthop_by_content rs (cccp_content cccp) (ntohs (cccp_vn cccp)) interface;
     case hit of
       Some (next_hop_ip, next_hop_iface) \<Rightarrow> do {
         p \<leftarrow> put_ip_hdr (ip\<lparr>ip_dst := next_hop_ip\<rparr>) p;
         Some (p, rs)
       }
     | None \<Rightarrow> Some (p, rs)
   }"

text \<open>What a reply or the end of one leaves in the table: nothing for packets that arrive on the
  interface towards the core network.\<close>

definition learn_content :: "router_state \<Rightarrow> packet \<Rightarrow> string \<Rightarrow> router_state option" where
  "learn_content rs p interface = do {
     cccp \<leftarrow> get_cccp_hdr p;
     ip \<leftarrow> get_ip_hdr p;
     if \<not> strncmp_eq interface ''eth3'' 4
     then map_option snd (add_content rs (cccp_content cccp) (ntohs (cccp_vn cccp)) (ip_src ip) interface)
     else Some rs
   }"

definition process_cccp_packet :: "router_state \<Rightarrow> packet \<Rightarrow> string \<Rightarrow> router_state option" where
  "process_cccp_packet rs p interface = do {
     cccp \<leftarrow> get_cccp_hdr p;
     ip \<leftarrow> get_ip_hdr p;
     if cccp_type cccp = CCCP_TYPE_REQUEST then do {
       (p, rs) \<leftarrow> redirect_request rs p interface;
       ip \<leftarrow> get_ip_hdr p;
       case get_next_hop rs IF_LEN (ip_dst ip) of
         Some (next_hop, next_hop_iface) \<Rightarrow> forward_packet rs p next_hop next_hop_iface
       | None \<Rightarrow> send_unreachable rs p ICMP_CODE_NET_UNKNOWN
     }
     else if cccp_type cccp = CCCP_TYPE_REPLY \<or> cccp_type cccp = CCCP_TYPE_FINISH then
       (case get_next_hop rs IF_LEN (ip_dst ip) of
          Some (next_hop, next_hop_iface) \<Rightarrow> do {
            rs \<leftarrow> learn_content rs p interface;
            forward_packet rs p next_hop next_hop_iface
          }
        | None \<Rightarrow> send_unreachable rs p ICMP_CODE_NET_UNKNOWN)
     else if cccp_type cccp = CCCP_TYPE_REJECT then
       (case get_next_hop rs IF_LEN (ip_dst ip) of
          Some (next_hop, next_hop_iface) \<Rightarrow> do {
            (n, rs) \<leftarrow> del_content rs (cccp_content cccp) (ntohs (cccp_vn cccp)) interface;
            forward_packet rs p next_hop next_hop_iface
          }
        | None \<Rightarrow> send_unreachable rs p ICMP_CODE_NET_UNKNOWN)
     else
       (case get_next_hop rs IF_LEN (ip_dst ip) of
          Some (next_hop, next_hop_iface) \<Rightarrow> forward_packet rs p next_hop next_hop_iface
        | None \<Rightarrow> send_unreachable rs p ICMP_CODE_NET_UNKNOWN)
   }"

section \<open>Requests\<close>

text \<open>The server that a request for a content is sent to, if the table knows one.\<close>

definition content_server :: "u32 \<Rightarrow> u16 \<Rightarrow> string \<Rightarrow> ctable_entry list \<Rightarrow> u32 option" where
  "content_server ct_name ct_vn interface es =
     (let down = content_hits ct_name ct_vn interface True es;
          up = content_hits ct_name ct_vn interface False es;
          hits = (if down \<noteq> [] then down else up)
      in if hits = [] then None else Some (ct_nexthop (hits ! (unat (ntohl ct_name) mod length hits))))"

definition with_dst :: "u32 option \<Rightarrow> ip_hdr \<Rightarrow> ip_hdr" where
  "with_dst server h = (case server of Some s \<Rightarrow> h\<lparr>ip_dst := s\<rparr> | None \<Rightarrow> h)"

lemma with_dst_fields [simp]:
  "ip_hl (with_dst s h) = ip_hl h" "ip_ttl (with_dst s h) = ip_ttl h" "ip_src (with_dst s h) = ip_src h"
  "ip_dst (with_dst s h) = (case s of Some d \<Rightarrow> d | None \<Rightarrow> ip_dst h)"
  by (simp_all add: with_dst_def split: option.split)

definition ctable_over_eth :: "router_state \<Rightarrow> bool" where
  "ctable_over_eth rs \<longleftrightarrow> ctable_ok rs \<and> ct_iface ` set (ctable rs) \<subseteq> eth_ports"

lemma redirect_request_server:
  assumes "get_cccp_hdr p = Some c" "get_ip_hdr p = Some h" "ctable_over_eth rs" "interface \<in> eth_ports"
  shows "\<exists>p' rs'. redirect_request rs p interface = Some (p', rs')
    \<and> get_ip_hdr p' = Some (with_dst (content_server (cccp_content c) (ntohs (cccp_vn c)) interface (ctable rs)) h)
    \<and> take 14 p' = take 14 p \<and> drop 34 p' = drop 34 p
    \<and> ctable rs' = filter (\<lambda>e. \<not> content_stale (cccp_content c) (ntohs (cccp_vn c)) interface e) (ctable rs)
    \<and> ctable_over_eth rs' \<and> rs' = rs\<lparr>ctable := ctable rs', netfpga := netfpga rs'\<rparr>"
proof -
  let ?name = "cccp_content c" and ?vn = "ntohs (cccp_vn c)"
  obtain hit rs' where l: "get_nexthop_by_content rs ?name ?vn interface = Some (hit, rs')"
    "map_option fst hit = content_server ?name ?vn interface (ctable rs)"
    "ctable rs' = filter (\<lambda>e. \<not> content_stale ?name ?vn interface e) (ctable rs)"
    "ctable_ok rs'" "rs' = rs\<lparr>ctable := ctable rs', netfpga := netfpga rs'\<rparr>"
    using content_lookup [of rs interface ?name ?vn] assms(3,4)
    by (fastforce simp: ctable_over_eth_def content_server_def Let_def split: if_splits)
  have over: "ctable_over_eth rs'" using l(3,4) assms(3) by (auto simp: ctable_over_eth_def)
  show ?thesis
  proof (cases hit)
    case None
    with l assms over show ?thesis
      by (intro exI [of _ p] exI [of _ rs']) (auto simp: redirect_request_def with_dst_def split: option.splits)
  next
    case (Some x)
    obtain server i where x: "x = (server, i)" by (cases x)
    obtain p' where p': "put_ip_hdr (h\<lparr>ip_dst := server\<rparr>) p = Some p'"
      using put_ip_hdr_Some packet_parts(3) [OF assms(2)] by blast
    have srv: "content_server ?name ?vn interface (ctable rs) = Some server" using l(2) Some x by simp
    show ?thesis using put_ip_hdr_laws(1,6,7) [OF p'] over l assms(1,2) p' Some x srv
      by (intro exI [of _ p'] exI [of _ rs']) (simp add: redirect_request_def with_dst_def)
  qed
qed

lemma locks_frame_cccp:
  "rs' = rs\<lparr>ctable := a, netfpga := b\<rparr> \<Longrightarrow> locks rs' = locks rs \<and> get_next_hop rs' = get_next_hop rs
     \<and> get_iface rs' = get_iface rs"
  by (auto simp: get_next_hop_def get_iface_def fun_eq_iff)

lemma request_redirected:
  assumes "get_cccp_hdr p = Some c" "cccp_type c = CCCP_TYPE_REQUEST" "get_ip_hdr p = Some h" "ip_hl h = 5" "ip_ttl h \<noteq> 1"
    "ctable_over_eth rs" "interface \<in> eth_ports"
    "dst = (case content_server (cccp_content c) (ntohs (cccp_vn c)) interface (ctable rs) of Some s \<Rightarrow> s | None \<Rightarrow> ip_dst h)"
    "get_next_hop rs IF_LEN dst = Some (hop, out)" "get_iface rs out = Some ie" "\<not> if_is_wan ie" "out \<in> eth_ports"
    "locks rs L_write = Free" "locks rs L_log_dumper = Free"
  shows "\<exists>p' q rs'. get_ip_hdr p' = Some (h\<lparr>ip_dst := dst\<rparr>) \<and> take 14 p' = take 14 p \<and> drop 34 p' = drop 34 p
    \<and> forwarded ie p' q \<and> process_cccp_packet rs p interface = Some (sent_ip rs' ie q hop out)
    \<and> ctable rs' = filter (\<lambda>e. \<not> content_stale (cccp_content c) (ntohs (cccp_vn c)) interface e) (ctable rs)
    \<and> ctable_over_eth rs' \<and> rs' = rs\<lparr>ctable := ctable rs', netfpga := netfpga rs'\<rparr>"
proof -
  let ?h = "with_dst (content_server (cccp_content c) (ntohs (cccp_vn c)) interface (ctable rs)) h"
  obtain p' rs' where r: "redirect_request rs p interface = Some (p', rs')" "get_ip_hdr p' = Some ?h"
    "take 14 p' = take 14 p" "drop 34 p' = drop 34 p"
    "ctable rs' = filter (\<lambda>e. \<not> content_stale (cccp_content c) (ntohs (cccp_vn c)) interface e) (ctable rs)"
    "ctable_over_eth rs'" "rs' = rs\<lparr>ctable := ctable rs', netfpga := netfpga rs'\<rparr>"
    using redirect_request_server [OF assms(1,3,6,7)] by blast
  have h: "?h = h\<lparr>ip_dst := dst\<rparr>" unfolding assms(8) by (simp add: with_dst_def split: option.split)
  have hl: "ip_hl ?h = 5" "ip_ttl ?h \<noteq> 1" using assms(4,5) by simp_all
  note fr = locks_frame_cccp [OF r(7)]
  have "get_iface rs' out = Some ie" "locks rs' L_write = Free" "locks rs' L_log_dumper = Free"
    using fr assms by simp_all
  from forward_packet_sends [OF r(2) hl this(1) assms(11,12) this(2,3), of hop] obtain q where
    q: "forwarded ie p' q" "forward_packet rs' p' hop out = Some (sent_ip rs' ie q hop out)" by blast
  have "process_cccp_packet rs p interface = Some (sent_ip rs' ie q hop out)"
    using assms(1-3) r(1,2) fr assms(9) q(2) unfolding h by (simp add: process_cccp_packet_def)
  with q(1) r h show ?thesis by metis
qed

section \<open>Replies\<close>

lemma reply_learned:
  assumes "get_cccp_hdr p = Some c" "cccp_type c = CCCP_TYPE_REPLY \<or> cccp_type c = CCCP_TYPE_FINISH"
    "get_ip_hdr p = Some h" "ip_hl h = 5" "ip_ttl h \<noteq> 1"
    "ctable_over_eth rs" "interface \<in> eth_ports" "interface \<noteq> ''eth3''"
    "(cccp_content c, interface) \<notin> content_key ` set (ctable rs)"
    "get_next_hop rs IF_LEN (ip_dst h) = Some (hop, out)" "get_iface rs out = Some ie" "\<not> if_is_wan ie" "out \<in> eth_ports"
    "locks rs L_write = Free" "locks rs L_log_dumper = Free"
  shows "\<exists>q rs'. forwarded ie p q \<and> process_cccp_packet rs p interface = Some (sent_ip rs' ie q hop out)
    \<and> ctable rs' = \<lparr>ct_content = cccp_content c, ct_ver_num = ntohs (cccp_vn c), ct_nexthop = ip_src h,
          ct_iface = interface, ct_is_static = True, ct_is_active = True\<rparr> # take 31 (ctable rs)
    \<and> ctable_over_eth rs' \<and> rs' = rs\<lparr>ctable := ctable rs', netfpga := netfpga rs'\<rparr>"
proof -
  let ?e = "\<lparr>ct_content = cccp_content c, ct_ver_num = ntohs (cccp_vn c), ct_nexthop = ip_src h,
          ct_iface = interface, ct_is_static = True, ct_is_active = True\<rparr>"
  have "interface \<in> hw_ports" using assms(7) by (auto simp: eth_ports_def hw_ports_def)
  with add_content_front [of rs interface "cccp_content c" "ntohs (cccp_vn c)" "ip_src h"] assms(6,9)
  obtain ret rs' where l: "add_content rs (cccp_content c) (ntohs (cccp_vn c)) (ip_src h) interface = Some (ret, rs')"
    "ctable rs' = ?e # take 31 (ctable rs)" "ctable_ok rs'" "rs' = rs\<lparr>ctable := ctable rs', netfpga := netfpga rs'\<rparr>"
    by (auto simp: ctable_over_eth_def)
  have over: "ctable_over_eth rs'"
    using l(2,3) assms(6,7) by (auto simp: ctable_over_eth_def dest: in_set_takeD)
  have "\<not> strncmp_eq interface ''eth3'' 4" using assms(7,8) by (auto simp: eth_ports_def strncmp_eq_def)
  with l(1) assms(1,3) have learn: "learn_content rs p interface = Some rs'" by (simp add: learn_content_def)
  note fr = locks_frame_cccp [OF l(4)]
  have "get_iface rs' out = Some ie" "locks rs' L_write = Free" "locks rs' L_log_dumper = Free"
    using fr assms by simp_all
  from forward_packet_sends [OF assms(3,4,5) this(1) assms(12,13) this(2,3), of hop] obtain q where
    q: "forwarded ie p q" "forward_packet rs' p hop out = Some (sent_ip rs' ie q hop out)" by blast
  have "process_cccp_packet rs p interface = Some (sent_ip rs' ie q hop out)"
    using assms(1-3,10) learn q(2) by (auto simp: process_cccp_packet_def cccp_types)
  with q(1) l(2,4) over show ?thesis by blast
qed

section \<open>Properties\<close>


definition sample_cccp :: "u8 \<Rightarrow> u8 list \<Rightarrow> packet" where
  "sample_cccp ty addrs = replicate 12 0 @ [8, 0, 0x45, 0, 0, 46, 0, 1, 0, 0, 64, 0xd5] @ addrs
     @ enc_cccp_hdr \<lparr>cccp_type = ty, cccp_identifier = 0, cccp_checksum = 0, cccp_content = 0x01010101,
         cccp_vn = htons 3\<rparr> @ replicate 16 0"

text \<open>A request from 10.0.0.9 to 10.0.0.2 and a reply from the server 10.0.0.10 to 10.0.0.9.\<close>

definition sample_request :: packet where
  "sample_request = sample_cccp CCCP_TYPE_REQUEST [0x65, 0xf0, 10, 0, 0, 9, 10, 0, 0, 2]"

definition sample_reply :: packet where
  "sample_reply = sample_cccp CCCP_TYPE_REPLY [0x65, 0xe8, 10, 0, 0, 10, 10, 0, 0, 9]"

lemma sample_cccp_headers:
  assumes "length addrs = 10"
  shows "get_cccp_hdr (sample_cccp ty addrs) = Some \<lparr>cccp_type = ty, cccp_identifier = 0, cccp_checksum = 0,
      cccp_content = 0x01010101, cccp_vn = htons 3\<rparr>"
    "get_ip_hdr (sample_cccp ty addrs) = Some (dec_ip_hdr ([0x45, 0, 0, 46, 0, 1, 0, 0, 64, 0xd5] @ addrs))"
  using assms load_mid [of "replicate 12 0 @ [8, 0, 0x45, 0, 0, 46, 0, 1, 0, 0, 64, 0xd5] @ addrs" 34
      "enc_cccp_hdr \<lparr>cccp_type = ty, cccp_identifier = 0, cccp_checksum = 0, cccp_content = 0x01010101,
         cccp_vn = htons 3\<rparr>" 10 dec_cccp_hdr]
    load_mid [of "replicate 12 0 @ [8, 0]" 14 "[0x45, 0, 0, 46, 0, 1, 0, 0, 64, 0xd5] @ addrs" 20 dec_ip_hdr]
  by (simp_all add: sample_cccp_def hdr_access_defs cccp_hdr.length_enc cccp_hdr.dec_enc)

definition sample_cccp_router :: "ctable_entry list \<Rightarrow> router_state" where
  "sample_cccp_router es = sample_router\<lparr>is_netfpga := False, ctable := es\<rparr>"

lemma sample_cccp_router_route:
  "get_next_hop (sample_cccp_router es) 32 d = Some (d, ''eth0'')"
  "get_iface (sample_cccp_router es) ''eth0'' = Some sample_iface"
  "locks (sample_cccp_router es) l = Free"
  using sample_router_route
  by (simp_all add: sample_cccp_router_def get_next_hop_def get_iface_def) (simp add: sample_router_def empty_router_def)


end
