(* ===== verification/Ip.thy ===== *)
theory Ip
  imports Cccp Pwospf Arp_Queue
begin

text \<open>
  Packet input: \<open>process_packet\<close> of or_main.c and \<open>process_ip_packet\<close> of or_ip.c, which bring the
  components together.
\<close>

text \<open>A packet for an address of the router. The transport stack is given the packet from its IP
  header on; what it sends in return is \<open>integ_ip_output\<close>.\<close>

definition local_packet :: "router_state \<Rightarrow> packet \<Rightarrow> string \<Rightarrow> router_state option" where
  "local_packet rs p interface = do {
     ip \<leftarrow> get_ip_hdr p;
     if ip_p ip = IP_PROTO_TCP then Some (emit (Transport_input (drop ETH_HDR_LEN p)) rs)
     else if ip_p ip = IP_PROTO_ICMP then process_icmp_packet rs p interface
     else if ip_p ip = IP_PROTO_PWOSPF then process_pwospf_packet rs p interface
     else if ip_p ip = IP_PROTO_UDP then send_unreachable rs p ICMP_CODE_PORT_UNREACHABLE
     else send_unreachable rs p ICMP_CODE_PROTOCOL_UNREACHABLE
   }"

definition transit_packet :: "router_state \<Rightarrow> packet \<Rightarrow> string \<Rightarrow> router_state option" where
  "transit_packet rs p interface = do {
     ip \<leftarrow> get_ip_hdr p;
     case get_next_hop rs IF_LEN (ip_dst ip) of
       None \<Rightarrow> send_unreachable rs p ICMP_CODE_NET_UNKNOWN
     | Some (next_hop, next_hop_iface) \<Rightarrow>
         if strncmp_eq interface next_hop_iface IF_LEN then send_unreachable rs p ICMP_CODE_NET_UNREACHABLE
         else forward_packet rs p next_hop next_hop_iface
   }"

definition translate_incoming :: "router_state \<Rightarrow> packet \<Rightarrow> iface_entry \<Rightarrow> (packet \<times> router_state) option" where
  "translate_incoming rs p iface = (if if_is_wan iface then do {
       rs \<leftarrow> lock_nat_table rs;
       (p, rs) \<leftarrow> process_nat_ext_packet rs p;
       rs \<leftarrow> unlock_nat_table rs;
       Some (p, rs)
     } else Some (p, rs))"

definition dispatch_packet :: "router_state \<Rightarrow> packet \<Rightarrow> string \<Rightarrow> router_state option" where
  "dispatch_packet rs p interface = do {
     iface \<leftarrow> get_iface rs interface;
     (p, rs) \<leftarrow> translate_incoming rs p iface;
     ip \<leftarrow> get_ip_hdr p;
     if iface_match_ip rs (ip_dst ip) then local_packet rs p interface
     else if ip_dst ip = htonl PWOSPF_HELLO_TIP then process_pwospf_packet rs p interface
     else if ip_p ip = IP_PROTO_CCCP then process_cccp_packet rs p interface
     else transit_packet rs p interface
   }"

definition process_ip_packet :: "router_state \<Rightarrow> packet \<Rightarrow> string \<Rightarrow> router_state option" where
  "process_ip_packet rs p interface = do {
     valid \<leftarrow> is_packet_valid p;
     if \<not> valid then Some rs
     else do {
       rs \<leftarrow> lock_arp_cache_rd rs;
       rs \<leftarrow> lock_arp_queue_wr rs;
       rs \<leftarrow> lock_if_list_rd rs;
       rs \<leftarrow> lock_rtable_rd rs;
       rs \<leftarrow> dispatch_packet rs p interface;
       rs \<leftarrow> unlock_rtable rs;
       rs \<leftarrow> unlock_if_list rs;
       rs \<leftarrow> unlock_arp_queue rs;
       unlock_arp_cache rs
     }
   }"

definition process_packet :: "router_state \<Rightarrow> packet \<Rightarrow> string \<Rightarrow> router_state option" where
  "process_packet rs p interface = do {
     (active, rs) \<leftarrow> iface_is_active rs interface;
     if \<not> active then Some rs
     else do {
       ether_hdr \<leftarrow> get_eth_hdr p;
       if ntohs (eth_type ether_hdr) = ETH_TYPE_IP then process_ip_packet rs p interface
       else if ntohs (eth_type ether_hdr) = ETH_TYPE_ARP then process_arp_packet rs p interface
       else Some rs
     }
   }"

section \<open>The locks\<close>

text \<open>The locks that \<open>process_ip_packet\<close> holds while it handles a packet.\<close>

definition ip_locks :: "lock \<Rightarrow> lock_state" where
  "ip_locks = (\<lambda>_. Free)(L_arp_cache := Reading 0, L_arp_queue := Writing, L_if_list := Reading 0, L_rtable := Reading 0)"

abbreviation ip_locked :: "router_state \<Rightarrow> router_state" where
  "ip_locked rs \<equiv> rs\<lparr>locks := ip_locks\<rparr>"

abbreviation unlocked :: "router_state \<Rightarrow> router_state" where
  "unlocked rs \<equiv> rs\<lparr>locks := \<lambda>_. Free\<rparr>"

lemma unlocked_same: "all_free rs \<Longrightarrow> unlocked rs = rs"
  by (simp add: all_free_def)

lemma process_ip_packet_locked:
  assumes "all_free rs" "is_packet_valid p = Some True" "dispatch_packet (ip_locked rs) p interface = Some rs'"
    "locks rs' = ip_locks"
  shows "process_ip_packet rs p interface = Some (unlocked rs')"
proof -
  have fr: "locks rs l = Free" for l using assms(1) by (simp add: all_free_def)
  have "set_lock L_rtable (Reading 0) (set_lock L_if_list (Reading 0) (set_lock L_arp_queue Writing
      (set_lock L_arp_cache (Reading 0) rs))) = ip_locked rs"
    using assms(1) by (simp add: set_lock_def all_free_def ip_locks_def)
  moreover have "set_lock L_arp_cache Free (set_lock L_arp_queue Free (set_lock L_if_list Free
      (set_lock L_rtable Free rs'))) = unlocked rs'"
    by (simp add: set_lock_def assms(4) ip_locks_def fun_upd_idem fun_upd_twist)
  ultimately show ?thesis
    using assms(2-4) by (simp add: process_ip_packet_def lock_wrappers free_locks fr ip_locks_def)
qed

lemma ip_locked_frame:
  "get_iface (rs\<lparr>locks := f\<rparr>) = get_iface rs" "iface_match_ip (rs\<lparr>locks := f\<rparr>) = iface_match_ip rs"
  "get_next_hop (rs\<lparr>locks := f\<rparr>) = get_next_hop rs"
  by (intro ext, simp add: get_iface_def iface_match_ip_def get_next_hop_def)+

section \<open>Forwarding\<close>

text \<open>What the conditions of a packet in transit are, for interfaces that are not the WAN interface.\<close>

definition arrives :: "router_state \<Rightarrow> packet \<Rightarrow> string \<Rightarrow> ip_hdr \<Rightarrow> bool" where
  "arrives rs p interface h \<longleftrightarrow> all_free rs \<and> is_packet_valid p = Some True \<and> get_ip_hdr p = Some h
     \<and> (\<exists>iface eth. get_iface rs interface = Some iface \<and> if_is_active iface \<and> \<not> if_is_wan iface
          \<and> get_eth_hdr p = Some eth \<and> eth_type eth = htons ETH_TYPE_IP)
     \<and> \<not> iface_match_ip rs (ip_dst h) \<and> ip_dst h \<noteq> htonl PWOSPF_HELLO_TIP"

lemma valid_hl: "is_packet_valid p = Some True \<Longrightarrow> get_ip_hdr p = Some h \<Longrightarrow> ip_hl h = 5"
  by (simp add: is_packet_valid_def split: if_splits)

lemma arrives_process_packet:
  assumes "arrives rs p interface h"
  shows "process_packet rs p interface = process_ip_packet rs p interface"
proof -
  obtain iface eth where a: "all_free rs" "get_iface rs interface = Some iface" "if_is_active iface"
    "get_eth_hdr p = Some eth" "eth_type eth = htons ETH_TYPE_IP"
    using assms by (auto simp: arrives_def)
  have "iface_is_active rs interface = Some (True, rs)"
    using a(1-3) by (simp add: iface_is_active_def lock_wrappers free_locks all_free_def get_iface_def frame_simps
        Let_def set_lock_def fun_upd_idem)
  then show ?thesis using a(4,5) by (simp add: process_packet_def)
qed

lemma arrives_dispatch:
  assumes "arrives rs p interface h"
    "(if ip_p h = IP_PROTO_CCCP then process_cccp_packet (ip_locked rs) p interface
      else transit_packet (ip_locked rs) p interface) = Some rs'" "locks rs' = ip_locks"
  shows "process_packet rs p interface = Some (unlocked rs')"
proof -
  obtain iface eth where a: "all_free rs" "is_packet_valid p = Some True" "get_ip_hdr p = Some h"
    "get_iface rs interface = Some iface" "if_is_active iface" "\<not> if_is_wan iface"
    "get_eth_hdr p = Some eth" "eth_type eth = htons ETH_TYPE_IP"
    "\<not> iface_match_ip rs (ip_dst h)" "ip_dst h \<noteq> htonl PWOSPF_HELLO_TIP"
    using assms(1) by (auto simp: arrives_def)
  have "dispatch_packet (ip_locked rs) p interface = Some rs'"
    using a assms(2) by (simp add: dispatch_packet_def translate_incoming_def ip_locked_frame split: if_splits)
  from process_ip_packet_locked [OF a(1,2) this assms(3)]
  show ?thesis by (simp add: arrives_process_packet [OF assms(1)])
qed

lemma transit_forwarded:
  assumes "arrives rs p interface h" "ip_p h \<noteq> IP_PROTO_CCCP" "get_next_hop rs IF_LEN (ip_dst h) = Some (hop, out)"
    "\<not> strncmp_eq interface out IF_LEN" "get_iface rs out = Some ie" "\<not> if_is_wan ie" "out \<in> eth_ports" "ip_ttl h \<noteq> 1"
  shows "\<exists>q. forwarded ie p q \<and> process_packet rs p interface = Some (sent_ip rs ie q hop out)"
proof -
  have a: "all_free rs" "is_packet_valid p = Some True" "get_ip_hdr p = Some h"
    using assms(1) by (simp_all add: arrives_def)
  have "ip_hl h = 5" using valid_hl a by blast
  with a(3) obtain q where q: "forwarded ie p q"
    "forward_packet (ip_locked rs) p hop out = Some (sent_ip (ip_locked rs) ie q hop out)"
    using forward_packet_sends [of p h "ip_locked rs" out ie hop] assms(5-8)
    by (auto simp: ip_locked_frame) (auto simp: ip_locks_def)
  have "transit_packet (ip_locked rs) p interface = Some (sent_ip (ip_locked rs) ie q hop out)"
    using a(3) assms(3,4) q(2) by (simp add: transit_packet_def ip_locked_frame)
  from arrives_dispatch [OF assms(1), of "sent_ip (ip_locked rs) ie q hop out"] this assms(2)
  have "process_packet rs p interface = Some (unlocked (sent_ip (ip_locked rs) ie q hop out))"
    by (simp add: sent_ip_locks)
  with q(1) unlocked_same [OF a(1)] show ?thesis by (auto simp: sent_ip_locks)
qed


lemma sent_ip_frame:
  "get_iface (sent_ip rs ie p hop out) = get_iface rs" "iface_match_ip (sent_ip rs ie p hop out) = iface_match_ip rs"
  "get_next_hop (sent_ip rs ie p hop out) = get_next_hop rs" "ctable (sent_ip rs ie p hop out) = ctable rs"
  "netfpga (sent_ip rs ie p hop out) = netfpga rs" "is_netfpga (sent_ip rs ie p hop out) = is_netfpga rs"
  by (simp_all add: sent_ip_def get_iface_def iface_match_ip_def get_next_hop_def emit_def fun_eq_iff
      split: option.split)

lemma ctable_over_eth_cong:
  "ctable rs' = ctable rs \<Longrightarrow> netfpga rs' = netfpga rs \<Longrightarrow> is_netfpga rs' = is_netfpga rs \<Longrightarrow>
     ctable_over_eth rs' = ctable_over_eth rs"
  by (simp add: ctable_over_eth_def ctable_ok_def ctable_mirrored_def)


section \<open>A router with two interfaces\<close>

definition sample_iface3 :: iface_entry where
  "sample_iface3 = sample_iface\<lparr>if_name := ''eth3'', if_ip := 0x0100000B\<rparr>"

definition sample_gateway :: router_state where
  "sample_gateway = sample_router\<lparr>is_netfpga := False, if_list := [sample_iface, sample_iface3]\<rparr>"

lemma sample_gateway_facts:
  "get_next_hop sample_gateway IF_LEN d = Some (d, ''eth0'')" "get_iface sample_gateway ''eth0'' = Some sample_iface"
  "get_iface sample_gateway ''eth3'' = Some sample_iface3" "all_free sample_gateway" "ctable sample_gateway = []"
  "iface_match_ip sample_gateway d \<longleftrightarrow> d = 0x0100000A \<or> d = 0x0100000B" "ctable_over_eth sample_gateway"
proof -
  show "get_next_hop sample_gateway IF_LEN d = Some (d, ''eth0'')"
    using sample_router_route(1) by (simp add: sample_gateway_def get_next_hop_def IF_LEN_def)
  show "get_iface sample_gateway ''eth0'' = Some sample_iface" "get_iface sample_gateway ''eth3'' = Some sample_iface3"
    by (simp_all add: sample_gateway_def get_iface_def iface_named_def sample_iface_def sample_iface3_def SR_NAMELEN_def)
  show "all_free sample_gateway" "ctable sample_gateway = []"
    by (simp_all add: sample_gateway_def sample_router_def empty_router_def all_free_def)
  then show "ctable_over_eth sample_gateway"
    by (simp add: ctable_over_eth_def ctable_ok_def) (simp add: sample_gateway_def)
  show "iface_match_ip sample_gateway d \<longleftrightarrow> d = 0x0100000A \<or> d = 0x0100000B"
    by (auto simp: sample_gateway_def iface_match_ip_def sample_iface_def sample_iface3_def)
qed

lemma sample_arrives:
  assumes "get_ip_hdr p = Some h" "ip_dst h \<notin> {0x0100000A, 0x0100000B, 0x050000E0}" "is_packet_valid p = Some True"
    "get_eth_hdr p = Some eth" "eth_type eth = htons ETH_TYPE_IP" "interface = ''eth0'' \<or> interface = ''eth3''"
  shows "arrives sample_gateway p interface h"
  using assms sample_gateway_facts
  by (auto simp: arrives_def sample_iface_def sample_iface3_def PWOSPF_HELLO_TIP_def htonl_def le32_def byte_of_def)

definition sample_transit :: packet where
  "sample_transit = replicate 12 0 @ [8, 0, 0x45, 0, 0, 46, 0, 1, 0, 0, 64, 17, 0x66, 0xbc,
     10, 0, 0, 1, 10, 0, 0, 2] @ replicate 26 0"

lemmas sample_packet_defs = hdr_access_defs load_def dec_ip_hdr_def dec_eth_hdr_def lo_nibble_def hi_nibble_def le32_def
  le16_def is_packet_valid_def verify_checksum_def IP_FRAG_MF_def IP_FRAG_OFFMASK_def ntohs_def htons_def byte_of_def
  ETH_TYPE_IP_def

lemma sample_transit_arrives:
  "\<exists>h. arrives sample_gateway sample_transit ''eth3'' h \<and> ip_dst h = 0x0200000A \<and> ip_p h \<noteq> IP_PROTO_CCCP \<and> ip_ttl h \<noteq> 1"
proof -
  obtain h where h: "get_ip_hdr sample_transit = Some h" "ip_dst h = 0x0200000A" "ip_p h \<noteq> IP_PROTO_CCCP" "ip_ttl h \<noteq> 1"
    by (simp add: sample_transit_def hdr_access_defs load_def dec_ip_hdr_def le32_def IP_PROTO_CCCP_def)
  obtain eth where e: "get_eth_hdr sample_transit = Some eth" "eth_type eth = htons ETH_TYPE_IP"
    by (simp add: sample_transit_def sample_packet_defs nth_append)
  have v: "is_packet_valid sample_transit = Some True"
    by (simp add: sample_transit_def sample_packet_defs)
  have "arrives sample_gateway sample_transit ''eth3'' h" using sample_arrives h v e by simp
  with h show ?thesis by blast
qed

lemma sample_ports: "\<not> strncmp_eq ''eth3'' ''eth0'' IF_LEN" "\<not> if_is_wan sample_iface" "''eth0'' \<in> eth_ports"
  by (simp_all add: strncmp_eq_def IF_LEN_def sample_iface_def eth_ports_def)



section \<open>Protocols that cannot be translated\<close>

lemma forward_packet_wan_fault:
  assumes "get_iface rs out = Some ie" "if_is_wan ie" "get_ip_hdr p = Some h"
    "ip_p h \<notin> {IP_PROTO_ICMP, IP_PROTO_TCP, IP_PROTO_UDP}"
  shows "forward_packet rs p hop out = None"
proof -
  have "process_nat_int_packet r p ext = None" for r ext
    using assms(3,4) by (simp add: process_nat_int_packet_def)
  then have "translate_outgoing rs p ie = None"
    using assms(2) by (cases "lock_nat_table rs") (simp_all add: translate_outgoing_def)
  with assms(1) show ?thesis by (simp add: forward_packet_def)
qed

lemma learning_keeps_ifaces:
  "learn_content rs p i = Some rs' \<Longrightarrow> get_iface rs' = get_iface rs"
  "del_content rs n v i = Some (k, rs') \<Longrightarrow> get_iface rs' = get_iface rs"
proof -
  have t: "trigger_ctable_modified r = Some r' \<Longrightarrow> if_list r' = if_list r" for r r'
    by (auto simp: trigger_ctable_modified_def write_ctable_to_hw_def bind_eq_Some_conv split: if_splits)
  have "add_content rs n v hop i = Some (r, rs') \<Longrightarrow> if_list rs' = if_list rs" for n v hop r rs'
    by (auto simp: add_content_def bind_eq_Some_conv Let_def dest!: t split: if_splits option.splits)
  then show "learn_content rs p i = Some rs' \<Longrightarrow> get_iface rs' = get_iface rs"
    by (fastforce simp: learn_content_def get_iface_def bind_eq_Some_conv fun_eq_iff split: if_splits)
  show "del_content rs n v i = Some (k, rs') \<Longrightarrow> get_iface rs' = get_iface rs"
    by (auto simp: del_content_def get_iface_def bind_eq_Some_conv Let_def fun_eq_iff dest!: t)
qed

text \<open>A packet in transit whose protocol is not TCP, UDP or ICMP and whose route leads over the WAN
  interface brings the router down: translation counts a hit through a null pointer. This holds for
  the content replies and rejects of CCDN as well.\<close>

theorem wan_protocol_faults:
  assumes "arrives rs p interface h" "ip_p h \<notin> {IP_PROTO_ICMP, IP_PROTO_TCP, IP_PROTO_UDP}"
    "if ip_p h = IP_PROTO_CCCP then get_cccp_hdr p = Some c \<and> cccp_type c \<noteq> CCCP_TYPE_REQUEST
     else \<not> strncmp_eq interface out IF_LEN"
    "get_next_hop rs IF_LEN (ip_dst h) = Some (hop, out)" "get_iface rs out = Some ie" "if_is_wan ie"
  shows "process_packet rs p interface = None"
proof -
  obtain iface where a: "all_free rs" "is_packet_valid p = Some True" "get_ip_hdr p = Some h"
    "get_iface rs interface = Some iface" "\<not> if_is_wan iface"
    "\<not> iface_match_ip rs (ip_dst h)" "ip_dst h \<noteq> htonl PWOSPF_HELLO_TIP"
    using assms(1) by (auto simp: arrives_def)
  note fault = forward_packet_wan_fault [OF _ assms(6) a(3) assms(2), of _ out hop]
  have out: "get_iface (ip_locked rs) out = Some ie" "get_next_hop (ip_locked rs) IF_LEN (ip_dst h) = Some (hop, out)"
    using assms(4,5) by (simp_all add: ip_locked_frame)
  have "(if ip_p h = IP_PROTO_CCCP then process_cccp_packet (ip_locked rs) p interface
      else transit_packet (ip_locked rs) p interface) = None"
  proof (cases "ip_p h = IP_PROTO_CCCP")
    case True
    then have "get_cccp_hdr p = Some c" "cccp_type c \<noteq> CCCP_TYPE_REQUEST" using assms(3) by simp_all
    moreover have "Option.bind (learn_content (ip_locked rs) p interface) (\<lambda>rs. forward_packet rs p hop out) = None"
      using fault learning_keeps_ifaces(1) out(1) by (cases "learn_content (ip_locked rs) p interface") fastforce+
    moreover have "Option.bind (del_content (ip_locked rs) (cccp_content c) (ntohs (cccp_vn c)) interface)
        (\<lambda>(n, rs). forward_packet rs p hop out) = None"
      using fault learning_keeps_ifaces(2) out(1)
      by (cases "del_content (ip_locked rs) (cccp_content c) (ntohs (cccp_vn c)) interface") fastforce+
    ultimately show ?thesis using True a(3) fault [OF out(1)] out(2) by (simp add: process_cccp_packet_def)
  next
    case False
    then show ?thesis using a(3) assms(3) fault [OF out(1)] out(2) by (simp add: transit_packet_def)
  qed
  then have d: "dispatch_packet (ip_locked rs) p interface = None"
    using a(3-7) by (simp add: dispatch_packet_def translate_incoming_def ip_locked_frame split: if_splits)
  have fr: "locks rs l = Free" for l using a(1) by (simp add: all_free_def)
  have "set_lock L_rtable (Reading 0) (set_lock L_if_list (Reading 0) (set_lock L_arp_queue Writing
      (set_lock L_arp_cache (Reading 0) rs))) = ip_locked rs"
    using a(1) by (simp add: set_lock_def all_free_def ip_locks_def)
  then have "process_ip_packet rs p interface = None"
    using a(2) d by (simp add: process_ip_packet_def lock_wrappers free_locks fr)
  then show ?thesis by (simp add: arrives_process_packet [OF assms(1)])
qed

text \<open>A reply that arrives on the interface \<open>eth3\<close> for a destination behind the WAN interface \<open>eth0\<close>.\<close>

definition sample_wan_router :: router_state where
  "sample_wan_router = sample_gateway\<lparr>if_list := [sample_iface\<lparr>if_is_wan := True\<rparr>, sample_iface3]\<rparr>"

theorem wan_protocol_faults_witness: "process_packet sample_wan_router sample_reply ''eth3'' = None"
proof -
  let ?c = "\<lparr>cccp_type = CCCP_TYPE_REPLY, cccp_identifier = 0, cccp_checksum = 0, cccp_content = 0x01010101, cccp_vn = htons 3\<rparr>"
  obtain h where h: "get_ip_hdr sample_reply = Some h" "ip_dst h = 0x0900000A" "ip_p h = IP_PROTO_CCCP"
    by (simp add: sample_reply_def sample_cccp_headers dec_ip_hdr_def le32_def IP_PROTO_CCCP_def)
  obtain eth where e: "get_eth_hdr sample_reply = Some eth" "eth_type eth = htons ETH_TYPE_IP"
    by (simp add: sample_reply_def sample_cccp_def sample_packet_defs nth_append)
  have v: "is_packet_valid sample_reply = Some True"
    by (simp add: sample_reply_def sample_cccp_def sample_packet_defs)
  have "arrives sample_gateway sample_reply ''eth3'' h" using sample_arrives h v e by simp
  then have a: "arrives sample_wan_router sample_reply ''eth3'' h"
    by (auto simp: arrives_def sample_wan_router_def sample_gateway_def get_iface_def iface_match_ip_def
        sample_iface_def sample_iface3_def iface_named_def SR_NAMELEN_def all_free_def)
  have p: "ip_p h \<notin> {IP_PROTO_ICMP, IP_PROTO_TCP, IP_PROTO_UDP}"
    by (simp add: h(3) IP_PROTO_CCCP_def IP_PROTO_ICMP_def IP_PROTO_TCP_def IP_PROTO_UDP_def)
  have c: "if ip_p h = IP_PROTO_CCCP then get_cccp_hdr sample_reply = Some ?c \<and> cccp_type ?c \<noteq> CCCP_TYPE_REQUEST
     else \<not> strncmp_eq ''eth3'' ''eth0'' IF_LEN"
    by (simp add: h(3) sample_reply_def sample_cccp_headers) (simp add: cccp_types)
  have r: "get_next_hop sample_wan_router IF_LEN (ip_dst h) = Some (ip_dst h, ''eth0'')"
    using sample_gateway_facts(1) by (simp add: sample_wan_router_def get_next_hop_def)
  have i: "get_iface sample_wan_router ''eth0'' = Some (sample_iface\<lparr>if_is_wan := True\<rparr>)"
    by (simp add: sample_wan_router_def get_iface_def iface_named_def sample_iface_def SR_NAMELEN_def)
  show ?thesis by (rule wan_protocol_faults [OF a p c r i]) simp
qed

end
