(* ===== verification/Ip_Locks.thy ===== *)
theory Ip_Locks
  imports Ip
begin

text \<open>
  The locks around packet processing: whatever \<open>process_ip_packet\<close> does with a packet, it gives back
  what it has taken; the one exception is the mutex of the router list.
\<close>

section \<open>What the operations leave locked\<close>

named_theorems locks_frame \<open>the locks after an operation\<close>

lemma locks_lock_ops [locks_frame]:
  "pthread_mutex_lock l rs = Some rs' \<Longrightarrow> locks rs l = Free \<and> locks rs' = (locks rs)(l := Writing)"
  "pthread_mutex_unlock l rs = Some rs' \<Longrightarrow> locks rs' = (locks rs)(l := Free)"
  "pthread_rwlock_rdlock l rs = Some rs' \<Longrightarrow> locks rs l = Free \<longrightarrow> locks rs' = (locks rs)(l := Reading 0)"
  "pthread_rwlock_wrlock l rs = Some rs' \<Longrightarrow> locks rs l = Free \<longrightarrow> locks rs' = (locks rs)(l := Writing)"
  "pthread_rwlock_unlock l rs = Some rs' \<Longrightarrow>
     locks rs l = Reading 0 \<or> locks rs l = Writing \<longrightarrow> locks rs' = (locks rs)(l := Free)"
  by (auto simp: pthread_mutex_lock_def pthread_mutex_unlock_def pthread_rwlock_rdlock_def
      pthread_rwlock_wrlock_def pthread_rwlock_unlock_def split: if_splits lock_state.splits nat.splits)

lemma locks_send_packet [locks_frame]: "send_packet p i rs = Some (r, rs') \<Longrightarrow> locks rs' = locks rs"
  by (auto simp: send_packet_def netfpga_output_def bind_eq_Some_conv emit_def fun_upd_idem fun_upd_twist
      dest!: locks_frame split: if_splits)

lemma locks_send_ip [locks_frame]: "send_ip rs p hop i = Some (r, rs') \<Longrightarrow> locks rs' = locks rs"
  by (auto simp: send_ip_def arp_queue_add_def send_arp_request_def bind_eq_Some_conv Let_def
      dest!: locks_send_packet split: if_splits option.splits)

lemma locks_send_icmp [locks_frame]: "send_icmp_packet rs p ty code = Some (r, rs') \<Longrightarrow> locks rs' = locks rs"
  by (auto simp: send_icmp_packet_def bind_eq_Some_conv Let_def dest!: locks_send_ip split: option.splits)

lemma locks_send_unreachable [locks_frame]: "send_unreachable rs p code = Some rs' \<Longrightarrow> locks rs' = locks rs"
  by (auto simp: send_unreachable_def dest!: locks_send_icmp)

lemma locks_process_icmp [locks_frame]: "process_icmp_packet rs p i = Some rs' \<Longrightarrow> locks rs' = locks rs"
  by (auto simp: process_icmp_packet_def process_icmp_echo_reply_packet_def lock_wrappers bind_eq_Some_conv emit_def
      Let_def fun_upd_idem dest!: locks_frame split: if_splits)

lemma locks_nat [locks_frame]:
  "process_nat_ext_packet rs p = Some (p', rs') \<Longrightarrow> locks rs' = locks rs"
  "process_nat_int_packet rs p ext = Some (p', rs') \<Longrightarrow> locks rs' = locks rs"
proof -
  show "process_nat_ext_packet rs p = Some (p', rs') \<Longrightarrow> locks rs' = locks rs"
    by (auto simp: process_nat_ext_packet_def bind_eq_Some_conv nat_hit_def Let_def split: option.splits)
  have "create_nat_table_entry rs p ext = Some (k, rs') \<Longrightarrow> locks rs' = locks rs" for k rs'
    by (auto simp: create_nat_table_entry_def bind_eq_Some_conv Let_def emit_def rand_def drawn_def
        split: prod.splits dest!: draw_nat_port_result)
  then show "process_nat_int_packet rs p ext = Some (p', rs') \<Longrightarrow> locks rs' = locks rs"
    by (auto simp: process_nat_int_packet_def bind_eq_Some_conv nat_hit_def Let_def split: if_splits option.splits)
qed

lemma locks_translate [locks_frame]:
  "translate_outgoing rs p iface = Some (p', rs') \<Longrightarrow> locks rs' = locks rs"
  "translate_incoming rs p iface = Some (p', rs') \<Longrightarrow> locks rs' = locks rs"
  by (auto simp: translate_outgoing_def translate_incoming_def lock_wrappers bind_eq_Some_conv fun_upd_idem
      dest!: locks_frame split: if_splits)

lemma locks_forward [locks_frame]: "forward_packet rs p hop out = Some rs' \<Longrightarrow> locks rs' = locks rs"
  by (auto simp: forward_packet_def bind_eq_Some_conv dest!: locks_frame split: if_splits)

lemma locks_content [locks_frame]:
  "add_content rs n v hop i = Some (r, rs') \<Longrightarrow> locks rs' = locks rs"
  "del_content rs n v i = Some (k, rs') \<Longrightarrow> locks rs' = locks rs"
  "get_nexthop_by_content rs n v i = Some (hit, rs') \<Longrightarrow> locks rs' = locks rs"
proof -
  have t: "trigger_ctable_modified r = Some r' \<Longrightarrow> locks r' = locks r" for r r'
    by (auto simp: trigger_ctable_modified_def write_ctable_to_hw_def bind_eq_Some_conv split: if_splits)
  show "add_content rs n v hop i = Some (r, rs') \<Longrightarrow> locks rs' = locks rs"
    by (auto simp: add_content_def bind_eq_Some_conv Let_def dest!: t split: if_splits option.splits)
  show "del_content rs n v i = Some (k, rs') \<Longrightarrow> locks rs' = locks rs"
    by (auto simp: del_content_def bind_eq_Some_conv Let_def dest!: t)
  show "get_nexthop_by_content rs n v i = Some (hit, rs') \<Longrightarrow> locks rs' = locks rs"
    by (erule keepsD_pair) (auto simp: get_nexthop_by_content_def Let_def intro!: keeps_intros dest!: t split: if_splits)
qed

lemma locks_redirect [locks_frame]:
  "redirect_request rs p i = Some (p', rs') \<Longrightarrow> locks rs' = locks rs"
  "learn_content rs p i = Some rs' \<Longrightarrow> locks rs' = locks rs"
  by (auto simp: redirect_request_def learn_content_def bind_eq_Some_conv dest!: locks_frame split: if_splits option.splits)

lemma locks_cccp [locks_frame]: "process_cccp_packet rs p i = Some rs' \<Longrightarrow> locks rs' = locks rs"
  by (erule keepsD) (auto simp: process_cccp_packet_def intro!: keeps_intros
      dest!: locks_redirect locks_content split: option.split, auto intro!: keepsI dest!: locks_frame)

lemma locks_transit [locks_frame]: "transit_packet rs p i = Some rs' \<Longrightarrow> locks rs' = locks rs"
  by (auto simp: transit_packet_def bind_eq_Some_conv dest!: locks_frame split: if_splits option.splits)

section \<open>PWOSPF packets\<close>

lemma locks_flood [locks_frame]:
  "start_lsu_bcast_flood rs = Some rs' \<Longrightarrow> locks rs' = locks rs"
  "propagate_pwospf_changes rs = Some rs' \<Longrightarrow> locks rs' = locks rs"
  "rebroadcast_lsu_packet rs p ttl = Some rs' \<Longrightarrow> locks rs' = locks rs"
proof -
  have push: "lsu_queue_push e r = Some r' \<Longrightarrow> locks r' = locks r" for e r r'
    by (auto simp: lsu_queue_push_def lock_wrappers bind_eq_Some_conv fun_upd_idem dest!: locks_frame)
  have nbrs: "broadcast_to_nbrs pw src_ip i ns r = Some r' \<Longrightarrow> locks r' = locks r" for pw src_ip i ns r r'
    by (induction pw src_ip i ns r rule: broadcast_to_nbrs.induct)
      (auto simp: bind_eq_Some_conv dest: push split: if_splits)
  have ifaces: "broadcast_to_ifaces pw src_ip il r = Some r' \<Longrightarrow> locks r' = locks r" for pw src_ip il r r'
    by (induction pw src_ip il r rule: broadcast_to_ifaces.induct)
      (auto simp: bind_eq_Some_conv dest: nbrs split: if_splits)
  show flood: "start_lsu_bcast_flood rs = Some rs' \<Longrightarrow> locks rs' = locks rs" for rs rs'
    by (auto simp: start_lsu_bcast_flood_def construct_pwospf_lsu_packet_def broadcast_pwospf_lsu_packet_def
        update_router_def bind_eq_Some_conv Let_def dest!: ifaces split: if_splits)
  show "propagate_pwospf_changes rs = Some rs' \<Longrightarrow> locks rs' = locks rs"
    by (auto simp: propagate_pwospf_changes_def dijkstra_trigger_def emit_def Let_def dest!: flood)
  show "rebroadcast_lsu_packet rs p ttl = Some rs' \<Longrightarrow> locks rs' = locks rs"
    by (auto simp: rebroadcast_lsu_packet_def broadcast_pwospf_lsu_packet_def bind_eq_Some_conv Let_def
        dest!: ifaces split: if_splits)
qed

text \<open>The locks a packet handler may leave: as it found them, the interface list or the routing table
  locked for writing, and after a hello packet with another mask also the router list.\<close>

definition handler_locks :: "(lock \<Rightarrow> lock_state) \<Rightarrow> bool" where
  "handler_locks f \<longleftrightarrow> f L_arp_cache = Reading 0 \<and> f L_arp_queue = Writing \<and> f L_if_list \<in> {Reading 0, Writing}
     \<and> f L_rtable \<in> {Reading 0, Writing}
     \<and> (\<forall>l. l \<notin> {L_arp_cache, L_arp_queue, L_if_list, L_rtable, L_pwospf_router_list} \<longrightarrow> f l = Free)"

lemma handler_locks_ip_locks: "handler_locks ip_locks"
  by (simp add: handler_locks_def ip_locks_def)

lemma locks_emit [simp]: "locks (emit e rs) = locks rs"
  by (simp add: emit_def)

lemma locks_update_router_list [locks_frame]:
  "update_router_list rs p = Some (rs', b, c) \<Longrightarrow> locks rs' = locks rs"
  by (auto simp: update_router_list_def add_new_router_neighbor_def update_router_def bind_eq_Some_conv
      split: if_splits option.splits)

lemma hello_locks:
  assumes "locks rs = ip_locks"
  shows "keeps (\<lambda>rs. handler_locks (locks rs)) True (process_pwospf_hello_packet rs p interface)"
  unfolding process_pwospf_hello_packet_def lock_wrappers Let_def using assms
  by (auto intro!: keeps_intros dest!: locks_frame simp: handler_locks_def ip_locks_def
      update_iface_def update_router_def, auto intro!: keepsI dest!: locks_frame)

lemma lsu_locks:
  assumes "locks rs = ip_locks"
  shows "keeps (\<lambda>rs. handler_locks (locks rs)) True (process_pwospf_lsu_packet rs p interface)"
  unfolding process_pwospf_lsu_packet_def lock_wrappers Let_def using assms
  by (auto intro!: keeps_intros dest!: locks_frame split: if_splits simp: handler_locks_def ip_locks_def)

lemma pwospf_locks:
  assumes "locks rs = ip_locks"
  shows "keeps (\<lambda>rs. handler_locks (locks rs)) True (process_pwospf_packet rs p interface)"
  unfolding process_pwospf_packet_def
  by (auto intro!: keeps_intros hello_locks lsu_locks simp: assms handler_locks_ip_locks)

section \<open>A whole packet\<close>

lemma dispatch_locks:
  assumes "dispatch_packet rs p interface = Some rs'" "locks rs = ip_locks"
  shows "handler_locks (locks rs')"
proof -
  have pw: "process_pwospf_packet r q interface = Some r' \<Longrightarrow> locks r = ip_locks \<Longrightarrow> handler_locks (locks r')" for r q r'
    using pwospf_locks by (auto simp: keeps_def)
  have "local_packet r q interface = Some r' \<Longrightarrow> locks r = ip_locks \<Longrightarrow> handler_locks (locks r')" for r q r'
    by (auto simp: local_packet_def bind_eq_Some_conv handler_locks_ip_locks intro: pw dest!: locks_frame split: if_splits)
  with assms show ?thesis
    by (auto simp: dispatch_packet_def bind_eq_Some_conv handler_locks_ip_locks intro: pw dest!: locks_frame split: if_splits)
qed

text \<open>C40: locks are balanced. Whatever packet arrives, when \<open>process_ip_packet\<close> returns it has given
  back every lock it took, and left no other lock taken, except for the mutex of the router list
  after a hello packet with another mask.\<close>

theorem ip_packet_locks_balanced:
  assumes "all_free rs" "process_ip_packet rs p interface = Some rs'" "l \<noteq> L_pwospf_router_list"
  shows "locks rs' l = Free"
proof (cases "is_packet_valid p = Some False")
  case True
  with assms show ?thesis by (simp add: process_ip_packet_def all_free_def)
next
  case False
  have fr: "locks rs l = Free" for l using assms(1) by (simp add: all_free_def)
  let ?w = "set_lock L_rtable (Reading 0) (set_lock L_if_list (Reading 0) (set_lock L_arp_queue Writing
      (set_lock L_arp_cache (Reading 0) rs)))"
  have w: "locks ?w = ip_locks" using assms(1) by (simp add: all_free_def ip_locks_def)
  from assms(2) False obtain r1 r2 r3 r4 where r: "dispatch_packet ?w p interface = Some r1"
    "pthread_rwlock_unlock L_rtable r1 = Some r2" "pthread_rwlock_unlock L_if_list r2 = Some r3"
    "pthread_rwlock_unlock L_arp_queue r3 = Some r4" "pthread_rwlock_unlock L_arp_cache r4 = Some rs'"
    by (auto simp: process_ip_packet_def lock_wrappers free_locks fr bind_eq_Some_conv split: if_splits)
  from dispatch_locks [OF r(1) w] have "handler_locks (locks r1)" .
  then show ?thesis using assms(3) locks_lock_ops(5) [OF r(2)] locks_lock_ops(5) [OF r(3)]
      locks_lock_ops(5) [OF r(4)] locks_lock_ops(5) [OF r(5)]
    by (auto simp: handler_locks_def ip_locks_def)
qed

text \<open>The packet of the forwarding example is the witness.\<close>

theorem ip_packet_locks_balanced_witness:
  "\<exists>rs'. process_ip_packet sample_gateway sample_transit ''eth3'' = Some rs' \<and> locks rs' L_rtable = Free"
proof -
  obtain h where h: "arrives sample_gateway sample_transit ''eth3'' h" "ip_dst h = 0x0200000A" "ip_p h \<noteq> IP_PROTO_CCCP" "ip_ttl h \<noteq> 1"
    using sample_transit_arrives by blast
  from transit_forwarded [OF h(1,3) sample_gateway_facts(1) sample_ports(1) sample_gateway_facts(2) sample_ports(2,3) h(4)]
  obtain rs' where "process_ip_packet sample_gateway sample_transit ''eth3'' = Some rs'"
    unfolding arrives_process_packet [OF h(1)] by blast
  with ip_packet_locks_balanced [OF sample_gateway_facts(4) this, of L_rtable] show ?thesis by auto
qed

end
