(* ===== verification/Origin.thy ===== *)
theory Origin
  imports Ip
begin

text \<open>
  The router before content delivery, in sw-origin: the functions in which it differs from the one
  in sw. The comparison of the two is what content delivery has changed for other traffic: nothing
  in packet processing, and the expiry of the ARP cache.
\<close>

section \<open>Packets\<close>

definition dispatch_packet_origin :: "router_state \<Rightarrow> packet \<Rightarrow> string \<Rightarrow> router_state option" where
  "dispatch_packet_origin rs p interface = do {
     iface \<leftarrow> get_iface rs interface;
     (p, rs) \<leftarrow> translate_incoming rs p iface;
     ip \<leftarrow> get_ip_hdr p;
     if iface_match_ip rs (ip_dst ip) then local_packet rs p interface
     else if ip_dst ip = htonl PWOSPF_HELLO_TIP then process_pwospf_packet rs p interface
     else transit_packet rs p interface
   }"

definition process_ip_packet_origin :: "router_state \<Rightarrow> packet \<Rightarrow> string \<Rightarrow> router_state option" where
  "process_ip_packet_origin rs p interface = do {
     valid \<leftarrow> is_packet_valid p;
     if \<not> valid then Some rs
     else do {
       rs \<leftarrow> lock_arp_cache_rd rs;
       rs \<leftarrow> lock_arp_queue_wr rs;
       rs \<leftarrow> lock_if_list_rd rs;
       rs \<leftarrow> lock_rtable_rd rs;
       rs \<leftarrow> dispatch_packet_origin rs p interface;
       rs \<leftarrow> unlock_rtable rs;
       rs \<leftarrow> unlock_if_list rs;
       rs \<leftarrow> unlock_arp_queue rs;
       unlock_arp_cache rs
     }
   }"

definition process_packet_origin :: "router_state \<Rightarrow> packet \<Rightarrow> string \<Rightarrow> router_state option" where
  "process_packet_origin rs p interface = do {
     (active, rs) \<leftarrow> iface_is_active rs interface;
     if \<not> active then Some rs
     else do {
       ether_hdr \<leftarrow> get_eth_hdr p;
       if ntohs (eth_type ether_hdr) = ETH_TYPE_IP then process_ip_packet_origin rs p interface
       else if ntohs (eth_type ether_hdr) = ETH_TYPE_ARP then process_arp_packet rs p interface
       else Some rs
     }
   }"

section \<open>The ARP cache\<close>

text \<open>The walk removes what is dynamic and older than the time to live; \<open>node_remove\<close> of the node
  just passed.\<close>

fun expire_walk_origin :: "int \<Rightarrow> u32 \<Rightarrow> arp_cache_entry list \<Rightarrow> arp_cache_entry list \<times> bool" where
  "expire_walk_origin now ttl [] = ([], False)"
| "expire_walk_origin now ttl (entry # next) =
     (let (rest, timedout_entry) = expire_walk_origin now ttl next
      in if \<not> ac_is_static entry \<and> now - ac_TTL entry > int (unat ttl) then (rest, True)
         else (entry # rest, timedout_entry))"

definition expire_arp_cache_origin :: "router_state \<Rightarrow> router_state" where
  "expire_arp_cache_origin rs = (let (entries, timedout_entry) = expire_walk_origin (clock rs) (arp_ttl rs) (arp_cache rs);
       rs1 = rs\<lparr>arp_cache := entries\<rparr>
     in if timedout_entry then trigger_arp_cache_modified rs1 else rs1)"

definition arp_thread_round_origin :: "router_state \<Rightarrow> router_state option" where
  "arp_thread_round_origin rs = do {
     rs \<leftarrow> lock_arp_cache_wr rs;
     rs \<leftarrow> unlock_arp_cache (expire_arp_cache_origin rs);
     rs \<leftarrow> lock_arp_cache_rd rs;
     rs \<leftarrow> lock_arp_queue_wr rs;
     rs \<leftarrow> lock_if_list_rd rs;
     rs \<leftarrow> lock_rtable_rd rs;
     rs \<leftarrow> process_arp_queue rs;
     rs \<leftarrow> unlock_rtable rs;
     rs \<leftarrow> unlock_if_list rs;
     rs \<leftarrow> unlock_arp_queue rs;
     unlock_arp_cache rs
   }"

definition stale_arp :: "router_state \<Rightarrow> arp_cache_entry \<Rightarrow> bool" where
  "stale_arp rs e \<longleftrightarrow> \<not> ac_is_static e \<and> clock rs - ac_TTL e > int (unat (arp_ttl rs))"

lemma expire_walk_origin_filter:
  "expire_walk_origin now ttl es =
     (filter (\<lambda>e. \<not> (\<not> ac_is_static e \<and> now - ac_TTL e > int (unat ttl))) es,
      \<exists>e\<in>set es. \<not> ac_is_static e \<and> now - ac_TTL e > int (unat ttl))"
  by (induction es) (auto simp: Let_def split: prod.splits)

lemma expire_walk_same: "expire_walk now es = (es, False)"
  by (induction es) simp_all

lemma expire_arp_cache_same: "expire_arp_cache rs = rs"
  by (simp add: expire_arp_cache_def expire_walk_same)

text \<open>Before: exactly the stale entries go, and the card follows. Since: they all stay.\<close>

lemma expire_arp_cache_origin_drops:
  "arp_cache (expire_arp_cache_origin rs) = filter (\<lambda>e. \<not> stale_arp rs e) (arp_cache rs)"
  "is_netfpga rs \<Longrightarrow> arp_mirrored rs \<Longrightarrow> arp_mirrored (expire_arp_cache_origin rs)"
proof -
  have c: "arp_cache (trigger_arp_cache_modified r) = arp_cache r" for r
    by (subst trigger_arp_cache_modified_frame) simp
  show "arp_cache (expire_arp_cache_origin rs) = filter (\<lambda>e. \<not> stale_arp rs e) (arp_cache rs)"
    by (simp add: expire_arp_cache_origin_def expire_walk_origin_filter stale_arp_def c Let_def)
  assume "is_netfpga rs" "arp_mirrored rs"
  moreover have "filter P xs = xs" if "\<not> (\<exists>e\<in>set xs. \<not> P e)" for P and xs :: "arp_cache_entry list"
    using that by (simp add: filter_id_conv)
  ultimately show "arp_mirrored (expire_arp_cache_origin rs)"
    by (auto simp: expire_arp_cache_origin_def expire_walk_origin_filter trigger_arp_cache_modified_mirrors Let_def
        cong: if_cong)
qed

section \<open>Other traffic is handled as before\<close>

definition proto :: "packet \<Rightarrow> u8 option" where
  "proto p = map_option ip_p (get_ip_hdr p)"

interpretation port_number: struct_codec 2 "\<lambda>bs. le16 (bs ! 0) (bs ! 1)" "\<lambda>w. [byte_of 0 w, byte_of 1 w]"
  by unfold_locales (auto simp: numeral_2_eq_2 length_Suc_conv)

named_theorems proto_frame \<open>operations that keep the protocol of a packet\<close>

lemma proto_put [proto_frame]:
  "put_nat_tcp_hdr t p = Some q \<Longrightarrow> proto q = proto p" "put_nat_udp_hdr u p = Some q \<Longrightarrow> proto q = proto p"
  "put_nat_icmp_hdr i p = Some q \<Longrightarrow> proto q = proto p"
  "put_ip_hdr_from_icmp_data h p = Some q \<Longrightarrow> proto q = proto p"
  "put_icmp_hdr_from_icmp_data i p = Some q \<Longrightarrow> proto q = proto p"
  "put_nat_port_list_from_icmp_data k w p = Some q \<Longrightarrow> proto q = proto p"
  by (simp_all add: proto_def get_ip_hdr_def put_nat_tcp_hdr_def put_nat_udp_hdr_def put_nat_icmp_hdr_def
      put_ip_hdr_from_icmp_data_def put_icmp_hdr_from_icmp_data_def put_nat_port_list_from_icmp_data_def layout_defs
      nat_tcp_hdr.load_other nat_udp_hdr.load_other nat_icmp_hdr.load_other ip_hdr.load_other port_number.load_other)

lemma proto_put_ip: "put_ip_hdr h p = Some q \<Longrightarrow> proto q = Some (ip_p h)"
  by (simp add: proto_def put_ip_hdr_laws(1))

lemma proto_get: "get_ip_hdr p = Some h \<Longrightarrow> proto p = Some (ip_p h)"
  by (simp add: proto_def)

lemma proto_nat_steps [proto_frame]:
  "populate_nat_icmp_error p ne ty = Some q \<Longrightarrow> proto q = proto p"
  "nat_transport_checksum p new old = Some q \<Longrightarrow> proto q = proto p"
  "nat_ip_checksum p new old = Some q \<Longrightarrow> proto q = proto p"
  by (auto simp: populate_nat_icmp_error_def nat_transport_checksum_def nat_ip_checksum_def bind_eq_Some_conv Let_def
      dest!: proto_put proto_put_ip proto_get split: if_splits nat_type.splits)

lemma proto_populate [proto_frame]: "populate_nat_packet p ne ty = Some q \<Longrightarrow> proto q = proto p"
  by (auto simp: populate_nat_packet_def bind_eq_Some_conv Let_def
      dest!: proto_frame proto_put_ip proto_get split: if_splits nat_type.splits)

lemma proto_translate: "translate_incoming rs p iface = Some (q, rs') \<Longrightarrow> proto q = proto p"
  by (auto simp: translate_incoming_def process_nat_ext_packet_def bind_eq_Some_conv Let_def
      dest!: proto_frame split: if_splits option.splits)

text \<open>C3: content delivery leaves other traffic alone. On every frame that is not an IP packet of
  protocol CCCP, in every state and on every interface, the router does exactly what it did before:
  the same frames, the same state, and it fails on the same inputs.\<close>

theorem ccdn_keeps_other_traffic:
  assumes "\<And>h. get_ip_hdr p = Some h \<Longrightarrow> ip_p h \<noteq> IP_PROTO_CCCP"
  shows "process_packet rs p interface = process_packet_origin rs p interface"
proof -
  have "dispatch_packet r p interface = dispatch_packet_origin r p interface" for r
  proof -
    have "ip_p h \<noteq> IP_PROTO_CCCP" if "translate_incoming r p iface = Some (q, r')" "get_ip_hdr q = Some h" for iface q r' h
      using proto_translate [OF that(1)] that(2) assms by (cases "get_ip_hdr p") (simp_all add: proto_def)
    then show ?thesis
      by (auto simp: dispatch_packet_def dispatch_packet_origin_def intro!: bind_option_cong)
  qed
  then show ?thesis
    by (simp add: process_packet_def process_packet_origin_def process_ip_packet_def process_ip_packet_origin_def
        cong: if_cong)
qed

theorem ccdn_keeps_other_traffic_witness:
  "process_packet sample_gateway sample_transit ''eth3'' = process_packet_origin sample_gateway sample_transit ''eth3''"
proof (rule ccdn_keeps_other_traffic)
  fix h assume "get_ip_hdr sample_transit = Some h"
  then show "ip_p h \<noteq> IP_PROTO_CCCP"
    by (auto simp: sample_transit_def sample_packet_defs IP_PROTO_CCCP_def)
qed

end
