(* ===== verification/Text.thy ===== *)
theory Text
  imports Prelude
begin

text \<open>
  Text: what the command line and the printers use of the C library (\<open>sscanf\<close>, \<open>inet_pton\<close>,
  \<open>inet_ntop\<close>, the conversions of \<open>snprintf\<close>), and the string functions of or_utils.c. A C string
  is its characters before the NUL; \<open>c_str\<close> cuts a buffer there.
\<close>

section \<open>Characters and numbers\<close>

definition c_str :: "string \<Rightarrow> string" where
  "c_str buf = takeWhile (\<lambda>c. c \<noteq> CHR 0x00) buf"

definition isspace :: "char \<Rightarrow> bool" where
  "isspace c \<longleftrightarrow> c \<in> {CHR '' '', CHR 0x09, CHR 0x0A, CHR 0x0B, CHR 0x0C, CHR 0x0D}"

definition hex_val :: "char \<Rightarrow> nat option" where
  "hex_val c = (let n = of_char c in
     if 48 \<le> n \<and> n \<le> 57 then Some (n - 48)
     else if 65 \<le> n \<and> n \<le> 70 then Some (n - 55)
     else if 97 \<le> n \<and> n \<le> 102 then Some (n - 87) else None)"

definition isxdigit :: "char \<Rightarrow> bool" where "isxdigit c \<longleftrightarrow> hex_val c \<noteq> None"

definition isdigit :: "char \<Rightarrow> bool" where
  "isdigit c \<longleftrightarrow> 48 \<le> (of_char c :: nat) \<and> of_char c \<le> (57 :: nat)"

definition number :: "nat \<Rightarrow> string \<Rightarrow> nat" where
  "number base ds = foldl (\<lambda>n c. base * n + the (hex_val c)) 0 ds"

definition digit :: "nat \<Rightarrow> char" where "digit d = char_of (if d < 10 then 48 + d else 55 + d)"

fun decimal :: "nat \<Rightarrow> string" where
  "decimal n = (if n < 10 then [digit n] else decimal (n div 10) @ [digit (n mod 10)])"

declare decimal.simps [simp del]

definition decimal_int :: "int \<Rightarrow> string" where
  "decimal_int i = (if i < 0 then CHR ''-'' # decimal (nat (- i)) else decimal (nat i))"

lemma of_char_digit: "d < 16 \<Longrightarrow> of_char (digit d) = (if d < 10 then 48 + d else 55 + d)"
  by (simp add: digit_def of_char_of)

lemma hex_val_digit [simp]: "d < 16 \<Longrightarrow> hex_val (digit d) = Some d"
  by (cases "d < 10") (simp_all add: hex_val_def of_char_digit)

lemma isdigit_digit [simp]: "d < 10 \<Longrightarrow> isdigit (digit d)"
  by (simp add: isdigit_def of_char_digit)

lemma decimal_digits: "c \<in> set (decimal n) \<Longrightarrow> isdigit c"
proof (induction n rule: decimal.induct)
  case (1 n)
  then show ?case by (subst (asm) (2) decimal.simps) (auto split: if_splits)
qed

lemma decimal_nonempty [simp]: "decimal n \<noteq> []"
  by (subst decimal.simps) simp_all

lemma number_decimal [simp]: "number 10 (decimal n) = n"
proof (induction n rule: decimal.induct)
  case (1 n)
  then show ?case
    by (subst decimal.simps) (auto simp: number_def)
qed

lemma length_decimal: "n < 10 ^ k \<Longrightarrow> 0 < k \<Longrightarrow> length (decimal n) \<le> k"
proof (induction k arbitrary: n)
  case (Suc k)
  show ?case
  proof (cases "n < 10")
    case False
    then have "0 < k" using Suc.prems(1) by (cases k) simp_all
    moreover have "n div 10 < 10 ^ k" using Suc.prems(1) by (simp add: less_mult_imp_div_less mult.commute)
    ultimately show ?thesis using Suc.IH [of "n div 10"] False by (subst decimal.simps) simp
  qed (subst decimal.simps, simp)
qed simp

section \<open>sscanf\<close>

text \<open>
  The directives the formats use: white space, a character, \<open>%as\<close>, \<open>%u\<close> and \<open>%d\<close>, \<open>%2X\<close>. The result
  are the values assigned, so its length is what \<open>sscanf\<close> returns (0 also for \<open>EOF\<close>, which no
  caller tells apart). A number that does not fit is reduced; the standard leaves it undefined.
\<close>

datatype directive = Skip | Lit char | Word | Num | Hex2

datatype scanned = S string | N u32

fun lit :: "string \<Rightarrow> directive list" where
  "lit [] = []"
| "lit (c # cs) = (if isspace c then Skip else Lit c) # lit cs"

definition scan_sign :: "string \<Rightarrow> bool \<times> string" where
  "scan_sign s = (case s of [] \<Rightarrow> (False, []) | c # cs \<Rightarrow>
     if c = CHR ''-'' then (True, cs) else if c = CHR ''+'' then (False, cs) else (False, s))"

definition signed :: "bool \<Rightarrow> nat \<Rightarrow> u32" where
  "signed neg n = (if neg then - of_nat n else of_nat n)"

fun sscanf :: "directive list \<Rightarrow> string \<Rightarrow> scanned list" where
  "sscanf [] s = []"
| "sscanf (Skip # ds) s = sscanf ds (dropWhile isspace s)"
| "sscanf (Lit c # ds) s = (case s of [] \<Rightarrow> [] | x # xs \<Rightarrow> if x = c then sscanf ds xs else [])"
| "sscanf (Word # ds) s =
     (let t = dropWhile isspace s; w = takeWhile (\<lambda>c. \<not> isspace c) t
      in if w = [] then [] else S w # sscanf ds (drop (length w) t))"
| "sscanf (Num # ds) s =
     (let (neg, t) = scan_sign (dropWhile isspace s); w = takeWhile isdigit t
      in if w = [] then [] else N (signed neg (number 10 w)) # sscanf ds (drop (length w) t))"
| "sscanf (Hex2 # ds) s =
     (let t = dropWhile isspace s; (neg, u) = scan_sign (take 2 t); w = takeWhile isxdigit u
      in if w = [] \<or> u = ''0x'' \<or> u = ''0X'' then []
         else N (signed neg (number 16 w)) # sscanf ds (drop (length (take 2 t) - length u + length w) t))"

section \<open>Addresses\<close>

text \<open>Dotted decimal: four numbers of one to three digits, each at most 255. The address is in network byte
  order in memory.\<close>

fun split_at :: "char \<Rightarrow> string \<Rightarrow> string list" where
  "split_at d [] = [[]]"
| "split_at d (c # cs) = (if c = d then [] # split_at d cs
     else (case split_at d cs of w # ws \<Rightarrow> (c # w) # ws | [] \<Rightarrow> [[c]]))"

definition octet :: "string \<Rightarrow> u8 option" where
  "octet s = (if s \<noteq> [] \<and> length s \<le> 3 \<and> list_all isdigit s \<and> number 10 s \<le> 255
     then Some (of_nat (number 10 s)) else None)"

definition inet_pton :: "string \<Rightarrow> u32 option" where
  "inet_pton s = (case map octet (split_at (CHR ''.'') s) of
     [Some a, Some b, Some c, Some d] \<Rightarrow> Some (le32 a b c d) | _ \<Rightarrow> None)"

definition inet_ntop :: "u32 \<Rightarrow> string" where
  "inet_ntop ip = decimal (unat (byte_of 0 ip)) @ ''.'' @ decimal (unat (byte_of 1 ip)) @ ''.''
     @ decimal (unat (byte_of 2 ip)) @ ''.'' @ decimal (unat (byte_of 3 ip))"

lemma split_at_append: "d \<notin> set w \<Longrightarrow> split_at d (w @ d # rest) = w # split_at d rest"
  by (induction w) auto

lemma split_at_single: "d \<notin> set w \<Longrightarrow> split_at d w = [w]"
  by (induction w) auto

lemma dot_not_decimal [simp]: "CHR ''.'' \<notin> set (decimal n)"
  using decimal_digits [of "CHR ''.''" n] by (auto simp: isdigit_def)

lemma unat_u8_less [simp]: "unat (b :: u8) < 256" "unat (b :: u8) \<le> 255"
proof -
  show a: "unat b < 256" using unsigned_less [of b] by simp
  then show "unat b \<le> 255" by simp
qed

lemma octet_decimal [simp]: "octet (decimal (unat b)) = Some b"
proof -
  have "length (decimal (unat b)) \<le> 3" using length_decimal [of "unat b" 3] unat_u8_less(1) [of b] by simp
  then show ?thesis using decimal_digits by (auto simp: octet_def list_all_iff)
qed

lemma inet_pton_ntop [simp]: "inet_pton (inet_ntop ip) = Some ip"
  by (simp add: inet_pton_def inet_ntop_def split_at_append split_at_single)

lemma length_inet_ntop: "length (inet_ntop ip) \<le> 15"
proof -
  have l: "length (decimal (unat b)) \<le> 3" for b :: u8
    using length_decimal [of "unat b" 3] unat_u8_less(1) [of b] by simp
  show ?thesis
    using l [of "byte_of 0 ip"] l [of "byte_of 1 ip"] l [of "byte_of 2 ip"] l [of "byte_of 3 ip"]
    by (simp add: inet_ntop_def)
qed

section \<open>The string functions of or_utils.c\<close>

definition mallocCopy :: "string \<Rightarrow> string" where "mallocCopy c = take (length c) c"

text \<open>Every CR and LF becomes a NUL, so the string ends at the first one.\<close>

definition cleanCRLFs :: "string \<Rightarrow> string" where
  "cleanCRLFs c = map (\<lambda>x. if x = CHR 0x0D \<or> x = CHR 0x0A then CHR 0x00 else x) c"

text \<open>The allocation is doubled until both strings and the NUL fit.\<close>

partial_function (option) grow :: "nat \<Rightarrow> nat \<Rightarrow> nat option" where
  "grow need alloc = (if need > alloc then grow need (alloc * 2) else Some alloc)"

definition my_strncat :: "string \<Rightarrow> string \<Rightarrow> nat \<Rightarrow> (string \<times> nat) option" where
  "my_strncat left right left_alloc_size =
     map_option (\<lambda>alloc. (left @ take (length right + 1) right, alloc)) (grow (length left + length right + 1) left_alloc_size)"

fun urlencode :: "string \<Rightarrow> string" where
  "urlencode [] = []"
| "urlencode (c # str) =
     (let n = of_char c :: nat in
      if (48 \<le> n \<and> n \<le> 57) \<or> (97 \<le> n \<and> n \<le> 122) \<or> (65 \<le> n \<and> n \<le> 90) then c # urlencode str
      else CHR ''%'' # digit (n div 16 mod 16) # digit (n mod 16) # urlencode str)"

text \<open>\<open>sscanf(buf, "%X", &high)\<close> on one character leaves the 0 when it is no digit.\<close>

definition hex_or_0 :: "char \<Rightarrow> nat" where
  "hex_or_0 c = (case hex_val c of Some d \<Rightarrow> d | None \<Rightarrow> 0)"

fun urldecode_buf :: "string \<Rightarrow> string" where
  "urldecode_buf (c # a # b # str) =
     (if c = CHR ''%'' then char_of (16 * hex_or_0 a + hex_or_0 b) # urldecode_buf str
      else (if c = CHR ''+'' then CHR '' '' else c) # urldecode_buf (a # b # str))"
| "urldecode_buf (c # str) = (if c = CHR ''+'' then CHR '' '' else c) # urldecode_buf str"
| "urldecode_buf [] = []"

definition urldecode :: "string \<Rightarrow> string" where "urldecode str = c_str (urldecode_buf str)"

lemma mallocCopy_same [simp]: "mallocCopy c = c"
  by (simp add: mallocCopy_def)

lemma c_str_clean: "CHR 0x00 \<notin> set c \<Longrightarrow> c_str (cleanCRLFs c) = takeWhile (\<lambda>x. x \<noteq> CHR 0x0D \<and> x \<noteq> CHR 0x0A) c"
  by (induction c) (auto simp: c_str_def cleanCRLFs_def)

lemma grow_enough:
  assumes "0 < alloc"
  shows "\<exists>k. grow need alloc = Some (alloc * 2 ^ k) \<and> need \<le> alloc * 2 ^ k \<and> (k = 0 \<or> alloc * 2 ^ (k - 1) < need)"
  using assms
proof (induction "need - alloc" arbitrary: alloc rule: less_induct)
  case less
  show ?case
  proof (cases "need > alloc")
    case True
    with less.prems have "need - alloc * 2 < need - alloc" "0 < alloc * 2" by auto
    from less.hyps [OF this] obtain k where
      k: "grow need (alloc * 2) = Some (alloc * 2 * 2 ^ k)" "need \<le> alloc * 2 * 2 ^ k" "k = 0 \<or> alloc * 2 * 2 ^ (k - 1) < need"
      by blast
    show ?thesis
    proof (intro exI [of _ "Suc k"] conjI)
      show "grow need alloc = Some (alloc * 2 ^ Suc k)" using True k(1) by (subst grow.simps) simp
      show "need \<le> alloc * 2 ^ Suc k" using k(2) by simp
      show "Suc k = 0 \<or> alloc * 2 ^ (Suc k - 1) < need"
        using k(3) True by (cases k) simp_all
    qed
  next
    case False
    then show ?thesis by (subst grow.simps) (auto intro!: exI [of _ 0])
  qed
qed

lemma my_strncat_appends:
  "0 < alloc \<Longrightarrow> \<exists>alloc'. my_strncat left right alloc = Some (left @ right, alloc') \<and> length left + length right + 1 \<le> alloc'"
  using grow_enough [of alloc "length left + length right + 1"] by (auto simp: my_strncat_def)

lemma urlencode_chars: "c \<in> set (urlencode str) \<Longrightarrow> c \<noteq> CHR ''+'' \<and> c \<noteq> CHR 0x00"
proof (induction str)
  case (Cons x str)
  have d: "digit k \<noteq> CHR ''+''" "digit k \<noteq> CHR 0x00" if "k < 16" for k
    using that of_char_digit [OF that] by (auto split: if_splits)
  show ?case using Cons d [of "of_char x div 16 mod 16"] d [of "of_char x mod 16"]
    by (auto simp: Let_def split: if_splits)
qed simp

lemma urldecode_buf_plain:
  "c \<noteq> CHR ''%'' \<Longrightarrow> urldecode_buf (c # s) = (if c = CHR ''+'' then CHR '' '' else c) # urldecode_buf s"
  by (cases s; cases "tl s") simp_all

lemma char_nibbles: "char_of (16 * (of_char c div 16 mod 16) + of_char c mod 16 :: nat) = c"
proof -
  have "(of_char c :: nat) < 256" by simp
  then have "16 * (of_char c div 16 mod 16) + of_char c mod 16 = (of_char c :: nat)"
    by (simp add: less_mult_imp_div_less)
  then show ?thesis by (simp only:) simp
qed

lemma urldecode_buf_encode: "urldecode_buf (urlencode str) = str"
proof (induction str)
  case (Cons c str)
  have "c \<noteq> CHR ''%''" "c \<noteq> CHR ''+''" if "(48 \<le> (of_char c :: nat) \<and> of_char c \<le> (57 :: nat))
      \<or> (97 \<le> (of_char c :: nat) \<and> of_char c \<le> (122 :: nat)) \<or> (65 \<le> (of_char c :: nat) \<and> of_char c \<le> (90 :: nat))"
    using that by auto
  then show ?case
    using Cons char_nibbles [of c] by (simp add: Let_def urldecode_buf_plain hex_or_0_def)
qed simp

lemma c_str_id: "CHR 0x00 \<notin> set s \<Longrightarrow> c_str s = s"
  by (auto simp: c_str_def takeWhile_eq_all_conv)

text \<open>Decoding undoes encoding. For every text, \<open>urldecode\<close> gives back what \<open>urlencode\<close> was
  given, and the encoded text is at most three times as long, which is what the code allocates.\<close>

theorem url_roundtrip:
  assumes "CHR 0x00 \<notin> set str"
  shows "urldecode (urlencode str) = str \<and> length (urlencode str) + 1 \<le> 3 * length str + 1"
proof -
  have "length (urlencode str) \<le> 3 * length str" by (induction str) (auto simp: Let_def)
  with assms show ?thesis by (simp add: urldecode_def urldecode_buf_encode c_str_id)
qed

theorem url_roundtrip_witness: "urldecode (urlencode ''ip route?a=1%'') = ''ip route?a=1%''"
  using url_roundtrip [of "''ip route?a=1%''"] by simp

end
