(* ===== verification/Output.thy ===== *)
theory Output
  imports Text Netfpga
begin

text \<open>
  The tables that the router prints, or_output.c. Each printer allocates its buffer from the number
  of entries and copies one line after the other into it; a copy past the end of the allocation is a
  fault, so the model shows where the sizes are enough.
\<close>

section \<open>Formatting\<close>

definition pad_right :: "nat \<Rightarrow> string \<Rightarrow> string" where
  "pad_right w s = s @ replicate (w - length s) (CHR '' '')"

definition pad_left :: "nat \<Rightarrow> string \<Rightarrow> string" where
  "pad_left w s = replicate (w - length s) (CHR '' '') @ s"

definition snprintf :: "nat \<Rightarrow> string \<Rightarrow> string" where
  "snprintf sz s = take (sz - 1) s"

definition LF :: char where "LF = CHR 0x0A"

definition hex02 :: "u8 \<Rightarrow> string" where
  "hex02 b = [digit (unat b div 16), digit (unat b mod 16)]"

definition mac_text :: "(nat \<Rightarrow> u8) \<Rightarrow> string" where
  "mac_text m = hex02 (m 0) @ '':'' @ hex02 (m 1) @ '':'' @ hex02 (m 2) @ '':'' @ hex02 (m 3) @ '':'' @ hex02 (m 4)
     @ '':'' @ hex02 (m 5)"

definition yes_no :: "bool \<Rightarrow> string" where "yes_no b = (if b then ''Y'' else ''N'')"

text \<open>\<open>%i\<close> and \<open>%d\<close> of an unsigned 32 bit number.\<close>

definition int_text :: "u32 \<Rightarrow> string" where "int_text w = decimal_int (sint w)"

section \<open>The buffer\<close>

text \<open>\<open>COPY_STRING\<close> into a buffer of \<open>alloc\<close> bytes of which \<open>buf\<close> are written.\<close>

definition COPY_STRING :: "nat \<Rightarrow> string \<Rightarrow> string \<Rightarrow> string option" where
  "COPY_STRING alloc str buf = (if length buf + length str \<le> alloc then Some (buf @ str) else None)"

fun copy_lines :: "nat \<Rightarrow> string list \<Rightarrow> string \<Rightarrow> string option" where
  "copy_lines alloc [] buf = Some buf"
| "copy_lines alloc (line # ls) buf = do { buf \<leftarrow> COPY_STRING alloc line buf; copy_lines alloc ls buf }"

lemma copy_lines_fit:
  "length buf + length (concat ls) \<le> alloc \<Longrightarrow> copy_lines alloc ls buf = Some (buf @ concat ls)"
  by (induction ls arbitrary: buf) (auto simp: COPY_STRING_def)

section \<open>The tables of the software\<close>

definition ARP_CACHE_COL :: string where "ARP_CACHE_COL = ''IP Address      MAC               TTL'' @ [LF]"
definition ARP_CACHE_ENTRY_TO_STRING_LEN :: nat where "ARP_CACHE_ENTRY_TO_STRING_LEN = 82"

definition arp_ttl_text :: "router_state \<Rightarrow> arp_cache_entry \<Rightarrow> string" where
  "arp_ttl_text rs entry = snprintf 47 (if ac_is_static entry then ''static''
     else decimal_int (int (unat (arp_ttl rs)) - (clock rs - ac_TTL entry)) @ ''.000000'')"

definition arp_line :: "router_state \<Rightarrow> arp_cache_entry \<Rightarrow> string" where
  "arp_line rs entry = snprintf ARP_CACHE_ENTRY_TO_STRING_LEN
     (pad_right 15 (inet_ntop (ac_ip entry)) @ '' '' @ mac_text (\<lambda>i. byte_of i (ac_arp_ha entry)) @ '' ''
      @ pad_right 46 (arp_ttl_text rs entry) @ [LF])"

definition sprint_arp_cache :: "router_state \<Rightarrow> string option" where
  "sprint_arp_cache rs = (let alloc = length ARP_CACHE_COL + ARP_CACHE_ENTRY_TO_STRING_LEN * length (arp_cache rs) in do {
     buf \<leftarrow> COPY_STRING alloc ARP_CACHE_COL [];
     copy_lines alloc (map (arp_line rs) (arp_cache rs)) buf
   })"

definition IFACE_COL :: string where
  "IFACE_COL = ''Name                  MAC               IP              Mask            Speed Up WAN'' @ [LF]"
definition IFACE_ENTRY_TO_STRING_LEN :: nat where "IFACE_ENTRY_TO_STRING_LEN = 100"
definition IFACE_MAX_IFACE_LEN :: nat where "IFACE_MAX_IFACE_LEN = 21"

definition iface_line :: "iface_entry \<Rightarrow> string" where
  "iface_line iface = snprintf IFACE_ENTRY_TO_STRING_LEN
     (pad_right 21 (snprintf IFACE_MAX_IFACE_LEN (if_name iface)) @ '' '' @ mac_text (\<lambda>i. byte_of i (if_addr iface)) @ '' ''
      @ pad_right 15 (inet_ntop (if_ip iface)) @ '' '' @ pad_right 15 (inet_ntop (if_mask iface)) @ '' ''
      @ pad_right 5 (int_text (if_speed iface)) @ '' '' @ pad_right 2 (yes_no (if_is_active iface)) @ '' ''
      @ pad_right 2 (yes_no (if_is_wan iface)) @ [LF])"

definition sprint_if_list :: "router_state \<Rightarrow> string option" where
  "sprint_if_list rs = (let alloc = length IFACE_COL + IFACE_ENTRY_TO_STRING_LEN * length (if_list rs) in do {
     buf \<leftarrow> COPY_STRING alloc IFACE_COL [];
     copy_lines alloc (map iface_line (if_list rs)) buf
   })"

definition RTABLE_COL :: string where
  "RTABLE_COL = ''Destination     Gateway         Mask            Iface              Static Active'' @ [LF]"
definition RTABLE_ENTRY_TO_STRING_LEN :: nat where "RTABLE_ENTRY_TO_STRING_LEN = 82"
definition RTABLE_MAX_IFACE_LEN :: nat where "RTABLE_MAX_IFACE_LEN = 18"

definition route_line :: "rtable_entry \<Rightarrow> string" where
  "route_line re = snprintf RTABLE_ENTRY_TO_STRING_LEN
     (pad_right 15 (inet_ntop (rt_ip re)) @ '' '' @ pad_right 15 (inet_ntop (rt_gw re)) @ '' ''
      @ pad_right 15 (inet_ntop (rt_mask re)) @ '' '' @ pad_right 18 (snprintf RTABLE_MAX_IFACE_LEN (rt_iface re)) @ '' ''
      @ pad_right 6 (yes_no (rt_is_static re)) @ '' '' @ pad_right 6 (yes_no (rt_is_active re)) @ [LF])"

definition sprint_rtable :: "router_state \<Rightarrow> string option" where
  "sprint_rtable rs = (let alloc = length RTABLE_COL + RTABLE_ENTRY_TO_STRING_LEN * length (rtable rs) in do {
     buf \<leftarrow> COPY_STRING alloc RTABLE_COL [];
     copy_lines alloc (map route_line (rtable rs)) buf
   })"

text \<open>
  The PWOSPF interfaces. The addresses \<open>nid\<close> and \<open>nip\<close> are only set from a neighbour, so an
  interface without one is printed with those of an earlier interface, and no last hello.
\<close>

definition PWOSPF_IFACE_COL :: string where
  "PWOSPF_IFACE_COL =
     ''Name IP                  Mask                LSH  NID                 NIP                 LRH  A'' @ [LF]"
definition PWOSPF_IFACE_ENTRY_TO_STRING_LEN :: nat where "PWOSPF_IFACE_ENTRY_TO_STRING_LEN = 256"
definition PWOSPF_IFACE_MAX_IFACE_LEN :: nat where "PWOSPF_IFACE_MAX_IFACE_LEN = 21"

definition since_text :: "int \<Rightarrow> int \<Rightarrow> int \<Rightarrow> string" where
  "since_text now seen limit = snprintf 47 (if now - seen > limit then ''EXP'' else decimal_int (now - seen))"

definition pwospf_iface_line :: "string list \<Rightarrow> string" where
  "pwospf_iface_line cols = snprintf PWOSPF_IFACE_ENTRY_TO_STRING_LEN
     (pad_right 5 (cols ! 0) @ pad_right 20 (cols ! 1) @ pad_right 20 (cols ! 2) @ pad_right 5 (cols ! 3)
      @ pad_right 20 (cols ! 4) @ pad_right 20 (cols ! 5) @ pad_right 5 (cols ! 6) @ pad_right 1 (cols ! 7)
      @ '' '' @ [LF])"

definition lrecv_hello :: "router_state \<Rightarrow> nbr_router \<Rightarrow> string" where
  "lrecv_hello rs nbr = since_text (clock rs) (nbr_last_rcvd_hello nbr) (3 * int (unat (pwospf_hello_interval rs)))"

definition nbr_line :: "router_state \<Rightarrow> nbr_router \<Rightarrow> string" where
  "nbr_line rs nbr = pwospf_iface_line ['''', '''', '''', '''', inet_ntop (nbr_router_id nbr), inet_ntop (nbr_ip nbr),
     lrecv_hello rs nbr, '''']"

fun pwospf_if_lines :: "router_state \<Rightarrow> u32 \<times> u32 \<Rightarrow> iface_entry list \<Rightarrow> string list" where
  "pwospf_if_lines rs (nid, nip) [] = []"
| "pwospf_if_lines rs (nid, nip) (iface # next) =
     (let nbrs = if_nbr_routers iface;
          (nid1, nip1, lrecv) = (case nbrs of [] \<Rightarrow> (nid, nip, '''')
            | nbr # _ \<Rightarrow> (nbr_router_id nbr, nbr_ip nbr, lrecv_hello rs nbr));
          line = pwospf_iface_line
            [snprintf PWOSPF_IFACE_MAX_IFACE_LEN (if_name iface), inet_ntop (if_ip iface), inet_ntop (if_mask iface),
             since_text (clock rs) (if_last_sent_hello iface) (int (unat (pwospf_hello_interval rs))),
             if nip1 \<noteq> 0 then inet_ntop nid1 else '''', if nip1 \<noteq> 0 then inet_ntop nip1 else '''',
             if nip1 \<noteq> 0 then lrecv else '''', yes_no (if_is_active iface)];
          after = (if nbrs = [] then (nid, nip) else (nbr_router_id (last nbrs), nbr_ip (last nbrs)))
      in line # map (nbr_line rs) (tl nbrs) @ pwospf_if_lines rs after next)"

definition sprint_pwospf_if_list :: "router_state \<Rightarrow> string option" where
  "sprint_pwospf_if_list rs =
     (let alloc = length PWOSPF_IFACE_COL + PWOSPF_IFACE_ENTRY_TO_STRING_LEN * length (if_list rs) in do {
     buf \<leftarrow> COPY_STRING alloc PWOSPF_IFACE_COL [];
     copy_lines alloc (pwospf_if_lines rs (0, 0) (if_list rs)) buf
   })"

text \<open>The comparison of the ages is unsigned: \<open>pwospf_lsu_interval\<close> is an unsigned number.\<close>

definition PWOSPF_ROUTER_LIST_COL :: string where
  "PWOSPF_ROUTER_LIST_COL = ''RID                 AID  SEQ  LU   DIST SPF'' @ [LF]"
definition PWOSPF_ROUTER_LIST_TO_STRING_LEN :: nat where "PWOSPF_ROUTER_LIST_TO_STRING_LEN = 160"

definition router_line :: "router_state \<Rightarrow> pwospf_router \<Rightarrow> string" where
  "router_line rs rle =
     (let diff = clock rs - pr_last_update rle;
          last_update = snprintf 47 (if (of_int diff :: u32) > pwospf_lsu_interval rs * 3 then ''EXP'' else decimal_int diff)
      in snprintf PWOSPF_ROUTER_LIST_TO_STRING_LEN
        (pad_right 20 (inet_ntop (pr_router_id rle)) @ pad_right 5 (int_text (ntohl (pr_area_id rle)))
         @ pad_right 5 (decimal (unat (pr_seq rle))) @ pad_right 5 last_update @ pad_right 5 (int_text (pr_distance rle))
         @ pad_right 5 (decimal (if pr_shortest_path_found rle then 1 else 0)) @ [LF]))"

definition router_iface_line :: "pwospf_interface \<Rightarrow> string" where
  "router_iface_line iface = snprintf PWOSPF_ROUTER_LIST_TO_STRING_LEN
     (replicate 10 (CHR '' '') @ pad_right 20 (inet_ntop (pi_subnet iface)) @ pad_right 20 (inet_ntop (pi_mask iface))
      @ pad_right 20 (inet_ntop (pi_router_id iface)) @ pad_right 5 (decimal (if pi_is_active iface then 1 else 0)) @ [LF])"

definition router_list_lines :: "router_state \<Rightarrow> string list" where
  "router_list_lines rs = concat (map (\<lambda>rle. router_line rs rle # map router_iface_line (pr_interface_list rle))
     (pwospf_router_list rs))"

definition sprint_pwospf_router_list :: "router_state \<Rightarrow> string option" where
  "sprint_pwospf_router_list rs =
     (let num_entries = sum_list (map (\<lambda>pr. 1 + length (pr_interface_list pr)) (pwospf_router_list rs));
          alloc = length PWOSPF_ROUTER_LIST_COL + (num_entries + 1) * PWOSPF_ROUTER_LIST_TO_STRING_LEN
      in do {
        buf \<leftarrow> COPY_STRING alloc PWOSPF_ROUTER_LIST_COL [];
        copy_lines alloc (router_list_lines rs) buf
      })"

section \<open>The tables of the card\<close>

text \<open>The entries of a row are loaded into the registers of its table by a write of the row number.\<close>

definition TAB :: char where "TAB = CHR 0x09"

definition HW_RTABLE_COL :: string where
  "HW_RTABLE_COL = ''ROW  IP                  GW                  MASK                IFACE'' @ [LF]"
definition HW_RTABLE_ENTRY_TO_STRING_LEN :: nat where "HW_RTABLE_ENTRY_TO_STRING_LEN = 160"

definition hw_route_line :: "hw_state \<Rightarrow> nat \<Rightarrow> string \<times> hw_state" where
  "hw_route_line h i =
     (let h = writeReg (RD_ADDR_REG ROUTE_TABLE) (of_nat i) h;
          ip = ntohl (readReg ROUTE_TABLE_ENTRY_IP_REG h);
          msk = ntohl (readReg ROUTE_TABLE_ENTRY_MASK_REG h);
          gw = ntohl (readReg ROUTE_TABLE_ENTRY_NEXT_HOP_IP_REG h);
          port = readReg ROUTE_TABLE_ENTRY_OUTPUT_PORT_REG h
      in (snprintf HW_RTABLE_ENTRY_TO_STRING_LEN
        (pad_right 5 (decimal i) @ pad_right 20 (inet_ntop ip) @ pad_right 20 (inet_ntop gw) @ pad_right 20 (inet_ntop msk)
         @ pad_right 20 (getIfaceFromOneHotPortNumber IF_LEN port) @ [LF]), h))"

definition HW_ARP_CACHE_COL :: string where "HW_ARP_CACHE_COL = ''MAC'' @ [TAB, TAB, TAB] @ ''GW'' @ [LF]"
definition HW_ARP_CACHE_ENTRY_TO_STRING_LEN :: nat where "HW_ARP_CACHE_ENTRY_TO_STRING_LEN = 80"

text \<open>The bytes of an address from its two registers.\<close>

definition mac_of_regs :: "u32 \<Rightarrow> u32 \<Rightarrow> nat \<Rightarrow> u8" where
  "mac_of_regs mac_hi mac_lo i =
     (if i = 0 then byte_of 1 mac_hi else if i = 1 then byte_of 0 mac_hi else byte_of (5 - i) mac_lo)"

definition hw_arp_line :: "hw_state \<Rightarrow> nat \<Rightarrow> string \<times> hw_state" where
  "hw_arp_line h i =
     (let h = writeReg (RD_ADDR_REG ARP_TABLE) (of_nat i) h;
          mac_hi = readReg ARP_TABLE_ENTRY_MAC_HI_REG h;
          mac_lo = readReg ARP_TABLE_ENTRY_MAC_LO_REG h;
          gw = htonl (readReg ARP_TABLE_ENTRY_NEXT_HOP_IP_REG h)
      in (snprintf HW_ARP_CACHE_ENTRY_TO_STRING_LEN
        (mac_text (mac_of_regs mac_hi mac_lo) @ [TAB] @ pad_right 15 (inet_ntop gw) @ [LF]), h))"

definition HW_LOCAL_IP_FILTER_HEADER :: string where "HW_LOCAL_IP_FILTER_HEADER = ''Row IP             '' @ [LF]"
definition HW_LOCAL_IP_FILTER_LEN :: nat where "HW_LOCAL_IP_FILTER_LEN = 21"

definition hw_filter_line :: "hw_state \<Rightarrow> nat \<Rightarrow> string \<times> hw_state" where
  "hw_filter_line h i =
     (let h = writeReg (RD_ADDR_REG DST_IP_FILTER_TABLE) (of_nat i) h;
          ip = htonl (readReg DST_IP_FILTER_TABLE_ENTRY_IP_REG h)
      in (snprintf HW_LOCAL_IP_FILTER_LEN (pad_left 3 (decimal i) @ '' '' @ pad_left 15 (inet_ntop ip) @ [LF]), h))"

fun hw_lines :: "(hw_state \<Rightarrow> nat \<Rightarrow> string \<times> hw_state) \<Rightarrow> nat list \<Rightarrow> hw_state \<Rightarrow> string list \<times> hw_state" where
  "hw_lines line [] h = ([], h)"
| "hw_lines line (i # is) h = (let (l, h) = line h i; (ls, h) = hw_lines line is h in (l # ls, h))"

definition sprint_hw_rtable :: "router_state \<Rightarrow> (string \<times> router_state) option" where
  "sprint_hw_rtable rs =
     (let alloc = length HW_RTABLE_COL + TABLE_DEPTH * HW_RTABLE_ENTRY_TO_STRING_LEN;
          (ls, h) = hw_lines hw_route_line [0..<TABLE_DEPTH] (netfpga rs)
      in do {
        buf \<leftarrow> COPY_STRING alloc HW_RTABLE_COL [];
        buf \<leftarrow> copy_lines alloc ls buf;
        Some (buf, rs\<lparr>netfpga := h\<rparr>)
      })"

definition sprint_hw_arp_cache :: "router_state \<Rightarrow> (string \<times> router_state) option" where
  "sprint_hw_arp_cache rs =
     (let alloc = length HW_ARP_CACHE_COL + TABLE_DEPTH * HW_ARP_CACHE_ENTRY_TO_STRING_LEN;
          (ls, h) = hw_lines hw_arp_line [0..<TABLE_DEPTH] (netfpga rs)
      in do {
        buf \<leftarrow> COPY_STRING alloc HW_ARP_CACHE_COL [];
        buf \<leftarrow> copy_lines alloc ls buf;
        Some (buf, rs\<lparr>netfpga := h\<rparr>)
      })"

definition sprint_hw_local_ip_filter :: "router_state \<Rightarrow> (string \<times> router_state) option" where
  "sprint_hw_local_ip_filter rs =
     (let alloc = (1 + TABLE_DEPTH) * HW_LOCAL_IP_FILTER_LEN + 1;
          (ls, h) = hw_lines hw_filter_line [0..<TABLE_DEPTH] (netfpga rs)
      in if is_netfpga rs then do {
          buf \<leftarrow> COPY_STRING alloc HW_LOCAL_IP_FILTER_HEADER [];
          buf \<leftarrow> copy_lines alloc ls buf;
          Some (buf, rs\<lparr>netfpga := h\<rparr>)
        }
        else Some ([], rs))"

definition HW_IFACE_COL :: string where "HW_IFACE_COL = ''Port'' @ [TAB] @ ''MAC'' @ [LF]"
definition HW_IFACE_ENTRY_TO_STRING_LEN :: nat where "HW_IFACE_ENTRY_TO_STRING_LEN = 80"

definition port_names :: "string list" where "port_names = [''eth0'', ''eth1'', ''eth2'', ''eth3'']"

definition hw_iface_line :: "router_state \<Rightarrow> nat \<Rightarrow> string" where
  "hw_iface_line rs i = (case read_hw_iface_mac rs (of_nat i) of (mac_hi, mac_lo) \<Rightarrow>
     snprintf HW_IFACE_ENTRY_TO_STRING_LEN (pad_right 5 (port_names ! i) @ [TAB] @ mac_text (mac_of_regs mac_hi mac_lo) @ [LF]))"

definition sprint_hw_iface :: "router_state \<Rightarrow> string option" where
  "sprint_hw_iface rs = (let alloc = length HW_IFACE_COL + 4 * HW_IFACE_ENTRY_TO_STRING_LEN in do {
     buf \<leftarrow> COPY_STRING alloc HW_IFACE_COL [];
     copy_lines alloc (map (hw_iface_line rs) [0..<4]) buf
   })"

text \<open>Counters, four to a line.\<close>

definition HW_DROPS_LEN :: nat where "HW_DROPS_LEN = 80"
definition HW_OQ_DROPS_LEN :: nat where "HW_OQ_DROPS_LEN = 80"

fun counters_text :: "(string \<times> u32) list \<Rightarrow> string" where
  "counters_text [] = [LF]"
| "counters_text [(name, n)] = pad_left 4 name @ '' '' @ pad_left 10 (decimal (unat n)) @ [LF]"
| "counters_text ((name, n) # cs) = pad_left 4 name @ '' '' @ pad_left 10 (decimal (unat n)) @ '' '' @ counters_text cs"

definition sprint_hw_drops :: "router_state \<Rightarrow> string option" where
  "sprint_hw_drops rs = (if is_netfpga rs
     then COPY_STRING (HW_DROPS_LEN + 1) (snprintf HW_DROPS_LEN (counters_text (map (\<lambda>i. (port_names ! i,
       get_rx_queue_num_pkts_dropped_full (netfpga rs) (of_nat i) + get_rx_queue_num_pkts_dropped_bad (netfpga rs) (of_nat i)))
       [0..<4]))) []
     else Some [])"

definition oq_names :: "string list" where
  "oq_names = [''Q0'', ''Q1'', ''Q2'', ''Q3'', ''Q4'', ''Q5'', ''Q6'', ''Q7'']"

definition oq_drops_line :: "router_state \<Rightarrow> nat list \<Rightarrow> string" where
  "oq_drops_line rs qs = snprintf HW_OQ_DROPS_LEN (counters_text (map (\<lambda>i. (oq_names ! i, get_oq_num_pkts_dropped (netfpga rs) (of_nat i))) qs))"

definition sprint_hw_oq_drops :: "router_state \<Rightarrow> string option" where
  "sprint_hw_oq_drops rs = (if is_netfpga rs
     then copy_lines (2 * HW_OQ_DROPS_LEN + 1) [oq_drops_line rs [0..<4], oq_drops_line rs [4..<8]] []
     else Some [])"

section \<open>The allocations are enough\<close>

lemma length_pad [simp]:
  "length (pad_right w s) = max w (length s)" "length (pad_left w s) = max w (length s)"
  by (simp_all add: pad_right_def pad_left_def)

lemma length_snprintf [simp]: "length (snprintf n s) = min (length s) (n - 1)"
  by (simp add: snprintf_def)

lemma length_mac_text [simp]: "length (mac_text m) = 17"
  by (simp add: mac_text_def hex02_def)

lemma length_yes_no [simp]: "length (yes_no b) = 1"
  by (simp add: yes_no_def)

lemma max_inet_ntop [simp]: "15 \<le> w \<Longrightarrow> max w (length (inet_ntop ip)) = w"
  using length_inet_ntop [of ip] by simp

lemma length_decimal_int: "\<bar>i\<bar> < 10 ^ k \<Longrightarrow> 0 < k \<Longrightarrow> length (decimal_int i) \<le> Suc k"
proof -
  assume "\<bar>i\<bar> < 10 ^ k" "0 < k"
  then have "length (decimal (nat \<bar>i\<bar>)) \<le> k" by (intro length_decimal) (simp_all add: nat_less_iff)
  then show ?thesis by (auto simp: decimal_int_def abs_if split: if_splits)
qed

lemma length_int_text: "length (int_text w) \<le> 11"
proof -
  have "- (2 ^ 31) \<le> sint w" "sint w < 2 ^ 31" using sint_ge [of w] sint_lt [of w] by simp_all
  then have "\<bar>sint w\<bar> < 10 ^ 10" by (simp add: abs_if)
  from length_decimal_int [OF this] show ?thesis by (simp add: int_text_def)
qed

lemma length_decimal_u32: "length (decimal (unat (w :: u32))) \<le> 10"
proof -
  have "unat w < 2 ^ LENGTH(32)" by (rule unsigned_less)
  then show ?thesis by (intro length_decimal) simp_all
qed

lemma length_decimal_u16: "length (decimal (unat (w :: u16))) \<le> 5"
proof -
  have "unat w < 2 ^ LENGTH(16)" by (rule unsigned_less)
  then show ?thesis by (intro length_decimal) simp_all
qed

text \<open>A line that is printed in full ends with its line feed.\<close>

definition full :: "nat \<Rightarrow> string \<Rightarrow> bool" where
  "full w l \<longleftrightarrow> length l \<le> w \<and> l \<noteq> [] \<and> last l = LF"

lemma full_snprintf: "length s \<le> n - 1 \<Longrightarrow> s \<noteq> [] \<Longrightarrow> last s = LF \<Longrightarrow> full (n - 1) (snprintf n s)"
  by (simp add: full_def snprintf_def)

lemma concat_full: "list_all (full w) ls \<Longrightarrow> length (concat ls) \<le> w * length ls"
  by (induction ls) (auto simp: full_def)

lemma table_fits:
  assumes "list_all (full w) ls" "length col + w * length ls \<le> alloc"
  shows "Option.bind (COPY_STRING alloc col []) (copy_lines alloc ls) = Some (col @ concat ls)"
    "COPY_STRING alloc col [] = Some col" "copy_lines alloc ls col = Some (col @ concat ls)"
proof -
  have "length (concat ls) \<le> w * length ls" using assms(1) by (rule concat_full)
  then have fit: "length col + length (concat ls) \<le> alloc" using assms(2) by linarith
  then show a: "COPY_STRING alloc col [] = Some col" by (simp add: COPY_STRING_def)
  show b: "copy_lines alloc ls col = Some (col @ concat ls)" using fit by (rule copy_lines_fit)
  show "Option.bind (COPY_STRING alloc col []) (copy_lines alloc ls) = Some (col @ concat ls)" using a b by simp
qed

lemma full_arp_line: "full 81 (arp_line rs e)"
proof -
  have "length (arp_ttl_text rs e) \<le> 46" by (simp add: arp_ttl_text_def)
  then show ?thesis
    unfolding arp_line_def ARP_CACHE_ENTRY_TO_STRING_LEN_def
    using full_snprintf [of _ 82] by simp
qed

lemma full_iface_line: "full 99 (iface_line e)"
  unfolding iface_line_def IFACE_ENTRY_TO_STRING_LEN_def IFACE_MAX_IFACE_LEN_def
  using full_snprintf [of _ 100] length_int_text [of "if_speed e"] by simp

lemma full_route_line: "full 81 (route_line e)"
  unfolding route_line_def RTABLE_ENTRY_TO_STRING_LEN_def RTABLE_MAX_IFACE_LEN_def
  using full_snprintf [of _ 82] by simp

lemma full_router_lines: "list_all (full 159) (router_list_lines rs)"
proof -
  have one: "length (decimal (if b then 1 else 0)) \<le> 1" for b
    by (rule length_decimal) simp_all
  have "full 159 (router_line rs r)" for r
    unfolding router_line_def PWOSPF_ROUTER_LIST_TO_STRING_LEN_def Let_def
    using full_snprintf [of _ 160] length_int_text [of "ntohl (pr_area_id r)"] length_int_text [of "pr_distance r"]
      length_decimal_u16 [of "pr_seq r"] one [of "pr_shortest_path_found r"] by simp
  moreover have "full 159 (router_iface_line p)" for p
    unfolding router_iface_line_def PWOSPF_ROUTER_LIST_TO_STRING_LEN_def
    using full_snprintf [of _ 160] one [of "pi_is_active p"] by simp
  ultimately show ?thesis by (simp add: router_list_lines_def list_all_iff)
qed

lemma length_small_decimal: "i < 32 \<Longrightarrow> length (decimal i) \<le> 2"
  by (rule length_decimal) simp_all

lemma length_port_name: "length (getIfaceFromOneHotPortNumber len port) \<le> 4"
  by (auto simp: getIfaceFromOneHotPortNumber_def min_def)

lemma max_port_name: "max 20 (length (getIfaceFromOneHotPortNumber len port)) = 20"
  using length_port_name [of len port] by simp

lemma full_hw_route_line: "i < 32 \<Longrightarrow> full 159 (fst (hw_route_line h i))"
  unfolding hw_route_line_def HW_RTABLE_ENTRY_TO_STRING_LEN_def Let_def fst_conv
  by (rule full_snprintf [of _ 160, simplified]) (use length_small_decimal [of i] in \<open>simp_all add: max_port_name\<close>)

lemma full_hw_arp_line: "full 79 (fst (hw_arp_line h i))"
  unfolding hw_arp_line_def HW_ARP_CACHE_ENTRY_TO_STRING_LEN_def Let_def fst_conv
  using full_snprintf [of _ 80] by simp

lemma full_hw_filter_line: "i < 32 \<Longrightarrow> full 20 (fst (hw_filter_line h i))"
  unfolding hw_filter_line_def HW_LOCAL_IP_FILTER_LEN_def Let_def fst_conv
  using full_snprintf [of _ 21] length_small_decimal [of i] by simp

lemma full_hw_iface_line: "i < 4 \<Longrightarrow> full 79 (hw_iface_line rs i)"
proof -
  assume "i < 4"
  then have "length (port_names ! i) = 4"
    by (auto simp: port_names_def less_Suc_eq numeral_eq_Suc)
  then show ?thesis
    unfolding hw_iface_line_def HW_IFACE_ENTRY_TO_STRING_LEN_def
    using full_snprintf [of _ 80] by (simp split: prod.split)
qed

lemma hw_lines_full:
  "(\<And>h i. i \<in> set is \<Longrightarrow> P (fst (line h i))) \<Longrightarrow> list_all P (fst (hw_lines line is h)) \<and> length (fst (hw_lines line is h)) = length is"
proof (induction "is" arbitrary: h)
  case (Cons i "is")
  obtain l h' where l: "line h i = (l, h')" by fastforce
  with Cons.prems [of i h] have "P l" by simp
  with Cons.IH [of h'] Cons.prems l show ?case by (simp add: case_prod_beta)
qed simp

definition printed :: "nat \<Rightarrow> string \<Rightarrow> string list \<Rightarrow> string option \<Rightarrow> bool" where
  "printed w col ls text \<longleftrightarrow> text = Some (col @ concat ls) \<and> list_all (full w) ls"

lemma printed_hw_rtable:
  "printed 159 HW_RTABLE_COL (fst (hw_lines hw_route_line [0..<32] (netfpga rs))) (map_option fst (sprint_hw_rtable rs))"
proof -
  let ?ls = "fst (hw_lines hw_route_line [0..<32] (netfpga rs))"
  have "list_all (full 159) ?ls \<and> length ?ls = length [0..<(32 :: nat)]"
    by (rule hw_lines_full) (simp add: full_hw_route_line)
  then have f: "list_all (full 159) ?ls" "length ?ls = 32" by simp_all
  with table_fits [OF f(1), of HW_RTABLE_COL "length HW_RTABLE_COL + 32 * 160"] show ?thesis
    by (simp add: printed_def sprint_hw_rtable_def TABLE_DEPTH_def HW_RTABLE_ENTRY_TO_STRING_LEN_def Let_def case_prod_beta)
qed

lemma printed_hw_arp_cache:
  "printed 79 HW_ARP_CACHE_COL (fst (hw_lines hw_arp_line [0..<32] (netfpga rs))) (map_option fst (sprint_hw_arp_cache rs))"
proof -
  let ?ls = "fst (hw_lines hw_arp_line [0..<32] (netfpga rs))"
  have "list_all (full 79) ?ls \<and> length ?ls = length [0..<(32 :: nat)]"
    by (rule hw_lines_full) (simp add: full_hw_arp_line)
  then have f: "list_all (full 79) ?ls" "length ?ls = 32" by simp_all
  with table_fits [OF f(1), of HW_ARP_CACHE_COL "length HW_ARP_CACHE_COL + 32 * 80"] show ?thesis
    by (simp add: printed_def sprint_hw_arp_cache_def TABLE_DEPTH_def HW_ARP_CACHE_ENTRY_TO_STRING_LEN_def Let_def
        case_prod_beta)
qed

lemma printed_hw_filter:
  assumes "is_netfpga rs"
  shows "printed 20 HW_LOCAL_IP_FILTER_HEADER (fst (hw_lines hw_filter_line [0..<32] (netfpga rs)))
    (map_option fst (sprint_hw_local_ip_filter rs))"
proof -
  let ?ls = "fst (hw_lines hw_filter_line [0..<32] (netfpga rs))"
  have "list_all (full 20) ?ls \<and> length ?ls = length [0..<(32 :: nat)]"
    by (rule hw_lines_full) (simp add: full_hw_filter_line)
  then have f: "list_all (full 20) ?ls" "length ?ls = 32" by simp_all
  have "length HW_LOCAL_IP_FILTER_HEADER = 20" by (simp add: HW_LOCAL_IP_FILTER_HEADER_def)
  with table_fits [OF f(1), of HW_LOCAL_IP_FILTER_HEADER "33 * 21 + 1"] f assms show ?thesis
    by (simp add: printed_def sprint_hw_local_ip_filter_def TABLE_DEPTH_def HW_LOCAL_IP_FILTER_LEN_def Let_def
        case_prod_beta)
qed

lemma printed_map:
  assumes "list_all (full (n - 1)) ls" "length ls \<le> k" "0 < n"
  shows "printed (n - 1) col ls (Option.bind (COPY_STRING (length col + n * k) col []) (copy_lines (length col + n * k) ls))"
proof -
  have "(n - 1) * length ls \<le> n * k" using assms(2) by (intro mult_le_mono) simp_all
  then show ?thesis
    using table_fits(1) [OF assms(1), of col "length col + n * k"] assms(1) by (simp add: printed_def)
qed


section \<open>The one that is not\<close>

lemma length_pwospf_line: "98 \<le> length (pwospf_iface_line cols)" "full 255 (pwospf_iface_line cols)
    \<longleftrightarrow> last (pwospf_iface_line cols) = LF"
proof -
  show "98 \<le> length (pwospf_iface_line cols)"
    by (simp add: pwospf_iface_line_def PWOSPF_IFACE_ENTRY_TO_STRING_LEN_def)
  then have "pwospf_iface_line cols \<noteq> []" by auto
  then show "full 255 (pwospf_iface_line cols) \<longleftrightarrow> last (pwospf_iface_line cols) = LF"
    by (auto simp: full_def pwospf_iface_line_def PWOSPF_IFACE_ENTRY_TO_STRING_LEN_def)
qed

lemma pwospf_if_lines_size:
  "length (pwospf_if_lines rs st il) = sum_list (map (\<lambda>i. max 1 (length (if_nbr_routers i))) il)
    \<and> list_all (\<lambda>l. 98 \<le> length l \<and> length l \<le> 255) (pwospf_if_lines rs st il)"
proof (induction il arbitrary: st)
  case Nil
  show ?case by (cases st) simp
next
  case (Cons iface nxt)
  obtain nid nip where st: "st = (nid, nip)" by fastforce
  have l: "98 \<le> length (pwospf_iface_line cols) \<and> length (pwospf_iface_line cols) \<le> 255" for cols
    using length_pwospf_line(1) by (simp add: pwospf_iface_line_def PWOSPF_IFACE_ENTRY_TO_STRING_LEN_def)
  have m: "list_all (\<lambda>l. 98 \<le> length l \<and> length l \<le> 255) (map (nbr_line rs) ns)" for ns
    using l by (simp add: list_all_iff nbr_line_def)
  show ?case
  proof (cases "if_nbr_routers iface")
    case Nil
    then show ?thesis using Cons.IH [of "(nid, nip)"] l by (simp add: st)
  next
    case (Cons nbr nbrs)
    then show ?thesis using Cons.IH [of "(nbr_router_id (last (nbr # nbrs)), nbr_ip (last (nbr # nbrs)))"] l m
      by (simp add: st Let_def)
  qed
qed

lemma copy_lines_overflow:
  "length buf \<le> alloc \<Longrightarrow> alloc < length buf + length (concat ls) \<Longrightarrow> copy_lines alloc ls buf = None"
proof (induction ls arbitrary: buf)
  case (Cons l ls)
  then show ?case
    using Cons.IH [of "buf @ l"] by (cases "length buf + length l \<le> alloc") (simp_all add: COPY_STRING_def)
qed simp

text \<open>The list of PWOSPF interfaces overruns its buffer. The buffer has 256 bytes for an interface,
  but a line of at least 98 bytes is written for each of its neighbours; once the neighbours are
  enough, three on a single interface, the copy runs past the end of the allocation.\<close>

theorem pwospf_if_list_overruns:
  assumes "256 * length (if_list rs) < 98 * sum_list (map (\<lambda>i. max 1 (length (if_nbr_routers i))) (if_list rs))"
  shows "sprint_pwospf_if_list rs = None"
proof -
  let ?ls = "pwospf_if_lines rs (0, 0) (if_list rs)"
  have "98 * length ?ls \<le> length (concat ?ls)"
  proof -
    have "list_all (\<lambda>l. 98 \<le> length l) ?ls"
      using pwospf_if_lines_size [of rs "(0, 0)" "if_list rs"] by (auto simp: list_all_iff)
    moreover have "list_all (\<lambda>l. 98 \<le> length l) ls \<Longrightarrow> 98 * length ls \<le> length (concat ls)" for ls :: "string list"
      by (induction ls) auto
    ultimately show ?thesis by blast
  qed
  then have "256 * length (if_list rs) < length (concat ?ls)"
    using assms pwospf_if_lines_size [of rs "(0, 0)" "if_list rs"] by linarith
  then show ?thesis
    using copy_lines_overflow [of PWOSPF_IFACE_COL "length PWOSPF_IFACE_COL + 256 * length (if_list rs)" ?ls]
    by (simp add: sprint_pwospf_if_list_def Let_def COPY_STRING_def PWOSPF_IFACE_ENTRY_TO_STRING_LEN_def)
qed

definition crowded_router :: router_state where
  "crowded_router = empty_router\<lparr>if_list := [\<lparr>if_name = ''eth0'', if_addr = 0, if_ip = 0x0100000A, if_mask = 0x00FFFFFF,
     if_speed = 100, if_is_active = True, if_last_sent_hello = 0,
     if_nbr_routers = map (\<lambda>i. \<lparr>nbr_router_id = of_nat i, nbr_ip = of_nat i, nbr_last_rcvd_hello = 0\<rparr>) [1..<4],
     if_is_wan = False\<rparr>]\<rparr>"

theorem pwospf_if_list_overruns_witness: "sprint_pwospf_if_list crowded_router = None"
  by (rule pwospf_if_list_overruns) (simp add: crowded_router_def)

text \<open>With one neighbour to an interface at most it fits.\<close>

lemma pwospf_if_list_fits:
  assumes "list_all (\<lambda>i. length (if_nbr_routers i) \<le> 1) (if_list rs)"
  shows "sprint_pwospf_if_list rs = Some (PWOSPF_IFACE_COL @ concat (pwospf_if_lines rs (0, 0) (if_list rs)))"
proof -
  let ?ls = "pwospf_if_lines rs (0, 0) (if_list rs)"
  have "sum_list (map (\<lambda>i. max 1 (length (if_nbr_routers i))) il) = length il"
    if "list_all (\<lambda>i. length (if_nbr_routers i) \<le> 1) il" for il :: "iface_entry list"
    using that by (induction il) auto
  then have n: "length ?ls = length (if_list rs)" using assms pwospf_if_lines_size by auto
  have "length (concat ls) \<le> 255 * length ls" if "list_all (\<lambda>l. 98 \<le> length l \<and> length l \<le> 255) ls" for ls :: "string list"
    using that by (induction ls) auto
  then have "length (concat ?ls) \<le> 256 * length (if_list rs)"
    using pwospf_if_lines_size [of rs "(0, 0)" "if_list rs"] n by fastforce
  then show ?thesis
    by (simp add: sprint_pwospf_if_list_def Let_def COPY_STRING_def PWOSPF_IFACE_ENTRY_TO_STRING_LEN_def copy_lines_fit)
qed

end
