(* ===== verification/Iface_Admin.thy ===== *)
theory Iface_Admin
  imports Pwospf Node_List
begin

text \<open>
  Bringing interfaces up and down, or_iface.c: the one operation of the command line that reaches
  into the interfaces, the routing table and PWOSPF at once.
\<close>

section \<open>The code\<close>

text \<open>The loop that is to clear the neighbours runs on their linked list; it does not advance.\<close>

definition list_heap :: "'a list \<Rightarrow> 'a heap" where
  "list_heap xs a = (if a < length xs then Some \<lparr>node_prev = (if a = 0 then None else Some (a - 1)),
     node_next = (if Suc a < length xs then Some (Suc a) else None), node_data = xs ! a\<rparr> else None)"

definition list_head :: "'a list \<Rightarrow> ptr" where
  "list_head xs = (if xs = [] then None else Some 0)"

definition clear_neighbors :: "nbr_router list \<Rightarrow> nbr_router list option" where
  "clear_neighbors nbrs = map_option (\<lambda>_. []) (remove_stuck (list_heap nbrs) (list_head nbrs) (list_head nbrs))"

definition iface_subnet :: "iface_entry \<Rightarrow> u32" where
  "iface_subnet iface = if_ip iface AND if_mask iface"

definition advertise_iface :: "iface_entry \<Rightarrow> router_state \<Rightarrow> router_state option" where
  "advertise_iface iface rs = do {
     our_router \<leftarrow> get_router_by_rid (router_id rs) (pwospf_router_list rs);
     let pi = \<lparr>pi_subnet = iface_subnet iface, pi_mask = if_mask iface, pi_router_id = 0, pi_is_active = False\<rparr>;
     Some (if is_route_present our_router pi then rs
       else update_router (router_id rs) (\<lambda>r. r\<lparr>pr_interface_list := pr_interface_list r @ [pi]\<rparr>) rs)
   }"

definition flood_changes :: "router_state \<Rightarrow> router_state option" where
  "flood_changes rs = do {
     rs \<leftarrow> lock_mutex_pwospf_router_list rs;
     rs \<leftarrow> propagate_pwospf_changes rs;
     rs \<leftarrow> unlock_mutex_pwospf_router_list rs;
     Some (emit (Signal C_lsu_bcast) rs)
   }"

definition iface_up :: "router_state \<Rightarrow> string \<Rightarrow> (int \<times> router_state) option" where
  "iface_up rs interface = (case get_iface rs interface of
     None \<Rightarrow> Some (1, rs)
   | Some iface \<Rightarrow>
       if if_is_active iface then Some (0, rs)
       else do {
         let rs = update_iface interface (\<lambda>i. i\<lparr>if_is_active := True\<rparr>) rs;
         (r, rs) \<leftarrow> activate_routes rs interface;
         nbrs \<leftarrow> clear_neighbors (if_nbr_routers iface);
         let rs = update_iface interface (\<lambda>i. i\<lparr>if_nbr_routers := nbrs\<rparr>) rs;
         rs \<leftarrow> advertise_iface iface rs;
         rs \<leftarrow> flood_changes rs;
         Some (0, rs)
       })"

definition iface_down :: "router_state \<Rightarrow> string \<Rightarrow> (int \<times> router_state) option" where
  "iface_down rs interface = (case get_iface rs interface of
     None \<Rightarrow> Some (1, rs)
   | Some iface \<Rightarrow>
       if \<not> if_is_active iface then Some (0, rs)
       else do {
         let rs = update_iface interface (\<lambda>i. i\<lparr>if_is_active := False\<rparr>) rs;
         (r, rs) \<leftarrow> deactivate_routes rs interface;
         nbrs \<leftarrow> clear_neighbors (if_nbr_routers iface);
         let rs = update_iface interface (\<lambda>i. i\<lparr>if_nbr_routers := nbrs\<rparr>) rs;
         our_router \<leftarrow> get_router_by_rid (router_id rs) (pwospf_router_list rs);
         let iface_removed = list_ex (\<lambda>pi. pi_subnet pi = iface_subnet iface) (pr_interface_list our_router);
         let rs = update_router (router_id rs) (\<lambda>r. r\<lparr>pr_interface_list :=
             filter (\<lambda>pi. pi_subnet pi \<noteq> iface_subnet iface) (pr_interface_list r)\<rparr>) rs;
         rs \<leftarrow> (if iface_removed then flood_changes rs else Some rs);
         Some (0, rs)
       })"

section \<open>Neighbours\<close>

lemma remove_stuck_any: "remove_stuck h head (Some a) = None"
proof (cases "node_remove h head a")
  case (Some r)
  then have "fst r a = None"
    by (auto simp: node_remove_def bind_eq_Some_conv Let_def split: if_splits)
  then have "node_remove (fst r) (snd r) a = None" by (simp add: node_remove_def)
  then have "remove_stuck (fst r) (snd r) (Some a) = None" by (subst remove_stuck.simps) simp
  with Some show ?thesis by (subst remove_stuck.simps) simp
qed (subst remove_stuck.simps, simp)

lemma clear_neighbors_cases: "clear_neighbors nbrs = (if nbrs = [] then Some [] else None)"
proof (cases "nbrs = []")
  case True
  then show ?thesis by (subst clear_neighbors_def, subst remove_stuck.simps) (simp add: list_head_def)
qed (simp add: clear_neighbors_def list_head_def remove_stuck_any)

text \<open>An interface with a neighbour cannot be brought down. The loop that clears its
  neighbours frees the first one and then passes the same freed node to \<open>node_remove\<close> again, so
  \<open>ip interface eth0 down\<close> crashes the router exactly when PWOSPF has found someone there.\<close>

theorem iface_down_with_neighbor_faults:
  assumes "get_iface rs interface = Some iface" "if_is_active iface" "if_nbr_routers iface \<noteq> []"
  shows "iface_down rs interface = None"
proof -
  have "clear_neighbors (if_nbr_routers iface) = None" using assms(3) by (simp add: clear_neighbors_cases)
  then show ?thesis
    using assms(1,2)
    by (cases "deactivate_routes (update_iface interface (\<lambda>i. i\<lparr>if_is_active := False\<rparr>) rs) interface")
      (auto simp: iface_down_def Let_def)
qed

theorem iface_down_with_neighbor_faults_witness:
  "iface_down (empty_router\<lparr>if_list := [sample_iface\<lparr>if_nbr_routers := [sample_neighbor 2 20]\<rparr>]\<rparr>) ''eth0'' = None"
  by (rule iface_down_with_neighbor_faults [where iface = "sample_iface\<lparr>if_nbr_routers := [sample_neighbor 2 20]\<rparr>"])
    (simp_all add: get_iface_def iface_named_def sample_iface_def SR_NAMELEN_def)

section \<open>Telling the others\<close>

text \<open>The routers by their ids and links, without the marks of activity.\<close>

definition links_of :: "pwospf_router list \<Rightarrow> (u32 \<times> (u32 \<times> u32 \<times> u32) list) list" where
  "links_of rl = map (\<lambda>r. (pr_router_id r, map pi_key (pr_interface_list r))) rl"

lemma links_list_update:
  "pr_router_id y = pr_router_id (rl ! k) \<Longrightarrow> map pi_key (pr_interface_list y) = map pi_key (pr_interface_list (rl ! k)) \<Longrightarrow>
     links_of (rl[k := y]) = links_of rl"
  by (cases "k < length rl") (simp_all add: links_of_def map_list_update_same list_update_beyond)

lemma links_set_pi_active [simp]: "links_of (set_pi_active j k b rl) = links_of rl"
proof -
  have "map pi_key (is[k := (is ! k)\<lparr>pi_is_active := b\<rparr>]) = map pi_key is" for "is"
    by (cases "k < length is") (simp_all add: map_list_update_same list_update_beyond pi_key_def)
  then show ?thesis by (simp add: set_pi_active_def links_list_update)
qed

lemma links_fold: "(\<And>x rl. links_of (f x rl) = links_of rl) \<Longrightarrow> links_of (fold f xs rl) = links_of rl"
  by (induction xs arbitrary: rl) simp_all

lemma links_determine_active [simp]:
  "links_of (determine_active_interface j k rl) = links_of rl"
  "links_of (determine_active_interfaces j rl) = links_of rl"
  by (simp_all add: determine_active_interfaces_def determine_active_interface_def Let_def links_fold split: option.split)

lemma links_update_first:
  "(\<And>r. pr_router_id (f r) = pr_router_id r \<and> pr_interface_list (f r) = pr_interface_list r) \<Longrightarrow>
     links_of (update_first P f rl) = links_of rl"
  by (simp add: links_of_def map_update_first)

lemma clear_pwospf_sum:
  "(enc_pwospf_hdr h @ rest)[12 := 0, 13 := 0] = enc_pwospf_hdr (h\<lparr>pwospf_sum := 0\<rparr>) @ rest"
  by (simp add: enc_pwospf_hdr_def byte_of_def)

lemma pwospf_len_bytes:
  "le16 ((enc_pwospf_hdr h @ rest) ! 3) ((enc_pwospf_hdr h @ rest) ! 2) = ntohs (pwospf_len h)"
  by (simp add: enc_pwospf_hdr_def ntohs_def)

lemma set_pwospf_checksum_returns:
  assumes "2 * (unat (ntohs (pwospf_len h)) div 2) \<le> 24 + length rest"
  shows "\<exists>s. set_pwospf_checksum (enc_pwospf_hdr h @ rest) = Some (enc_pwospf_hdr (h\<lparr>pwospf_sum := s\<rparr>) @ rest)"
proof -
  let ?m = "enc_pwospf_hdr (h\<lparr>pwospf_sum := 0\<rparr>) @ rest"
  have "pwospf_len (h\<lparr>pwospf_sum := 0\<rparr>) = pwospf_len h" by simp
  then have "compute_pwospf_checksum (enc_pwospf_hdr h @ rest) = Some (fold_complement (cksum_loop
      (\<lambda>i. \<not> (i < 8 \<or> 11 < i)) 0 (take (unat (ntohs (pwospf_len h)) div 2) (shorts ?m)) 0), ?m)"
    using assms by (simp add: compute_pwospf_checksum_def clear_pwospf_sum pwospf_len_bytes pwospf_hdr.length_enc Let_def)
  moreover have "load 24 dec_pwospf_hdr 0 ?m = Some (h\<lparr>pwospf_sum := 0\<rparr>)"
    using load_mid [of "[]" 0 "enc_pwospf_hdr (h\<lparr>pwospf_sum := 0\<rparr>)" 24 dec_pwospf_hdr rest]
    by (simp add: pwospf_hdr.length_enc pwospf_hdr.dec_enc)
  moreover have "store 24 enc_pwospf_hdr 0 v ?m = Some (enc_pwospf_hdr v @ rest)" for v
    using store_mid [of "[]" 0 "enc_pwospf_hdr (h\<lparr>pwospf_sum := 0\<rparr>)" 24 enc_pwospf_hdr v rest]
    by (simp add: pwospf_hdr.length_enc)
  ultimately show ?thesis by (simp add: set_pwospf_checksum_def) blast
qed

text \<open>The link state packet of this router, if it fits the 16 bits of its length field.\<close>

lemma construct_pwospf_lsu_packet_returns:
  assumes "get_router_by_rid (router_id rs) (pwospf_router_list rs) = Some r" "length (pr_interface_list r) \<le> 5000"
  shows "\<exists>pw. construct_pwospf_lsu_packet rs = Some (pw, update_router (router_id rs)
      (\<lambda>r. r\<lparr>pr_last_update := clock rs, pr_seq := pr_seq r + 1\<rparr>) rs) \<and> pwospf_sized pw"
proof -
  let ?adv = "lsu_advs (pr_interface_list r)"
  let ?len = "24 + 8 + length ?adv * 12"
  let ?h = "populate_pwospf PWOSPF_TYPE_LINK_STATE_UPDATE (of_nat ?len) (router_id rs) (area_id rs)"
  let ?rest = "enc_pwospf_lsu_hdr (populate_pwospf_lsu (pr_seq r) (of_nat (length ?adv))) @ concat (map enc_pwospf_lsu_adv ?adv)"
  have "length (concat (map enc_pwospf_lsu_adv xs)) = 12 * length xs" for xs
    by (induction xs) (simp_all add: pwospf_lsu_adv.length_enc)
  then have rest: "24 + length ?rest = ?len" by (simp add: pwospf_lsu_hdr.length_enc)
  have "?len < 65536" using assms(2) by (simp add: lsu_advs_def)
  moreover have "n < 65536 \<Longrightarrow> unat (of_nat n :: u16) = n" for n by (simp add: unsigned_of_nat take_bit_nat_eq_self)
  ultimately have "unat (of_nat ?len :: u16) = ?len" by blast
  then have l: "unat (ntohs (pwospf_len (?h\<lparr>pwospf_sum := s\<rparr>))) = ?len" for s by (simp add: populate_pwospf_def)
  then have "2 * (unat (ntohs (pwospf_len ?h)) div 2) \<le> 24 + length ?rest" using rest l [of "pwospf_sum ?h"] by simp
  from set_pwospf_checksum_returns [OF this] obtain s where
    s: "set_pwospf_checksum (enc_pwospf_hdr ?h @ ?rest) = Some (enc_pwospf_hdr (?h\<lparr>pwospf_sum := s\<rparr>) @ ?rest)" by blast
  let ?pw = "enc_pwospf_hdr (?h\<lparr>pwospf_sum := s\<rparr>) @ ?rest"
  have "load 24 dec_pwospf_hdr 0 ?pw = Some (?h\<lparr>pwospf_sum := s\<rparr>)"
    using load_mid [of "[]" 0 "enc_pwospf_hdr (?h\<lparr>pwospf_sum := s\<rparr>)" 24 dec_pwospf_hdr ?rest]
    by (simp add: pwospf_hdr.length_enc pwospf_hdr.dec_enc)
  moreover have "length ?pw = ?len" using rest by (simp add: pwospf_hdr.length_enc)
  ultimately have "pwospf_sized ?pw" using l [of s] by (auto simp: pwospf_sized_def)
  moreover have "construct_pwospf_lsu_adv rs = Some ?adv" using assms(1) by (simp add: construct_pwospf_lsu_adv_def)
  ultimately show ?thesis using s assms(1)
    by (intro exI [of _ ?pw]) (simp only: construct_pwospf_lsu_packet_def Let_def Option.bind.simps simp_thms)
qed

text \<open>What \<open>propagate_pwospf_changes\<close> may touch.\<close>

definition propagated :: "router_state \<Rightarrow> router_state \<Rightarrow> bool" where
  "propagated rs rs' \<longleftrightarrow> links_of (pwospf_router_list rs') = links_of (pwospf_router_list rs)
     \<and> rs' = rs\<lparr>pwospf_router_list := pwospf_router_list rs', pwospf_lsu_queue := pwospf_lsu_queue rs',
         dijkstra_dirty := dijkstra_dirty rs', events := events rs'\<rparr>"

definition lsu_fits :: "router_state \<Rightarrow> bool" where
  "lsu_fits rs \<longleftrightarrow> (\<exists>r. get_router_by_rid (router_id rs) (pwospf_router_list rs) = Some r \<and> length (pr_interface_list r) \<le> 5000)"

lemma get_router_links:
  "links_of rl' = links_of rl \<Longrightarrow> map_option (\<lambda>r. map pi_key (pr_interface_list r)) (get_router_by_rid rid rl')
     = map_option (\<lambda>r. map pi_key (pr_interface_list r)) (get_router_by_rid rid rl)"
proof (induction rl arbitrary: rl')
  case (Cons r rl)
  from Cons.prems obtain r' rl'' where r: "rl' = r' # rl''" "pr_router_id r' = pr_router_id r"
    "map pi_key (pr_interface_list r') = map pi_key (pr_interface_list r)" "links_of rl'' = links_of rl"
    by (cases rl') (simp_all add: links_of_def)
  with Cons.IH [OF r(4)] show ?case by (simp add: get_router_by_rid_def)
qed (simp add: links_of_def get_router_by_rid_def)

lemma lsu_fits_links:
  assumes "links_of (pwospf_router_list rs') = links_of (pwospf_router_list rs)" "router_id rs' = router_id rs" "lsu_fits rs"
  shows "lsu_fits rs'"
proof -
  from assms(3) obtain r where r: "get_router_by_rid (router_id rs) (pwospf_router_list rs) = Some r"
    "length (pr_interface_list r) \<le> 5000" by (auto simp: lsu_fits_def)
  with get_router_links [OF assms(1), of "router_id rs"] obtain r' where
    "get_router_by_rid (router_id rs) (pwospf_router_list rs') = Some r'"
    "map pi_key (pr_interface_list r') = map pi_key (pr_interface_list r)" by auto
  moreover from this(2) have "length (pr_interface_list r') = length (pr_interface_list r)" by (rule map_eq_imp_length_eq)
  ultimately show ?thesis using r(2) assms(2) by (auto simp: lsu_fits_def)
qed

lemma propagate_returns:
  assumes "lsu_fits rs" "locks rs L_pwospf_lsu_queue = Free"
  shows "\<exists>rs'. propagate_pwospf_changes rs = Some rs' \<and> propagated rs rs'"
proof -
  let ?rl = "fold determine_active_interfaces [0..<length (pwospf_router_list rs)] (pwospf_router_list rs)"
  let ?d = "dijkstra_trigger (rs\<lparr>pwospf_router_list := ?rl\<rparr>)"
  have links: "links_of ?rl = links_of (pwospf_router_list rs)" by (rule links_fold) simp
  have d: "propagated rs ?d" using links by (simp add: propagated_def dijkstra_trigger_def emit_def)
  have "lsu_fits ?d" using assms(1) links by (intro lsu_fits_links [of ?d rs]) (simp_all add: dijkstra_trigger_def emit_def)
  then obtain r where r: "get_router_by_rid (router_id ?d) (pwospf_router_list ?d) = Some r"
    "length (pr_interface_list r) \<le> 5000" by (auto simp: lsu_fits_def)
  from construct_pwospf_lsu_packet_returns [OF r] obtain pw where
    pw: "construct_pwospf_lsu_packet ?d = Some (pw, update_router (router_id ?d)
      (\<lambda>r. r\<lparr>pr_last_update := clock ?d, pr_seq := pr_seq r + 1\<rparr>) ?d)" "pwospf_sized pw" by blast
  let ?c = "update_router (router_id ?d) (\<lambda>r. r\<lparr>pr_last_update := clock ?d, pr_seq := pr_seq r + 1\<rparr>) ?d"
  have lk: "locks ?c L_pwospf_lsu_queue = Free" using assms(2) by (simp add: update_router_def dijkstra_trigger_def emit_def)
  from broadcast_to_ifaces_queued [OF pw(2) lk, of None "if_list ?c"] obtain qs where
    b: "broadcast_pwospf_lsu_packet ?c pw None = Some (?c\<lparr>pwospf_lsu_queue := pwospf_lsu_queue ?c @ qs\<rparr>)"
    by (auto simp: broadcast_pwospf_lsu_packet_def queued_def)
  let ?b = "?c\<lparr>pwospf_lsu_queue := pwospf_lsu_queue ?c @ qs\<rparr>"
  have g: "\<exists>r. get_router_by_rid (router_id ?b) (pwospf_router_list ?b) = Some r"
  proof -
    have "links_of (pwospf_router_list ?b) = links_of (pwospf_router_list ?d)"
      by (simp add: update_router_def links_update_first)
    from get_router_links [OF this, of "router_id ?b"] r(1) show ?thesis
      by (auto simp: update_router_def)
  qed
  then obtain r2 where "get_router_by_rid (router_id ?b) (pwospf_router_list ?b) = Some r2" by blast
  then have s: "start_lsu_bcast_flood ?d = Some (if pwospf_lsu_broadcast ?d = 0 then ?d
      else update_router (router_id ?b) (\<lambda>r. r\<lparr>pr_last_update := clock ?b\<rparr>) ?b)"
    using pw(1) b by (simp add: start_lsu_bcast_flood_def)
  have "propagated rs (update_router (router_id ?b) (\<lambda>r. r\<lparr>pr_last_update := clock ?b\<rparr>) ?b)"
    using links by (simp add: propagated_def update_router_def links_update_first dijkstra_trigger_def emit_def)
  with d s show ?thesis by (simp add: propagate_pwospf_changes_def Let_def)
qed

lemma flood_changes_returns:
  assumes "lsu_fits rs" "locks rs L_pwospf_lsu_queue = Free" "locks rs L_pwospf_router_list = Free"
  shows "\<exists>rs'. flood_changes rs = Some rs' \<and> propagated rs rs'"
proof -
  let ?l = "set_lock L_pwospf_router_list Writing rs"
  have "lsu_fits ?l" using assms(1) by (simp add: lsu_fits_def set_lock_fields)
  moreover have "locks ?l L_pwospf_lsu_queue = Free" using assms(2) by (simp add: set_lock_def)
  ultimately obtain r where r: "propagate_pwospf_changes ?l = Some r" "propagated ?l r" using propagate_returns by blast
  have e: "r = ?l\<lparr>pwospf_router_list := pwospf_router_list r, pwospf_lsu_queue := pwospf_lsu_queue r,
         dijkstra_dirty := dijkstra_dirty r, events := events r\<rparr>" using r(2) by (simp add: propagated_def)
  have lk: "locks r = (locks rs)(L_pwospf_router_list := Writing)" by (subst e) (simp add: set_lock_def)
  let ?u = "emit (Signal C_lsu_bcast) (set_lock L_pwospf_router_list Free r)"
  have "flood_changes rs = Some ?u"
    using r(1) lk assms(3) by (simp add: flood_changes_def lock_wrappers free_locks)
  moreover have "propagated rs ?u"
  proof -
    have "set_lock L_pwospf_router_list Free r = rs\<lparr>pwospf_router_list := pwospf_router_list r, pwospf_lsu_queue := pwospf_lsu_queue r,
         dijkstra_dirty := dijkstra_dirty r, events := events r\<rparr>"
      by (subst e) (simp add: set_lock_def assms(3) fun_upd_idem)
    moreover have "links_of (pwospf_router_list r) = links_of (pwospf_router_list rs)"
      using r(2) by (simp add: propagated_def set_lock_fields)
    ultimately show ?thesis by (simp add: propagated_def emit_def)
  qed
  ultimately show ?thesis by blast
qed

section \<open>Down\<close>

lemma get_iface_update_iface:
  assumes "get_iface rs i = Some e" "if_name (f e) = if_name e"
  shows "get_iface (update_iface i f rs) i = Some (f e)"
proof -
  have "iface_named i e" using assms(1) by (auto simp: get_iface_def find_Some_iff)
  then have "iface_named i (f e)" using assms(2) by (simp add: iface_named_def)
  with assms(1) find_update_first [of "iface_named i" "if_list rs" e f] show ?thesis
    by (simp add: get_iface_def update_iface_def)
qed

lemma get_router_update_router:
  "get_router_by_rid rid (pwospf_router_list rs) = Some r \<Longrightarrow> pr_router_id (f r) = pr_router_id r \<Longrightarrow>
     get_router_by_rid rid (pwospf_router_list (update_router rid f rs)) = Some (f r)"
  using find_update_first [of "\<lambda>r. pr_router_id r = rid" "pwospf_router_list rs" r f]
  by (auto simp: get_router_by_rid_def update_router_def find_Some_iff)

lemma lpm_scan_member:
  "lpm_scan dst rt best n = Some e \<Longrightarrow> best = Some e \<or> (e \<in> set rt \<and> rt_is_active e)"
  by (induction dst rt best n rule: lpm_scan.induct) (auto split: if_splits)

lemma next_hop_member:
  "get_next_hop rs n dst = Some (hop, out) \<Longrightarrow> \<exists>e\<in>set (rtable rs). rt_is_active e \<and> out = strncpy (rt_iface e) n"
  by (auto simp: get_next_hop_def dest!: lpm_scan_member split: option.splits)

lemma deactivated_walk: "e \<in> set (deactivate_walk i rt) \<Longrightarrow> route_on i e \<Longrightarrow> \<not> rt_is_active e"
  by (induction rt) (auto simp: route_on_def split: if_splits)

lemma route_on_out: "strncpy (rt_iface e) IF_LEN = i \<Longrightarrow> length i \<le> IF_LEN \<Longrightarrow> route_on i e"
  by (auto simp: route_on_def strncmp_eq_def strncpy_def min_def)

lemma propagated_frame:
  assumes "propagated rs rs'"
  shows "rtable rs' = rtable rs" "if_list rs' = if_list rs" "netfpga rs' = netfpga rs" "is_netfpga rs' = is_netfpga rs"
    "locks rs' = locks rs" "router_id rs' = router_id rs" "get_iface rs' = get_iface rs" "rtable_ok rs' = rtable_ok rs"
proof -
  have e: "rs' = rs\<lparr>pwospf_router_list := pwospf_router_list rs', pwospf_lsu_queue := pwospf_lsu_queue rs',
         dijkstra_dirty := dijkstra_dirty rs', events := events rs'\<rparr>" using assms by (simp add: propagated_def)
  show f: "rtable rs' = rtable rs" "if_list rs' = if_list rs" "netfpga rs' = netfpga rs" "is_netfpga rs' = is_netfpga rs"
    "locks rs' = locks rs" "router_id rs' = router_id rs"
    by (subst e, simp)+
  show "get_iface rs' = get_iface rs" by (simp add: get_iface_def fun_eq_iff f)
  show "rtable_ok rs' = rtable_ok rs" by (simp add: rtable_ok_def rtable_mirrored_def active_routes_def f)
qed

definition our_links :: "router_state \<Rightarrow> (u32 \<times> u32 \<times> u32) list option" where
  "our_links rs = map_option (\<lambda>r. map pi_key (pr_interface_list r)) (get_router_by_rid (router_id rs) (pwospf_router_list rs))"

lemma iface_down_effect:
  assumes "get_iface rs interface = Some iface" "if_is_active iface" "if_nbr_routers iface = []"
    "rt_iface ` set (rtable rs) \<subseteq> hw_ports" "lsu_fits rs" "locks rs L_pwospf_lsu_queue = Free"
    "locks rs L_pwospf_router_list = Free"
  shows "\<exists>rs'. iface_down rs interface = Some (0, rs') \<and> rtable_ok rs'
    \<and> mset (rtable rs') = mset (deactivate_walk interface (rtable rs))
    \<and> get_iface rs' interface = Some (iface\<lparr>if_is_active := False\<rparr>) \<and> locks rs' = locks rs
    \<and> our_links rs' = map_option (filter (\<lambda>k. fst k \<noteq> iface_subnet iface)) (our_links rs)"
proof -
  let ?r1 = "update_iface interface (\<lambda>i. i\<lparr>if_is_active := False\<rparr>) rs"
  let ?d = "?r1\<lparr>rtable := deactivate_walk interface (rtable ?r1)\<rparr>"
  have "rt_iface ` set (rtable ?d) \<subseteq> hw_ports"
    using assms(4) deactivate_walk_ifaces by (fastforce simp: update_iface_def)
  then obtain r2 where r2: "trigger_rtable_modified ?d = Some r2" "rtable_ok r2" "mset (rtable r2) = mset (rtable ?d)"
    "r2 = ?d\<lparr>rtable := rtable r2, netfpga := netfpga r2\<rparr>"
    using trigger_rtable_modified_ok [of ?d] by blast
  have f2: "if_list r2 = if_list ?r1" "locks r2 = locks rs" "router_id r2 = router_id rs"
    "pwospf_router_list r2 = pwospf_router_list rs"
    by (subst r2(4), simp add: update_iface_def)+
  let ?r3 = "update_iface interface (\<lambda>i. i\<lparr>if_nbr_routers := []\<rparr>) r2"
  obtain r where r: "get_router_by_rid (router_id rs) (pwospf_router_list rs) = Some r" "length (pr_interface_list r) \<le> 5000"
    using assms(5) by (auto simp: lsu_fits_def)
  let ?f = "\<lambda>r. r\<lparr>pr_interface_list := filter (\<lambda>pi. pi_subnet pi \<noteq> iface_subnet iface) (pr_interface_list r)\<rparr>"
  let ?r4 = "update_router (router_id ?r3) ?f ?r3"
  have f3: "router_id ?r3 = router_id rs" "pwospf_router_list ?r3 = pwospf_router_list rs" "locks ?r3 = locks rs"
    "rtable ?r3 = rtable r2"
    by (simp_all add: update_iface_def f2)
  have g4: "get_router_by_rid (router_id rs) (pwospf_router_list ?r4) = Some (?f r)"
    using get_router_update_router [of "router_id rs" ?r3 r ?f] r(1) by (simp add: f3)
  have f4: "router_id ?r4 = router_id rs" "locks ?r4 = locks rs" "rtable ?r4 = rtable r2" "rtable_ok ?r4 = rtable_ok r2"
    "get_iface ?r4 = get_iface ?r3"
    by (simp_all add: update_router_def f2 f3 get_iface_def fun_eq_iff rtable_ok_def rtable_mirrored_def active_routes_def update_iface_def)
  have i: "get_iface ?r4 interface = Some (iface\<lparr>if_is_active := False\<rparr>)"
  proof -
    have "get_iface ?r1 interface = Some (iface\<lparr>if_is_active := False\<rparr>)"
      by (rule get_iface_update_iface) (use assms(1) in simp_all)
    then have "get_iface r2 interface = Some (iface\<lparr>if_is_active := False\<rparr>)" by (simp add: get_iface_def f2)
    from get_iface_update_iface [OF this, of "\<lambda>i. i\<lparr>if_nbr_routers := []\<rparr>"] have
      "get_iface ?r3 interface = Some (iface\<lparr>if_is_active := False, if_nbr_routers := []\<rparr>)" by simp
    then show ?thesis using assms(3) by (simp add: f4)
  qed
  have links4: "our_links ?r4 = map_option (filter (\<lambda>k. fst k \<noteq> iface_subnet iface)) (our_links rs)"
    unfolding our_links_def f4(1) g4 using r(1) by (simp add: filter_map comp_def pi_key_def)
  have "length (pr_interface_list (?f r)) \<le> 5000" using order_trans [OF length_filter_le r(2)] by simp
  then have "lsu_fits ?r4" unfolding lsu_fits_def f4(1) g4 by blast
  then obtain r5 where r5: "flood_changes ?r4 = Some r5" "propagated ?r4 r5"
    using flood_changes_returns [of ?r4] assms(6,7) f4(2) by auto
  have links5: "our_links r5 = our_links ?r4"
    unfolding our_links_def propagated_frame(6) [OF r5(2)]
    by (rule get_router_links) (use r5(2) in \<open>simp add: propagated_def\<close>)
  let ?removed = "list_ex (\<lambda>pi. pi_subnet pi = iface_subnet iface) (pr_interface_list r)"
  have run: "iface_down rs interface = Some (0, if ?removed then r5 else ?r4)"
    using assms(1-3) r2(1) r(1) r5(1)
    by (simp add: iface_down_def deactivate_routes_def Let_def clear_neighbors_cases f3)
  let ?rs' = "if ?removed then r5 else ?r4"
  note f5 = propagated_frame [OF r5(2)]
  have "rtable_ok ?rs'" "mset (rtable ?rs') = mset (rtable ?d)" "get_iface ?rs' interface = Some (iface\<lparr>if_is_active := False\<rparr>)"
    "locks ?rs' = locks rs" "our_links ?rs' = our_links ?r4"
    by (cases ?removed, simp_all only: if_True if_False f5 f4 r2(2,3) i [unfolded f4(5)] links5)+
  then show ?thesis unfolding run links4 by (simp add: update_iface_def)
qed

section \<open>Up\<close>

lemma our_links_fits: "our_links rs = Some ks \<Longrightarrow> length ks \<le> 5000 \<Longrightarrow> lsu_fits rs"
  by (auto simp: our_links_def lsu_fits_def)

lemma advertise_iface_effect:
  assumes "our_links rs = Some ks"
  shows "\<exists>rs'. advertise_iface iface rs = Some rs' \<and> rs' = rs\<lparr>pwospf_router_list := pwospf_router_list rs'\<rparr>
    \<and> our_links rs' = Some (if (iface_subnet iface, if_mask iface, 0) \<in> set ks then ks
        else ks @ [(iface_subnet iface, if_mask iface, 0)])"
proof -
  obtain r where r: "get_router_by_rid (router_id rs) (pwospf_router_list rs) = Some r" "ks = map pi_key (pr_interface_list r)"
    using assms by (auto simp: our_links_def)
  let ?pi = "\<lparr>pi_subnet = iface_subnet iface, pi_mask = if_mask iface, pi_router_id = 0, pi_is_active = False\<rparr>"
  let ?f = "\<lambda>r. r\<lparr>pr_interface_list := pr_interface_list r @ [?pi]\<rparr>"
  have p: "is_route_present r ?pi \<longleftrightarrow> (iface_subnet iface, if_mask iface, 0) \<in> set ks"
    by (force simp: is_route_present_def r(2) pi_key_def)
  have "our_links (update_router (router_id rs) ?f rs) = Some (ks @ [pi_key ?pi])"
    using get_router_update_router [of "router_id rs" rs r ?f] r by (simp add: our_links_def update_router_def)
  then show ?thesis
    using r(1) p assms by (auto simp: advertise_iface_def Let_def pi_key_def update_router_def)
qed

lemma iface_up_effect:
  assumes "get_iface rs interface = Some iface" "\<not> if_is_active iface" "if_nbr_routers iface = []"
    "rt_iface ` set (rtable rs) \<subseteq> hw_ports" "our_links rs = Some ks" "length ks < 5000"
    "locks rs L_pwospf_lsu_queue = Free" "locks rs L_pwospf_router_list = Free"
  shows "\<exists>rs'. iface_up rs interface = Some (0, rs') \<and> rtable_ok rs'
    \<and> mset (rtable rs') = mset (map (\<lambda>e. if route_on interface e then e\<lparr>rt_is_active := True\<rparr> else e) (rtable rs))
    \<and> get_iface rs' interface = Some (iface\<lparr>if_is_active := True\<rparr>) \<and> locks rs' = locks rs
    \<and> our_links rs' = Some (if (iface_subnet iface, if_mask iface, 0) \<in> set ks then ks
        else ks @ [(iface_subnet iface, if_mask iface, 0)])"
proof -
  let ?r1 = "update_iface interface (\<lambda>i. i\<lparr>if_is_active := True\<rparr>) rs"
  let ?a = "?r1\<lparr>rtable := map (\<lambda>e. if route_on interface e then e\<lparr>rt_is_active := True\<rparr> else e) (rtable ?r1)\<rparr>"
  have "rt_iface ` set (rtable ?a) \<subseteq> hw_ports" using assms(4) by (auto simp: update_iface_def split: if_splits)
  then obtain r2 where r2: "trigger_rtable_modified ?a = Some r2" "rtable_ok r2" "mset (rtable r2) = mset (rtable ?a)"
    "r2 = ?a\<lparr>rtable := rtable r2, netfpga := netfpga r2\<rparr>"
    using trigger_rtable_modified_ok [of ?a] by blast
  have f2: "if_list r2 = if_list ?r1" "locks r2 = locks rs" "router_id r2 = router_id rs"
    "pwospf_router_list r2 = pwospf_router_list rs"
    by (subst r2(4), simp add: update_iface_def)+
  let ?r3 = "update_iface interface (\<lambda>i. i\<lparr>if_nbr_routers := []\<rparr>) r2"
  have f3: "our_links ?r3 = Some ks" "locks ?r3 = locks rs" "rtable ?r3 = rtable r2" "rtable_ok ?r3 = rtable_ok r2"
    using assms(5) by (simp_all add: our_links_def update_iface_def f2 rtable_ok_def rtable_mirrored_def active_routes_def)
  have i: "get_iface ?r3 interface = Some (iface\<lparr>if_is_active := True\<rparr>)"
  proof -
    have "get_iface ?r1 interface = Some (iface\<lparr>if_is_active := True\<rparr>)"
      by (rule get_iface_update_iface) (use assms(1) in simp_all)
    then have "get_iface r2 interface = Some (iface\<lparr>if_is_active := True\<rparr>)" by (simp add: get_iface_def f2)
    from get_iface_update_iface [OF this, of "\<lambda>i. i\<lparr>if_nbr_routers := []\<rparr>"] have
      "get_iface ?r3 interface = Some (iface\<lparr>if_is_active := True, if_nbr_routers := []\<rparr>)" by simp
    then show ?thesis using assms(3) by simp
  qed
  let ?ks = "if (iface_subnet iface, if_mask iface, 0) \<in> set ks then ks else ks @ [(iface_subnet iface, if_mask iface, 0)]"
  from advertise_iface_effect [OF f3(1), of iface] obtain r4 where r4: "advertise_iface iface ?r3 = Some r4"
    "r4 = ?r3\<lparr>pwospf_router_list := pwospf_router_list r4\<rparr>" "our_links r4 = Some ?ks" by auto
  have f4: "locks r4 = locks rs" "rtable r4 = rtable r2" "rtable_ok r4 = rtable_ok r2" "get_iface r4 = get_iface ?r3"
    by (subst r4(2), simp add: f3 f2 get_iface_def fun_eq_iff rtable_ok_def rtable_mirrored_def active_routes_def update_iface_def)+
  have "lsu_fits r4" using our_links_fits [OF r4(3)] assms(6) by simp
  then obtain r5 where r5: "flood_changes r4 = Some r5" "propagated r4 r5"
    using flood_changes_returns [of r4] assms(7,8) f4(1) by auto
  have links5: "our_links r5 = our_links r4"
    unfolding our_links_def propagated_frame(6) [OF r5(2)]
    by (rule get_router_links) (use r5(2) in \<open>simp add: propagated_def\<close>)
  have run: "iface_up rs interface = Some (0, r5)"
    using assms(1-3) r2(1) r4(1) r5(1) by (simp add: iface_up_def activate_routes_def Let_def clear_neighbors_cases)
  note f5 = propagated_frame [OF r5(2)]
  have "rtable_ok r5" "mset (rtable r5) = mset (rtable ?a)" "get_iface r5 interface = Some (iface\<lparr>if_is_active := True\<rparr>)"
    "locks r5 = locks rs" "our_links r5 = Some ?ks"
    by (simp_all only: f5 f4 r2(2,3) i links5 r4(3))
  then show ?thesis unfolding run by (simp add: update_iface_def)
qed

section \<open>Down and up again\<close>

lemma switched_routes:
  "filter_mset (route_on i) (mset (map (\<lambda>e. if route_on i e then e\<lparr>rt_is_active := True\<rparr> else e) rt))
     = {#e\<lparr>rt_is_active := True\<rparr>. e \<in># filter_mset (route_on i) (mset rt)#}"
  "filter_mset (\<lambda>e. \<not> route_on i e) (mset (map (\<lambda>e. if route_on i e then e\<lparr>rt_is_active := True\<rparr> else e) rt))
     = filter_mset (\<lambda>e. \<not> route_on i e) (mset rt)"
  "filter_mset (route_on i) (mset (deactivate_walk i rt)) = {#e\<lparr>rt_is_active := False\<rparr>. e \<in>#
      filter_mset (\<lambda>e. route_on i e \<and> rt_is_static e) (mset rt)#}"
  "filter_mset (\<lambda>e. \<not> route_on i e) (mset (deactivate_walk i rt)) = filter_mset (\<lambda>e. \<not> route_on i e) (mset rt)"
proof -
  have on: "route_on i (e\<lparr>rt_is_active := b\<rparr>) = route_on i e" for e b by (simp add: route_on_def)
  show "filter_mset (route_on i) (mset (map (\<lambda>e. if route_on i e then e\<lparr>rt_is_active := True\<rparr> else e) rt))
     = {#e\<lparr>rt_is_active := True\<rparr>. e \<in># filter_mset (route_on i) (mset rt)#}"
    "filter_mset (\<lambda>e. \<not> route_on i e) (mset (map (\<lambda>e. if route_on i e then e\<lparr>rt_is_active := True\<rparr> else e) rt))
     = filter_mset (\<lambda>e. \<not> route_on i e) (mset rt)"
    "filter_mset (route_on i) (mset (deactivate_walk i rt)) = {#e\<lparr>rt_is_active := False\<rparr>. e \<in>#
      filter_mset (\<lambda>e. route_on i e \<and> rt_is_static e) (mset rt)#}"
    "filter_mset (\<lambda>e. \<not> route_on i e) (mset (deactivate_walk i rt)) = filter_mset (\<lambda>e. \<not> route_on i e) (mset rt)"
    by (induction rt) (auto simp: on)
qed

text \<open>C13: bringing an interface down and up again. On an interface without neighbours \<open>iface_down\<close>
  returns with the interface inactive and nothing routed over it any more, for no destination;
  \<open>iface_up\<close> then makes it active as it was and brings the static routes over it back to life, while
  the learnt ones are gone for good. Routes over other interfaces are untouched throughout, the card
  follows in both steps, and no lock is kept.\<close>

theorem iface_down_up:
  assumes "get_iface rs interface = Some iface" "if_is_active iface" "if_nbr_routers iface = []" "length interface \<le> IF_LEN"
    "rt_iface ` set (rtable rs) \<subseteq> hw_ports" "our_links rs = Some ks" "length ks < 5000"
    "locks rs L_pwospf_lsu_queue = Free" "locks rs L_pwospf_router_list = Free"
  shows "\<exists>rs1 rs2. iface_down rs interface = Some (0, rs1) \<and> rtable_ok rs1
    \<and> (\<forall>dst hop. get_next_hop rs1 IF_LEN dst \<noteq> Some (hop, interface))
    \<and> iface_up rs1 interface = Some (0, rs2) \<and> rtable_ok rs2 \<and> get_iface rs2 interface = Some iface
    \<and> filter_mset (route_on interface) (mset (rtable rs2)) = {#e\<lparr>rt_is_active := True\<rparr>. e \<in>#
          filter_mset (\<lambda>e. route_on interface e \<and> rt_is_static e) (mset (rtable rs))#}
    \<and> filter_mset (\<lambda>e. \<not> route_on interface e) (mset (rtable rs2)) = filter_mset (\<lambda>e. \<not> route_on interface e) (mset (rtable rs))
    \<and> locks rs2 = locks rs"
proof -
  have "lsu_fits rs" using our_links_fits [OF assms(6)] assms(7) by simp
  from iface_down_effect [OF assms(1-3,5) this assms(8,9)] obtain rs1 where d: "iface_down rs interface = Some (0, rs1)"
    "rtable_ok rs1" "mset (rtable rs1) = mset (deactivate_walk interface (rtable rs))"
    "get_iface rs1 interface = Some (iface\<lparr>if_is_active := False\<rparr>)" "locks rs1 = locks rs"
    "our_links rs1 = map_option (filter (\<lambda>k. fst k \<noteq> iface_subnet iface)) (our_links rs)" by blast
  have set1: "set (rtable rs1) = set (deactivate_walk interface (rtable rs))" using d(3) by (metis set_mset_mset)
  have "get_next_hop rs1 IF_LEN dst \<noteq> Some (hop, interface)" for dst hop
    using next_hop_member [of rs1 IF_LEN dst hop interface] deactivated_walk route_on_out assms(4) set1 by metis
  moreover have hw: "rt_iface ` set (rtable rs1) \<subseteq> hw_ports" using d(2) by (simp add: rtable_ok_def)
  let ?ks = "filter (\<lambda>k. fst k \<noteq> iface_subnet iface) ks"
  have "length ?ks < 5000" using assms(7) le_less_trans [OF length_filter_le] by blast
  moreover have "our_links rs1 = Some ?ks" using d(6) assms(6) by simp
  ultimately obtain rs2 where u: "iface_up rs1 interface = Some (0, rs2)" "rtable_ok rs2"
    "mset (rtable rs2) = mset (map (\<lambda>e. if route_on interface e then e\<lparr>rt_is_active := True\<rparr> else e) (rtable rs1))"
    "get_iface rs2 interface = Some (iface\<lparr>if_is_active := False, if_is_active := True\<rparr>)" "locks rs2 = locks rs1"
    using iface_up_effect [of rs1 interface "iface\<lparr>if_is_active := False\<rparr>" ?ks] d(4,5) hw assms(3,8,9) by auto
  have "filter_mset (route_on interface) (mset (rtable rs2)) = {#e\<lparr>rt_is_active := True\<rparr>. e \<in>#
          filter_mset (\<lambda>e. route_on interface e \<and> rt_is_static e) (mset (rtable rs))#}"
    unfolding u(3) switched_routes(1) d(3) switched_routes(3) by (simp add: multiset.map_comp comp_def)
  moreover have "filter_mset (\<lambda>e. \<not> route_on interface e) (mset (rtable rs2)) = filter_mset (\<lambda>e. \<not> route_on interface e) (mset (rtable rs))"
    unfolding u(3) switched_routes(2) d(3) switched_routes(4) ..
  moreover have "get_iface rs2 interface = Some iface" using u(4) assms(2) by simp
  ultimately show ?thesis using d(1,2,5) u(1,2,5) \<open>\<And>hop dst. get_next_hop rs1 IF_LEN dst \<noteq> Some (hop, interface)\<close>
    by (intro exI [of _ rs1] exI [of _ rs2]) simp
qed

definition sample_switch_router :: router_state where
  "sample_switch_router = empty_router\<lparr>router_id := 1, if_list := [sample_iface],
     rtable := [sample_route\<lparr>rt_iface := ''eth0''\<rparr>], pwospf_router_list := [sample_ospf 1 [sample_link 5 0]]\<rparr>"

theorem iface_down_up_witness:
  "\<exists>rs1 rs2. iface_down sample_switch_router ''eth0'' = Some (0, rs1)
    \<and> (\<forall>dst hop. get_next_hop rs1 IF_LEN dst \<noteq> Some (hop, ''eth0''))
    \<and> iface_up rs1 ''eth0'' = Some (0, rs2) \<and> get_iface rs2 ''eth0'' = Some sample_iface
    \<and> filter_mset (route_on ''eth0'') (mset (rtable rs2)) = {#sample_route\<lparr>rt_iface := ''eth0''\<rparr>#}"
proof -
  have a: "get_iface sample_switch_router ''eth0'' = Some sample_iface" "if_is_active sample_iface"
    "if_nbr_routers sample_iface = []" "length ''eth0'' \<le> IF_LEN"
    by (simp_all add: sample_switch_router_def get_iface_def iface_named_def sample_iface_def SR_NAMELEN_def IF_LEN_def)
  have b: "rt_iface ` set (rtable sample_switch_router) \<subseteq> hw_ports" "length [pi_key (sample_link 5 0)] < 5000"
    "our_links sample_switch_router = Some [pi_key (sample_link 5 0)]"
    "locks sample_switch_router L_pwospf_lsu_queue = Free" "locks sample_switch_router L_pwospf_router_list = Free"
    by (simp_all add: sample_switch_router_def hw_ports_def our_links_def get_router_by_rid_def sample_ospf_def empty_router_def)
  have r: "filter_mset (\<lambda>e. route_on ''eth0'' e \<and> rt_is_static e) (mset (rtable sample_switch_router))
      = {#sample_route\<lparr>rt_iface := ''eth0''\<rparr>#}" "sample_route\<lparr>rt_iface := ''eth0'', rt_is_active := True\<rparr> = sample_route\<lparr>rt_iface := ''eth0''\<rparr>"
    by (simp_all add: sample_switch_router_def route_on_def strncmp_eq_def sample_route_def)
  from iface_down_up [OF a b(1,3,2,4,5)] show ?thesis unfolding r(1) by (auto simp: r(2))
qed

end
