(* ===== verification/Cli_Handlers.thy ===== *)
theory Cli_Handlers
  imports Output Iface_Admin Icmp Arp
begin

text \<open>
  The handlers of the command line: the \<open>cli_\<close> functions of or_cli.c, or_vns.c, or_rtable.c, or_arp.c,
  or_iface.c, or_ip.c, or_sping.c, or_pwospf.c and or_netfpga.c. A handler reads its arguments from
  the text of the command, takes the locks, calls the operation and reports to the client's socket.

  In a format \<open>%as\<close> allocates a string (the GNU extension). What a handler needs from outside the
  router state is in \<open>cli_env\<close>: the fields of \<open>struct sr_instance\<close> that \<open>show vns\<close> prints, the text of
  the traffic statistics (floating point averages that the statistics thread computes), and the
  wake-ups of \<open>sping\<close> while it waits.
\<close>

type_synonym cli_command_handler = "router_state \<Rightarrow> cli_request \<Rightarrow> router_state option"

text \<open>A wake-up: whether the wait timed out, and the echo replies queued in the meantime.\<close>

type_synonym wakeup = "bool \<times> packet list"

record cli_env =
  sr_user :: string
  sr_vhost :: string
  sr_lhost :: string
  sr_topo_id :: u16
  sr_sin_port :: u16
  sr_sin_addr :: u32
  hw_stats :: string
  wakeups :: "wakeup list"

definition say :: "cli_request \<Rightarrow> string \<Rightarrow> router_state \<Rightarrow> router_state" where
  "say req msg rs = send_to_socket (cr_sockfd req) msg rs"

fun says :: "cli_request \<Rightarrow> string list \<Rightarrow> router_state \<Rightarrow> router_state" where
  "says req [] rs = rs"
| "says req (msg # msgs) rs = says req msgs (say req msg rs)"

definition ln :: "string \<Rightarrow> string" where "ln s = s @ [LF]"

definition tab_ln :: "string \<Rightarrow> string" where "tab_ln s = TAB # s @ [LF]"

section \<open>Help\<close>

definition cli_help :: cli_command_handler where
  "cli_help rs req = Some (says req (ln ''usage: <args>'' # map tab_ln
     [''show vns [user server vhost lhost topology]'', ''show ip [route interface arp]'', ''ip [route interface arp]'',
      ''sping [dest]'', ''show pwopsf [iface router info]'', ''set aid [area id]'', ''set hello interval [interval]'',
      ''set lsu broadcast [on off]'', ''set lsu interval [interval]'', ''send hello'', ''send lsu'',
      ''show hw rtable'', ''show hw arp'', ''show hw iface'', ''hw iface add [eth0 eth1 eth2 eth3] [mac adress]'',
      ''hw iface del [eth0 eth1 eth2 eth3]'', ''nuke arp'', ''nuke hw arp [row]'', ''hw iface [eth0 eth1 eth2 eth3] up'',
      ''hw iface [eth0 eth1 eth2 eth3] down'', ''hw packts fwd'']) rs)"

definition cli_show_help :: cli_command_handler where
  "cli_show_help rs req = Some (says req (map ln [''usage: show <args>'',
     ''show vns [user server vhost lhost topology]'', ''show ip [route interface arp]'']) rs)"

definition cli_hw_help :: cli_command_handler where
  "cli_hw_help rs req = Some (says req (map tab_ln
     [''show hw rtable'', ''show hw arp'', ''show hw iface'', ''nuke arp'', ''nuke hw arp [row]'',
      ''hw iface add [eth0 eth1 eth2 eth3] [mac addr]'', ''hw iface del [eth0 eth1 eth2 eth3]'',
      ''hw iface [eth0 eth1 eth2 eth3] up'', ''hw iface [eth0 eth1 eth2 eth3] down'', ''hw packts fwd'']) rs)"

definition cli_show_ip_help :: cli_command_handler where
  "cli_show_ip_help rs req = Some (say req (ln ''usage: show ip [route interface arp]'') rs)"

definition cli_ip_help :: cli_command_handler where
  "cli_ip_help rs req = Some (says req (map ln [''usage: ip <args>'', ''ip [route interface arp]'']) rs)"

definition cli_show_ip_arp_help :: cli_command_handler where
  "cli_show_ip_arp_help rs req = Some (say req (ln ''usage: show ip arp'') rs)"

definition cli_ip_arp_help :: cli_command_handler where
  "cli_ip_arp_help rs req = Some (says req (map ln [''usage: ip arp <args>'', ''ip arp add ip MAC'', ''ip arp del ip'']) rs)"

definition cli_ip_arp_add_help :: cli_command_handler where
  "cli_ip_arp_add_help rs req = Some (say req (ln ''usage ip arp add ip MAC'') rs)"

definition cli_ip_arp_del_help :: cli_command_handler where
  "cli_ip_arp_del_help rs req = Some (say req (ln ''usage ip arp del ip'') rs)"

definition cli_show_ip_iface_help :: cli_command_handler where
  "cli_show_ip_iface_help rs req = Some (say req (ln ''usage: show ip interface'') rs)"

definition cli_ip_interface_help :: cli_command_handler where
  "cli_ip_interface_help rs req = Some (says req (map ln [''usage: ip iterface <args>'', ''ip interface name ip mask'',
     ''ip interface name up'', ''ip interface name down'']) rs)"

definition cli_show_ip_rtable_help :: cli_command_handler where
  "cli_show_ip_rtable_help rs req = Some (say req (ln ''usage: show ip route'') rs)"

definition cli_ip_route_help :: cli_command_handler where
  "cli_ip_route_help rs req = Some (says req (map ln [''usage: ip route <args>'',
     ''ip route add dest gateway mask interface'', ''ip route del dest mask'']) rs)"

definition cli_ip_route_add_help :: cli_command_handler where
  "cli_ip_route_add_help rs req = Some (say req (ln ''usage: ip route add dest gateway mask interface'') rs)"

definition cli_ip_route_del_help :: cli_command_handler where
  "cli_ip_route_del_help rs req = Some (say req (ln ''usage: ip route del dest mask'') rs)"

definition cli_sping_help :: cli_command_handler where
  "cli_sping_help rs req = Some (say req (ln ''usage: sping [address]'') rs)"

definition cli_show_pwospf_iface_help :: cli_command_handler where
  "cli_show_pwospf_iface_help rs req = Some (say req (ln ''usage: show pwospf interface'') rs)"

definition cli_pwospf_set_aid_help :: cli_command_handler where
  "cli_pwospf_set_aid_help rs req = Some (say req (ln ''usage: aid set [number]'') rs)"

definition cli_pwospf_help :: cli_command_handler where
  "cli_pwospf_help rs req = Some (says req (ln ''pwospf usage: '' # map tab_ln
     [''show pwospf interface'', ''show pwospf router'', ''set aid [value]'', ''set hello interval [value]'',
      ''set lsu broadcast [on/off]'', ''set lsu interval [value]'', ''send hello'', ''send lsu'']) rs)"

definition cli_show_vns_help :: cli_command_handler where
  "cli_show_vns_help rs req = Some (say req (ln ''usage: show vns [user server vhost lhost topology]'') rs)"

definition cli_show_vns_user_help :: cli_command_handler where
  "cli_show_vns_user_help rs req = Some (say req (ln ''Usage: show vns user'') rs)"

definition cli_show_vns_server_help :: cli_command_handler where
  "cli_show_vns_server_help rs req = Some (say req (ln ''Usage: show vns server'') rs)"

definition cli_show_vns_vhost_help :: cli_command_handler where
  "cli_show_vns_vhost_help rs req = Some (say req (ln ''Usage: show vns vhost'') rs)"

definition cli_show_vns_lhost_help :: cli_command_handler where
  "cli_show_vns_lhost_help rs req = Some (say req (ln ''Usage: show vns lhost'') rs)"

definition cli_show_vns_topology_help :: cli_command_handler where
  "cli_show_vns_topology_help rs req = Some (say req (ln ''Usage: show vns topology'') rs)"

section \<open>show vns\<close>

definition server_text :: "cli_env \<Rightarrow> string" where
  "server_text env = ''AF_INET'' @ [TAB, TAB] @ ''Port: '' @ decimal (unat (htons (sr_sin_port env))) @ [TAB] @ ''IP: ''
     @ inet_ntop (sr_sin_addr env)"

definition cli_show_vns :: "cli_env \<Rightarrow> cli_command_handler" where
  "cli_show_vns env rs req = Some (says req
     [''VNS Values:'', [LF, TAB] @ ''User:'' @ [TAB, TAB], sr_user env,
      [LF, TAB] @ ''Server:'' @ [TAB, TAB], server_text env,
      [LF, TAB] @ ''Vhost:'' @ [TAB, TAB], sr_vhost env, [LF, TAB] @ ''Lhost:'' @ [TAB, TAB], sr_lhost env,
      [LF, TAB] @ ''Topology: '' @ [TAB] @ decimal (unat (sr_topo_id env)) @ [LF]] rs)"

definition cli_show_vns_user :: "cli_env \<Rightarrow> cli_command_handler" where
  "cli_show_vns_user env rs req = Some (says req [''User:'' @ [TAB, TAB], sr_user env, [LF]] rs)"

definition cli_show_vns_server :: "cli_env \<Rightarrow> cli_command_handler" where
  "cli_show_vns_server env rs req = Some (says req [''Server:'' @ [TAB, TAB], server_text env @ [LF]] rs)"

definition cli_show_vns_vhost :: "cli_env \<Rightarrow> cli_command_handler" where
  "cli_show_vns_vhost env rs req = Some (says req [''Vhost:'' @ [TAB, TAB], sr_vhost env, [LF]] rs)"

definition cli_show_vns_lhost :: "cli_env \<Rightarrow> cli_command_handler" where
  "cli_show_vns_lhost env rs req = Some (says req [''Lhost:'' @ [TAB, TAB], sr_lhost env, [LF]] rs)"

definition cli_show_vns_topology :: "cli_env \<Rightarrow> cli_command_handler" where
  "cli_show_vns_topology env rs req =
     Some (say req (''Topology: '' @ [TAB] @ decimal (unat (sr_topo_id env)) @ [LF]) rs)"

section \<open>Routes\<close>

definition cli_show_ip_rtable :: cli_command_handler where
  "cli_show_ip_rtable rs req = do {
     rs \<leftarrow> lock_rtable_rd rs;
     rtable_info \<leftarrow> sprint_rtable rs;
     rs \<leftarrow> unlock_rtable rs;
     Some (say req rtable_info rs)
   }"

definition cli_ip_route_add :: cli_command_handler where
  "cli_ip_route_add rs req = (case sscanf (lit ''ip route add '' @ [Word, Skip, Word, Skip, Word, Skip, Word]) (cr_command req) of
     [S dest_str, S gateway_str, S mask_str, S interface] \<Rightarrow>
       (case inet_pton dest_str of None \<Rightarrow> Some (say req (ln ''Failure reading destination.'') rs) | Some dest \<Rightarrow>
       (case inet_pton gateway_str of None \<Rightarrow> Some (say req (ln ''Failure reading gateway.'') rs) | Some gateway \<Rightarrow>
       (case inet_pton mask_str of None \<Rightarrow> Some (say req (ln ''Failure reading mask.'') rs) | Some rmask \<Rightarrow> do {
         rs \<leftarrow> lock_rtable_wr rs;
         (add_result, rs) \<leftarrow> add_route rs dest gateway rmask interface;
         rs \<leftarrow> unlock_rtable rs;
         Some (say req (ln (if add_result \<noteq> 0 then ''Failure adding route.'' else ''Successfully added route.'')) rs)
       })))
   | _ \<Rightarrow> Some (say req (ln ''Failure reading arguments.'') rs))"

definition cli_ip_route_del :: cli_command_handler where
  "cli_ip_route_del rs req = (case sscanf (lit ''ip route del '' @ [Word, Skip, Word]) (cr_command req) of
     [S dest_str, S mask_str] \<Rightarrow>
       (case inet_pton dest_str of None \<Rightarrow> Some (say req (ln ''Failure reading destination.'') rs) | Some dest \<Rightarrow>
       (case inet_pton mask_str of None \<Rightarrow> Some (say req (ln ''Failure reading mask.'') rs) | Some rmask \<Rightarrow> do {
         rs \<leftarrow> lock_rtable_wr rs;
         (del_result, rs) \<leftarrow> del_route rs dest rmask;
         rs \<leftarrow> unlock_rtable rs;
         Some (say req (snprintf 256 (decimal del_result @
           ln (if del_result \<noteq> 1 then '' routes deleted.'' else '' route deleted.''))) rs)
       }))
   | _ \<Rightarrow> Some (say req (ln ''Failure reading arguments.'') rs))"

definition cli_show_hw_rtable :: cli_command_handler where
  "cli_show_hw_rtable rs req = (if is_netfpga rs then do {
       (hw_rtable_info, rs) \<leftarrow> sprint_hw_rtable rs;
       Some (say req hw_rtable_info rs)
     } else Some rs)"

section \<open>ARP\<close>

definition cli_show_ip_arp :: cli_command_handler where
  "cli_show_ip_arp rs req = do {
     let rs = say req (snprintf 32 (''Arp Cache TTL: '' @ pad_left 5 (decimal (unat (arp_ttl rs))) @ '' seconds'' @ [LF, LF])) rs;
     rs \<leftarrow> lock_arp_cache_rd rs;
     arp_cache_info \<leftarrow> sprint_arp_cache rs;
     rs \<leftarrow> unlock_arp_cache rs;
     Some (say req arp_cache_info rs)
   }"

text \<open>The address in six pairs of hexadecimal digits; each number is cut to a byte.\<close>

definition mac_format :: "directive list" where
  "mac_format = [Hex2, Lit (CHR '':''), Hex2, Lit (CHR '':''), Hex2, Lit (CHR '':''), Hex2, Lit (CHR '':''),
     Hex2, Lit (CHR '':''), Hex2]"

definition cli_ip_arp_add :: cli_command_handler where
  "cli_ip_arp_add rs req = (case sscanf (lit ''ip arp add '' @ [Word, Skip] @ mac_format) (cr_command req) of
     [S ip_str, N m0, N m1, N m2, N m3, N m4, N m5] \<Rightarrow>
       (case inet_pton ip_str of None \<Rightarrow> Some (say req (ln ''Failure reading ip.'') rs) | Some ip \<Rightarrow> do {
         let mac = le48 (ucast m0) (ucast m1) (ucast m2) (ucast m3) (ucast m4) (ucast m5);
         rs \<leftarrow> lock_arp_cache_wr rs;
         let (result, rs) = update_arp_cache rs ip mac 1;
         rs \<leftarrow> unlock_arp_cache rs;
         Some (say req (ln (if result \<noteq> 0 then ''Failure adding arp cache entry.''
           else ''Successfully added arp cache entry.'')) rs)
       })
   | _ \<Rightarrow> Some (say req (ln ''Failure reading arguments.'') rs))"

definition cli_ip_arp_del :: cli_command_handler where
  "cli_ip_arp_del rs req = (case sscanf (lit ''ip arp del '' @ [Word]) (cr_command req) of
     [S ip_str] \<Rightarrow>
       (case inet_pton ip_str of None \<Rightarrow> Some (say req (ln ''Failure reading ip.'') rs) | Some ip \<Rightarrow> do {
         rs \<leftarrow> lock_arp_cache_wr rs;
         let (result, rs) = del_arp_cache rs ip;
         let rs = (if result > 0 then trigger_arp_cache_modified rs else rs);
         rs \<leftarrow> unlock_arp_cache rs;
         Some (say req (snprintf 256 (decimal result @
           ln (if result \<noteq> 1 then '' arp cache entries deleted.'' else '' arp cache entry deleted.''))) rs)
       })
   | _ \<Rightarrow> Some (say req (ln ''Failure reading arguments.'') rs))"

definition cli_show_hw_arp_cache :: cli_command_handler where
  "cli_show_hw_arp_cache rs req = (if is_netfpga rs then do {
       (arp_info, rs) \<leftarrow> sprint_hw_arp_cache rs;
       Some (say req arp_info rs)
     } else Some rs)"

text \<open>The walk removes every node of the cache.\<close>

definition cli_nuke_arp_cache :: cli_command_handler where
  "cli_nuke_arp_cache rs req = do {
     rs \<leftarrow> lock_arp_cache_wr rs;
     let rs = rs\<lparr>arp_cache := []\<rparr>;
     let rs = (if is_netfpga rs then trigger_arp_cache_modified rs else rs);
     rs \<leftarrow> unlock_arp_cache rs;
     Some (say req (ln ''SW and HW arp cache info was nuked'') rs)
   }"

definition cli_nuke_hw_arp_cache_entry :: cli_command_handler where
  "cli_nuke_hw_arp_cache_entry rs req = (if \<not> is_netfpga rs then Some rs
     else (case sscanf (lit ''nuke hw arp '' @ [Num, Lit (CHR ''i'')]) (cr_command req) of
       [N row] \<Rightarrow>
         if row > of_nat TABLE_DEPTH - 1 then Some (say req (ln ''Specified invalid row'') rs)
         else
           let rs = rs\<lparr>netfpga := writeRegs [(ARP_TABLE_ENTRY_MAC_HI_REG, 0), (ARP_TABLE_ENTRY_MAC_LO_REG, 0),
                 (ARP_TABLE_ENTRY_NEXT_HOP_IP_REG, 0), (WR_ADDR_REG ARP_TABLE, row)] (netfpga rs)\<rparr>
           in Some (say req (snprintf 80 (''Row '' @ int_text row @ ln '' has been nuked'')) rs)
     | _ \<Rightarrow> Some (say req (take 27 (ln ''Failure to read arguments.'')) rs)))"

definition cli_hw_arp_cache_misses :: cli_command_handler where
  "cli_hw_arp_cache_misses rs req = (if is_netfpga rs
     then Some (say req (snprintf 80 (''HW ARP CACHE MISSES: ''
       @ ln (int_text (ntohl (readReg ROUTER_OP_LUT_ARP_NUM_MISSES_REG (netfpga rs)))))) rs)
     else Some rs)"

definition cli_hw_num_pckts_fwd :: cli_command_handler where
  "cli_hw_num_pckts_fwd rs req = (if is_netfpga rs
     then Some (say req (snprintf 80 (''HW NUMBER OF PACKETS FORWARDED: ''
       @ ln (int_text (ntohl (readReg ROUTER_OP_LUT_NUM_PKTS_FORWARDED_REG (netfpga rs)))))) rs)
     else Some rs)"

definition cli_ip_arp_set_ttl :: cli_command_handler where
  "cli_ip_arp_set_ttl rs req = (case sscanf (lit ''ip arp set ttl '' @ [Num, Lit (CHR ''i'')]) (cr_command req) of
     [N timeout] \<Rightarrow>
       let rs = rs\<lparr>arp_ttl := timeout\<rparr>
       in Some (say req (snprintf 80 (''Arp entry TTL has been set to: '' @ ln (int_text (arp_ttl rs)))) rs)
   | _ \<Rightarrow> Some (say req (ln ''Syntax error'') rs))"

section \<open>Interfaces\<close>

definition cli_show_ip_iface :: cli_command_handler where
  "cli_show_ip_iface rs req = do {
     rs \<leftarrow> lock_if_list_rd rs;
     if_list_info \<leftarrow> sprint_if_list rs;
     rs \<leftarrow> unlock_if_list rs;
     Some (say req if_list_info rs)
   }"

text \<open>An interface is brought up or down with its list and the routing table locked.\<close>

definition switch_iface ::
    "(router_state \<Rightarrow> string \<Rightarrow> (int \<times> router_state) option) \<Rightarrow> string \<Rightarrow> string \<Rightarrow> cli_command_handler" where
  "switch_iface switch done_text name rs req = do {
     rs \<leftarrow> lock_if_list_wr rs;
     rs \<leftarrow> lock_rtable_wr rs;
     (retval, rs) \<leftarrow> switch rs name;
     rs \<leftarrow> unlock_rtable rs;
     rs \<leftarrow> unlock_if_list rs;
     Some (say req (snprintf 128 (if retval = 0 then done_text @ name @ ln ''.''
       else ''No interface '' @ name @ ln '' found.'')) rs)
   }"

text \<open>Without a third argument the mask is a null pointer, which \<open>inet_pton\<close> reads.\<close>

definition cli_ip_interface :: cli_command_handler where
  "cli_ip_interface rs req =
     (let args = sscanf (lit ''ip interface '' @ [Word, Skip, Word, Skip, Word]) (cr_command req) in
      case args of
        S name # S ip_str # others \<Rightarrow>
          if strncmp_eq ''up'' ip_str 2 then switch_iface iface_up ''Successfully brought up '' name rs req
          else if strncmp_eq ''down'' ip_str 4 then switch_iface iface_down ''Successfully brought down '' name rs req
          else (case inet_pton ip_str of None \<Rightarrow> Some (say req (ln ''Failure reading ip.'') rs) | Some ip \<Rightarrow>
            (case others of [S mask_str] \<Rightarrow>
              (case inet_pton mask_str of None \<Rightarrow> Some (say req (ln ''Failure reading mask.'') rs) | Some imask \<Rightarrow> do {
                rs \<leftarrow> lock_if_list_wr rs;
                let (retval, rs) = iface_update rs name ip imask;
                rs \<leftarrow> unlock_if_list rs;
                Some (say req (snprintf 128 (if retval \<noteq> 0 then ''Succesfully updated '' @ name @ ln ''.''
                  else ln ''No interface updated.'')) rs)
              })
            | _ \<Rightarrow> None))
      | _ \<Rightarrow> Some (say req (ln ''Syntax error.'') rs))"

definition cli_show_hw_interface :: cli_command_handler where
  "cli_show_hw_interface rs req = (if is_netfpga rs then do {
       iface_info \<leftarrow> sprint_hw_iface rs;
       Some (say req iface_info rs)
     } else Some rs)"

text \<open>The port of a name that starts with the name of an interface.\<close>

definition port_of_prefix :: "string \<Rightarrow> u32 option" where
  "port_of_prefix iface =
     (if strncmp_eq ''eth0'' iface 4 then Some 0 else if strncmp_eq ''eth1'' iface 4 then Some 1
      else if strncmp_eq ''eth2'' iface 4 then Some 2 else if strncmp_eq ''eth3'' iface 4 then Some 3 else None)"

definition cli_hw_interface_add :: cli_command_handler where
  "cli_hw_interface_add rs req = (if \<not> is_netfpga rs then Some rs
     else (case sscanf (lit ''hw iface add '' @ [Word, Skip] @ mac_format) (cr_command req) of
       [S iface, N m0, N m1, N m2, N m3, N m4, N m5] \<Rightarrow>
         (case port_of_prefix iface of None \<Rightarrow> Some (say req (ln ''Failure reading the interface name.'') rs)
          | Some port \<Rightarrow>
              let mac = le48 (ucast m0) (ucast m1) (ucast m2) (ucast m3) (ucast m4) (ucast m5);
                  rs = write_hw_iface_mac rs port (mac_hi_of mac) (mac_lo_of mac)
              in Some (say req (ln ''Interface added'') rs))
     | _ \<Rightarrow> Some (say req (ln ''Failure reading arguments.'') rs)))"

definition cli_hw_interface_del :: cli_command_handler where
  "cli_hw_interface_del rs req = (if \<not> is_netfpga rs then Some rs
     else (case sscanf (lit ''hw iface del '' @ [Word]) (cr_command req) of
       [S iface] \<Rightarrow>
         (case port_of_prefix iface of None \<Rightarrow> Some (say req (ln ''Failure reading the interface name.'') rs)
          | Some port \<Rightarrow> Some (say req (ln ''Interface deleted'') (write_hw_iface_mac rs port 0 0)))
     | _ \<Rightarrow> Some (say req (ln ''Failure reading arguments.'') rs)))"

definition cli_hw_interface_set :: cli_command_handler where
  "cli_hw_interface_set rs req = (if \<not> is_netfpga rs then Some rs
     else (case sscanf (lit ''hw iface '' @ [Word, Skip, Word]) (cr_command req) of
       [S name, S cmd] \<Rightarrow>
         (case port_of_prefix name of None \<Rightarrow> Some (say req (ln ''Invalid interface name'') rs)
          | Some queue \<Rightarrow>
              if strncmp_eq ''up'' cmd 2
              then Some (say req (snprintf 80 (''HW interface '' @ name @ ln '' was brought up'')) (set_hw_iface rs queue 0))
              else if strncmp_eq ''down'' cmd 4
              then Some (say req (snprintf 80 (''HW interface '' @ name @ ln '' was brought down'')) (set_hw_iface rs queue 3))
              else Some (say req (ln ''Invalid command name'') rs))
     | _ \<Rightarrow> Some (say req (ln ''Syntax error.'') rs)))"

section \<open>sping\<close>

text \<open>
  The wait releases the mutex of the queue and holds it again when it returns, so it stays held as
  this thread sees it. The queue is searched only after a wake-up that did not time out. The list
  of wake-ups ends where the thread is still waiting.
\<close>

definition queue_reply :: "packet \<Rightarrow> router_state \<Rightarrow> router_state" where
  "queue_reply p rs = rs\<lparr>sping_queue := sping_queue rs @ [\<lparr>sq_packet = p, sq_arrival_time = clock rs\<rparr>]\<rparr>"

fun wait_loop :: "u16 \<Rightarrow> wakeup list \<Rightarrow> router_state \<Rightarrow> (int \<times> router_state) option" where
  "wait_loop ident [] rs = None"
| "wait_loop ident ((timed_out, arrived) # ws) rs =
     (let rs = fold queue_reply arrived rs in
      if timed_out then Some (1, rs)
      else do {
        (found, queue) \<leftarrow> sping_search ident (sping_queue rs);
        let rs = rs\<lparr>sping_queue := queue\<rparr>;
        if found then Some (0, rs) else wait_loop ident ws rs
      })"

definition wait_for_reply :: "wakeup list \<Rightarrow> router_state \<Rightarrow> u16 \<Rightarrow> (int \<times> router_state) option" where
  "wait_for_reply ws rs ident = do {
     rs \<leftarrow> lock_mutex_sping_queue rs;
     (response, rs) \<leftarrow> wait_loop ident ws rs;
     rs \<leftarrow> unlock_mutex_sping_queue rs;
     Some (response, rs)
   }"

text \<open>
  The destination is what follows \<open>sping \<close>; a command of only five characters ends before that, and
  the copy of the command has no byte there. Seeding with the time chooses the sequence \<open>rand_seq\<close>.
\<close>

definition cli_sping :: "cli_env \<Rightarrow> cli_command_handler" where
  "cli_sping env rs req =
     (if length (cr_command req) < 6 then None
      else let dst_str = drop 6 (cr_command req) in
        case inet_pton dst_str of None \<Rightarrow> Some (say req (ln ''syntax error : destination ip'') rs) | Some dst \<Rightarrow>
          if iface_match_ip rs dst then Some (say req (ln ''That is one of our interfaces!'') rs)
          else do {
            let (r, rs) = rand rs;
            let ident = (ucast r :: u16);
            (failed, rs) \<leftarrow> send_icmp_echo_request_packet rs dst ident;
            if failed \<noteq> 0 then Some (say req (ln ''error : failed to send ICMP echo request packet'') rs)
            else do {
              (missing, rs) \<leftarrow> wait_for_reply (wakeups env) rs ident;
              Some (says req [if missing \<noteq> 0 then ''no reply from : '' else ''GOT reply from : '', dst_str, [LF]] rs)
            }
          })"

section \<open>PWOSPF\<close>

definition cli_show_pwospf_iface :: cli_command_handler where
  "cli_show_pwospf_iface rs req = do {
     rs \<leftarrow> lock_if_list_rd rs;
     if_list_info \<leftarrow> sprint_pwospf_if_list rs;
     rs \<leftarrow> unlock_if_list rs;
     Some (say req if_list_info rs)
   }"

definition cli_show_pwospf_router_list :: cli_command_handler where
  "cli_show_pwospf_router_list rs req = do {
     rs \<leftarrow> lock_mutex_pwospf_router_list rs;
     router_list_info \<leftarrow> sprint_pwospf_router_list rs;
     rs \<leftarrow> unlock_mutex_pwospf_router_list rs;
     Some (say req router_list_info rs)
   }"

definition cli_show_pwospf_info :: cli_command_handler where
  "cli_show_pwospf_info rs req = do {
     let rs = says req [ln ''PWOSPF INFORMATION:'', ''Area ID: '' @ decimal (unat (area_id rs)) @ [LF]
       @ ''Hello Interval: '' @ decimal (unat (pwospf_hello_interval rs)) @ [LF]
       @ ''LSU Interval: '' @ decimal (unat (pwospf_lsu_interval rs)) @ [LF, LF]] rs;
     rs \<leftarrow> lock_mutex_pwospf_router_list rs;
     info \<leftarrow> sprint_pwospf_router_list rs;
     rs \<leftarrow> unlock_mutex_pwospf_router_list rs;
     Some (says req [info, [LF, LF]] rs)
   }"

definition cli_pwospf_set_aid :: cli_command_handler where
  "cli_pwospf_set_aid rs req = (case sscanf (lit ''set aid '' @ [Num]) (cr_command req) of
     [N aid] \<Rightarrow> Some (say req (ln ''Area id has been set'') (rs\<lparr>area_id := aid\<rparr>))
   | _ \<Rightarrow> Some (say req (ln ''Failure reading arguments.'') rs))"

text \<open>The intervals are set to 0 when the number cannot be read: the error is reported, but the
  handler goes on.\<close>

definition number_or_0 :: "scanned list \<Rightarrow> u32" where
  "number_or_0 vs = (case vs of [N n] \<Rightarrow> n | _ \<Rightarrow> 0)"

definition report_unread :: "cli_request \<Rightarrow> scanned list \<Rightarrow> router_state \<Rightarrow> router_state" where
  "report_unread req vs rs = (if length vs \<noteq> 1 then say req (ln ''Failure reading arguments.'') rs else rs)"

definition cli_pwospf_set_hello :: cli_command_handler where
  "cli_pwospf_set_hello rs req =
     (let vs = sscanf (lit ''set hello interval '' @ [Num]) (cr_command req); rs = report_unread req vs rs
      in Some (say req (ln ''Hello interval has been set'') (rs\<lparr>pwospf_hello_interval := ucast (number_or_0 vs)\<rparr>)))"

definition cli_pwospf_set_lsu_interval :: cli_command_handler where
  "cli_pwospf_set_lsu_interval rs req =
     (let vs = sscanf (lit ''set lsu interval '' @ [Num]) (cr_command req); rs = report_unread req vs rs
      in Some (say req (ln ''LSU Interval set.'') (rs\<lparr>pwospf_lsu_interval := number_or_0 vs\<rparr>)))"

definition cli_pwospf_set_lsu_broadcast :: cli_command_handler where
  "cli_pwospf_set_lsu_broadcast rs req = (case sscanf (lit ''set lsu broadcast '' @ [Word]) (cr_command req) of
     [S value_str] \<Rightarrow>
       if ''on'' = value_str
       then Some (say req (ln ''LSU Broadcasting set to ON.'') (rs\<lparr>pwospf_lsu_broadcast := 1\<rparr>))
       else if ''off'' = value_str
       then Some (say req (ln ''LSU Broadcasting set to OFF.'') (rs\<lparr>pwospf_lsu_broadcast := 0\<rparr>))
       else Some (say req (ln ''Failure reading arguments.'') rs)
   | _ \<Rightarrow> Some (say req (ln ''Failure reading arguments.'') rs))"

definition cli_pwospf_send_hello :: cli_command_handler where
  "cli_pwospf_send_hello rs req = do {
     rs \<leftarrow> lock_if_list_wr rs;
     rs \<leftarrow> broadcast_pwospf_hello_packet rs;
     rs \<leftarrow> unlock_if_list rs;
     Some (say req (ln ''Hello packet sent on each interface'') rs)
   }"

definition cli_pwospf_send_lsu :: cli_command_handler where
  "cli_pwospf_send_lsu rs req = do {
     rs \<leftarrow> lock_mutex_pwospf_router_list rs;
     rs \<leftarrow> start_lsu_bcast_flood rs;
     rs \<leftarrow> unlock_mutex_pwospf_router_list rs;
     let rs = emit (Signal C_lsu_bcast) rs;
     Some (say req (ln ''LSU packet sent on each interface (up or down)'') rs)
   }"

section \<open>The card\<close>

definition cli_hw_info :: "cli_env \<Rightarrow> cli_command_handler" where
  "cli_hw_info env rs req = (if \<not> is_netfpga rs then Some rs
     else do {
       let rs = says req [ln ''HW STATS'', hw_stats env, LF # ln ''HW DROPS''] rs;
       info \<leftarrow> sprint_hw_drops rs;
       let rs = say req info rs;
       info \<leftarrow> sprint_hw_oq_drops rs;
       let rs = says req [info, LF # ln ''HW IFACE INFO''] rs;
       info \<leftarrow> sprint_hw_iface rs;
       let rs = says req [info, LF # ln ''HW IP FILTERS INFO''] rs;
       (info, rs) \<leftarrow> sprint_hw_local_ip_filter rs;
       let rs = says req [info, LF # ln ''HW RTABLE INFO''] rs;
       (info, rs) \<leftarrow> sprint_hw_rtable rs;
       let rs = says req [info, LF # ln ''HW ARP CACHE INFO''] rs;
       (info, rs) \<leftarrow> sprint_hw_arp_cache rs;
       let rs = say req info rs;
       let rs = say req (snprintf 80 (LF # ''HW ARP CACHE MISSES: ''
         @ ln (int_text (readReg ROUTER_OP_LUT_ARP_NUM_MISSES_REG (netfpga rs))))) rs;
       Some (say req (snprintf 80 (''HW NUMBER OF PACKETS FORWARDED: ''
         @ ln (int_text (readReg ROUTER_OP_LUT_NUM_PKTS_FORWARDED_REG (netfpga rs))))) rs)
     })"

end
