(* ===== verification/Cli.thy ===== *)
theory Cli
  imports Cli_Handlers "HOL-Library.Sublist"
begin

text \<open>
  The command line, or_cli.c, with the registration of the commands (or_utils.c and \<open>init_cli\<close> of
  or_main.c). The list of commands is kept beside the router state. A session reads what the client
  sends into a buffer of 128 bytes, looks up the handler with the longest matching name and runs it.
\<close>

section \<open>The commands\<close>

type_synonym cli_commands = "(string \<times> cli_command_handler) list"

definition create_cli_entry :: "string \<Rightarrow> 'h \<Rightarrow> string \<times> 'h" where
  "create_cli_entry command handler = (mallocCopy command, handler)"

definition register_cli_command :: "string \<times> 'h \<Rightarrow> (string \<times> 'h) list \<Rightarrow> (string \<times> 'h) list" where
  "register_cli_command = (\<lambda>(command, handler) head. head @ [create_cli_entry command handler])"

text \<open>The commands in the order of their registration. Those for address translation are commented out.\<close>

definition cli_table :: "cli_env \<Rightarrow> cli_commands" where
  "cli_table env =
    [(''help'', cli_help), (''?'', cli_help), (''show ?'', cli_show_help),
     (''show vns ?'', cli_show_vns_help), (''show vns'', cli_show_vns env),
     (''show vns user'', cli_show_vns_user env), (''show vns user ?'', cli_show_vns_user_help),
     (''show vns lhost'', cli_show_vns_lhost env), (''show vns lhost ?'', cli_show_vns_lhost_help),
     (''show vns vhost'', cli_show_vns_vhost env), (''show vns vhost ?'', cli_show_vns_vhost_help),
     (''show vns server'', cli_show_vns_server env), (''show vns server ?'', cli_show_vns_server_help),
     (''show vns topology'', cli_show_vns_topology env),
     (''show vns topology ?'', cli_show_vns_topology_help), (''show ip'', cli_show_ip_help),
     (''show ip ?'', cli_show_ip_help), (''show ip arp'', cli_show_ip_arp),
     (''show ip arp ?'', cli_show_ip_arp_help), (''show ip interface'', cli_show_ip_iface),
     (''show ip interface ?'', cli_show_ip_iface_help), (''show ip route'', cli_show_ip_rtable),
     (''show ip route ?'', cli_show_ip_rtable_help), (''ip ?'', cli_ip_help),
     (''ip route ?'', cli_ip_route_help), (''ip route add'', cli_ip_route_add),
     (''ip route add ?'', cli_ip_route_add_help), (''ip route del'', cli_ip_route_del),
     (''ip route del ?'', cli_ip_route_del_help), (''ip interface ?'', cli_ip_interface_help),
     (''ip interface'', cli_ip_interface), (''ip arp ?'', cli_ip_arp_help),
     (''ip arp add'', cli_ip_arp_add), (''ip arp add ?'', cli_ip_arp_add_help),
     (''ip arp del'', cli_ip_arp_del), (''ip arp del ?'', cli_ip_arp_del_help),
     (''ip arp set ttl'', cli_ip_arp_set_ttl), (''sping'', cli_sping env), (''sping ?'', cli_sping_help),
     (''pwospf ?'', cli_pwospf_help), (''show pwospf iface'', cli_show_pwospf_iface),
     (''show pwospf iface ?'', cli_show_pwospf_iface_help),
     (''show pwospf router'', cli_show_pwospf_router_list), (''show pwospf info'', cli_show_pwospf_info),
     (''set aid'', cli_pwospf_set_aid), (''set aid ?'', cli_pwospf_set_aid_help),
     (''set hello interval'', cli_pwospf_set_hello), (''set lsu broadcast'', cli_pwospf_set_lsu_broadcast),
     (''set lsu interval'', cli_pwospf_set_lsu_interval), (''send hello'', cli_pwospf_send_hello),
     (''send lsu'', cli_pwospf_send_lsu), (''hw info'', cli_hw_info env), (''hw ?'', cli_hw_help),
     (''show hw rtable'', cli_show_hw_rtable), (''show hw arp'', cli_show_hw_arp_cache),
     (''nuke arp'', cli_nuke_arp_cache), (''nuke hw arp'', cli_nuke_hw_arp_cache_entry),
     (''show hw iface'', cli_show_hw_interface), (''hw iface add'', cli_hw_interface_add),
     (''hw iface del'', cli_hw_interface_del), (''hw iface'', cli_hw_interface_set),
     (''hw arp miss'', cli_hw_arp_cache_misses), (''hw pckts fwd'', cli_hw_num_pckts_fwd)]"

text \<open>The commands are sorted by exchanging neighbours for which \<open>strcmp\<close> returns exactly 1.\<close>

definition init_cli :: "(string \<Rightarrow> string \<Rightarrow> int) \<Rightarrow> cli_env \<Rightarrow> router_state \<Rightarrow> (cli_commands \<times> router_state) option" where
  "init_cli strcmp env rs = do {
     rs \<leftarrow> pthread_rwlock_wrlock L_cli_commands rs;
     cmds \<leftarrow> bubble_sort (\<lambda>a b. strcmp (fst a) (fst b) = 1) (fold register_cli_command (cli_table env) []);
     rs \<leftarrow> pthread_rwlock_unlock L_cli_commands rs;
     Some (cmds, rs)
   }"

section \<open>The lookup\<close>

fun lpm_walk :: "string \<Rightarrow> nat \<Rightarrow> 'h option \<Rightarrow> (string \<times> 'h) list \<Rightarrow> 'h option" where
  "lpm_walk command longest_match best [] = best"
| "lpm_walk command longest_match best ((name, handler) # next) =
     (let entry_len = length name in
      if entry_len > longest_match \<and> length command \<ge> entry_len \<and> strncmp_eq command name entry_len
      then lpm_walk command entry_len (Some handler) next
      else lpm_walk command longest_match best next)"

definition cli_command_lpm :: "(string \<times> 'h) list \<Rightarrow> string \<Rightarrow> 'h option" where
  "cli_command_lpm cmds command = lpm_walk command 0 None cmds"

section \<open>A session\<close>

definition MAX_COMMAND_SIZE :: nat where "MAX_COMMAND_SIZE = 128"

text \<open>
  What \<open>recv\<close> returns: an error, or some bytes, which overwrite the front of the buffer. No byte
  means that the client has closed the connection; the loop then asks again.
\<close>

datatype received = Bytes string | Recv_error

definition recv_into :: "string \<Rightarrow> string \<Rightarrow> string" where
  "recv_into buf data = take MAX_COMMAND_SIZE data @ drop (length data) buf"

definition prompt :: "int \<Rightarrow> router_state \<Rightarrow> router_state" where
  "prompt sockfd rs = send_to_socket sockfd (''> '' @ [CHR 0x00]) rs"

definition run_command :: "cli_commands \<Rightarrow> cli_request \<Rightarrow> router_state \<Rightarrow> router_state option" where
  "run_command cmds req rs = (case cli_command_lpm cmds (cr_command req) of
     None \<Rightarrow> Some (say req (ln ''invalid command ... type ? or help for valid command help'') rs)
   | Some handler \<Rightarrow> handler rs req)"

text \<open>\<open>cleanCRLFs\<close> measures the text in the buffer; without a NUL it reads on behind it.\<close>

fun client_loop :: "cli_commands \<Rightarrow> int \<Rightarrow> string \<Rightarrow> received list \<Rightarrow> router_state \<Rightarrow> router_state option" where
  "client_loop cmds sockfd buf [] rs = Some rs"
| "client_loop cmds sockfd buf (Recv_error # more_input) rs = Some rs"
| "client_loop cmds sockfd buf (Bytes data # more_input) rs =
     (if data = [] then client_loop cmds sockfd buf more_input rs
      else let buf = recv_into buf data in
        if CHR 0x00 \<notin> set buf then None
        else let text = c_str buf; buf = cleanCRLFs text @ drop (length text) buf in
          if strncmp_eq (c_str buf) ''exit'' 4 then Some (send_to_socket sockfd (ln ''bye!'') rs)
          else do {
            rs \<leftarrow> run_command cmds \<lparr>cr_sockfd = sockfd, cr_command = mallocCopy (c_str buf)\<rparr> rs;
            client_loop cmds sockfd buf more_input (prompt sockfd rs)
          })"

definition process_client_request :: "cli_commands \<Rightarrow> int \<Rightarrow> received list \<Rightarrow> router_state \<Rightarrow> router_state option" where
  "process_client_request cmds sockfd input rs =
     client_loop cmds sockfd (replicate MAX_COMMAND_SIZE (CHR 0x00)) input (prompt sockfd rs)"

section \<open>The handler with the longest matching name\<close>

lemma name_matches: "length name \<le> length command \<and> strncmp_eq command name (length name) \<longleftrightarrow> prefix name command"
  by (auto simp: strncmp_eq_def prefix_def) (metis append_take_drop_id)

lemma lpm_walk_step:
  "lpm_walk command n best ((name, handler) # cmds) =
     (if n < length name \<and> prefix name command then lpm_walk command (length name) (Some handler) cmds
      else lpm_walk command n best cmds)"
  using name_matches [of name command] by (auto simp: Let_def)

lemma lpm_walk_none:
  "\<forall>(name, handler)\<in>set cmds. prefix name command \<longrightarrow> length name \<le> n \<Longrightarrow> lpm_walk command n best cmds = best"
  by (induction cmds arbitrary: n best) (auto simp: lpm_walk_step simp del: lpm_walk.simps(2))

lemma prefix_same_length: "prefix a c \<Longrightarrow> prefix b c \<Longrightarrow> length a = length b \<Longrightarrow> a = b"
  by (auto simp: prefix_def)

lemma lpm_walk_some:
  assumes "distinct (map fst cmds)" "(name, handler) \<in> set cmds" "prefix name command" "n < length name"
    "\<forall>(name', h')\<in>set cmds. prefix name' command \<longrightarrow> length name' \<le> length name"
  shows "lpm_walk command n best cmds = Some handler"
  using assms
proof (induction cmds arbitrary: n best)
  case (Cons e cmds)
  obtain c h where e: "e = (c, h)" by (cases e)
  show ?case
  proof (cases "(name, handler) = e")
    case True
    have "\<forall>(name', h')\<in>set cmds. prefix name' command \<longrightarrow> length name' \<le> length name" using Cons.prems(5) by simp
    then show ?thesis using True e Cons.prems(3,4) by (simp add: lpm_walk_step lpm_walk_none del: lpm_walk.simps(2))
  next
    case False
    then have m: "(name, handler) \<in> set cmds" using Cons.prems(2) by simp
    then have "c \<noteq> name" using Cons.prems(1) e by force
    then have "prefix c command \<Longrightarrow> length c < length name"
      using Cons.prems(3,5) prefix_same_length [of c command name] e by (auto simp: order_less_le)
    then show ?thesis using Cons m e by (simp add: lpm_walk_step del: lpm_walk.simps(2))
  qed
qed simp

lemma fold_register: "fold register_cli_command es head = head @ es"
  by (induction es arbitrary: head) (auto simp: register_cli_command_def create_cli_entry_def)

lemma distinct_names: "distinct (map fst (cli_table env))" and names_nonempty: "[] \<notin> fst ` set (cli_table env)"
  by (simp_all add: cli_table_def)

text \<open>The longest of the names that the command starts with.\<close>

definition best_match :: "string set \<Rightarrow> string \<Rightarrow> string \<Rightarrow> bool" where
  "best_match names command name \<longleftrightarrow> name \<in> names \<and> prefix name command
     \<and> (\<forall>name'\<in>names. prefix name' command \<longrightarrow> length name' \<le> length name)"

lemma best_match_exists:
  assumes "finite names"
  shows "(\<exists>best. best_match names command best) \<longleftrightarrow> (\<exists>name\<in>names. prefix name command)"
proof
  let ?M = "{name \<in> names. prefix name command}"
  assume "\<exists>name\<in>names. prefix name command"
  then have "Max (length ` ?M) \<in> length ` ?M" using assms by (intro Max_in) auto
  then obtain best where "best \<in> ?M" "length best = Max (length ` ?M)" by auto
  moreover have "length n \<le> Max (length ` ?M)" if "n \<in> ?M" for n using assms(1) that by (intro Max_ge) auto
  ultimately show "\<exists>best. best_match names command best" by (auto simp: best_match_def)
qed (auto simp: best_match_def)

lemma cli_command_lpm_best:
  assumes "distinct (map fst cmds)" "[] \<notin> fst ` set cmds" "(name, handler) \<in> set cmds"
    "best_match (fst ` set cmds) command name"
  shows "cli_command_lpm cmds command = Some handler"
  unfolding cli_command_lpm_def
proof (rule lpm_walk_some [OF assms(1,3)])
  show "0 < length name" using assms(2,3) by force
qed (use assms(4) in \<open>auto simp: best_match_def\<close>)

lemma cli_command_lpm_iff:
  assumes "distinct (map fst cmds)" "[] \<notin> fst ` set cmds"
  shows "cli_command_lpm cmds command = Some handler
    \<longleftrightarrow> (\<exists>name. (name, handler) \<in> set cmds \<and> best_match (fst ` set cmds) command name)"
proof
  assume r: "cli_command_lpm cmds command = Some handler"
  then have "\<exists>name\<in>fst ` set cmds. prefix name command"
    using lpm_walk_none [of cmds command 0 None] by (force simp: cli_command_lpm_def)
  then obtain name where b: "best_match (fst ` set cmds) command name"
    using best_match_exists [of "fst ` set cmds" command] by blast
  then have "name \<in> fst ` set cmds" by (simp add: best_match_def)
  then obtain h where m: "(name, h) \<in> set cmds" by (elim imageE) (metis prod.collapse)
  with r cli_command_lpm_best [OF assms m b] have "h = handler" by simp
  with m b show "\<exists>name. (name, handler) \<in> set cmds \<and> best_match (fst ` set cmds) command name" by blast
next
  assume "\<exists>name. (name, handler) \<in> set cmds \<and> best_match (fst ` set cmds) command name"
  then show "cli_command_lpm cmds command = Some handler"
    by (elim exE conjE) (rule cli_command_lpm_best [OF assms])
qed

lemma cli_command_lpm_None:
  "\<forall>name\<in>fst ` set cmds. \<not> prefix name command \<Longrightarrow> cli_command_lpm cmds command = None"
  unfolding cli_command_lpm_def by (intro lpm_walk_none) force

lemma init_cli_returns:
  assumes "strcmp_reverses strcmp" "locks rs L_cli_commands = Free"
  shows "\<exists>cmds. init_cli strcmp env rs = Some (cmds, rs) \<and> mset cmds = mset (cli_table env)"
proof -
  let ?sw = "\<lambda>(a :: string \<times> cli_command_handler) b :: string \<times> cli_command_handler. strcmp (fst a) (fst b) = 1"
  have "asymp ?sw" by (rule strcmp_asymp [OF assms(1)])
  then obtain cmds where c: "bubble_sort ?sw (cli_table env) = Some cmds"
    using bubble_sort_terminates by blast
  moreover have "mset cmds = mset (cli_table env)" using bubble_sort_result [OF c] by blast
  moreover have "rs\<lparr>locks := (locks rs)(L_cli_commands := Free)\<rparr> = rs"
    using assms(2) by (metis fun_upd_triv router_state.surjective router_state.update_convs(21))
  ultimately show ?thesis using assms(2)
    by (simp add: init_cli_def fold_register pthread_rwlock_wrlock_def pthread_rwlock_unlock_def set_lock_def)
qed

text \<open>The command line finds the right handler. Whatever \<open>strcmp\<close> returns for the sort,
  \<open>init_cli\<close> ends and gives back its lock, and afterwards the text of a command is handled by the
  registered command with the longest name that the text starts with, or rejected as
  invalid when there is none.\<close>

theorem cli_finds_longest_command:
  assumes "strcmp_reverses strcmp" "locks rs L_cli_commands = Free"
  shows "\<exists>cmds. init_cli strcmp env rs = Some (cmds, rs)
    \<and> (\<forall>command handler. cli_command_lpm cmds command = Some handler
        \<longleftrightarrow> (\<exists>name. (name, handler) \<in> set (cli_table env) \<and> best_match (fst ` set (cli_table env)) command name))
    \<and> (\<forall>req. (\<forall>name\<in>fst ` set (cli_table env). \<not> prefix name (cr_command req))
        \<longrightarrow> run_command cmds req rs = Some (say req (ln ''invalid command ... type ? or help for valid command help'') rs))"
proof -
  obtain cmds where c: "init_cli strcmp env rs = Some (cmds, rs)" "mset cmds = mset (cli_table env)"
    using init_cli_returns [OF assms] by blast
  then have s: "set cmds = set (cli_table env)" by (metis set_mset_mset)
  have d: "distinct (map fst cmds)" using distinct_names c(2) by (metis mset_eq_imp_distinct_iff mset_map)
  have iff: "cli_command_lpm cmds command = Some handler
      \<longleftrightarrow> (\<exists>name. (name, handler) \<in> set (cli_table env) \<and> best_match (fst ` set (cli_table env)) command name)"
    for command handler
    using cli_command_lpm_iff [OF d, of command handler] names_nonempty by (simp add: s)
  have none: "run_command cmds req rs = Some (say req (ln ''invalid command ... type ? or help for valid command help'') rs)"
    if "\<forall>name\<in>fst ` set (cli_table env). \<not> prefix name (cr_command req)" for req
    using cli_command_lpm_None [of cmds "cr_command req"] that by (simp add: run_command_def s)
  show ?thesis by (intro exI [of _ cmds] conjI allI impI c(1) iff) (rule none)
qed

section \<open>Sessions\<close>

text \<open>A line as the client sends it, and the buffer between two commands: there is a NUL at its end.\<close>

definition CRLF :: string where "CRLF = [CHR 0x0D, CHR 0x0A]"

definition is_line :: "string \<Rightarrow> bool" where
  "is_line l \<longleftrightarrow> set l \<inter> {CHR 0x00, CHR 0x0D, CHR 0x0A} = {} \<and> length l + 2 < MAX_COMMAND_SIZE"

definition buffer_ok :: "string \<Rightarrow> bool" where
  "buffer_ok buf \<longleftrightarrow> length buf = MAX_COMMAND_SIZE \<and> last buf = CHR 0x00"

text \<open>The reference: the commands run one after the other, each followed by a prompt.\<close>

fun run_lines :: "cli_commands \<Rightarrow> int \<Rightarrow> string list \<Rightarrow> router_state \<Rightarrow> router_state option" where
  "run_lines cmds sockfd [] rs = Some rs"
| "run_lines cmds sockfd (l # ls) rs = do {
     rs \<leftarrow> run_command cmds \<lparr>cr_sockfd = sockfd, cr_command = l\<rparr> rs;
     run_lines cmds sockfd ls (prompt sockfd rs)
   }"

lemma length_CRLF [simp]: "length CRLF = 2"
  by (simp add: CRLF_def)

lemma recv_into_line:
  assumes "is_line l" "buffer_ok buf"
  shows "recv_into buf (l @ CRLF) = l @ CRLF @ drop (length l + 2) buf" "CHR 0x00 \<in> set (recv_into buf (l @ CRLF))"
proof -
  have "take MAX_COMMAND_SIZE (l @ CRLF) = l @ CRLF" using assms(1) by (intro take_all) (simp add: is_line_def)
  then show r: "recv_into buf (l @ CRLF) = l @ CRLF @ drop (length l + 2) buf" by (simp add: recv_into_def)
  have "drop (length l + 2) buf \<noteq> []" using assms by (simp add: is_line_def buffer_ok_def)
  then have "last (drop (length l + 2) buf) \<in> set (drop (length l + 2) buf)" by (rule last_in_set)
  moreover have "last (drop (length l + 2) buf) = CHR 0x00"
    using assms by (subst last_drop) (simp_all add: is_line_def buffer_ok_def)
  ultimately show "CHR 0x00 \<in> set (recv_into buf (l @ CRLF))" by (simp add: r)
qed

lemma c_str_append: "CHR 0x00 \<notin> set l \<Longrightarrow> c_str (l @ s) = l @ c_str s"
  by (induction l) (auto simp: c_str_def)

lemma c_str_prefix: "CHR 0x00 \<in> set s \<Longrightarrow> \<exists>t. s = c_str s @ CHR 0x00 # t"
  by (induction s) (auto simp: c_str_def)

lemma length_clean [simp]: "length (cleanCRLFs s) = length s"
  by (simp add: cleanCRLFs_def)

lemma clean_line: "is_line l \<Longrightarrow> cleanCRLFs (l @ CRLF @ s) = l @ CHR 0x00 # CHR 0x00 # cleanCRLFs s"
  by (induction l) (auto simp: cleanCRLFs_def is_line_def CRLF_def)

lemma client_line:
  assumes "is_line l" "buffer_ok buf"
  shows "\<exists>buf'. buffer_ok buf' \<and> (\<forall>more_input rs. client_loop cmds sockfd buf (Bytes (l @ CRLF) # more_input) rs =
    (if strncmp_eq l ''exit'' 4 then Some (send_to_socket sockfd (ln ''bye!'') rs)
     else do {
       rs \<leftarrow> run_command cmds \<lparr>cr_sockfd = sockfd, cr_command = l\<rparr> rs;
       client_loop cmds sockfd buf' more_input (prompt sockfd rs)
     }))"
proof -
  let ?b = "recv_into buf (l @ CRLF)"
  let ?rest = "drop (length l + 2) buf"
  define buf' where "buf' = cleanCRLFs (c_str ?b) @ drop (length (c_str ?b)) ?b"
  note b = recv_into_line [OF assms]
  have nul: "CHR 0x00 \<notin> set l" "CHR 0x00 \<notin> set CRLF" using assms(1) by (auto simp: is_line_def CRLF_def)
  then have t: "c_str ?b = l @ CRLF @ c_str ?rest" by (simp add: b(1) c_str_append)
  have "buf' = l @ CHR 0x00 # CHR 0x00 # cleanCRLFs (c_str ?rest) @ drop (length (c_str ?b)) ?b"
    unfolding buf'_def by (subst t) (simp add: clean_line [OF assms(1)])
  then have cmd: "c_str buf' = l" using nul by (simp add: c_str_append) (simp add: c_str_def)
  obtain t' where t': "?b = c_str ?b @ CHR 0x00 # t'" using c_str_prefix [OF b(2)] by blast
  have len: "length ?b = MAX_COMMAND_SIZE" using assms by (auto simp: b(1) is_line_def buffer_ok_def MAX_COMMAND_SIZE_def)
  have "last ?b = CHR 0x00"
    using assms by (simp add: b(1) is_line_def buffer_ok_def)
  then have "last buf' = CHR 0x00" using t' by (metis buf'_def append_eq_conv_conj last_appendR list.distinct(1))
  moreover have "length buf' = MAX_COMMAND_SIZE"
    using len t' by (simp add: buf'_def) (metis add_diff_inverse_nat length_append le_add1 not_less)
  ultimately have "buffer_ok buf'" by (simp add: buffer_ok_def)
  moreover have "CRLF \<noteq> []" by (simp add: CRLF_def)
  ultimately show ?thesis
    using b(2) cmd by (intro exI [of _ buf']) (simp add: Let_def buf'_def [symmetric])
qed

lemma client_lines:
  assumes "\<forall>l\<in>set ls. is_line l \<and> \<not> strncmp_eq l ''exit'' 4" "buffer_ok buf"
  shows "\<exists>buf'. buffer_ok buf' \<and> (\<forall>more_input rs. client_loop cmds sockfd buf (map (\<lambda>l. Bytes (l @ CRLF)) ls @ more_input) rs
    = do { rs \<leftarrow> run_lines cmds sockfd ls rs; client_loop cmds sockfd buf' more_input rs })"
  using assms
proof (induction ls arbitrary: buf)
  case (Cons l ls)
  from Cons.prems have l: "is_line l" "\<not> strncmp_eq l ''exit'' 4" by simp_all
  from client_line [OF l(1) Cons.prems(2), of cmds sockfd] obtain b1 where b1: "buffer_ok b1"
    and step: "\<forall>more_input rs. client_loop cmds sockfd buf (Bytes (l @ CRLF) # more_input) rs = do {
        rs \<leftarrow> run_command cmds \<lparr>cr_sockfd = sockfd, cr_command = l\<rparr> rs;
        client_loop cmds sockfd b1 more_input (prompt sockfd rs)
      }"
    using l(2) by auto
  from Cons.IH [of b1] Cons.prems(1) b1 obtain b2 where "buffer_ok b2"
      "\<forall>more_input rs. client_loop cmds sockfd b1 (map (\<lambda>l. Bytes (l @ CRLF)) ls @ more_input) rs
        = do { rs \<leftarrow> run_lines cmds sockfd ls rs; client_loop cmds sockfd b2 more_input rs }"
    by auto
  with step show ?case
    by (intro exI [of _ b2]) (simp add: bind_assoc del: client_loop.simps cong: Option.bind_cong)
qed auto

lemma empty_buffer: "buffer_ok (replicate MAX_COMMAND_SIZE (CHR 0x00))"
  by (simp add: buffer_ok_def MAX_COMMAND_SIZE_def)

lemma full_buffer_faults:
  assumes "length data = MAX_COMMAND_SIZE" "CHR 0x00 \<notin> set data" "length buf = MAX_COMMAND_SIZE"
  shows "client_loop cmds sockfd buf (Bytes data # more_input) rs = None"
proof -
  have "data \<noteq> []" using assms(1) by (auto simp: MAX_COMMAND_SIZE_def)
  moreover have "recv_into buf data = data" using assms by (simp add: recv_into_def)
  ultimately show ?thesis using assms(2) by (simp add: Let_def)
qed

text \<open>C20: a session runs the commands its client sends. Lines of at most 125 characters reach the
  handlers exactly as they were typed, one after the other, with a prompt behind each, whatever
  earlier lines have left in the buffer. The first bytes that fill the whole buffer of 128 bytes
  without a NUL are a fault: the code measures the text past the end of the buffer.\<close>

theorem session_runs_commands:
  assumes "\<forall>l\<in>set ls. is_line l \<and> \<not> strncmp_eq l ''exit'' 4"
    "length data = MAX_COMMAND_SIZE" "CHR 0x00 \<notin> set data"
  shows "process_client_request cmds sockfd (map (\<lambda>l. Bytes (l @ CRLF)) ls) rs
      = run_lines cmds sockfd ls (prompt sockfd rs)
    \<and> process_client_request cmds sockfd (map (\<lambda>l. Bytes (l @ CRLF)) ls @ [Bytes (''exit'' @ CRLF)]) rs
      = map_option (send_to_socket sockfd (ln ''bye!'')) (run_lines cmds sockfd ls (prompt sockfd rs))
    \<and> process_client_request cmds sockfd [Bytes data] rs = None"
proof -
  let ?b = "replicate MAX_COMMAND_SIZE (CHR 0x00)"
  from client_lines [OF assms(1) empty_buffer, of cmds sockfd] obtain b where b: "buffer_ok b"
    and run: "\<forall>more_input rs. client_loop cmds sockfd ?b (map (\<lambda>l. Bytes (l @ CRLF)) ls @ more_input) rs
      = do { rs \<leftarrow> run_lines cmds sockfd ls rs; client_loop cmds sockfd b more_input rs }"
    by blast
  have "is_line ''exit''" by (simp add: is_line_def MAX_COMMAND_SIZE_def)
  from client_line [OF this b, of cmds sockfd]
  have "client_loop cmds sockfd b [Bytes (''exit'' @ CRLF)] rs = Some (send_to_socket sockfd (ln ''bye!'') rs)" for rs
    by auto
  then have "do { rs \<leftarrow> r; client_loop cmds sockfd b [Bytes (''exit'' @ CRLF)] rs }
      = map_option (send_to_socket sockfd (ln ''bye!'')) r" for r
    by (cases r) simp_all
  moreover have "client_loop cmds sockfd b [] = Some" by (rule ext) simp
  ultimately show ?thesis
    using run [rule_format, of "[]"] run [rule_format, of "[Bytes (''exit'' @ CRLF)]"] full_buffer_faults [OF assms(2,3)]
    by (simp add: process_client_request_def del: client_loop.simps(3))
qed

section \<open>Adding a route\<close>

lemma sscanf_word:
  assumes "w \<noteq> []" "\<forall>c\<in>set w. \<not> isspace c" "s = [] \<or> isspace (hd s)"
  shows "sscanf (Word # ds) (w @ s) = S w # sscanf ds s"
proof -
  have "dropWhile isspace (w @ s) = w @ s" using assms(1,2) by (cases w) auto
  moreover have "takeWhile (\<lambda>c. \<not> isspace c) (w @ s) = w" using assms(2,3) by (cases s) auto
  ultimately show ?thesis using assms(1) by (simp add: Let_def)
qed

lemma ntop_chars: "c \<in> set (inet_ntop ip) \<Longrightarrow> isdigit c \<or> c = CHR ''.''"
  using decimal_digits by (auto simp: inet_ntop_def)

lemma digit_plain: "isdigit c \<or> c = CHR ''.'' \<Longrightarrow> \<not> isspace c \<and> c \<noteq> CHR 0x00 \<and> c \<noteq> CHR 0x0D \<and> c \<noteq> CHR 0x0A \<and> c \<noteq> CHR ''?''"
  by (auto simp: isdigit_def isspace_def)

lemma ntop_nonempty: "inet_ntop ip \<noteq> []"
  by (simp add: inet_ntop_def)

lemma sscanf_ntop [simp]:
  "s = [] \<or> isspace (hd s) \<Longrightarrow> sscanf (Word # ds) (inet_ntop ip @ s) = S (inet_ntop ip) # sscanf ds s"
  using ntop_chars digit_plain by (intro sscanf_word) (auto simp: ntop_nonempty)

lemma skip_ntop [simp]: "dropWhile isspace (inet_ntop ip @ s) = inet_ntop ip @ s"
proof -
  obtain c t where c: "inet_ntop ip = c # t" using ntop_nonempty [of ip] by (cases "inet_ntop ip") auto
  then have "\<not> isspace c" using ntop_chars [of c ip] digit_plain by auto
  then show ?thesis by (simp add: c)
qed

definition route_command :: "u32 \<Rightarrow> u32 \<Rightarrow> u32 \<Rightarrow> string \<Rightarrow> string" where
  "route_command dest gw rmask interface = ''ip route add '' @ inet_ntop dest @ '' '' @ inet_ntop gw @ '' ''
     @ inet_ntop rmask @ '' '' @ interface"

lemma scan_route_command:
  assumes "interface \<in> hw_ports"
  shows "sscanf (lit ''ip route add '' @ [Word, Skip, Word, Skip, Word, Skip, Word]) (route_command dest gw rmask interface)
    = [S (inet_ntop dest), S (inet_ntop gw), S (inet_ntop rmask), S interface]"
proof -
  have i: "dropWhile isspace interface = interface" "takeWhile (\<lambda>c. \<not> isspace c) interface = interface" "interface \<noteq> []"
    using assms by (auto simp: hw_ports_def isspace_def)
  show ?thesis by (simp add: route_command_def isspace_def i del: sscanf.simps(4)) (simp add: i)
qed

lemma route_command_line: "interface \<in> hw_ports \<Longrightarrow> is_line (route_command dest gw rmask interface)"
  using ntop_chars digit_plain length_inet_ntop [of dest] length_inet_ntop [of gw] length_inet_ntop [of rmask]
  by (auto simp: is_line_def route_command_def hw_ports_def MAX_COMMAND_SIZE_def dest!: ntop_chars)

lemma route_command_best:
  "best_match (fst ` set (cli_table env)) (route_command dest gw rmask interface) ''ip route add''"
proof -
  obtain c t where c: "inet_ntop dest = c # t" using ntop_nonempty [of dest] by (cases "inet_ntop dest") auto
  then have "c \<noteq> CHR ''?''" using ntop_chars [of c dest] digit_plain by auto
  then show ?thesis by (simp add: best_match_def cli_table_def route_command_def c)
qed

lemma route_command_handler:
  assumes "mset cmds = mset (cli_table env)"
  shows "cli_command_lpm cmds (route_command dest gw rmask interface) = Some cli_ip_route_add"
proof -
  have s: "set cmds = set (cli_table env)" using assms by (metis set_mset_mset)
  have d: "distinct (map fst cmds)" using distinct_names assms by (metis mset_eq_imp_distinct_iff mset_map)
  show ?thesis
  proof (rule cli_command_lpm_best [OF d])
    show "(''ip route add'', cli_ip_route_add) \<in> set cmds" by (simp add: s cli_table_def)
  qed (use names_nonempty route_command_best in \<open>simp_all add: s\<close>)
qed

lemma rtable_ok_cong:
  "rtable r = rtable r' \<Longrightarrow> netfpga r = netfpga r' \<Longrightarrow> is_netfpga r = is_netfpga r' \<Longrightarrow> rtable_ok r = rtable_ok r'"
  by (simp add: rtable_ok_def rtable_mirrored_def active_routes_def cong: if_cong)

lemma route_handler:
  assumes "rt_iface ` set (rtable rs) \<subseteq> hw_ports" "interface \<in> hw_ports" "locks rs L_rtable = Free"
  shows "\<exists>rt h. cli_ip_route_add rs \<lparr>cr_sockfd = fd, cr_command = route_command dest gw rmask interface\<rparr>
      = Some (send_to_socket fd (ln ''Successfully added route.'') (rs\<lparr>rtable := rt, netfpga := h\<rparr>))
    \<and> rtable_ok (rs\<lparr>rtable := rt, netfpga := h\<rparr>)
    \<and> mset rt = add_mset \<lparr>rt_ip = dest, rt_gw = gw, rt_mask = rmask, rt_iface = interface,
        rt_is_static = True, rt_is_active = True\<rparr> (mset (rtable rs))"
proof -
  let ?e = "\<lparr>rt_ip = dest, rt_gw = gw, rt_mask = rmask, rt_iface = interface, rt_is_static = True, rt_is_active = True\<rparr>"
  let ?l = "set_lock L_rtable Writing rs"
  have short: "strncpy interface IF_LEN = interface" using assms(2) by (auto simp: hw_ports_def IF_LEN_def)
  have "rt_iface ` set (rtable (?l\<lparr>rtable := rtable rs @ [?e]\<rparr>)) \<subseteq> hw_ports" using assms(1,2) by simp
  from trigger_after [OF this] obtain r where r: "trigger_rtable_modified (?l\<lparr>rtable := rtable rs @ [?e]\<rparr>) = Some r"
    "rtable_ok r" "mset (rtable r) = mset (rtable rs @ [?e])"
    "r = ?l\<lparr>rtable := rtable rs @ [?e]\<rparr>\<lparr>rtable := rtable r, netfpga := netfpga r\<rparr>"
    by auto
  let ?rs = "rs\<lparr>rtable := rtable r, netfpga := netfpga r\<rparr>"
  have "locks r = (locks rs)(L_rtable := Writing)" using arg_cong [OF r(4), of locks] by (simp add: set_lock_def)
  then have "unlock_rtable r = Some (set_lock L_rtable Free r)" by (simp add: unlock_rtable_def free_locks)
  moreover have "set_lock L_rtable Free r = ?rs"
  proof -
    have "(locks rs)(L_rtable := Free) = locks rs" using assms(3) by (metis fun_upd_triv)
    then show ?thesis
      using arg_cong [OF r(4), of "set_lock L_rtable Free"] by (cases rs) (simp add: set_lock_def)
  qed
  ultimately have u: "unlock_rtable r = Some ?rs" by simp
  have "add_route ?l dest gw rmask interface = Some (0, r)" using r(1) by (simp add: add_route_def short set_lock_def)
  then have "cli_ip_route_add rs \<lparr>cr_sockfd = fd, cr_command = route_command dest gw rmask interface\<rparr>
      = Some (send_to_socket fd (ln ''Successfully added route.'') ?rs)"
    using assms(3) u scan_route_command [OF assms(2), of dest gw rmask]
    by (simp add: cli_ip_route_add_def lock_rtable_wr_def free_locks say_def del: sscanf.simps)
  moreover have "rtable_ok ?rs" using r(2) arg_cong [OF r(4), of is_netfpga]
    by (subst rtable_ok_cong [of ?rs r]) (simp_all add: set_lock_def)
  ultimately show ?thesis using r(3) by (intro exI [of _ "rtable r"] exI [of _ "netfpga r"]) simp
qed


section \<open>Samples\<close>

definition sample_env :: cli_env where
  "sample_env = \<lparr>sr_user = ''root'', sr_vhost = ''vhost1'', sr_lhost = ''localhost'', sr_topo_id = 1, sr_sin_port = 0,
     sr_sin_addr = 0, hw_stats = [], wakeups = [(True, [])]\<rparr>"

lemma sample_router_locks: "locks empty_router l = Free"
  by (simp add: empty_router_def)

theorem cli_finds_longest_command_witness:
  "\<exists>cmds. init_cli strcmp_bytes sample_env empty_router = Some (cmds, empty_router)
    \<and> cli_command_lpm cmds ''show ip route 10.0.0.1'' = Some cli_show_ip_rtable"
proof -
  have "(''show ip route'', cli_show_ip_rtable) \<in> set (cli_table sample_env)"
      "best_match (fst ` set (cli_table sample_env)) ''show ip route 10.0.0.1'' ''show ip route''"
    by (simp_all add: cli_table_def best_match_def)
  then show ?thesis
    using cli_finds_longest_command [OF strcmp_bytes_reverses sample_router_locks, of sample_env] by blast
qed

theorem session_runs_commands_witness:
  "process_client_request [] 4 [Bytes (''help'' @ CRLF), Bytes (''?'' @ CRLF)] empty_router
     = run_lines [] 4 [''help'', ''?''] (prompt 4 empty_router)
   \<and> process_client_request [] 4 [Bytes (replicate 128 (CHR ''x''))] empty_router = None"
proof -
  have "\<forall>l\<in>set [''help'', ''?'']. is_line l \<and> \<not> strncmp_eq l ''exit'' 4"
    by (simp add: is_line_def MAX_COMMAND_SIZE_def strncmp_eq_def)
  from session_runs_commands [OF this, of "replicate 128 (CHR ''x'')" "[]" 4 "empty_router"]
  show ?thesis by (simp add: MAX_COMMAND_SIZE_def del: replicate.simps)
qed


end
