(* ===== verification/Startup.thy ===== *)
theory Startup
  imports Cli Ctable
begin

text \<open>
  The start of the router in CPU mode: \<open>init\<close> of or_main.c, the interfaces from the hardware file
  (sr_cpu_extension_nf2.c), the own entry in the router list, the routing and content tables from
  their files, and the command line (\<open>sr_integ_hw_setup\<close> of sr_integration.c). A file is the list of
  the lines that \<open>fgets\<close> returns. Where the program exits, and where it crashes, there is no state.
\<close>

section \<open>The initial state\<close>

text \<open>The reset of the card, and its tables cleared. DMA is not touched: that line is commented out.\<close>

definition init_hardware :: "router_state \<Rightarrow> router_state option" where
  "init_hardware rs = do {
     let rs = rs\<lparr>netfpga := writeReg CPCI_REG_CTRL 0x00010100 (netfpga rs)\<rparr>;
     let rs = write_arp_cache_to_hw rs;
     rs \<leftarrow> write_rtable_to_hw rs;
     write_ctable_to_hw rs
   }"

definition PWOSPF_AREA_ID :: u32 where "PWOSPF_AREA_ID = 0"
definition PWOSPF_NEIGHBOR_TIMEOUT :: u16 where "PWOSPF_NEIGHBOR_TIMEOUT = 5"
definition PWOSPF_LSUINT :: u32 where "PWOSPF_LSUINT = 30"
definition INITIAL_ARP_TIMEOUT :: u32 where "INITIAL_ARP_TIMEOUT = 300"

text \<open>
  The locks are created free and the lists are empty. The card is connected (otherwise the program
  exits), and its registers hold anything. The threads that \<open>init\<close> starts are modelled round by
  round in the theories of their components.
\<close>

definition init ::
    "(string \<Rightarrow> string \<Rightarrow> int) \<Rightarrow> bool \<Rightarrow> hw_state \<Rightarrow> int \<Rightarrow> (nat \<Rightarrow> u32) \<Rightarrow> router_state option" where
  "init strcmp cpu_mode nf2 now rands = do {
     let rs = \<lparr>router_id = 0, area_id = PWOSPF_AREA_ID, pwospf_hello_interval = PWOSPF_NEIGHBOR_TIMEOUT,
       pwospf_lsu_interval = PWOSPF_LSUINT, pwospf_lsu_broadcast = 1, dijkstra_dirty = 0, is_netfpga = cpu_mode,
       arp_ttl = INITIAL_ARP_TIMEOUT, nat_timeout = 120, netfpga = nf2, rtable = [], ctable = [], arp_cache = [],
       if_list = [], arp_queue = [], sping_queue = [], pwospf_router_list = [], pwospf_lsu_queue = [],
       nat_table = [], local_ip_filter_list = [], locks = \<lambda>_. Free, clock = now, rand_seq = rands,
       rand_pos = 0, events = []\<rparr>;
     rs \<leftarrow> (if is_netfpga rs then init_hardware rs else Some rs);
     if is_netfpga rs then do {
       ip \<leftarrow> inet_pton ''224.0.0.5'';
       (r, rs) \<leftarrow> add_local_ip_filter strcmp rs ip ''pwospf'';
       Some rs
     } else Some rs
   }"

section \<open>The interfaces\<close>

text \<open>
  \<open>copy_next_field\<close> copies the next word into a buffer of 32 bytes and then writes a NUL behind it,
  past the end of the buffer for a word of 32 characters or more. It returns a null pointer when
  the line has no more words.
\<close>

definition copy_next_field :: "string \<Rightarrow> (string \<times> string) option option" where
  "copy_next_field line =
     (let t = dropWhile isspace line; field = takeWhile (\<lambda>c. \<not> isspace c) t in
      if t = [] then Some None
      else if length field \<ge> SR_NAMELEN then None
      else Some (Some (field, drop (length field) t)))"

definition asci_to_nboip :: "string \<Rightarrow> u32" where
  "asci_to_nboip ip = (case inet_pton ip of None \<Rightarrow> 0 | Some addr \<Rightarrow> addr)"

text \<open>\<open>sscanf(buf, "%x", &tmpint)\<close>\<close>

definition scan_hex :: "string \<Rightarrow> u32 option" where
  "scan_hex s =
     (let (neg, u) = scan_sign (dropWhile isspace s);
          v = (if take 2 u = ''0x'' \<or> take 2 u = ''0X'' then drop 2 u else u);
          w = takeWhile isxdigit v
      in if w = [] then None else Some (signed neg (number 16 w)))"

text \<open>
  Each number starts behind the next colon. Where there is none the pointer leaves the text, and
  where there is no number \<open>tmpint\<close> keeps the value it had, which is undefined for the first.
\<close>

fun ether_bytes :: "nat \<Rightarrow> u32 option \<Rightarrow> string \<Rightarrow> u8 list option" where
  "ether_bytes 0 tmpint buf = Some []"
| "ether_bytes (Suc n) tmpint buf = do {
     let tmpint = (case scan_hex buf of Some v \<Rightarrow> Some v | None \<Rightarrow> tmpint);
     v \<leftarrow> tmpint;
     bytes \<leftarrow> (if n = 0 then Some []
       else case dropWhile (\<lambda>c. c \<noteq> CHR '':'') buf of [] \<Rightarrow> None | _ # buf \<Rightarrow> ether_bytes n tmpint buf);
     Some (ucast v # bytes)
   }"

definition asci_to_ether :: "string \<Rightarrow> mac option" where
  "asci_to_ether addr = map_option (\<lambda>m. le48 (m ! 0) (m ! 1) (m ! 2) (m ! 3) (m ! 4) (m ! 5)) (ether_bytes 6 None addr)"

text \<open>The result is 1 after a badly formatted line. A line that starts with \<open>#\<close> is skipped.\<close>

fun read_hw_lines :: "(string \<Rightarrow> string \<Rightarrow> int) \<Rightarrow> router_state \<Rightarrow> string list \<Rightarrow> (int \<times> router_state) option" where
  "read_hw_lines strcmp rs [] = Some (0, rs)"
| "read_hw_lines strcmp rs (line # next) =
     (if take 1 line = ''#'' then read_hw_lines strcmp rs next
      else do {
        f1 \<leftarrow> copy_next_field line;
        case f1 of None \<Rightarrow> Some (1, rs) | Some (name, l1) \<Rightarrow> do {
        f2 \<leftarrow> copy_next_field l1;
        case f2 of None \<Rightarrow> Some (1, rs) | Some (ip, l2) \<Rightarrow> do {
        f3 \<leftarrow> copy_next_field l2;
        case f3 of None \<Rightarrow> Some (1, rs) | Some (msk, l3) \<Rightarrow> do {
        f4 \<leftarrow> copy_next_field l3;
        case f4 of None \<Rightarrow> Some (1, rs) | Some (hwaddr, l4) \<Rightarrow> do {
          addr \<leftarrow> asci_to_ether hwaddr;
          rs \<leftarrow> init_add_interface strcmp rs \<lparr>vns_name = name, vns_addr = addr, vns_ip = asci_to_nboip ip,
            vns_mask = asci_to_nboip msk, vns_speed = 0\<rparr>;
          read_hw_lines strcmp rs next
        }}}}})"

definition sr_cpu_init_hardware ::
    "(string \<Rightarrow> string \<Rightarrow> int) \<Rightarrow> router_state \<Rightarrow> string list \<Rightarrow> (int \<times> router_state) option" where
  "sr_cpu_init_hardware strcmp rs hwfile = read_hw_lines strcmp rs hwfile"

section \<open>The tables\<close>

definition own_link :: "iface_entry \<Rightarrow> pwospf_interface" where
  "own_link ie = \<lparr>pi_subnet = if_ip ie AND if_mask ie, pi_mask = if_mask ie, pi_router_id = 0, pi_is_active = False\<rparr>"

definition init_router_list :: "router_state \<Rightarrow> router_state option" where
  "init_router_list rs = (if pwospf_router_list rs \<noteq> [] then None
     else Some (rs\<lparr>pwospf_router_list := [\<lparr>pr_router_id = router_id rs, pr_area_id = area_id rs, pr_seq = 0,
       pr_last_update = clock rs, pr_distance = 0, pr_shortest_path_found = False,
       pr_interface_list = map own_link (if_list rs), pr_prev_router = None\<rparr>]\<rparr>))"

text \<open>The four words of a line; a missing word is a null pointer, which is then read.\<close>

definition four_words :: "string \<Rightarrow> (string \<times> string \<times> string \<times> string) option" where
  "four_words buf = (case sscanf [Word, Skip, Word, Skip, Word, Skip, Word] buf of
     [S a, S b, S c, S d] \<Rightarrow> Some (a, b, c, d) | _ \<Rightarrow> None)"

text \<open>An address that cannot be read leaves the 0 of the cleared entry.\<close>

fun read_rtable :: "string list \<Rightarrow> rtable_entry list option" where
  "read_rtable [] = Some []"
| "read_rtable (buf # next) = do {
     (ip, gw, msk, iface) \<leftarrow> four_words buf;
     rest \<leftarrow> read_rtable next;
     Some (\<lparr>rt_ip = asci_to_nboip ip, rt_gw = asci_to_nboip gw, rt_mask = asci_to_nboip msk,
       rt_iface = strncpy iface 32, rt_is_static = True, rt_is_active = True\<rparr> # rest)
   }"

text \<open>A default route is advertised as a link of this router.\<close>

definition init_rtable :: "router_state \<Rightarrow> string list \<Rightarrow> router_state option" where
  "init_rtable rs file = do {
     rs \<leftarrow> lock_rtable_wr rs;
     entries \<leftarrow> read_rtable file;
     let rs = rs\<lparr>rtable := rtable rs @ entries\<rparr>;
     let default_route = default_route_present rs;
     rs \<leftarrow> unlock_rtable rs;
     rs \<leftarrow> (case default_route of None \<Rightarrow> Some rs | Some pi \<Rightarrow> do {
       rs \<leftarrow> lock_mutex_pwospf_router_list rs;
       r \<leftarrow> get_router_by_rid (router_id rs) (pwospf_router_list rs);
       let rs = update_router (router_id rs) (\<lambda>r. r\<lparr>pr_interface_list := pr_interface_list r @ [pi]\<rparr>) rs;
       unlock_mutex_pwospf_router_list rs
     });
     Some (dijkstra_trigger rs)
   }"

definition atoi :: "string \<Rightarrow> u32" where
  "atoi s = number_or_0 (sscanf [Num] s)"

text \<open>The locks of the content table are commented out.\<close>

fun read_ctable :: "router_state \<Rightarrow> string list \<Rightarrow> router_state option" where
  "read_ctable rs [] = Some rs"
| "read_ctable rs (buf # next) = do {
     (content, ver_num, nexthop, iface) \<leftarrow> four_words buf;
     (r, rs) \<leftarrow> add_content rs (asci_to_nboip content) (ucast (atoi ver_num)) (asci_to_nboip nexthop) iface;
     read_ctable rs next
   }"

definition init_ctable :: "router_state \<Rightarrow> string list \<Rightarrow> router_state option" where
  "init_ctable rs file = do {
     rs \<leftarrow> read_ctable rs file;
     write_ctable_to_hw rs
   }"

section \<open>The whole start\<close>

definition sr_integ_hw_setup ::
    "(string \<Rightarrow> string \<Rightarrow> int) \<Rightarrow> cli_env \<Rightarrow> router_state \<Rightarrow> string list \<Rightarrow> string list \<Rightarrow> (cli_commands \<times> router_state) option" where
  "sr_integ_hw_setup strcmp env rs rtable_file ctable_file = do {
     rs \<leftarrow> init_router_list rs;
     rs \<leftarrow> init_rtable rs rtable_file;
     rs \<leftarrow> init_ctable rs ctable_file;
     init_cli strcmp env rs
   }"

definition sr_init_cpu_mode ::
    "(string \<Rightarrow> string \<Rightarrow> int) \<Rightarrow> cli_env \<Rightarrow> hw_state \<Rightarrow> int \<Rightarrow> (nat \<Rightarrow> u32) \<Rightarrow> string list \<Rightarrow> string list \<Rightarrow> string list
       \<Rightarrow> (cli_commands \<times> router_state) option" where
  "sr_init_cpu_mode strcmp env nf2 now rands cpuhw rtable_file ctable_file = do {
     rs \<leftarrow> init strcmp True nf2 now rands;
     (failed, rs) \<leftarrow> sr_cpu_init_hardware strcmp rs cpuhw;
     if failed \<noteq> 0 then None else sr_integ_hw_setup strcmp env rs rtable_file ctable_file
   }"

section \<open>The tables of the card stay cleared\<close>

definition rows_cleared :: "hw_state \<Rightarrow> bool" where
  "rows_cleared h \<longleftrightarrow> (\<forall>j<32. hw_rows h ARP_TABLE j = [0, 0, 0] \<and> hw_rows h ROUTE_TABLE j = [0, 0, 0, 0]
     \<and> (\<exists>v. hw_rows h CCCP_TABLE j = [0, v, 0, 0]))"

text \<open>The router between \<open>init\<close> and \<open>sr_integ_hw_setup\<close>, with the interfaces read so far.\<close>

definition booted :: "iface_entry list \<Rightarrow> router_state \<Rightarrow> bool" where
  "booted ifs rs \<longleftrightarrow> is_netfpga rs \<and> locks rs = (\<lambda>_. Free) \<and> rtable rs = [] \<and> ctable rs = [] \<and> arp_cache rs = []
     \<and> pwospf_router_list rs = [] \<and> if_list rs = ifs \<and> rows_cleared (netfpga rs)"

lemma add_local_ip_filter_returns:
  assumes "strcmp_reverses strcmp" "locks rs L_local_ip_filter_list = Free"
  shows "\<exists>r l h. add_local_ip_filter strcmp rs ip name = Some (r, rs\<lparr>local_ip_filter_list := l, netfpga := h\<rparr>)
    \<and> (\<forall>t. t \<noteq> DST_IP_FILTER_TABLE \<longrightarrow> hw_rows h t = hw_rows (netfpga rs) t)"
proof (cases "get_local_ip_filter_by_ip rs ip \<noteq> None \<or> get_local_ip_filter_by_name rs name \<noteq> None")
  case True
  then show ?thesis
    by (intro exI [of _ 1] exI [of _ "local_ip_filter_list rs"] exI [of _ "netfpga rs"]) (simp add: add_local_ip_filter_def)
next
  case False
  let ?e = "\<lparr>lf_ip = ip, lf_name = take 31 name\<rparr>"
  let ?sw = "\<lambda>a b. strcmp (lf_name a) (lf_name b) = 1"
  have "asymp ?sw" by (rule strcmp_asymp [OF assms(1)])
  then obtain ys where ys: "bubble_sort ?sw (local_ip_filter_list rs @ [?e]) = Some ys"
    using bubble_sort_terminates by blast
  let ?h = "if is_netfpga rs then write_filter_rows TABLE_DEPTH 0 ys (netfpga rs) else netfpga rs"
  have other: "hw_rows (write_filter_rows n i cur h) t = hw_rows h t" if "t \<noteq> DST_IP_FILTER_TABLE" for n i cur h t
    using that by (induction n i cur h rule: write_filter_rows.induct) simp_all
  have "add_local_ip_filter strcmp rs ip name = Some (0, rs\<lparr>local_ip_filter_list := ys, netfpga := ?h\<rparr>)"
    using assms(2) ys False
    by (simp add: add_local_ip_filter_def trigger_local_ip_filters_change_def lock_wrappers
        fault_simps frame_simps Let_def LOCAL_IP_FILTER_ENTRY_NAME_LEN_def strncpy_def set_lock_def fun_upd_idem)
  then show ?thesis using other by (intro exI [of _ 0] exI [of _ ys] exI [of _ ?h]) simp
qed

lemma init_hardware_clears:
  assumes "rtable rs = []" "ctable rs = []" "arp_cache rs = []" "is_netfpga rs"
  shows "\<exists>h. init_hardware rs = Some (rs\<lparr>netfpga := h\<rparr>) \<and> rows_cleared h"
proof -
  let ?r0 = "rs\<lparr>netfpga := writeReg CPCI_REG_CTRL 0x00010100 (netfpga rs)\<rparr>"
  obtain h1 where h1: "write_arp_cache_to_hw ?r0 = ?r0\<lparr>netfpga := h1\<rparr>" "arp_mirrored (?r0\<lparr>netfpga := h1\<rparr>)"
    using write_arp_cache_to_hw_mirrors [of ?r0] by metis
  let ?r1 = "?r0\<lparr>netfpga := h1\<rparr>"
  obtain h2 where h2: "write_rtable_to_hw ?r1 = Some (?r1\<lparr>netfpga := h2\<rparr>)" "rtable_mirrored (?r1\<lparr>netfpga := h2\<rparr>)"
      "\<forall>t. t \<noteq> ROUTE_TABLE \<longrightarrow> hw_rows h2 t = hw_rows h1 t"
    using write_rtable_to_hw_mirrors [of ?r1] assms(1) by auto
  let ?r2 = "?r1\<lparr>netfpga := h2\<rparr>"
  obtain h3 where h3: "trigger_ctable_modified ?r2 = Some (?r2\<lparr>netfpga := h3\<rparr>)" "ctable_mirrored (?r2\<lparr>netfpga := h3\<rparr>)"
      "\<forall>t. t \<noteq> CCCP_TABLE \<longrightarrow> hw_rows h3 t = hw_rows h2 t"
    using trigger_ctable_modified_mirrors [of ?r2] assms(2,4) by auto
  have "rows_cleared h3"
    using h1(2) h2(2,3) h3(2,3) assms
    by (simp add: rows_cleared_def arp_mirrored_def rtable_mirrored_def ctable_mirrored_def active_routes_def)
  moreover have "init_hardware rs = Some (rs\<lparr>netfpga := h3\<rparr>)"
    using h1(1) h2(1) h3(1) assms(4) by (simp add: init_hardware_def trigger_ctable_modified_def)
  ultimately show ?thesis by blast
qed

lemma init_boots:
  assumes "strcmp_reverses strcmp"
  shows "\<exists>rs. init strcmp True nf2 now rands = Some rs \<and> booted [] rs"
proof -
  define rs where "rs = \<lparr>router_id = 0, area_id = PWOSPF_AREA_ID, pwospf_hello_interval = PWOSPF_NEIGHBOR_TIMEOUT,
       pwospf_lsu_interval = PWOSPF_LSUINT, pwospf_lsu_broadcast = 1, dijkstra_dirty = 0, is_netfpga = True,
       arp_ttl = INITIAL_ARP_TIMEOUT, nat_timeout = 120, netfpga = nf2, rtable = [], ctable = [], arp_cache = [],
       if_list = [], arp_queue = [], sping_queue = [], pwospf_router_list = [], pwospf_lsu_queue = [],
       nat_table = [], local_ip_filter_list = [], locks = \<lambda>_. Free, clock = now, rand_seq = rands,
       rand_pos = 0, events = []\<rparr>"
  obtain h where h: "init_hardware rs = Some (rs\<lparr>netfpga := h\<rparr>)" "rows_cleared h"
    using init_hardware_clears [of rs] by (auto simp: rs_def)
  have ip: "inet_pton ''224.0.0.5'' \<noteq> None" by code_simp
  then obtain ip where ip: "inet_pton ''224.0.0.5'' = Some ip" by blast
  obtain r l h' where a: "add_local_ip_filter strcmp (rs\<lparr>netfpga := h\<rparr>) ip ''pwospf''
      = Some (r, (rs\<lparr>netfpga := h\<rparr>)\<lparr>local_ip_filter_list := l, netfpga := h'\<rparr>)"
      "\<forall>t. t \<noteq> DST_IP_FILTER_TABLE \<longrightarrow> hw_rows h' t = hw_rows h t"
    using add_local_ip_filter_returns [OF assms, of "rs\<lparr>netfpga := h\<rparr>" ip "''pwospf''"] by (auto simp: rs_def)
  then have "init strcmp True nf2 now rands = Some (rs\<lparr>local_ip_filter_list := l, netfpga := h'\<rparr>)"
    using h(1) ip by (simp add: init_def rs_def)
  moreover have "booted [] (rs\<lparr>local_ip_filter_list := l, netfpga := h'\<rparr>)"
    using a(2) h(2) by (simp add: booted_def rs_def rows_cleared_def)
  ultimately show ?thesis by blast
qed

definition iface_of :: "sr_vns_if \<Rightarrow> iface_entry" where
  "iface_of v = \<lparr>if_name = vns_name v, if_addr = vns_addr v, if_ip = vns_ip v, if_mask = vns_mask v,
     if_speed = vns_speed v, if_is_active = True, if_last_sent_hello = 0, if_nbr_routers = [], if_is_wan = False\<rparr>"

lemma init_add_interface_boots:
  assumes "strcmp_reverses strcmp" "booted ifs rs" "vns_name v \<in> eth_ports"
  shows "\<exists>rs'. init_add_interface strcmp rs v = Some rs' \<and> booted (ifs @ [iface_of v]) rs'"
proof -
  have "\<not> contains ''cpu'' (vns_name v)" using assms(3) by (auto simp: eth_ports_def)
  moreover obtain port where p: "getPortNumber (vns_name v) = Some port"
    using assms(3) by (auto simp: eth_ports_def getPortNumber_def)
  let ?r1 = "(if strncmp_eq (vns_name v) ''eth0'' IF_LEN then rs\<lparr>router_id := vns_ip v\<rparr> else rs)
      \<lparr>if_list := if_list rs @ [iface_of v]\<rparr>"
  let ?r2 = "write_hw_iface_mac ?r1 (ucast port) (mac_hi_of (vns_addr v)) (mac_lo_of (vns_addr v))"
  have rows: "hw_rows (netfpga ?r2) t = hw_rows (netfpga rs) t" for t
    by (simp add: write_hw_iface_mac_def)
  have free: "locks ?r2 L_local_ip_filter_list = Free" using assms(2) by (simp add: write_hw_iface_mac_def booted_def)
  obtain r l h where a: "add_local_ip_filter strcmp ?r2 (vns_ip v) (vns_name v)
      = Some (r, ?r2\<lparr>local_ip_filter_list := l, netfpga := h\<rparr>)"
      "\<forall>t. t \<noteq> DST_IP_FILTER_TABLE \<longrightarrow> hw_rows h t = hw_rows (netfpga ?r2) t"
    using add_local_ip_filter_returns [OF assms(1) free] by blast
  have n: "is_netfpga rs" using assms(2) by (simp add: booted_def)
  ultimately have "init_add_interface strcmp rs v = Some (?r2\<lparr>local_ip_filter_list := l, netfpga := h\<rparr>)"
    using p a(1) by (cases "strncmp_eq (vns_name v) ''eth0'' IF_LEN") (simp_all add: init_add_interface_def iface_of_def)
  moreover have "booted (ifs @ [iface_of v]) (?r2\<lparr>local_ip_filter_list := l, netfpga := h\<rparr>)"
    using assms(2) a(2) rows by (simp add: booted_def rows_cleared_def write_hw_iface_mac_def)
  ultimately show ?thesis by blast
qed

section \<open>The files as they are written\<close>

definition hw_line :: "sr_vns_if \<Rightarrow> string" where
  "hw_line v = vns_name v @ '' '' @ inet_ntop (vns_ip v) @ '' '' @ inet_ntop (vns_mask v) @ '' ''
     @ mac_text (\<lambda>i. byte_of i (vns_addr v)) @ [LF]"

definition route_text :: "rtable_entry \<Rightarrow> string" where
  "route_text e = inet_ntop (rt_ip e) @ '' '' @ inet_ntop (rt_gw e) @ '' '' @ inet_ntop (rt_mask e) @ '' '' @ rt_iface e @ [LF]"

definition content_text :: "ctable_entry \<Rightarrow> string" where
  "content_text e = inet_ntop (ct_content e) @ '' '' @ decimal (unat (ct_ver_num e)) @ '' '' @ inet_ntop (ct_nexthop e)
     @ '' '' @ ct_iface e @ [LF]"

text \<open>A word: not empty and without white space.\<close>

definition is_word :: "string \<Rightarrow> bool" where
  "is_word w \<longleftrightarrow> w \<noteq> [] \<and> (\<forall>c\<in>set w. \<not> isspace c)"

lemma is_word_ntop [simp]: "is_word (inet_ntop ip)"
  using ntop_chars digit_plain ntop_nonempty by (auto simp: is_word_def)

lemma is_word_decimal [simp]: "is_word (decimal n)"
  using decimal_digits digit_plain by (auto simp: is_word_def)

lemma is_word_port [simp]: "name \<in> hw_ports \<Longrightarrow> is_word name"
  by (auto simp: hw_ports_def is_word_def isspace_def)

lemma digit_not_space: "d < 16 \<Longrightarrow> \<not> isspace (digit d)"
  using of_char_digit [of d] by (auto simp: isspace_def split: if_splits)

lemma is_word_mac [simp]: "is_word (mac_text m)"
  by (auto simp: is_word_def mac_text_def hex02_def digit_not_space div_less_iff_less_mult) (auto simp: isspace_def)

lemma drop_word: "is_word w \<Longrightarrow> dropWhile isspace (w @ s) = w @ s"
  by (cases w) (auto simp: is_word_def)

lemma take_word: "is_word w \<Longrightarrow> isspace c \<Longrightarrow> takeWhile (\<lambda>c. \<not> isspace c) (w @ c # s) = w"
  by (auto simp: is_word_def)

lemma scan_word: "is_word w \<Longrightarrow> isspace c \<Longrightarrow> sscanf (Word # ds) (w @ c # s) = S w # sscanf ds (c # s)"
  by (rule sscanf_word) (auto simp: is_word_def)

lemma isspace_blank [simp]: "isspace (CHR '' '')" "isspace LF"
  by (simp_all add: isspace_def LF_def)

lemma four_words_line:
  assumes "is_word a" "is_word b" "is_word c" "is_word d"
  shows "four_words (a @ CHR '' '' # b @ CHR '' '' # c @ CHR '' '' # d @ [LF]) = Some (a, b, c, d)"
  using assms by (simp add: four_words_def scan_word drop_word del: sscanf.simps(4))

lemma copy_field:
  assumes "is_word w" "length w < SR_NAMELEN" "isspace c" "set pre \<subseteq> {CHR '' ''}"
  shows "copy_next_field (pre @ w @ c # s) = Some (Some (w, c # s))"
proof -
  have "dropWhile isspace (pre @ w @ c # s) = w @ c # s"
    using assms(4) drop_word [OF assms(1)] by (induction pre) auto
  moreover have "w \<noteq> []" using assms(1) by (simp add: is_word_def)
  ultimately show ?thesis using assms take_word [OF assms(1,3)] by (simp add: copy_next_field_def)
qed

lemma asci_to_nboip_ntop [simp]: "asci_to_nboip (inet_ntop ip) = ip"
  by (simp add: asci_to_nboip_def)

lemma atoi_decimal [simp]: "atoi (decimal n) = of_nat n"
proof -
  obtain c cs where c: "decimal n = c # cs" using decimal_nonempty [of n] by (cases "decimal n") auto
  have d: "\<forall>x\<in>set (decimal n). isdigit x" using decimal_digits by blast
  then have "isdigit c" by (simp add: c)
  then have "c \<noteq> CHR ''-''" "c \<noteq> CHR ''+''" "\<not> isspace c" using digit_plain [of c] by (auto simp: isdigit_def)
  then have s: "scan_sign (dropWhile isspace (decimal n)) = (False, decimal n)" by (simp add: c scan_sign_def)
  have t: "takeWhile isdigit (decimal n) = decimal n" using d by (simp add: takeWhile_eq_all_conv)
  show ?thesis by (simp add: atoi_def number_or_0_def signed_def Let_def s t)
qed

text \<open>The numbers of a hardware address.\<close>

lemma hex_digit [simp]: "d < 16 \<Longrightarrow> isxdigit (digit d)"
  by (simp add: isxdigit_def)

lemma scan_hex_byte:
  assumes "s = [] \<or> \<not> isxdigit (hd s)"
  shows "scan_hex (hex02 b @ s) = Some (of_nat (unat b))"
proof -
  have d: "unat b div 16 < 16" "unat b mod 16 < 16" by (simp_all add: less_mult_imp_div_less)
  have no: "digit (unat b div 16) \<noteq> CHR ''-''" "digit (unat b div 16) \<noteq> CHR ''+''"
      "digit (unat b mod 16) \<noteq> CHR ''x''" "digit (unat b mod 16) \<noteq> CHR ''X''"
    using of_char_digit [OF d(1)] of_char_digit [OF d(2)] by (auto split: if_splits)
  have "takeWhile isxdigit (hex02 b @ s) = hex02 b"
    using d assms by (cases s) (simp_all add: hex02_def)
  moreover have "number 16 (hex02 b) = unat b" using d by (simp add: hex02_def number_def)
  moreover have "dropWhile isspace (hex02 b @ s) = hex02 b @ s" using d by (simp add: hex02_def digit_not_space)
  ultimately show ?thesis using no by (simp add: scan_hex_def hex02_def scan_sign_def signed_def)
qed

lemma colon [simp]: "\<not> isxdigit (CHR '':'')"
  by (simp add: isxdigit_def hex_val_def)

lemma drop_to_colon: "dropWhile (\<lambda>c. c \<noteq> CHR '':'') (hex02 b @ s) = dropWhile (\<lambda>c. c \<noteq> CHR '':'') s"
proof -
  have "digit d \<noteq> CHR '':''" if "d < 16" for d using of_char_digit [OF that] by (auto split: if_splits)
  then show ?thesis by (simp add: hex02_def less_mult_imp_div_less)
qed

lemma ucast_back [simp]: "(ucast (ucast (b :: u8) :: u32) :: u8) = b" "(ucast (ucast (v :: u16) :: u32) :: u16) = v"
  by (rule bit_word_eqI, simp add: bit_simps)+

lemma ether_byte_last: "ether_bytes (Suc 0) v (hex02 b) = Some [b]"
  using scan_hex_byte [of "[]" b] by simp

lemma ether_byte_next:
  "n \<noteq> 0 \<Longrightarrow> ether_bytes (Suc n) v (hex02 b @ '':'' @ s) = map_option (\<lambda>bs. b # bs) (ether_bytes n (Some (of_nat (unat b))) s)"
  using scan_hex_byte [of "'':'' @ s" b] by (simp add: drop_to_colon) (cases "ether_bytes n (Some (of_nat (unat b))) s"; simp)

lemma asci_to_ether_text: "asci_to_ether (mac_text (\<lambda>i. byte_of i a)) = Some a"
proof -
  have six: "(6 :: nat) = Suc (Suc (Suc (Suc (Suc (Suc 0)))))" by simp
  have "ether_bytes 6 None (mac_text (\<lambda>i. byte_of i a))
      = Some [byte_of 0 a, byte_of 1 a, byte_of 2 a, byte_of 3 a, byte_of 4 a, byte_of 5 a]"
    unfolding mac_text_def six by (simp only: ether_byte_next ether_byte_last nat.distinct not_False_eq_True option.map)
  then show ?thesis by (simp add: asci_to_ether_def)
qed

section \<open>What the start leaves\<close>

lemma hw_line_read:
  assumes "vns_name v \<in> eth_ports" "vns_speed v = 0" "strcmp_reverses strcmp" "booted ifs rs"
  shows "\<exists>rs'. booted (ifs @ [iface_of v]) rs' \<and> read_hw_lines strcmp rs (hw_line v # next) = read_hw_lines strcmp rs' next"
proof -
  obtain rs' where rs': "init_add_interface strcmp rs v = Some rs'" "booted (ifs @ [iface_of v]) rs'"
    using init_add_interface_boots [OF assms(3,4,1)] by blast
  have v: "\<lparr>vns_name = vns_name v, vns_addr = vns_addr v, vns_ip = vns_ip v, vns_mask = vns_mask v, vns_speed = 0\<rparr> = v"
    using assms(2) by simp
  have name: "is_word (vns_name v)" "length (vns_name v) < SR_NAMELEN" "take 1 (vns_name v) \<noteq> ''#''" "vns_name v \<noteq> []"
    using assms(1) by (auto simp: eth_ports_def is_word_def isspace_def SR_NAMELEN_def)
  then have first: "take 1 (hw_line v) \<noteq> ''#''" by (cases "vns_name v") (simp_all add: hw_line_def)
  have short: "length (inet_ntop ip) < SR_NAMELEN" for ip using length_inet_ntop [of ip] by (simp add: SR_NAMELEN_def)
  let ?mac = "mac_text (\<lambda>i. byte_of i (vns_addr v))"
  have "copy_next_field (hw_line v) = Some (Some (vns_name v, '' '' @ inet_ntop (vns_ip v) @ '' '' @ inet_ntop (vns_mask v) @ '' ''
      @ ?mac @ [LF]))"
    using copy_field [of "vns_name v" "CHR '' ''" "[]"] name by (simp add: hw_line_def)
  moreover have "copy_next_field ('' '' @ inet_ntop a @ '' '' @ s) = Some (Some (inet_ntop a, '' '' @ s))" for a s
    using copy_field [of "inet_ntop a" "CHR '' ''" "'' ''"] short by simp
  moreover have "copy_next_field ('' '' @ ?mac @ [LF]) = Some (Some (?mac, [LF]))"
    using copy_field [of ?mac LF "'' ''"] by (simp add: SR_NAMELEN_def)
  ultimately have "read_hw_lines strcmp rs (hw_line v # next) = read_hw_lines strcmp rs' next"
    using first rs'(1) by (simp add: asci_to_ether_text v)
  with rs'(2) show ?thesis by blast
qed

lemma hw_file_read:
  assumes "\<forall>v\<in>set vs. vns_name v \<in> eth_ports \<and> vns_speed v = 0" "strcmp_reverses strcmp" "booted ifs rs"
  shows "\<exists>rs'. booted (ifs @ map iface_of vs) rs' \<and> sr_cpu_init_hardware strcmp rs (map hw_line vs) = Some (0, rs')"
  using assms
proof (induction vs arbitrary: ifs rs)
  case (Cons v vs)
  then obtain r where "booted (ifs @ [iface_of v]) r"
      "read_hw_lines strcmp rs (hw_line v # map hw_line vs) = read_hw_lines strcmp r (map hw_line vs)"
    using hw_line_read [of v strcmp ifs rs "map hw_line vs"] by auto
  with Cons.IH [of "ifs @ [iface_of v]" r] Cons.prems show ?case by (auto simp: sr_cpu_init_hardware_def)
qed (auto simp: sr_cpu_init_hardware_def)

lemma rtable_file_read:
  assumes "\<forall>e\<in>set es. rt_iface e \<in> hw_ports \<and> rt_is_static e \<and> rt_is_active e"
  shows "read_rtable (map route_text es) = Some es"
  using assms
proof (induction es)
  case (Cons e es)
  then have "strncpy (rt_iface e) 32 = rt_iface e" by (auto simp: hw_ports_def)
  then have "\<lparr>rt_ip = rt_ip e, rt_gw = rt_gw e, rt_mask = rt_mask e, rt_iface = strncpy (rt_iface e) 32,
      rt_is_static = True, rt_is_active = True\<rparr> = e" using Cons.prems by simp
  then show ?case using Cons by (simp add: route_text_def four_words_line)
qed simp

lemma write_ctable_rows_other:
  "write_ctable_rows n i cur h = Some h' \<Longrightarrow> t \<noteq> CCCP_TABLE \<Longrightarrow> hw_rows h' t = hw_rows h t"
  by (induction n i cur h rule: write_ctable_rows.induct)
    (auto simp: hw_content_writes_def bind_eq_Some_conv)

lemma write_ctable_other:
  "write_ctable_to_hw rs = Some rs' \<Longrightarrow> t \<noteq> CCCP_TABLE \<Longrightarrow> hw_rows (netfpga rs') t = hw_rows (netfpga rs) t"
  by (auto simp: write_ctable_to_hw_def bind_eq_Some_conv dest: write_ctable_rows_other)

lemma add_content_other:
  assumes "add_content rs c v n i = Some (r, rs')" "t \<noteq> CCCP_TABLE"
  shows "hw_rows (netfpga rs') t = hw_rows (netfpga rs) t"
proof -
  have "trigger_ctable_modified r0 = Some r1 \<Longrightarrow> hw_rows (netfpga r1) t = hw_rows (netfpga r0) t" for r0 r1
    using assms(2) write_ctable_other [of r0 r1] by (auto simp: trigger_ctable_modified_def split: if_splits)
  with assms(1) show ?thesis
    by (auto simp: add_content_def Let_def bind_eq_Some_conv split: option.splits if_splits)
qed

text \<open>The entries are put in front of the table one after the other.\<close>

lemma ctable_file_read:
  assumes "ctable_ok rs" "\<forall>e\<in>set es. ct_iface e \<in> hw_ports \<and> ct_is_static e \<and> ct_is_active e"
    "distinct (map content_key (es @ ctable rs))" "length es + length (ctable rs) \<le> 32"
  shows "\<exists>h. read_ctable rs (map content_text es) = Some (rs\<lparr>ctable := rev es @ ctable rs, netfpga := h\<rparr>)
    \<and> ctable_ok (rs\<lparr>ctable := rev es @ ctable rs, netfpga := h\<rparr>)
    \<and> (\<forall>t. t \<noteq> CCCP_TABLE \<longrightarrow> hw_rows h t = hw_rows (netfpga rs) t)"
  using assms
proof (induction es arbitrary: rs)
  case (Cons e es)
  have e: "ct_iface e \<in> hw_ports" "\<lparr>ct_content = ct_content e, ct_ver_num = ct_ver_num e, ct_nexthop = ct_nexthop e,
      ct_iface = ct_iface e, ct_is_static = True, ct_is_active = True\<rparr> = e" using Cons.prems(2) by auto
  have new: "(ct_content e, ct_iface e) \<notin> content_key ` set (ctable rs)"
  proof -
    have "content_key e = (ct_content e, ct_iface e)" by (simp add: content_key_def)
    with Cons.prems(3) show ?thesis by simp
  qed
  obtain r rs1 where a: "add_content rs (ct_content e) (ct_ver_num e) (ct_nexthop e) (ct_iface e) = Some (r, rs1)"
    and ok: "ctable_ok rs1" and fr: "rs1 = rs\<lparr>ctable := ctable rs1, netfpga := netfpga rs1\<rparr>"
    and c: "ctable rs1 = e # ctable rs"
    using add_content_front [OF Cons.prems(1) e(1), of "ct_content e" "ct_ver_num e" "ct_nexthop e"] new e(2) Cons.prems(4)
    by auto
  have step: "read_ctable rs (map content_text (e # es)) = read_ctable rs1 (map content_text es)"
    using a e(1) by (simp add: content_text_def four_words_line)
  have "distinct (map content_key (es @ ctable rs1))" "length es + length (ctable rs1) \<le> 32"
    using Cons.prems(3,4) by (auto simp: c)
  from Cons.IH [OF ok _ this] Cons.prems(2) obtain h where h:
    "read_ctable rs1 (map content_text es) = Some (rs1\<lparr>ctable := rev es @ ctable rs1, netfpga := h\<rparr>)"
    "ctable_ok (rs1\<lparr>ctable := rev es @ ctable rs1, netfpga := h\<rparr>)"
    "\<forall>t. t \<noteq> CCCP_TABLE \<longrightarrow> hw_rows h t = hw_rows (netfpga rs1) t"
    by auto
  have same: "rs1\<lparr>ctable := rev es @ ctable rs1, netfpga := h\<rparr> = rs\<lparr>ctable := rev (e # es) @ ctable rs, netfpga := h\<rparr>"
    by (subst fr) (simp add: c)
  have rows: "\<forall>t. t \<noteq> CCCP_TABLE \<longrightarrow> hw_rows h t = hw_rows (netfpga rs) t"
    using h(3) add_content_other [OF a] by simp
  show ?case unfolding step
    by (intro exI [of _ h] conjI) (use h(1,2) rows in \<open>simp_all only: same\<close>)
next
  case Nil
  then show ?case by (intro exI [of _ "netfpga rs"]) simp
qed

lemma ctable_ok_mirrored:
  assumes "ctable_ok rs"
  obtains h where "write_ctable_to_hw rs = Some (rs\<lparr>netfpga := h\<rparr>)" "ctable_mirrored (rs\<lparr>netfpga := h\<rparr>)"
    "\<forall>t. t \<noteq> CCCP_TABLE \<longrightarrow> hw_rows h t = hw_rows (netfpga rs) t"
proof -
  have "ct_iface ` set (ctable rs) \<subseteq> hw_ports" using assms by (simp add: ctable_ok_def)
  then have "\<forall>e\<in>set (ctable rs). content_row e \<noteq> None" using one_hot_defined by (auto simp: content_row_def)
  from content_rows.mirrors_table [OF this, of "netfpga rs"] show ?thesis
    by (elim exE conjE, intro that)
      (auto simp: write_ctable_to_hw_def ctable_mirrored_def TABLE_DEPTH_def split: if_splits)
qed

text \<open>The advertised links: one for each interface, and the default route.\<close>

definition links_at_start :: "router_state \<Rightarrow> pwospf_interface list" where
  "links_at_start rs = map own_link (if_list rs) @ (case default_route_present rs of None \<Rightarrow> [] | Some l \<Rightarrow> [l])"

text \<open>The state after the start: the parts that the first round reads.\<close>

definition started :: "router_state \<Rightarrow> bool" where
  "started rs \<longleftrightarrow> locks rs = (\<lambda>_. Free) \<and> dijkstra_dirty rs = 1
     \<and> (\<exists>r. pwospf_router_list rs = [r] \<and> pr_router_id r = router_id rs \<and> pr_prev_router r = None
          \<and> pr_interface_list r = links_at_start rs)"

lemma init_rtable_reads:
  assumes "\<forall>e\<in>set es. rt_iface e \<in> hw_ports \<and> rt_is_static e \<and> rt_is_active e" "locks rs = (\<lambda>_. Free)"
    "rtable rs = []" "pwospf_router_list rs = [r]" "pr_router_id r = router_id rs" "pr_interface_list r = map own_link (if_list rs)" "pr_prev_router r = None"
  shows "\<exists>r'. pr_router_id r' = router_id rs \<and> pr_prev_router r' = None \<and> pr_interface_list r' = links_at_start (rs\<lparr>rtable := es\<rparr>)
    \<and> init_rtable rs (map route_text es) = Some (rs\<lparr>rtable := es, pwospf_router_list := [r'], dijkstra_dirty := 1,
        events := events rs @ [Signal C_dijkstra]\<rparr>)"
proof -
  let ?r = "r\<lparr>pr_interface_list := links_at_start (rs\<lparr>rtable := es\<rparr>)\<rparr>"
  have read: "read_rtable (map route_text es) = Some es" by (rule rtable_file_read [OF assms(1)])
  have d: "default_route_present (x\<lparr>rtable := es\<rparr>) = default_route_present (rs\<lparr>rtable := es\<rparr>)" for x :: router_state
    by (simp add: default_route_present_def)
  show ?thesis
    using assms(2-) read d
    by (intro exI [of _ ?r], cases "default_route_present (rs\<lparr>rtable := es\<rparr>)"; cases rs; cases r)
      (auto simp: init_rtable_def lock_wrappers pthread_rwlock_wrlock_def pthread_rwlock_unlock_def set_lock_def
        pthread_mutex_lock_def pthread_mutex_unlock_def get_router_by_rid_def update_router_def dijkstra_trigger_def
        emit_def links_at_start_def default_route_present_def fun_upd_idem)
qed

lemma init_ctable_reads:
  assumes "ctable rs = []" "is_netfpga rs \<Longrightarrow> rows_cleared (netfpga rs)" "arp_cache rs = []"
    "\<forall>e\<in>set es. ct_iface e \<in> hw_ports \<and> ct_is_static e \<and> ct_is_active e" "distinct (map content_key es)" "length es \<le> 32"
  shows "\<exists>h. init_ctable rs (map content_text es) = Some (rs\<lparr>ctable := rev es, netfpga := h\<rparr>)
    \<and> ctable_ok (rs\<lparr>ctable := rev es, netfpga := h\<rparr>)
    \<and> (is_netfpga rs \<longrightarrow> arp_mirrored (rs\<lparr>ctable := rev es, netfpga := h\<rparr>))"
proof -
  have "ctable_ok rs" using assms(1,2) by (simp add: ctable_ok_def ctable_mirrored_def rows_cleared_def)
  from ctable_file_read [OF this assms(4)] assms(1,5,6) obtain h where h:
    "read_ctable rs (map content_text es) = Some (rs\<lparr>ctable := rev es, netfpga := h\<rparr>)"
    "ctable_ok (rs\<lparr>ctable := rev es, netfpga := h\<rparr>)" "\<forall>t. t \<noteq> CCCP_TABLE \<longrightarrow> hw_rows h t = hw_rows (netfpga rs) t"
    by auto
  from ctable_ok_mirrored [OF h(2)] obtain h' where h':
    "write_ctable_to_hw (rs\<lparr>ctable := rev es, netfpga := h\<rparr>) = Some (rs\<lparr>ctable := rev es, netfpga := h'\<rparr>)"
    "ctable_mirrored (rs\<lparr>ctable := rev es, netfpga := h'\<rparr>)" "\<forall>t. t \<noteq> CCCP_TABLE \<longrightarrow> hw_rows h' t = hw_rows h t"
    by auto
  have "ctable_ok (rs\<lparr>ctable := rev es, netfpga := h'\<rparr>)" using h(2) h'(2) by (simp add: ctable_ok_def)
  moreover have "is_netfpga rs \<Longrightarrow> arp_mirrored (rs\<lparr>ctable := rev es, netfpga := h'\<rparr>)"
    using assms(2,3) h(3) h'(3) by (simp add: arp_mirrored_def rows_cleared_def)
  ultimately show ?thesis using h(1) h'(1) by (intro exI [of _ h']) (simp add: init_ctable_def)
qed

lemma hw_setup_installs:
  assumes "strcmp_reverses strcmp" "locks r1 = (\<lambda>_. Free)" "rtable r1 = []" "ctable r1 = []" "arp_cache r1 = []"
    "pwospf_router_list r1 = []" "is_netfpga r1 \<Longrightarrow> rows_cleared (netfpga r1)"
    "\<forall>e\<in>set routes. rt_iface e \<in> hw_ports \<and> rt_is_static e \<and> rt_is_active e"
    "\<forall>e\<in>set contents. ct_iface e \<in> hw_ports \<and> ct_is_static e \<and> ct_is_active e"
    "distinct (map content_key contents)" "length contents \<le> 32"
  shows "\<exists>cmds rs r. sr_integ_hw_setup strcmp env r1 (map route_text routes) (map content_text contents) = Some (cmds, rs)
    \<and> if_list rs = if_list r1 \<and> rtable rs = routes \<and> ctable rs = rev contents \<and> arp_cache rs = []
    \<and> ctable_ok rs \<and> (is_netfpga r1 \<longrightarrow> arp_mirrored rs) \<and> dijkstra_dirty rs = 1 \<and> locks rs = (\<lambda>_. Free)
    \<and> mset cmds = mset (cli_table env) \<and> routers_ok (router_id rs) rs \<and> is_netfpga rs = is_netfpga r1
    \<and> pwospf_router_list rs = [r] \<and> pr_interface_list r = links_at_start rs \<and> started rs"
proof -
  define own where "own = \<lparr>pr_router_id = router_id r1, pr_area_id = area_id r1, pr_seq = 0, pr_last_update = clock r1,
    pr_distance = 0, pr_shortest_path_found = False, pr_interface_list = map own_link (if_list r1), pr_prev_router = None\<rparr>"
  let ?r2 = "r1\<lparr>pwospf_router_list := [own]\<rparr>"
  have r2: "init_router_list r1 = Some ?r2" using assms(6) by (simp add: init_router_list_def own_def)
  obtain r where r: "pr_router_id r = router_id r1" "pr_prev_router r = None" "pr_interface_list r = links_at_start (?r2\<lparr>rtable := routes\<rparr>)"
      "init_rtable ?r2 (map route_text routes) = Some (?r2\<lparr>rtable := routes, pwospf_router_list := [r], dijkstra_dirty := 1,
        events := events ?r2 @ [Signal C_dijkstra]\<rparr>)"
    using init_rtable_reads [OF assms(8), of ?r2 own] assms(2,3) by (auto simp: own_def)
  let ?r3 = "r1\<lparr>rtable := routes, pwospf_router_list := [r], dijkstra_dirty := 1, events := events r1 @ [Signal C_dijkstra]\<rparr>"
  obtain h where h: "init_ctable ?r3 (map content_text contents) = Some (?r3\<lparr>ctable := rev contents, netfpga := h\<rparr>)"
      "ctable_ok (?r3\<lparr>ctable := rev contents, netfpga := h\<rparr>)"
      "is_netfpga r1 \<Longrightarrow> arp_mirrored (?r3\<lparr>ctable := rev contents, netfpga := h\<rparr>)"
    using init_ctable_reads [OF _ _ _ assms(9-11), of ?r3] assms(4,5,7) by auto
  let ?r4 = "?r3\<lparr>ctable := rev contents, netfpga := h\<rparr>"
  obtain cmds where cmds: "init_cli strcmp env ?r4 = Some (cmds, ?r4)" "mset cmds = mset (cli_table env)"
    using init_cli_returns [OF assms(1), of ?r4 env] assms(2) by auto
  have "sr_integ_hw_setup strcmp env r1 (map route_text routes) (map content_text contents) = Some (cmds, ?r4)"
    using r2 r(4) h(1) cmds(1) by (simp add: sr_integ_hw_setup_def)
  moreover have "links_at_start (?r2\<lparr>rtable := routes\<rparr>) = links_at_start ?r4"
    by (simp add: links_at_start_def default_route_present_def)
  ultimately show ?thesis
    using assms(2,5) r(1-3) h(2,3) cmds(2)
    by (intro exI [of _ cmds] exI [of _ ?r4] exI [of _ r]) (simp add: routers_inv_def routers_of_def started_def)
qed

lemma start_result:
  assumes "strcmp_reverses strcmp"
    "\<forall>v\<in>set ifs. vns_name v \<in> eth_ports \<and> vns_speed v = 0"
    "\<forall>e\<in>set routes. rt_iface e \<in> hw_ports \<and> rt_is_static e \<and> rt_is_active e"
    "\<forall>e\<in>set contents. ct_iface e \<in> hw_ports \<and> ct_is_static e \<and> ct_is_active e"
    "distinct (map content_key contents)" "length contents \<le> 32"
  shows "\<exists>cmds rs r. sr_init_cpu_mode strcmp env nf2 now rands (map hw_line ifs) (map route_text routes)
        (map content_text contents) = Some (cmds, rs)
    \<and> if_list rs = map iface_of ifs \<and> rtable rs = routes \<and> ctable rs = rev contents \<and> arp_cache rs = []
    \<and> ctable_ok rs \<and> arp_mirrored rs \<and> dijkstra_dirty rs = 1 \<and> locks rs = (\<lambda>_. Free)
    \<and> mset cmds = mset (cli_table env) \<and> routers_ok (router_id rs) rs
    \<and> pwospf_router_list rs = [r] \<and> pr_interface_list r = links_at_start rs \<and> started rs"
proof -
  obtain r0 where r0: "init strcmp True nf2 now rands = Some r0" "booted [] r0"
    using init_boots [OF assms(1)] by blast
  obtain r1 where r1: "sr_cpu_init_hardware strcmp r0 (map hw_line ifs) = Some (0, r1)" "booted (map iface_of ifs) r1"
    using hw_file_read [OF assms(2,1) r0(2)] by auto
  note b = r1(2) [unfolded booted_def]
  have start: "sr_init_cpu_mode strcmp env nf2 now rands (map hw_line ifs) (map route_text routes) (map content_text contents)
      = sr_integ_hw_setup strcmp env r1 (map route_text routes) (map content_text contents)"
    using r0(1) r1(1) by (simp add: sr_init_cpu_mode_def)
  show ?thesis
    using hw_setup_installs [OF assms(1) _ _ _ _ _ _ assms(3-6), of r1 env] b unfolding start by auto
qed


text \<open>One interface and one route, and the first lines of the content file that comes with the program.\<close>

definition sample_vns :: sr_vns_if where
  "sample_vns = \<lparr>vns_name = ''eth0'', vns_addr = le48 0xCC 0 0 0 0 0x20, vns_ip = le32 100 100 20 2,
     vns_mask = le32 255 255 255 0, vns_speed = 0\<rparr>"

definition sample_default_route :: rtable_entry where
  "sample_default_route = \<lparr>rt_ip = 0, rt_gw = le32 192 168 0 1, rt_mask = 0, rt_iface = ''eth0'', rt_is_static = True,
     rt_is_active = True\<rparr>"

definition sample_contents :: "ctable_entry list" where
  "sample_contents = [\<lparr>ct_content = le32 1 1 1 1, ct_ver_num = 1, ct_nexthop = le32 1 1 1 1, ct_iface = ''eth1'',
       ct_is_static = True, ct_is_active = True\<rparr>,
     \<lparr>ct_content = le32 1 1 1 1, ct_ver_num = 1, ct_nexthop = le32 2 2 2 2, ct_iface = ''eth2'',
       ct_is_static = True, ct_is_active = True\<rparr>]"

lemma sample_lines:
  "hw_line sample_vns = ''eth0 100.100.20.2 255.255.255.0 CC:00:00:00:00:20'' @ [LF]"
  "route_text sample_default_route = ''0.0.0.0 192.168.0.1 0.0.0.0 eth0'' @ [LF]"
  "map content_text sample_contents = [''1.1.1.1 1 1.1.1.1 eth1'' @ [LF], ''1.1.1.1 1 2.2.2.2 eth2'' @ [LF]]"
  by code_simp+


section \<open>The first route computation\<close>

text \<open>As long as this router is alone in the list, the computation gives a route to the network of each
  interface, over the first interface in that network.\<close>

definition direct_route :: "iface_entry list \<Rightarrow> iface_entry \<Rightarrow> rtable_entry" where
  "direct_route ifs i = \<lparr>rt_ip = if_ip i AND if_mask i, rt_gw = 0, rt_mask = if_mask i,
     rt_iface = if_name (the (get_iface_by_subnet_mask (if_ip i AND if_mask i) (if_mask i) ifs)),
     rt_is_static = False, rt_is_active = True\<rparr>"

lemma relax_own_links: "\<forall>l\<in>set ls. pi_router_id l = 0 \<Longrightarrow> relax_interfaces wid wd ls rl = rl"
  by (induction ls) auto

lemma compute_distances_alone:
  assumes "pr_router_id r = rid" "\<forall>l\<in>set (pr_interface_list r). pi_router_id l = 0"
  shows "compute_distances rid [r] = [r\<lparr>pr_distance := 0, pr_shortest_path_found := True\<rparr>]"
proof -
  let ?r = "r\<lparr>pr_distance := 0, pr_shortest_path_found := True\<rparr>"
  have "settle 0 [?r] = [?r]" using assms(2) by (simp add: settle_def update_neighbor_distance_def relax_own_links)
  moreover have "get_shortest [?r] = None" by (simp add: get_shortest_def)
  ultimately show ?thesis using assms(1) by (simp add: compute_distances_def init_distance_def)
qed

definition own_wrapper :: "route_wrapper \<Rightarrow> bool" where
  "own_wrapper w \<longleftrightarrow> rw_directly_connected w \<and> rw_next_rid w = 0 \<and> rw_distance w = 0"

definition net_of_wrapper :: "route_wrapper \<Rightarrow> u32 \<times> u32" where
  "net_of_wrapper w = (rt_ip (rw_entry w), rt_mask (rw_entry w))"

definition net_of_link :: "pwospf_interface \<Rightarrow> u32 \<times> u32" where
  "net_of_link l = (pi_subnet l AND pi_mask l, pi_mask l)"

lemma same_subnet_net: "same_subnet l w \<longleftrightarrow> net_of_wrapper w = net_of_link l"
  by (simp add: same_subnet_def net_of_wrapper_def net_of_link_def)

lemma own_wrappers:
  assumes "pr_router_id r = rid" "pr_distance r = 0" "pr_prev_router r = None"
    "\<forall>l\<in>set ls. pi_router_id l = 0" "\<forall>w\<in>set head. own_wrapper w"
  shows "\<exists>ws. add_route_wrappers rid rl r ls head = Some ws \<and> (\<forall>w\<in>set ws. own_wrapper w)
    \<and> net_of_wrapper ` set ws = net_of_wrapper ` set head \<union> net_of_link ` set ls"
  using assms(4,5)
proof (induction ls arbitrary: head)
  case (Cons l ls)
  show ?case
  proof (cases "get_route_wrapper l head")
    case None
    let ?w = "\<lparr>rw_entry = \<lparr>rt_ip = pi_subnet l AND pi_mask l, rt_gw = 0, rt_mask = pi_mask l, rt_iface = [],
        rt_is_static = False, rt_is_active = False\<rparr>, rw_distance = ucast (pr_distance r), rw_next_rid = 0,
        rw_directly_connected = (rid = pr_router_id r)\<rparr>"
    have "\<forall>w\<in>set (head @ [?w]). own_wrapper w" using Cons.prems(2) assms(1,2) by (simp add: own_wrapper_def)
    moreover have "net_of_wrapper ?w = net_of_link l" by (simp add: net_of_wrapper_def net_of_link_def)
    ultimately show ?thesis
      using Cons.IH [of "head @ [?w]"] Cons.prems(1) None assms(3) by (simp add: next_rid_of_def)
  next
    case (Some w)
    then have "w \<in> set head" "net_of_wrapper w = net_of_link l"
      by (auto simp: get_route_wrapper_def find_Some_iff same_subnet_net)
    moreover from this have "rw_distance w = 0" using Cons.prems(2) by (simp add: own_wrapper_def)
    moreover from calculation have "insert (net_of_link l) (net_of_wrapper ` set head \<union> N) = net_of_wrapper ` set head \<union> N" for N
      by (metis UnI1 image_eqI insert_absorb)
    ultimately show ?thesis
      using Cons.IH [of head] Cons.prems Some assms(2) by simp
  qed
qed simp

lemma own_routes:
  assumes "\<forall>w\<in>set ws. own_wrapper w"
  shows "\<exists>es. routes_of_wrappers ifs ws = Some es \<and> set es = direct_route ifs ` {i \<in> set ifs. (if_ip i AND if_mask i, if_mask i) \<in> net_of_wrapper ` set ws}"
  using assms
proof (induction ws)
  case (Cons w ws)
  then obtain es where es: "routes_of_wrappers ifs ws = Some es"
      "set es = direct_route ifs ` {i \<in> set ifs. (if_ip i AND if_mask i, if_mask i) \<in> net_of_wrapper ` set ws}"
    by auto
  let ?g = "get_iface_by_subnet_mask (rt_ip (rw_entry w)) (rt_mask (rw_entry w)) ifs"
  let ?N = "{i \<in> set ifs. (if_ip i AND if_mask i, if_mask i) = net_of_wrapper w}"
  have own: "rw_directly_connected w" "rw_next_rid w = 0" using Cons.prems by (simp_all add: own_wrapper_def)
  have "\<exists>e. route_of_wrapper ifs w = Some e \<and> set e = direct_route ifs ` ?N"
  proof (cases ?g)
    case None
    then have "?N = {}" by (auto simp: get_iface_by_subnet_mask_def find_None_iff net_of_wrapper_def)
    with None own show ?thesis by (simp add: route_of_wrapper_def get_iface_by_rid_def)
  next
    case (Some i)
    then have i: "i \<in> ?N" by (auto simp: get_iface_by_subnet_mask_def find_Some_iff net_of_wrapper_def)
    have "direct_route ifs j = (rw_entry w)\<lparr>rt_iface := if_name i, rt_gw := 0, rt_is_active := True, rt_is_static := False\<rparr>"
      if "j \<in> ?N" for j
      using that Some by (cases "rw_entry w") (auto simp: direct_route_def net_of_wrapper_def)
    then have "direct_route ifs ` ?N = (\<lambda>_. (rw_entry w)\<lparr>rt_iface := if_name i, rt_gw := 0, rt_is_active := True, rt_is_static := False\<rparr>) ` ?N"
      by (rule image_cong [OF refl])
    with i have "direct_route ifs ` ?N = {(rw_entry w)\<lparr>rt_iface := if_name i, rt_gw := 0, rt_is_active := True, rt_is_static := False\<rparr>}"
      by (simp add: image_constant)
    with Some own show ?thesis by (simp add: route_of_wrapper_def get_iface_by_rid_def)
  qed
  then obtain e where "route_of_wrapper ifs w = Some e" "set e = direct_route ifs ` ?N" by blast
  with es show ?case by (intro exI [of _ "e @ es"]) auto
qed simp

lemma own_links: "l \<in> set (links_at_start rs) \<Longrightarrow> pi_router_id l = 0"
  by (auto simp: links_at_start_def own_link_def default_route_present_def split: option.splits)

lemma first_routes:
  assumes "started rs"
  shows "\<exists>es rl. compute_rtable (router_id rs) (pwospf_router_list rs) (if_list rs) = Some (es, rl)
    \<and> set es = direct_route (if_list rs) ` set (if_list rs)"
proof -
  obtain r where r: "pwospf_router_list rs = [r]" "pr_router_id r = router_id rs" "pr_prev_router r = None"
      "pr_interface_list r = links_at_start rs"
    using assms by (auto simp: started_def)
  let ?r = "r\<lparr>pr_distance := 0, pr_shortest_path_found := True\<rparr>"
  have alone: "compute_distances (router_id rs) [r] = [?r]"
    using compute_distances_alone [OF r(2)] own_links r(4) by simp
  obtain ws where ws: "add_route_wrappers (router_id rs) [?r] ?r (links_at_start rs) [] = Some ws" "\<forall>w\<in>set ws. own_wrapper w"
      "net_of_wrapper ` set ws = net_of_link ` set (links_at_start rs)"
    using own_wrappers [of ?r "router_id rs" "links_at_start rs" "[]" "[?r]"] r own_links by auto
  have "(if_ip i AND if_mask i, if_mask i) \<in> net_of_link ` set (links_at_start rs)" if "i \<in> set (if_list rs)" for i
    using that by (intro image_eqI [of _ _ "own_link i"]) (simp_all add: links_at_start_def own_link_def net_of_link_def and.assoc)
  then have all: "{i \<in> set (if_list rs). (if_ip i AND if_mask i, if_mask i) \<in> net_of_wrapper ` set ws} = set (if_list rs)"
    using ws(3) by auto
  with own_routes [OF ws(2), of "if_list rs"] obtain es where
    "routes_of_wrappers (if_list rs) ws = Some es" "set es = direct_route (if_list rs) ` set (if_list rs)" by auto
  then show ?thesis using r alone ws(1)
    by (simp add: compute_rtable_def build_route_wrapper_list_def)
qed

lemma first_round:
  assumes "started rs" "rt_iface ` set (rtable rs) \<subseteq> hw_ports" "if_name ` set (if_list rs) \<subseteq> hw_ports"
    "\<forall>e\<in>set (rtable rs). rt_is_static e"
  shows "\<exists>rs'. dijkstra_round False rs = Some rs' \<and> rtable_ok rs' \<and> locks rs' = (\<lambda>_. Free)
    \<and> set (rtable rs') = set (rtable rs) \<union> direct_route (if_list rs) ` set (if_list rs)"
proof -
  obtain es rl where es: "compute_rtable (router_id rs) (pwospf_router_list rs) (if_list rs) = Some (es, rl)"
      "set es = direct_route (if_list rs) ` set (if_list rs)"
    using first_routes [OF assms(1)] by blast
  have f: "locks rs = (\<lambda>_. Free)" using assms(1) by (simp add: started_def)
  define r0 where "r0 = rs\<lparr>dijkstra_dirty := 0, locks := (\<lambda>_. Free)(L_if_list := Reading 0, L_rtable := Writing, L_pwospf_router_list := Writing),
      rtable := filter rt_is_static (rtable rs) @ es, pwospf_router_list := rl\<rparr>"
  have stat: "filter rt_is_static (rtable rs) = rtable rs" using assms(4) by simp
  have "if_name (the (get_iface_by_subnet_mask (if_ip i AND if_mask i) (if_mask i) (if_list rs))) \<in> hw_ports"
    if "i \<in> set (if_list rs)" for i
  proof -
    from that have "get_iface_by_subnet_mask (if_ip i AND if_mask i) (if_mask i) (if_list rs) \<noteq> None"
      by (auto simp: get_iface_by_subnet_mask_def find_None_iff)
    then obtain k where k: "get_iface_by_subnet_mask (if_ip i AND if_mask i) (if_mask i) (if_list rs) = Some k" by blast
    then have "k \<in> set (if_list rs)" by (auto simp: get_iface_by_subnet_mask_def find_Some_iff)
    with k assms(3) show ?thesis by auto
  qed
  then have "rt_iface ` set (rtable r0) \<subseteq> hw_ports"
    using assms(2) es(2) stat by (auto simp: r0_def direct_route_def)
  from trigger_rtable_modified_ok [OF this] obtain r where r: "trigger_rtable_modified r0 = Some r" "rtable_ok r"
      "mset (rtable r) = mset (rtable r0)" "r = r0\<lparr>rtable := rtable r, netfpga := netfpga r\<rparr>"
    by blast
  have lk: "locks r = locks r0" by (subst r(4)) simp
  let ?r1 = "r\<lparr>locks := \<lambda>_. Free\<rparr>"
  have "dijkstra_round False rs = Some ?r1"
    using es(1) f r(1) lk by (simp add: dijkstra_round_def lock_wrappers free_locks set_lock_def r0_def fun_upd_idem)
  moreover have "rtable_ok ?r1" using r(2) by (subst rtable_ok_cong [of _ r]) simp_all
  moreover have "set (rtable ?r1) = set (rtable rs) \<union> direct_route (if_list rs) ` set (if_list rs)"
    using es(2) stat mset_eq_setD [OF r(3)] by (simp add: r0_def)
  ultimately show ?thesis by (intro exI [of _ ?r1]) simp
qed

text \<open>C16: the first route computation after the start. It ends, gives every lock back and leaves the routes of
  the file together with one route for each interface, to the network of the interface, without a
  gateway and over the first interface in that network; the table is sorted and mirrored on the
  card.\<close>

theorem first_routes_after_start:
  assumes "strcmp_reverses strcmp"
    "\<forall>v\<in>set ifs. vns_name v \<in> eth_ports \<and> vns_speed v = 0"
    "\<forall>e\<in>set routes. rt_iface e \<in> hw_ports \<and> rt_is_static e \<and> rt_is_active e"
  shows "\<exists>cmds rs rs'. sr_init_cpu_mode strcmp env nf2 now rands (map hw_line ifs) (map route_text routes) [] = Some (cmds, rs)
    \<and> dijkstra_round False rs = Some rs' \<and> rtable_ok rs' \<and> locks rs' = (\<lambda>_. Free)
    \<and> set (rtable rs') = set routes \<union> direct_route (map iface_of ifs) ` iface_of ` set ifs"
proof -
  obtain cmds rs where rs: "sr_init_cpu_mode strcmp env nf2 now rands (map hw_line ifs) (map route_text routes) [] = Some (cmds, rs)"
      "if_list rs = map iface_of ifs" "rtable rs = routes" "started rs"
    using start_result [OF assms, of "[]" env nf2 now rands] by auto
  have "if_name ` set (if_list rs) \<subseteq> hw_ports"
    using assms(2) by (auto simp: rs(2) iface_of_def eth_ports_def hw_ports_def)
  with first_round [OF rs(4)] assms(3) obtain rs' where
    "dijkstra_round False rs = Some rs'" "rtable_ok rs'" "locks rs' = (\<lambda>_. Free)"
    "set (rtable rs') = set (rtable rs) \<union> direct_route (if_list rs) ` set (if_list rs)"
    by (auto simp: rs(3))
  with rs show ?thesis by (intro exI [of _ cmds] exI [of _ rs] exI [of _ rs']) simp
qed

theorem first_routes_after_start_witness:
  "\<exists>cmds rs rs'. sr_init_cpu_mode strcmp_bytes sample_env (netfpga empty_router) 0 of_nat
      [''eth0 100.100.20.2 255.255.255.0 CC:00:00:00:00:20'' @ [LF]] [''0.0.0.0 192.168.0.1 0.0.0.0 eth0'' @ [LF]] []
      = Some (cmds, rs)
    \<and> dijkstra_round False rs = Some rs'
    \<and> set (rtable rs') = {sample_default_route, \<lparr>rt_ip = le32 100 100 20 0, rt_gw = 0, rt_mask = le32 255 255 255 0,
        rt_iface = ''eth0'', rt_is_static = False, rt_is_active = True\<rparr>}"
proof -
  have "\<forall>v\<in>set [sample_vns]. vns_name v \<in> eth_ports \<and> vns_speed v = 0"
    by (simp add: sample_vns_def eth_ports_def)
  moreover have "\<forall>e\<in>set [sample_default_route]. rt_iface e \<in> hw_ports \<and> rt_is_static e \<and> rt_is_active e"
    by (simp add: sample_default_route_def hw_ports_def)
  ultimately obtain cmds rs rs' where "sr_init_cpu_mode strcmp_bytes sample_env (netfpga empty_router) 0 of_nat
      (map hw_line [sample_vns]) (map route_text [sample_default_route]) [] = Some (cmds, rs)"
    "dijkstra_round False rs = Some rs'"
    "set (rtable rs') = set [sample_default_route] \<union> direct_route (map iface_of [sample_vns]) ` iface_of ` set [sample_vns]"
    using first_routes_after_start [OF strcmp_bytes_reverses, of "[sample_vns]" "[sample_default_route]" sample_env
        "netfpga empty_router" 0 of_nat] by blast
  moreover have "direct_route (map iface_of [sample_vns]) (iface_of sample_vns) = \<lparr>rt_ip = le32 100 100 20 0, rt_gw = 0,
      rt_mask = le32 255 255 255 0, rt_iface = ''eth0'', rt_is_static = False, rt_is_active = True\<rparr>"
    by code_simp
  ultimately show ?thesis
    unfolding sample_lines list.map by (intro exI [of _ cmds] exI [of _ rs] exI [of _ rs']) (simp add: insert_commute)
qed

end
