(* ===== verification/Nat_Admin.thy ===== *)
theory Nat_Admin
  imports Cli_Handlers Nat_Table
begin

text \<open>
  The upkeep of the table of address translation (or_nat.c): one round of \<open>nat_maintenance_thread\<close>,
  which averages the use of the entries, expires idle ones and sorts the table, and the command
  handlers, which the router does not register. The functions that would write the table to the card
  have empty bodies.
\<close>

section \<open>A round of the maintenance thread\<close>

definition nat_cur_avg :: "int \<Rightarrow> nat_entry \<Rightarrow> double" where
  "nat_cur_avg now ne = dbl_div (dbl_of_int (uint (nat_hits ne - nat_last_hits ne)))
     (dbl_of_int (now - nat_last_hits_time ne))"

text \<open>The constants are 0.75 and 0.25.\<close>

definition nat_refresh :: "int \<Rightarrow> nat_entry \<Rightarrow> nat_entry" where
  "nat_refresh now ne =
     (let ne = ne\<lparr>nat_avg_hits_per_second :=
          dbl_add (dbl_mult (Fin (3 * dbl_unit div 4)) (nat_cur_avg now ne))
            (dbl_mult (Fin (dbl_unit div 4)) (nat_avg_hits_per_second ne))\<rparr>
      in if nat_last_hits ne \<noteq> nat_hits ne then ne\<lparr>nat_last_hits_time := now, nat_last_hits := nat_hits ne\<rparr> else ne)"

definition nat_overdue :: "int \<Rightarrow> u32 \<Rightarrow> nat_entry \<Rightarrow> bool" where
  "nat_overdue now timeout ne \<longleftrightarrow> \<not> nat_is_static ne
     \<and> dbl_less (dbl_of_int (uint timeout)) (dbl_of_int (now - nat_last_hits_time ne))"

text \<open>\<open>node_remove\<close> frees an entry that is overdue; \<open>hw_row\<close> is then stored through the pointer to it.\<close>

fun nat_walk :: "int \<Rightarrow> u32 \<Rightarrow> nat_entry list \<Rightarrow> nat_entry list option" where
  "nat_walk now timeout [] = Some []"
| "nat_walk now timeout (ne # next) =
     (let ne = nat_refresh now ne in
      if nat_overdue now timeout ne then None
      else do { cur \<leftarrow> nat_walk now timeout next; Some (ne\<lparr>nat_hw_row := 0xFF\<rparr> # cur) })"

text \<open>The rows from \<open>i\<close> on.\<close>

fun write_nat_rows :: "nat \<Rightarrow> nat \<Rightarrow> nat_entry list \<Rightarrow> nat_entry list" where
  "write_nat_rows n i [] = []"
| "write_nat_rows 0 i cur = cur"
| "write_nat_rows (Suc n) i (ne # next) = ne\<lparr>nat_hw_row := of_nat i\<rparr> # write_nat_rows n (Suc i) next"

definition nat_maintenance_round :: "router_state \<Rightarrow> router_state option" where
  "nat_maintenance_round rs = do {
     table \<leftarrow> nat_walk (clock rs) (nat_timeout rs) (nat_table rs);
     table \<leftarrow> bubble_sort (\<lambda>a b. dbl_less (nat_avg_hits_per_second a) (nat_avg_hits_per_second b)) table;
     Some (rs\<lparr>nat_table := (if is_netfpga rs then write_nat_rows 16 0 table else table)\<rparr>)
   }"

section \<open>The printed table\<close>

text \<open>\<open>%.2f\<close>. The NaN of an invalid operation has its sign set on the processors the router runs on.\<close>

definition dbl_text :: "double \<Rightarrow> string" where
  "dbl_text x = (case x of NaN \<Rightarrow> ''-nan'' | Inf s \<Rightarrow> (if s then ''-inf'' else ''inf'')
     | Fin a \<Rightarrow> (let n = nat (round_even (\<bar>a\<bar> * 100) dbl_unit) in
         (if a < 0 then ''-'' else '''') @ decimal (n div 100) @ ''.'' @ [digit (n mod 100 div 10), digit (n mod 10)]))"

definition NAT_COL :: string where
  "NAT_COL = ''EXT IP          Port   INT IP          Port   Hits   LHits  HPS     LHits TDelta HW  S'' @ [LF]"
definition NAT_ENTRY_TO_STR_LEN :: nat where "NAT_ENTRY_TO_STR_LEN = 88"

definition nat_line :: "router_state \<Rightarrow> nat_entry \<Rightarrow> string" where
  "nat_line rs ne = snprintf NAT_ENTRY_TO_STR_LEN
     (pad_right 15 (inet_ntop (nip_ip (nat_ext ne))) @ '' '' @ pad_right 6 (decimal (unat (ntohs (nip_port (nat_ext ne))))) @ '' ''
      @ pad_right 15 (inet_ntop (nip_ip (nat_int ne))) @ '' '' @ pad_right 6 (decimal (unat (ntohs (nip_port (nat_int ne))))) @ '' ''
      @ pad_right 6 (decimal (unat (nat_hits ne))) @ '' '' @ pad_right 6 (decimal (unat (nat_last_hits ne))) @ '' ''
      @ pad_right 7 (dbl_text (nat_avg_hits_per_second ne)) @ '' ''
      @ pad_right 12 (decimal (unat (of_int (clock rs - nat_last_hits_time ne) :: u32))) @ '' ''
      @ pad_right 3 (decimal (unat (nat_hw_row ne))) @ '' '' @ yes_no (nat_is_static ne) @ [LF])"

definition sprint_nat_table :: "router_state \<Rightarrow> string option" where
  "sprint_nat_table rs = (let alloc = length NAT_COL + length (nat_table rs) * NAT_ENTRY_TO_STR_LEN in do {
     buf \<leftarrow> COPY_STRING alloc NAT_COL [];
     copy_lines alloc (map (nat_line rs) (nat_table rs)) buf
   })"

section \<open>The command handlers\<close>

definition cli_nat_help :: cli_command_handler where
  "cli_nat_help rs req = Some (says req [ln ''Usage: '', tab_ln ''show nat table'', tab_ln ''nat set'', tab_ln ''nat reset'',
     tab_ln ''nat test'', tab_ln ''nat add [ip_ext] [port_ext] [ip_int] [port_int]'',
     tab_ln ''nat del [ip_ext] [port_ext]''] rs)"

definition cli_show_nat_table :: cli_command_handler where
  "cli_show_nat_table rs req = do {
     rs \<leftarrow> lock_nat_table rs;
     info \<leftarrow> sprint_nat_table rs;
     unlock_nat_table (say req info rs)
   }"

text \<open>A name that only begins like a port is looked up and gives a null pointer.\<close>

definition cli_nat_set :: cli_command_handler where
  "cli_nat_set rs req = (case sscanf (lit ''nat set '' @ [Word]) (cr_command req) of
     [S iface] \<Rightarrow>
       if list_ex (\<lambda>eth. strncmp_eq iface eth 4) [''eth0'', ''eth1'', ''eth2'', ''eth3''] then do {
         rs \<leftarrow> lock_if_list_wr rs;
         ie \<leftarrow> get_iface rs iface;
         rs \<leftarrow> unlock_if_list (update_iface iface (\<lambda>ie. ie\<lparr>if_is_wan := True\<rparr>) rs);
         Some (say req (snprintf 80 (''Succefully set '' @ iface @ ln '' as the wan interface'')) rs)
       }
       else if strncmp_eq iface ''off'' 3 then do {
         rs \<leftarrow> lock_if_list_wr rs;
         rs \<leftarrow> unlock_if_list (rs\<lparr>if_list := map (\<lambda>ie. ie\<lparr>if_is_wan := False\<rparr>) (if_list rs)\<rparr>);
         Some (say req (ln ''Successfully disabled NAT'') rs)
       }
       else Some (say req (ln ''Invalid arguments'') rs)
   | _ \<Rightarrow> Some (say req (ln ''Failure reading arguments'') rs))"

definition cli_nat_reset :: cli_command_handler where
  "cli_nat_reset rs req = do {
     rs \<leftarrow> lock_nat_table rs;
     rs \<leftarrow> unlock_nat_table (rs\<lparr>nat_table := []\<rparr>);
     Some (say req (ln ''NAT table deleted'') rs)
   }"

definition nat_ext_is :: "u32 \<Rightarrow> u16 \<Rightarrow> nat_entry \<Rightarrow> bool" where
  "nat_ext_is ip port ne \<longleftrightarrow> nip_ip (nat_ext ne) = ip \<and> nip_port (nat_ext ne) = port"

definition nat_static_entry :: "int \<Rightarrow> u32 \<Rightarrow> u32 \<Rightarrow> u32 \<Rightarrow> u32 \<Rightarrow> nat_entry" where
  "nat_static_entry now ip_ext port_ext ip_int port_int =
     \<lparr>nat_ext = compute_nat_checksums (nat_pair ip_ext (htons (ucast port_ext))),
      nat_int = compute_nat_checksums (nat_pair ip_int (htons (ucast port_int))),
      nat_last_hits = 0, nat_last_hits_time = now, nat_hits = 0, nat_avg_hits_per_second = Fin 0, nat_hw_row = 0xFF,
      nat_is_static = True\<rparr>"

definition cli_nat_add :: cli_command_handler where
  "cli_nat_add rs req =
     (case sscanf (lit ''nat add '' @ [Word, Skip, Num, Skip, Word, Skip, Num]) (cr_command req) of
        [S ip_ext, N port_ext, S ip_int, N port_int] \<Rightarrow>
          (case inet_pton ip_ext of None \<Rightarrow> Some (say req (ln ''Failure reading ip ext argument'') rs) | Some e \<Rightarrow>
          (case inet_pton ip_int of None \<Rightarrow> Some (say req (ln ''Failure reading ip int argument'') rs) | Some i \<Rightarrow> do {
            let ne = nat_static_entry (clock rs) e port_ext i port_int;
            let same = nat_ext_is e (nip_port (nat_ext ne));
            rs \<leftarrow> lock_nat_table rs;
            rs \<leftarrow> unlock_nat_table (rs\<lparr>nat_table := (if list_ex same (nat_table rs)
              then update_first same (\<lambda>_. ne) (nat_table rs) else nat_table rs @ [ne])\<rparr>);
            Some (say req (ln ''Succesfully added the nat table entry'') (emit (Signal C_nat_table) rs))
          }))
      | _ \<Rightarrow> Some (say req (ln ''Failure reading arguments.'') rs))"

definition cli_nat_del :: cli_command_handler where
  "cli_nat_del rs req = (case sscanf (lit ''nat del '' @ [Word, Skip, Num]) (cr_command req) of
     [S ip_ext, N port_ext] \<Rightarrow>
       (case inet_pton ip_ext of None \<Rightarrow> Some (say req (ln ''Failure reading ip ext argument'') rs) | Some ip \<Rightarrow> do {
         let same = nat_ext_is ip (htons (ucast port_ext));
         rs \<leftarrow> lock_nat_table rs;
         let result = list_ex same (nat_table rs);
         rs \<leftarrow> unlock_nat_table (rs\<lparr>nat_table := remove_first same (nat_table rs)\<rparr>);
         Some (say req (ln (if result then ''Succesfully deleted nat table entry'' else ''No nat table entry found''))
           (emit (Signal C_nat_table) rs))
       })
   | _ \<Rightarrow> Some (say req (ln ''Failure reading arguments.'') rs))"

section \<open>What a round does\<close>

lemma nat_walk_result:
  "nat_walk now timeout t = (if \<exists>ne\<in>set t. nat_overdue now timeout (nat_refresh now ne) then None
     else Some (map (\<lambda>ne. (nat_refresh now ne)\<lparr>nat_hw_row := 0xFF\<rparr>) t))"
  by (induction t) (simp_all add: Let_def)

lemma write_nat_rows_row:
  "j < length t \<Longrightarrow> nat_hw_row (write_nat_rows n i t ! j) = (if j < n then of_nat (i + j) else nat_hw_row (t ! j))"
  by (induction n i t arbitrary: j rule: write_nat_rows.induct) (auto simp: nth_Cons' less_Suc_eq_0_disj)

text \<open>The entries but for the row of the card.\<close>

definition without_row :: "nat_entry \<Rightarrow> nat_entry" where
  "without_row ne = ne\<lparr>nat_hw_row := 0\<rparr>"

lemma write_nat_rows_entries:
  "map without_row (write_nat_rows n i t) = map without_row t" "length (write_nat_rows n i t) = length t"
  by (induction n i t rule: write_nat_rows.induct) (simp_all add: without_row_def)

lemma rates_without_row: "map nat_avg_hits_per_second t = map (nat_avg_hits_per_second \<circ> without_row) t"
  by (simp add: without_row_def)

lemma sorted_rates:
  assumes "successively (\<lambda>x y. \<not> dbl_less x y) rates" "NaN \<notin> set rates"
  shows "sorted_wrt (\<lambda>x y. \<not> dbl_less x y) rates"
  using assms
proof (induction rates rule: induct_list012)
  case (3 x y rates)
  then have s: "sorted_wrt (\<lambda>x y. \<not> dbl_less x y) (y # rates)" by simp
  have "\<not> dbl_less x z" if "z \<in> set rates" for z
    using dbl_not_less_trans [of x y z] that s "3.prems" by auto
  with s "3.prems"(1) show ?case by simp
qed simp_all

lemma sort_rates:
  obtains ys where
    "bubble_sort (\<lambda>a b. dbl_less (nat_avg_hits_per_second a) (nat_avg_hits_per_second b)) t = Some ys" "mset ys = mset t"
    "successively (\<lambda>x y. \<not> dbl_less x y) (map nat_avg_hits_per_second ys)"
proof -
  let ?sw = "\<lambda>a b. dbl_less (nat_avg_hits_per_second a) (nat_avg_hits_per_second b)"
  have "asymp ?sw" using dbl_less_asymp by (auto intro!: asympI dest: asympD)
  then obtain ys where ys: "bubble_sort ?sw t = Some ys" using bubble_sort_terminates by blast
  from bubble_sort_result [OF this] obtain zs where "mset ys = mset t" "\<not> snd (bubble_pass ?sw zs)" "ys = fst (bubble_pass ?sw zs)"
    by blast
  with ys bubble_pass_successively [of ?sw zs] show ?thesis
    by (intro that [of ys]) (simp_all add: bubble_pass_stable successively_map)
qed

text \<open>For times that a double holds exactly, an entry is overdue after its upkeep if nobody has used it since
  the last round and its last use is longer ago than the timeout.\<close>

definition nat_idle :: "int \<Rightarrow> u32 \<Rightarrow> nat_entry \<Rightarrow> bool" where
  "nat_idle now timeout ne \<longleftrightarrow> \<not> nat_is_static ne \<and> nat_hits ne = nat_last_hits ne
     \<and> int (unat timeout) < now - nat_last_hits_time ne"

lemma overdue_idle:
  assumes "\<bar>now - nat_last_hits_time ne\<bar> < 2 ^ 53"
  shows "nat_overdue now timeout (nat_refresh now ne) \<longleftrightarrow> nat_idle now timeout ne"
proof -
  have pos: "0 < dbl_unit" by (simp add: dbl_unit_def)
  have "uint timeout < 2 ^ 32" using uint_lt2p [of timeout] by simp
  then have t: "dbl_of_int (uint timeout) = Fin (uint timeout * dbl_unit)" by (intro dbl_of_int_exact) simp
  have never: "\<not> dbl_less (dbl_of_int (uint timeout)) (dbl_of_int 0)"
    using pos dbl_of_int_exact [of 0] t by (simp add: not_less)
  have idle: "dbl_less (dbl_of_int (uint timeout)) (dbl_of_int (now - nat_last_hits_time ne))
      \<longleftrightarrow> int (unat timeout) < now - nat_last_hits_time ne"
    by (simp only: t dbl_of_int_exact [OF assms] dbl_less.simps mult_less_cancel_right_pos [OF pos]) simp
  show ?thesis
  proof (cases "nat_hits ne = nat_last_hits ne")
    case True
    then show ?thesis using idle by (simp add: nat_overdue_def nat_idle_def nat_refresh_def Let_def del: dbl_less.simps)
  next
    case False
    then show ?thesis using never by (simp add: nat_overdue_def nat_idle_def nat_refresh_def Let_def del: dbl_less.simps)
  qed
qed

text \<open>C34: a round of the upkeep of the NAT table. If no entry is overdue the round returns: every entry
  is kept with its rate and times brought up to date, nothing but the table changes, the first 16
  entries carry their row when there is a card, and the entries stand in the order of falling rates
  unless one of the rates is not a number. If an entry is overdue the round writes through a
  pointer to memory it has freed. Overdue are the dynamic entries that were not used since the last round and for longer
  than the timeout.\<close>

theorem nat_maintenance_round_correct:
  assumes "\<forall>ne\<in>set (nat_table rs). \<bar>clock rs - nat_last_hits_time ne\<bar> < 2 ^ 53"
  shows "(nat_maintenance_round rs = None
      \<longleftrightarrow> (\<exists>ne\<in>set (nat_table rs). \<not> nat_is_static ne \<and> nat_hits ne = nat_last_hits ne
            \<and> int (unat (nat_timeout rs)) < clock rs - nat_last_hits_time ne))
    \<and> (nat_maintenance_round rs = Some rs' \<longrightarrow> rs' = rs\<lparr>nat_table := nat_table rs'\<rparr>
      \<and> mset (map without_row (nat_table rs')) = mset (map (without_row \<circ> nat_refresh (clock rs)) (nat_table rs))
      \<and> (\<forall>j<length (nat_table rs'). nat_hw_row (nat_table rs' ! j) = (if is_netfpga rs \<and> j < 16 then of_nat j else 0xFF))
      \<and> (NaN \<notin> nat_avg_hits_per_second ` set (nat_table rs')
          \<longrightarrow> sorted_wrt (\<lambda>x y. \<not> dbl_less x y) (map nat_avg_hits_per_second (nat_table rs'))))"
proof (cases "\<exists>ne\<in>set (nat_table rs). nat_overdue (clock rs) (nat_timeout rs) (nat_refresh (clock rs) ne)")
  case True
  with assms have "\<exists>ne\<in>set (nat_table rs). nat_idle (clock rs) (nat_timeout rs) ne" by (auto simp: overdue_idle)
  with True show ?thesis by (simp add: nat_maintenance_round_def nat_walk_result nat_idle_def)
next
  case False
  then have idle: "\<not> (\<exists>ne\<in>set (nat_table rs). nat_idle (clock rs) (nat_timeout rs) ne)" using assms by (auto simp: overdue_idle)
  let ?t = "map (\<lambda>ne. (nat_refresh (clock rs) ne)\<lparr>nat_hw_row := 0xFF\<rparr>) (nat_table rs)"
  obtain ys where ys: "bubble_sort (\<lambda>a b. dbl_less (nat_avg_hits_per_second a) (nat_avg_hits_per_second b)) ?t = Some ys"
      "mset ys = mset ?t" "successively (\<lambda>x y. \<not> dbl_less x y) (map nat_avg_hits_per_second ys)"
    by (rule sort_rates)
  define u where "u = (if is_netfpga rs then write_nat_rows 16 0 ys else ys)"
  have r: "nat_maintenance_round rs = Some (rs\<lparr>nat_table := u\<rparr>)"
    using False ys(1) by (simp add: nat_maintenance_round_def nat_walk_result u_def)
  have u: "map without_row u = map without_row ys" by (simp add: u_def write_nat_rows_entries)
  have rates: "map nat_avg_hits_per_second u = map nat_avg_hits_per_second ys"
    using arg_cong [OF u, of "map nat_avg_hits_per_second"] by (simp add: rates_without_row)
  have "map without_row ?t = map (without_row \<circ> nat_refresh (clock rs)) (nat_table rs)"
    by (simp add: without_row_def)
  then have entries: "mset (map without_row u) = mset (map (without_row \<circ> nat_refresh (clock rs)) (nat_table rs))"
    using ys(2) by (metis u mset_map)
  have rows: "nat_hw_row (u ! j) = (if is_netfpga rs \<and> j < 16 then of_nat j else 0xFF)" if "j < length u" for j
  proof -
    have j: "j < length ys" using that by (simp add: u_def write_nat_rows_entries split: if_splits)
    then have "ys ! j \<in> set ?t" using mset_eq_setD [OF ys(2)] by (metis nth_mem)
    then have "nat_hw_row (ys ! j) = 0xFF" by auto
    then show ?thesis using write_nat_rows_row [OF j, of 16 0] by (simp add: u_def)
  qed
  have "sorted_wrt (\<lambda>x y. \<not> dbl_less x y) (map nat_avg_hits_per_second u)"
    if "NaN \<notin> nat_avg_hits_per_second ` set u"
    using sorted_rates [OF ys(3)] that rates by (metis set_map)
  with idle [unfolded nat_idle_def] r entries rows show ?thesis by auto
qed

section \<open>Rates that are lost\<close>

lemma not_finite_refresh:
  "\<not> is_finite (nat_avg_hits_per_second ne) \<Longrightarrow> \<not> is_finite (nat_avg_hits_per_second (nat_refresh now ne))"
  by (simp add: nat_refresh_def Let_def not_finite_add not_finite_mult)

lemma same_second_refresh:
  assumes "nat_last_hits_time ne = now"
  shows "\<not> is_finite (nat_avg_hits_per_second (nat_refresh now ne))"
proof -
  have "\<not> is_finite (nat_cur_avg now ne)"
    using assms dbl_of_int_exact [of 0] by (cases "dbl_of_int (uint (nat_hits ne - nat_last_hits ne))") (auto simp: nat_cur_avg_def)
  then have "\<not> is_finite (dbl_mult (Fin (3 * dbl_unit div 4)) (nat_cur_avg now ne))" by (rule not_finite_mult)
  then have "\<not> is_finite (dbl_add (dbl_mult (Fin (3 * dbl_unit div 4)) (nat_cur_avg now ne)) y)" for y
    by (cases "dbl_mult (Fin (3 * dbl_unit div 4)) (nat_cur_avg now ne)"; cases y) auto
  then show ?thesis by (simp add: nat_refresh_def Let_def)
qed

text \<open>The rate of an entry can be lost for good. When a round comes in the same second as the last
  hits of an entry were counted, or the entry was created, the division by zero makes its rate
  infinite or not a number, and no later round, at whatever times and with whatever hits, brings it
  back to a finite value, so it no longer orders the table.\<close>

theorem nat_rate_lost:
  assumes "nat_last_hits_time ne = now"
  shows "\<not> is_finite (nat_avg_hits_per_second
    (fold (\<lambda>(later, hits) ne. nat_refresh later (ne\<lparr>nat_hits := hits\<rparr>)) rounds (nat_refresh now ne)))"
proof (induction rounds rule: rev_induct)
  case (snoc r rounds)
  then show ?case by (cases r) (simp add: not_finite_refresh)
qed (simp add: same_second_refresh [OF assms])

section \<open>Samples\<close>

text \<open>An entry that was used once in the second of its creation, in a table of one entry.\<close>

definition fresh_entry :: nat_entry where
  "fresh_entry = (nat_static_entry 100 0x0100000A 5000 0x0200000A 80)\<lparr>nat_hits := 1, nat_is_static := False\<rparr>"

theorem nat_maintenance_round_correct_witness:
  "(\<exists>rs'. nat_maintenance_round (empty_router\<lparr>nat_table := [fresh_entry], clock := 100, nat_timeout := 120\<rparr>) = Some rs'
      \<and> length (nat_table rs') = 1)
    \<and> nat_maintenance_round (empty_router\<lparr>nat_table := [fresh_entry\<lparr>nat_hits := 0\<rparr>], clock := 300, nat_timeout := 120\<rparr>) = None"
proof -
  let ?a = "empty_router\<lparr>nat_table := [fresh_entry], clock := 100, nat_timeout := 120\<rparr>"
  let ?b = "empty_router\<lparr>nat_table := [fresh_entry\<lparr>nat_hits := 0\<rparr>], clock := 300, nat_timeout := 120\<rparr>"
  have "\<forall>ne\<in>set (nat_table ?a). \<bar>clock ?a - nat_last_hits_time ne\<bar> < 2 ^ 53"
      "\<forall>ne\<in>set (nat_table ?b). \<bar>clock ?b - nat_last_hits_time ne\<bar> < 2 ^ 53"
    by (simp_all add: fresh_entry_def nat_static_entry_def)
  note correct = this [THEN nat_maintenance_round_correct]
  have "nat_maintenance_round ?a \<noteq> None"
    using correct(1) by (simp add: fresh_entry_def nat_static_entry_def)
  then obtain ra where ra: "nat_maintenance_round ?a = Some ra" by blast
  have "nat_maintenance_round ?b = None"
    using correct(2) by (simp add: fresh_entry_def nat_static_entry_def)
  moreover have "length (nat_table ra) = 1"
  proof -
    have "mset (map without_row (nat_table ra)) = mset (map (without_row \<circ> nat_refresh 100) [fresh_entry])"
      using correct(1) [of ra] ra by simp
    then show ?thesis by (metis length_map list.size(3,4) mset_eq_length One_nat_def plus_1_eq_Suc add.commute)
  qed
  ultimately show ?thesis using ra by blast
qed

theorem nat_rate_lost_witness:
  "\<not> is_finite (nat_avg_hits_per_second (nat_refresh 160 (nat_refresh 130 (nat_refresh 100 fresh_entry))))"
  using nat_rate_lost [of fresh_entry 100 "[(130, 1), (160, 1)]"]
  by (simp add: fresh_entry_def nat_static_entry_def nat_refresh_def Let_def cong: if_cong)

end
