(* ===== verification/Vns.thy ===== *)
theory Vns
  imports Startup Ip
begin

text \<open>
  The other mode of the router: its interfaces and packets come from a VNS server over a stream socket
  (sr_vns.c, vnscommand.h, sr_base.c), and packets are logged in the format of tcpdump (sr_dumper.c).
  What the socket delivers is the list of the results of \<open>recv\<close>, each with the bytes that are there;
  when the list is used up the router waits.
\<close>

section \<open>The log file\<close>

definition enc32 :: "u32 \<Rightarrow> u8 list" where
  "enc32 w = [byte_of 0 w, byte_of 1 w, byte_of 2 w, byte_of 3 w]"

definition dec32 :: "u8 list \<Rightarrow> u32" where
  "dec32 bs = le32 (bs ! 0) (bs ! 1) (bs ! 2) (bs ! 3)"

definition enc16 :: "u16 \<Rightarrow> u8 list" where
  "enc16 w = [byte_of 0 w, byte_of 1 w]"

interpretation word32: struct_codec 4 dec32 enc32
proof
  fix bs :: "u8 list" assume "length bs = 4"
  then have "bs = [bs ! 0, bs ! 1, bs ! 2, bs ! 3]"
    by (intro nth_equalityI) (auto simp: less_Suc_eq numeral_eq_Suc)
  then show "enc32 (dec32 bs) = bs" by (simp add: enc32_def dec32_def)
qed (simp_all add: enc32_def dec32_def)

lemma dec32_enc32 [simp]: "dec32 (enc32 w @ bs) = w" "dec32 (enc32 w) = w" "length (enc32 w) = 4"
  by (simp_all add: enc32_def dec32_def)

definition SR_PACKET_DUMP_SIZE :: nat where "SR_PACKET_DUMP_SIZE = 1514"

definition sf_write_header :: "u32 \<Rightarrow> u32 \<Rightarrow> u32 \<Rightarrow> u8 list" where
  "sf_write_header linktype thiszone snaplen =
     enc32 0xa1b2c3d4 @ enc16 2 @ enc16 4 @ enc32 thiszone @ enc32 0 @ enc32 snaplen @ enc32 linktype"

definition sr_dump_open :: "u32 \<Rightarrow> u32 \<Rightarrow> u8 list" where
  "sr_dump_open thiszone snaplen = sf_write_header 1 thiszone snaplen"

definition sr_dump :: "u8 list \<Rightarrow> u32 \<Rightarrow> u32 \<Rightarrow> u32 \<Rightarrow> u32 \<Rightarrow> packet \<Rightarrow> u8 list" where
  "sr_dump fp tv_sec tv_usec caplen len sp =
     fp @ enc32 tv_sec @ enc32 tv_usec @ enc32 caplen @ enc32 len @ take (unat caplen) sp"

section \<open>The instance\<close>

text \<open>
  What the start needs beside the socket: \<open>strcmp\<close>, the command environment, the lines of the two
  table files, the microseconds of the clock, and what the interface structure on the stack holds
  before it is filled in.
\<close>

record vns_env =
  ve_strcmp :: "string \<Rightarrow> string \<Rightarrow> int"
  ve_cli :: cli_env
  ve_rtable :: "string list"
  ve_ctable :: "string list"
  ve_usec :: u32
  ve_stack :: sr_vns_if

record sr_instance =
  sr_router :: router_state
  sr_commands :: cli_commands
  sr_hw_init :: bool
  sr_logfile :: "u8 list option"
  sr_sent :: "u8 list"

definition sr_log_packet :: "vns_env \<Rightarrow> packet \<Rightarrow> sr_instance \<Rightarrow> sr_instance" where
  "sr_log_packet env buf inst = (case sr_logfile inst of None \<Rightarrow> inst | Some fp \<Rightarrow>
     let size = of_nat (min SR_PACKET_DUMP_SIZE (length buf)) in
     inst\<lparr>sr_logfile := Some (sr_dump fp (of_int (clock (sr_router inst))) (ve_usec env) size size buf)\<rparr>)"

section \<open>Messages\<close>

definition VNSOPEN :: u32 where "VNSOPEN = 1"
definition VNSCLOSE :: u32 where "VNSCLOSE = 2"
definition VNSPACKET :: u32 where "VNSPACKET = 4"
definition VNSHWINFO :: u32 where "VNSHWINFO = 16"
definition IDSIZE :: nat where "IDSIZE = 32"

definition HWINTERFACE :: u32 where "HWINTERFACE = 1"
definition HWSPEED :: u32 where "HWSPEED = 2"
definition HWETHER :: u32 where "HWETHER = 32"
definition HWETHIP :: u32 where "HWETHIP = 64"
definition HWMASK :: u32 where "HWMASK = 128"

text \<open>The bytes of a text and the text of bytes; \<open>strncpy\<close> fills its field up with NULs.\<close>

definition bytes_of_text :: "string \<Rightarrow> u8 list" where
  "bytes_of_text s = map of_char s"

definition text_of_bytes :: "u8 list \<Rightarrow> string" where
  "text_of_bytes bs = map (\<lambda>b. char_of (unat b)) bs"

definition text_field :: "nat \<Rightarrow> string \<Rightarrow> u8 list" where
  "text_field n s = take n (bytes_of_text s @ replicate n 0)"

text \<open>The message \<open>c_open\<close> of \<open>sr_vns_connect_to_server\<close>.\<close>

definition c_open :: "u16 \<Rightarrow> string \<Rightarrow> string \<Rightarrow> u8 list" where
  "c_open topo_id vhost user = enc32 (htonl 108) @ enc32 (htonl VNSOPEN) @ enc16 (htons topo_id) @ enc16 0
     @ text_field IDSIZE vhost @ text_field IDSIZE user @ replicate IDSIZE 0"

definition c_packet :: "string \<Rightarrow> packet \<Rightarrow> u8 list" where
  "c_packet iface buf = enc32 (htonl (of_nat (length buf + 24))) @ enc32 (htonl VNSPACKET) @ text_field 16 iface @ buf"

text \<open>\<open>written\<close> is whether \<open>write\<close> took the whole message.\<close>

definition sr_vns_send_packet :: "vns_env \<Rightarrow> sr_instance \<Rightarrow> packet \<Rightarrow> string \<Rightarrow> bool \<Rightarrow> int \<times> sr_instance" where
  "sr_vns_send_packet env inst buf iface written =
     (if length buf < 14 then (-1, inst)
      else let inst = sr_log_packet env buf inst in
        if \<not> written then (-1, inst) else (0, inst\<lparr>sr_sent := sr_sent inst @ c_packet iface buf\<rparr>))"

section \<open>The hardware information\<close>

text \<open>The entries \<open>mHWInfo\<close>, each a key and a value of 32 bytes.\<close>

fun hw_entries :: "nat \<Rightarrow> u8 list \<Rightarrow> (u32 \<times> u8 list) list" where
  "hw_entries 0 bs = []"
| "hw_entries (Suc n) bs = (ntohl (dec32 bs), take 32 (drop 4 bs)) # hw_entries n (drop 36 bs)"

text \<open>A name that fills its field has no NUL, and \<open>strstr\<close> reads on behind it.\<close>

definition flush_interface :: "vns_env \<Rightarrow> sr_vns_if \<Rightarrow> router_state \<Rightarrow> (sr_vns_if \<times> router_state) option" where
  "flush_interface env vns_if rs =
     (if vns_name vns_if = [] then Some (vns_if, rs)
      else if length (vns_name vns_if) \<ge> SR_NAMELEN then None
      else do { rs \<leftarrow> init_add_interface (ve_strcmp env) rs vns_if; Some (vns_if\<lparr>vns_name := []\<rparr>, rs) })"

definition mac_field :: "u8 list \<Rightarrow> mac" where
  "mac_field val = le48 (val ! 0) (val ! 1) (val ! 2) (val ! 3) (val ! 4) (val ! 5)"

fun hwinfo_walk :: "vns_env \<Rightarrow> (u32 \<times> u8 list) list \<Rightarrow> sr_vns_if \<Rightarrow> router_state \<Rightarrow> (sr_vns_if \<times> router_state) option" where
  "hwinfo_walk env [] vns_if rs = flush_interface env vns_if rs"
| "hwinfo_walk env ((key, val) # next) vns_if rs =
     (if key = HWINTERFACE then do {
        (vns_if, rs) \<leftarrow> flush_interface env vns_if rs;
        hwinfo_walk env next (vns_if\<lparr>vns_name := c_str (text_of_bytes val)\<rparr>) rs
      }
      else if key = HWSPEED then hwinfo_walk env next (vns_if\<lparr>vns_speed := ntohl (dec32 val)\<rparr>) rs
      else if key = HWMASK then hwinfo_walk env next (vns_if\<lparr>vns_mask := dec32 val\<rparr>) rs
      else if key = HWETHIP then hwinfo_walk env next (vns_if\<lparr>vns_ip := dec32 val\<rparr>) rs
      else if key = HWETHER then hwinfo_walk env next
        (vns_if\<lparr>vns_addr := mac_field val\<rparr>) rs
      else hwinfo_walk env next vns_if rs)"

definition sr_handle_hwinfo :: "vns_env \<Rightarrow> u8 list \<Rightarrow> sr_instance \<Rightarrow> sr_instance option" where
  "sr_handle_hwinfo env buf inst = do {
     let num_entries = (unat (ntohl (dec32 buf)) - 8) div 36;
     (vns_if, rs) \<leftarrow> hwinfo_walk env (hw_entries num_entries (drop 8 buf)) ((ve_stack env)\<lparr>vns_name := []\<rparr>) (sr_router inst);
     (cmds, rs) \<leftarrow> sr_integ_hw_setup (ve_strcmp env) (ve_cli env) rs (ve_rtable env) (ve_ctable env);
     Some (inst\<lparr>sr_hw_init := True, sr_router := rs, sr_commands := cmds\<rparr>)
   }"

section \<open>Reading from the server\<close>

text \<open>
  A read of a given length goes on until it has all bytes, starts again after a signal, and fails with
  an error of \<open>recv\<close>. An empty result means that the server has closed the connection; \<open>recv\<close> then
  returns 0 for ever, and the loop does not end.
\<close>

datatype recv_result = Data "u8 list" | Interrupted | Failed

datatype reading = Got "u8 list" "recv_result list" | Broken | Wait

fun recv_exactly :: "nat \<Rightarrow> u8 list \<Rightarrow> recv_result list \<Rightarrow> reading option" where
  "recv_exactly need acc [] = Some (if need = 0 then Got acc [] else Wait)"
| "recv_exactly need acc (r # input) =
     (if need = 0 then Some (Got acc (r # input)) else
      case r of
        Data bs \<Rightarrow>
          if bs = [] then None
          else if length bs \<le> need then recv_exactly (need - length bs) (acc @ bs) input
          else Some (Got (acc @ take need bs) (Data (drop need bs) # input))
      | Interrupted \<Rightarrow> recv_exactly need acc input
      | Failed \<Rightarrow> Some Broken)"

text \<open>A message whose length field leaves no room for its own header is read and written outside its buffer.\<close>

definition vns_command :: "vns_env \<Rightarrow> u8 list \<Rightarrow> sr_instance \<Rightarrow> (int \<times> sr_instance) option" where
  "vns_command env buf inst =
     (if length buf < 8 then None
      else let command = ntohl (dec32 (drop 4 buf)) in
        if command = VNSPACKET then
          (if length buf < 24 \<or> 0 \<notin> set (drop 8 buf) then None
           else do {
             let inst = sr_log_packet env (drop 24 buf) inst;
             rs \<leftarrow> process_packet (sr_router inst) (drop 24 buf) (c_str (text_of_bytes (drop 8 buf)));
             Some (1, inst\<lparr>sr_router := rs\<rparr>)
           })
        else if command = VNSCLOSE then
          (if 0 \<notin> set (drop 8 buf) then None else Some (0, inst\<lparr>sr_hw_init := False\<rparr>))
        else if command = VNSHWINFO then do { inst \<leftarrow> sr_handle_hwinfo env buf inst; Some (1, inst) }
        else Some (1, inst))"

datatype vns_result = Returns int | Waits

definition sr_vns_read_from_server ::
    "vns_env \<Rightarrow> sr_instance \<Rightarrow> recv_result list \<Rightarrow> (vns_result \<times> sr_instance \<times> recv_result list) option" where
  "sr_vns_read_from_server env inst input = do {
     r \<leftarrow> recv_exactly 4 [] input;
     case r of Wait \<Rightarrow> Some (Waits, inst, []) | Broken \<Rightarrow> Some (Returns (-1), inst, []) | Got b4 input \<Rightarrow> do {
       let len = sint (ntohl (dec32 b4));
       if len > 10000 \<or> len < 0 then Some (Returns (-1), inst, input)
       else if len < 4 then None
       else do {
         r \<leftarrow> recv_exactly (nat len - 4) [] input;
         case r of Wait \<Rightarrow> Some (Waits, inst, []) | Broken \<Rightarrow> Some (Returns (-1), inst, []) | Got body input \<Rightarrow> do {
           (ret, inst) \<leftarrow> vns_command env (b4 @ body) inst;
           Some (Returns ret, inst, input)
         }
       }
     }
   }"

text \<open>The loop of \<open>sr_low_level_network_subsystem\<close>; the result is whether it has ended.\<close>

partial_function (option) vns_main ::
    "vns_env \<Rightarrow> sr_instance \<Rightarrow> recv_result list \<Rightarrow> (bool \<times> sr_instance) option" where
  "vns_main env inst input = do {
     (ret, inst, input) \<leftarrow> sr_vns_read_from_server env inst input;
     case ret of Waits \<Rightarrow> Some (False, inst)
     | Returns n \<Rightarrow> if n = 1 then vns_main env inst input else Some (True, inst)
   }"

text \<open>The loop of the start, which reads until the hardware is set up; whether it was.\<close>

partial_function (option) vns_wait_hw ::
    "vns_env \<Rightarrow> sr_instance \<Rightarrow> recv_result list \<Rightarrow> (vns_result \<times> sr_instance \<times> recv_result list) option" where
  "vns_wait_hw env inst input =
     (if sr_hw_init inst then Some (Returns 0, inst, input)
      else do {
        (ret, inst, input) \<leftarrow> sr_vns_read_from_server env inst input;
        if ret = Waits \<or> ret = Returns (-1) then Some (ret, inst, input) else vns_wait_hw env inst input
      })"

definition sr_init_vns_mode ::
    "vns_env \<Rightarrow> int \<Rightarrow> (nat \<Rightarrow> u32) \<Rightarrow> hw_state \<Rightarrow> bool \<Rightarrow> u16 \<Rightarrow> string \<Rightarrow> string \<Rightarrow> recv_result list
       \<Rightarrow> (vns_result \<times> sr_instance \<times> recv_result list) option" where
  "sr_init_vns_mode env now rands nf2 logging topo_id vhost user input = do {
     rs \<leftarrow> init (ve_strcmp env) False nf2 now rands;
     vns_wait_hw env \<lparr>sr_router = rs, sr_commands = [], sr_hw_init = False,
       sr_logfile = (if logging then Some (sr_dump_open 0 (of_nat SR_PACKET_DUMP_SIZE)) else None),
       sr_sent = c_open topo_id vhost user\<rparr> input
   }"

section \<open>The stream\<close>

text \<open>What the server sends, however it is cut into pieces.\<close>

fun piece :: "recv_result \<Rightarrow> u8 list" where
  "piece (Data bs) = bs"
| "piece r = []"

definition delivered :: "recv_result list \<Rightarrow> u8 list" where
  "delivered input = concat (map piece input)"

definition connected :: "recv_result list \<Rightarrow> bool" where
  "connected input \<longleftrightarrow> Failed \<notin> set input \<and> Data [] \<notin> set input"

lemma delivered_simps [simp]:
  "delivered [] = []" "delivered (Data bs # input) = bs @ delivered input" "delivered (Interrupted # input) = delivered input"
  by (simp_all add: delivered_def)

lemma connected_simps [simp]:
  "connected []" "connected (Data bs # input) \<longleftrightarrow> bs \<noteq> [] \<and> connected input"
  "connected (Interrupted # input) \<longleftrightarrow> connected input" "\<not> connected (Failed # input)"
  by (auto simp: connected_def)

lemma recv_exactly_got:
  assumes "connected input" "need \<le> length (delivered input)"
  shows "\<exists>rest. recv_exactly need acc input = Some (Got (acc @ take need (delivered input)) rest)
    \<and> connected rest \<and> delivered rest = drop need (delivered input)"
  using assms
proof (induction need acc input rule: recv_exactly.induct)
  case (2 need acc r input)
  show ?case
  proof (cases "need = 0")
    case False
    show ?thesis
    proof (cases r)
      case (Data bs)
      then show ?thesis using 2 False by (cases "length bs \<le> need") auto
    qed (use 2 False in auto)
  qed (use 2 in auto)
qed simp

lemma recv_exactly_wait:
  assumes "connected input" "length (delivered input) < need"
  shows "recv_exactly need acc input = Some Wait"
  using assms
proof (induction need acc input rule: recv_exactly.induct)
  case (2 need acc r input)
  then show ?case by (cases r) auto
qed simp

text \<open>A message: its length in front, at most what the router accepts.\<close>

definition is_message :: "u8 list \<Rightarrow> bool" where
  "is_message m \<longleftrightarrow> 8 \<le> length m \<and> length m \<le> 10000 \<and> take 4 m = enc32 (htonl (of_nat (length m)))"

lemma read_message:
  assumes "connected input" "delivered input = m @ later" "is_message m"
  shows "\<exists>rest. connected rest \<and> delivered rest = later
    \<and> sr_vns_read_from_server env inst input = map_option (\<lambda>(ret, inst). (Returns ret, inst, rest)) (vns_command env m inst)"
proof -
  have len: "8 \<le> length m" "length m \<le> 10000" "take 4 m = enc32 (htonl (of_nat (length m)))"
    using assms(3) by (simp_all add: is_message_def)
  obtain r1 where r1: "recv_exactly 4 [] input = Some (Got (take 4 m) r1)" "connected r1" "delivered r1 = drop 4 m @ later"
    using recv_exactly_got [OF assms(1), of 4 "[]"] assms(2) len(1) by auto
  obtain r2 where r2: "recv_exactly (length m - 4) [] r1 = Some (Got (drop 4 m) r2)" "connected r2" "delivered r2 = later"
    using recv_exactly_got [OF r1(2), of "length m - 4" "[]"] by (auto simp: r1(3))
  have "sint (of_nat (length m) :: u32) = int (length m)"
    using len(2) by (simp add: signed_of_nat signed_take_bit_int_eq_self)
  then have "sint (ntohl (dec32 (take 4 m))) = int (length m)" by (simp add: len(3))
  moreover have "enc32 (htonl (of_nat (length m))) @ drop 4 m = m"
    using len(3) by (metis append_take_drop_id)
  ultimately have "sr_vns_read_from_server env inst input
      = map_option (\<lambda>(ret, inst). (Returns ret, inst, r2)) (vns_command env m inst)"
    using len r1(1) r2(1) by (cases "vns_command env m inst") (auto simp: sr_vns_read_from_server_def nat_diff_distrib')
  with r2 show ?thesis by blast
qed

fun run_messages :: "vns_env \<Rightarrow> u8 list list \<Rightarrow> sr_instance \<Rightarrow> (bool \<times> sr_instance) option" where
  "run_messages env [] inst = Some (False, inst)"
| "run_messages env (m # ms) inst = do {
     (ret, inst) \<leftarrow> vns_command env m inst;
     if ret = 1 then run_messages env ms inst else Some (True, inst)
   }"

lemma vns_main_messages:
  assumes "connected input" "delivered input = concat ms" "\<forall>m\<in>set ms. is_message m"
  shows "vns_main env inst input = run_messages env ms inst"
  using assms
proof (induction ms arbitrary: inst input)
  case Nil
  then have "recv_exactly 4 [] input = Some Wait" by (intro recv_exactly_wait) simp_all
  then show ?case by (subst vns_main.simps) (simp add: sr_vns_read_from_server_def)
next
  case (Cons m ms)
  obtain rest where rest: "connected rest" "delivered rest = concat ms"
    "sr_vns_read_from_server env inst input = map_option (\<lambda>(ret, inst). (Returns ret, inst, rest)) (vns_command env m inst)"
    using read_message [OF Cons.prems(1), of m "concat ms" env inst] Cons.prems(2,3) by auto
  show ?case
    using Cons.IH [OF rest(1,2)] Cons.prems(3)
    by (subst vns_main.simps, cases "vns_command env m inst") (auto simp: rest(3))
qed

section \<open>Frames\<close>

lemma unat_of_char [simp]: "unat (of_char c :: u8) = of_char c"
proof -
  have "(of_char c :: u8) = of_nat (of_char c)" by (rule of_nat_of_char [symmetric])
  then show ?thesis by (simp only: unsigned_of_nat) (simp add: take_bit_nat_eq_self)
qed

lemma text_bytes [simp]: "text_of_bytes (bytes_of_text s @ bs) = s @ text_of_bytes bs"
  by (simp add: text_of_bytes_def bytes_of_text_def o_def)

lemma length_text_field [simp]: "length (text_field n s) = n"
  by (simp add: text_field_def bytes_of_text_def)

lemma text_field_short: "length s < n \<Longrightarrow> text_field n s = bytes_of_text s @ replicate (n - length s) 0"
  by (simp add: text_field_def bytes_of_text_def)

lemma c_str_field:
  assumes "length s < n" "CHR 0x00 \<notin> set s"
  shows "c_str (text_of_bytes (text_field n s @ bs)) = s" "0 \<in> set (text_field n s)"
proof -
  obtain k where k: "n - length s = Suc k" using assms(1) by (cases "n - length s") simp_all
  have "char_of (0 :: nat) = CHR 0x00" by code_simp
  then have "text_of_bytes (0 # x) = CHR 0x00 # text_of_bytes x" for x by (simp add: text_of_bytes_def)
  then show "c_str (text_of_bytes (text_field n s @ bs)) = s"
    using assms(2) by (simp add: text_field_short [OF assms(1)] k c_str_append) (simp add: c_str_def)
  show "0 \<in> set (text_field n s)" by (simp add: text_field_short [OF assms(1)] k)
qed

definition is_frame :: "string \<times> packet \<Rightarrow> bool" where
  "is_frame = (\<lambda>(iface, buf). length iface < 16 \<and> CHR 0x00 \<notin> set iface \<and> length buf + 24 \<le> 10000)"

lemma c_packet_message: "is_frame (iface, buf) \<Longrightarrow> is_message (c_packet iface buf)"
  by (simp add: is_frame_def is_message_def c_packet_def add.commute)

lemma c_packet_command:
  assumes "is_frame (iface, buf)" "sr_logfile inst = None"
  shows "vns_command env (c_packet iface buf) inst
    = map_option (\<lambda>rs. (1, inst\<lparr>sr_router := rs\<rparr>)) (process_packet (sr_router inst) buf iface)"
proof -
  have iface: "length iface < 16" "CHR 0x00 \<notin> set iface" using assms(1) by (simp_all add: is_frame_def)
  have "drop 8 (c_packet iface buf) = text_field 16 iface @ buf" "drop 24 (c_packet iface buf) = buf"
      "ntohl (dec32 (drop 4 (c_packet iface buf))) = VNSPACKET" "length (c_packet iface buf) = length buf + 24"
    by (simp_all add: c_packet_def)
  with c_str_field [OF iface] assms(2) show ?thesis
    by (cases "process_packet (sr_router inst) buf iface") (simp_all add: vns_command_def sr_log_packet_def VNSPACKET_def)
qed

fun process_frames :: "(string \<times> packet) list \<Rightarrow> router_state \<Rightarrow> router_state option" where
  "process_frames [] rs = Some rs"
| "process_frames ((iface, buf) # frames) rs = do { rs \<leftarrow> process_packet rs buf iface; process_frames frames rs }"

lemma run_frames:
  assumes "\<forall>f\<in>set frames. is_frame f" "sr_logfile inst = None"
  shows "run_messages env (map (\<lambda>(iface, buf). c_packet iface buf) frames) inst
    = map_option (\<lambda>rs. (False, inst\<lparr>sr_router := rs\<rparr>)) (process_frames frames (sr_router inst))"
  using assms
proof (induction frames arbitrary: inst)
  case (Cons f frames)
  obtain iface buf where f: "f = (iface, buf)" by (cases f)
  show ?case
  proof (cases "process_packet (sr_router inst) buf iface")
    case (Some rs)
    then show ?thesis
      using Cons.IH [of "inst\<lparr>sr_router := rs\<rparr>"] Cons.prems c_packet_command [of iface buf inst env]
      by (simp add: f)
  qed (use Cons.prems c_packet_command [of iface buf inst env] in \<open>simp add: f\<close>)
qed simp

text \<open>C17: every frame that the server sends reaches the router, whatever the stream does. For any sequence
  of frames, sent one after the other as messages and delivered in any pieces, with reads cut short
  by signals, the main loop hands exactly these frames, in order and with their interfaces, to
  \<open>process_packet\<close>, and then waits for the next message; it fails only where a frame makes the
  router fail.\<close>

theorem vns_frames_reach_router:
  assumes "connected input" "delivered input = concat (map (\<lambda>(iface, buf). c_packet iface buf) frames)"
    "\<forall>(iface, buf)\<in>set frames. length iface < 16 \<and> CHR 0x00 \<notin> set iface \<and> length buf + 24 \<le> 10000"
    "sr_logfile inst = None"
  shows "vns_main env inst input
    = map_option (\<lambda>rs. (False, inst\<lparr>sr_router := rs\<rparr>)) (process_frames frames (sr_router inst))"
proof -
  have f: "\<forall>f\<in>set frames. is_frame f" using assms(3) by (auto simp: is_frame_def)
  then have "\<forall>m\<in>set (map (\<lambda>(iface, buf). c_packet iface buf) frames). is_message m"
    using c_packet_message by auto
  from vns_main_messages [OF assms(1,2) this] run_frames [OF f assms(4)] show ?thesis by simp
qed

text \<open>The length and the end of the stream are not guarded. A message whose length field says less than
  the 8 bytes of its own header, but not less than nothing, makes the router write or read outside
  its buffer, and when the server closes the connection the read never ends.\<close>

theorem vns_bad_message_faults:
  assumes "connected input" "delivered input = enc32 (htonl (of_nat len)) @ later" "len < 8" "len \<le> length later + 4"
  shows "sr_vns_read_from_server env inst input = None
    \<and> sr_vns_read_from_server env inst [Data []] = None"
proof -
  obtain r1 where r1: "recv_exactly 4 [] input = Some (Got (enc32 (htonl (of_nat len))) r1)" "connected r1" "delivered r1 = later"
    using recv_exactly_got [OF assms(1), of 4 "[]"] assms(2) by auto
  have "sint (of_nat len :: u32) = int len"
    using assms(3) by (simp add: signed_of_nat signed_take_bit_int_eq_self)
  moreover have "len - 4 \<le> length (delivered r1)" using assms(4) r1(3) by simp
  then obtain r2 where "recv_exactly (len - 4) [] r1 = Some (Got (take (len - 4) later) r2)"
    using recv_exactly_got [OF r1(2), of "len - 4" "[]"] by (auto simp: r1(3))
  moreover have "len - 4 < 4" using assms(3) by arith
  then have "vns_command env (enc32 w @ take (len - 4) later) inst = None" for w
    by (simp add: vns_command_def min_less_iff_disj)
  ultimately show ?thesis
    using assms(3) r1(1) by (simp add: sr_vns_read_from_server_def nat_diff_distrib' del: append_assoc)
qed

section \<open>The start in this mode\<close>

text \<open>The hardware information as the server writes it: five entries for each interface.\<close>

definition hw_entry :: "u32 \<Rightarrow> u8 list \<Rightarrow> u8 list" where
  "hw_entry key val = enc32 (htonl key) @ take 32 (val @ replicate 32 0)"

definition iface_entries :: "sr_vns_if \<Rightarrow> u8 list" where
  "iface_entries v = hw_entry HWINTERFACE (bytes_of_text (vns_name v)) @ hw_entry HWSPEED (enc32 (htonl (vns_speed v)))
     @ hw_entry HWMASK (enc32 (vns_mask v)) @ hw_entry HWETHIP (enc32 (vns_ip v))
     @ hw_entry HWETHER (map (\<lambda>i. byte_of i (vns_addr v)) [0, 1, 2, 3, 4, 5])"

definition hwinfo_message :: "sr_vns_if list \<Rightarrow> u8 list" where
  "hwinfo_message vs = enc32 (htonl (of_nat (8 + 180 * length vs))) @ enc32 (htonl VNSHWINFO) @ concat (map iface_entries vs)"

lemma length_hw_entry [simp]: "length (hw_entry k v) = 36"
  by (simp add: hw_entry_def)

lemma length_iface_entries [simp]: "length (iface_entries v) = 180"
  by (simp add: iface_entries_def)

lemma length_all_entries: "length (concat (map iface_entries vs)) = 180 * length vs"
  by (induction vs) simp_all

lemma hwinfo_is_message: "length vs \<le> 50 \<Longrightarrow> is_message (hwinfo_message vs)"
  by (simp add: is_message_def hwinfo_message_def length_all_entries)

text \<open>The keys and values of the five entries.\<close>

definition value_field :: "u8 list \<Rightarrow> u8 list" where
  "value_field val = take 32 (val @ replicate 32 0)"

definition iface_values :: "sr_vns_if \<Rightarrow> (u32 \<times> u8 list) list" where
  "iface_values v = [(HWINTERFACE, text_field 32 (vns_name v)), (HWSPEED, value_field (enc32 (htonl (vns_speed v)))),
     (HWMASK, value_field (enc32 (vns_mask v))), (HWETHIP, value_field (enc32 (vns_ip v))),
     (HWETHER, value_field (map (\<lambda>i. byte_of i (vns_addr v)) [0, 1, 2, 3, 4, 5]))]"

lemma hw_entries_Cons: "hw_entries (Suc n) (hw_entry k v @ bs) = (k, value_field v) # hw_entries n bs"
  by (simp add: hw_entry_def value_field_def)

lemma text_field_value: "text_field 32 s = value_field (bytes_of_text s)"
  by (simp only: text_field_def value_field_def)

lemma hw_entries_iface: "hw_entries (5 + n) (iface_entries v @ bs) = iface_values v @ hw_entries n bs"
proof -
  have "5 + n = Suc (Suc (Suc (Suc (Suc n))))" by simp
  then show ?thesis
    by (simp only: iface_entries_def append_assoc hw_entries_Cons iface_values_def text_field_value append.simps)
qed

lemma hw_entries_ifaces: "hw_entries (5 * length vs) (concat (map iface_entries vs)) = concat (map iface_values vs)"
  by (induction vs) (simp_all add: hw_entries_iface add.commute [of _ 5] del: hw_entries.simps(2))

lemma value_field_word: "dec32 (value_field (enc32 w)) = w"
  by (simp add: value_field_def enc32_def dec32_def)

lemma hwinfo_iface:
  assumes "vns_name v \<in> eth_ports"
  shows "hwinfo_walk env (iface_values v @ next) vns_if rs
    = do { (vns_if, rs) \<leftarrow> flush_interface env vns_if rs; hwinfo_walk env next v rs }"
proof -
  have name: "c_str (text_of_bytes (text_field 32 (vns_name v))) = vns_name v"
    using c_str_field(1) [of "vns_name v" 32 "[]"] assms by (auto simp: eth_ports_def)
  have addr: "mac_field (value_field (map (\<lambda>i. byte_of i (vns_addr v)) [0, 1, 2, 3, 4, 5])) = vns_addr v"
    by (simp add: value_field_def mac_field_def)
  have same: "x\<lparr>vns_name := vns_name v, vns_speed := vns_speed v, vns_mask := vns_mask v, vns_ip := vns_ip v,
      vns_addr := vns_addr v\<rparr> = v" for x :: sr_vns_if
    by simp
  show ?thesis
    by (cases "flush_interface env vns_if rs")
      (auto simp: iface_values_def name value_field_word addr [unfolded One_nat_def] same HWINTERFACE_def HWSPEED_def HWMASK_def HWETHIP_def HWETHER_def
        simp del: list.map)
qed

text \<open>The router while its interfaces are added; there is no card.\<close>

definition vns_booted :: "iface_entry list \<Rightarrow> router_state \<Rightarrow> bool" where
  "vns_booted ifs rs \<longleftrightarrow> \<not> is_netfpga rs \<and> locks rs = (\<lambda>_. Free) \<and> rtable rs = [] \<and> ctable rs = [] \<and> arp_cache rs = []
     \<and> pwospf_router_list rs = [] \<and> if_list rs = ifs"

lemma flush_adds:
  assumes "strcmp_reverses (ve_strcmp env)" "vns_booted ifs rs" "vns_name v \<in> eth_ports"
  shows "\<exists>rs'. flush_interface env v rs = Some (v\<lparr>vns_name := []\<rparr>, rs') \<and> vns_booted (ifs @ [iface_of v]) rs'"
proof -
  have name: "\<not> contains ''cpu'' (vns_name v)" "vns_name v \<noteq> []" "length (vns_name v) < SR_NAMELEN"
    using assms(3) by (auto simp: eth_ports_def SR_NAMELEN_def)
  let ?r = "(if strncmp_eq (vns_name v) ''eth0'' IF_LEN then rs\<lparr>router_id := vns_ip v\<rparr> else rs)
      \<lparr>if_list := if_list rs @ [iface_of v]\<rparr>"
  have free: "locks ?r L_local_ip_filter_list = Free" using assms(2) by (simp add: vns_booted_def)
  obtain r l h where a: "add_local_ip_filter (ve_strcmp env) ?r (vns_ip v) (vns_name v)
      = Some (r, ?r\<lparr>local_ip_filter_list := l, netfpga := h\<rparr>)"
    using add_local_ip_filter_returns [OF assms(1) free] by blast
  have n: "\<not> is_netfpga rs" using assms(2) by (simp add: vns_booted_def)
  have "init_add_interface (ve_strcmp env) rs v = Some (?r\<lparr>local_ip_filter_list := l, netfpga := h\<rparr>)"
    using name a n by (cases "strncmp_eq (vns_name v) ''eth0'' IF_LEN") (simp_all add: init_add_interface_def iface_of_def)
  moreover have "vns_booted (ifs @ [iface_of v]) (?r\<lparr>local_ip_filter_list := l, netfpga := h\<rparr>)"
    using assms(2) by (simp add: vns_booted_def)
  ultimately show ?thesis using name by (simp add: flush_interface_def)
qed

lemma hwinfo_ifaces:
  assumes "strcmp_reverses (ve_strcmp env)" "vns_booted ifs rs" "\<forall>v\<in>set (p # vs). vns_name v \<in> eth_ports"
  shows "\<exists>q rs'. hwinfo_walk env (concat (map iface_values vs)) p rs = Some (q, rs')
    \<and> vns_booted (ifs @ map iface_of (p # vs)) rs'"
  using assms(2,3)
proof (induction vs arbitrary: ifs rs p)
  case Nil
  then show ?case using flush_adds [OF assms(1) Nil(1), of p] by auto
next
  case (Cons v vs)
  obtain r where r: "flush_interface env p rs = Some (p\<lparr>vns_name := []\<rparr>, r)" "vns_booted (ifs @ [iface_of p]) r"
    using flush_adds [OF assms(1) Cons.prems(1), of p] Cons.prems(2) by auto
  from Cons.IH [OF r(2), of v] Cons.prems(2) obtain q rs' where
    "hwinfo_walk env (concat (map iface_values vs)) v r = Some (q, rs')" "vns_booted (ifs @ map iface_of (p # v # vs)) rs'"
    by auto
  then show ?case using r(1) hwinfo_iface [of v env "concat (map iface_values vs)" p rs] Cons.prems(2) by simp
qed

lemma hwinfo_installs:
  assumes "strcmp_reverses (ve_strcmp env)" "vns_booted [] rs" "\<forall>v\<in>set vs. vns_name v \<in> eth_ports"
  shows "\<exists>q rs'. hwinfo_walk env (concat (map iface_values vs)) (s\<lparr>vns_name := []\<rparr>) rs = Some (q, rs')
    \<and> vns_booted (map iface_of vs) rs'"
proof (cases vs)
  case Nil
  then show ?thesis using assms(2) by (simp add: flush_interface_def)
next
  case (Cons v ws)
  have "flush_interface env (s\<lparr>vns_name := []\<rparr>) rs = Some (s\<lparr>vns_name := []\<rparr>, rs)"
    by (simp add: flush_interface_def)
  then show ?thesis
    using Cons hwinfo_iface [of v env "concat (map iface_values ws)" "s\<lparr>vns_name := []\<rparr>" rs]
      hwinfo_ifaces [OF assms(1,2), of v ws] assms(3) by simp
qed

text \<open>The start from a server installs the configuration as the start with the card does. When the
  server announces the interfaces, in any pieces, the router introduces itself, reads until it has
  them, and ends with exactly these interfaces and the routes and content entries of its files,
  alone in its router list, with a route computation due, no lock held and the rest of the stream
  unread.\<close>

theorem vns_start_installs_configuration:
  assumes "strcmp_reverses (ve_strcmp env)" "\<forall>v\<in>set ifs. vns_name v \<in> eth_ports" "length ifs \<le> 50"
    "\<forall>e\<in>set routes. rt_iface e \<in> hw_ports \<and> rt_is_static e \<and> rt_is_active e" "ve_rtable env = map route_text routes"
    "\<forall>e\<in>set contents. ct_iface e \<in> hw_ports \<and> ct_is_static e \<and> ct_is_active e" "ve_ctable env = map content_text contents"
    "distinct (map content_key contents)" "length contents \<le> 32"
    "connected input" "delivered input = hwinfo_message ifs @ later"
  shows "\<exists>inst rest r. sr_init_vns_mode env now rands nf2 logging topo_id vhost user input = Some (Returns 0, inst, rest)
    \<and> connected rest \<and> delivered rest = later \<and> sr_hw_init inst \<and> sr_sent inst = c_open topo_id vhost user
    \<and> if_list (sr_router inst) = map iface_of ifs \<and> rtable (sr_router inst) = routes
    \<and> ctable (sr_router inst) = rev contents \<and> ctable_ok (sr_router inst) \<and> arp_cache (sr_router inst) = []
    \<and> dijkstra_dirty (sr_router inst) = 1 \<and> locks (sr_router inst) = (\<lambda>_. Free)
    \<and> mset (sr_commands inst) = mset (cli_table (ve_cli env))
    \<and> pwospf_router_list (sr_router inst) = [r] \<and> pr_interface_list r = links_at_start (sr_router inst)"
proof -
  obtain r0 where r0: "init (ve_strcmp env) False nf2 now rands = Some r0" "vns_booted [] r0"
    by (simp add: init_def vns_booted_def)
  define inst0 where "inst0 = \<lparr>sr_router = r0, sr_commands = [], sr_hw_init = False,
       sr_logfile = (if logging then Some (sr_dump_open 0 (of_nat SR_PACKET_DUMP_SIZE)) else None),
       sr_sent = c_open topo_id vhost user\<rparr>"
  have len: "(unat (ntohl (dec32 (hwinfo_message ifs))) - 8) div 36 = 5 * length ifs"
  proof -
    have "unat (of_nat (8 + 180 * length ifs) :: u32) = 8 + 180 * length ifs"
      using assms(3) by (simp only: unsigned_of_nat) (simp add: take_bit_nat_eq_self)
    then show ?thesis by (simp add: hwinfo_message_def del: of_nat_add of_nat_mult)
  qed
  have entries: "hw_entries (5 * length ifs) (drop 8 (hwinfo_message ifs)) = concat (map iface_values ifs)"
    by (simp add: hwinfo_message_def hw_entries_ifaces)
  obtain q r1 where r1: "hwinfo_walk env (concat (map iface_values ifs)) ((ve_stack env)\<lparr>vns_name := []\<rparr>) r0 = Some (q, r1)"
      "vns_booted (map iface_of ifs) r1"
    using hwinfo_installs [OF assms(1) r0(2) assms(2)] by blast
  note b = r1(2) [unfolded vns_booted_def]
  obtain cmds rs r where rs: "sr_integ_hw_setup (ve_strcmp env) (ve_cli env) r1 (ve_rtable env) (ve_ctable env) = Some (cmds, rs)"
      "if_list rs = map iface_of ifs" "rtable rs = routes" "ctable rs = rev contents" "arp_cache rs = []" "ctable_ok rs"
      "dijkstra_dirty rs = 1" "locks rs = (\<lambda>_. Free)" "mset cmds = mset (cli_table (ve_cli env))"
      "pwospf_router_list rs = [r]" "pr_interface_list r = links_at_start rs"
    using hw_setup_installs [OF assms(1) _ _ _ _ _ _ assms(4,6,8,9), of r1 "ve_cli env"] b unfolding assms(5,7) by auto
  let ?inst = "inst0\<lparr>sr_hw_init := True, sr_router := rs, sr_commands := cmds\<rparr>"
  have "sr_handle_hwinfo env (hwinfo_message ifs) inst0 = Some ?inst"
    using len entries r1(1) rs(1) by (simp add: sr_handle_hwinfo_def inst0_def)
  then have cmd: "vns_command env (hwinfo_message ifs) inst0 = Some (1, ?inst)"
    by (simp add: vns_command_def hwinfo_message_def VNSPACKET_def VNSCLOSE_def VNSHWINFO_def)
  obtain rest where rest: "connected rest" "delivered rest = later"
      "sr_vns_read_from_server env inst0 input = Some (Returns 1, ?inst, rest)"
    using read_message [OF assms(10,11) hwinfo_is_message [OF assms(3)], of env inst0] cmd by auto
  have "vns_wait_hw env ?inst rest = Some (Returns 0, ?inst, rest)"
    by (subst vns_wait_hw.simps) simp
  moreover have "\<not> sr_hw_init inst0" by (simp add: inst0_def)
  ultimately have "vns_wait_hw env inst0 input = Some (Returns 0, ?inst, rest)"
    using rest(3) by (subst vns_wait_hw.simps) simp
  then have "sr_init_vns_mode env now rands nf2 logging topo_id vhost user input = Some (Returns 0, ?inst, rest)"
    using r0(1) by (simp add: sr_init_vns_mode_def inst0_def)
  then show ?thesis
    using rest(1,2) rs(2-) by (intro exI [of _ ?inst] exI [of _ rest] exI [of _ r]) (simp add: inst0_def)
qed

section \<open>The log read back\<close>

text \<open>The packets of a log file, as a reader of the format finds them behind the header of the file.\<close>

function read_dump :: "u8 list \<Rightarrow> packet list" where
  "read_dump bs = (if length bs < 16 then []
     else let n = unat (dec32 (drop 8 bs)) in take n (drop 16 bs) # read_dump (drop (16 + n) bs))"
  by pat_completeness auto
termination by (relation "measure length") auto

declare read_dump.simps [simp del]

lemma read_dump_record:
  assumes "unat n = length bs"
  shows "read_dump (enc32 s @ enc32 u @ enc32 n @ enc32 m @ bs @ tail) = bs # read_dump tail"
  using assms by (subst read_dump.simps) (simp add: Let_def)

lemma log_reads_back:
  assumes "sr_logfile inst = Some (header @ records)"
  shows "\<exists>fp. sr_logfile (sr_log_packet env buf inst) = Some (header @ records @ fp)
    \<and> read_dump (fp @ tail) = take SR_PACKET_DUMP_SIZE buf # read_dump tail"
proof -
  let ?b = "take SR_PACKET_DUMP_SIZE buf"
  let ?fp = "enc32 (of_int (clock (sr_router inst))) @ enc32 (ve_usec env) @ enc32 (of_nat (length ?b)) @ enc32 (of_nat (length ?b)) @ ?b"
  have size: "min SR_PACKET_DUMP_SIZE (length buf) = length ?b" by simp
  have n: "unat (of_nat (length ?b) :: u32) = length ?b"
    by (simp only: unsigned_of_nat) (simp add: take_bit_nat_eq_self SR_PACKET_DUMP_SIZE_def min_def)
  have "take (length ?b) buf = ?b" by (simp add: min_def)
  then have "sr_logfile (sr_log_packet env buf inst) = Some (header @ records @ ?fp)"
    using assms by (simp add: sr_log_packet_def sr_dump_def Let_def size n del: length_take)
  moreover have "read_dump (?fp @ tail) = ?b # read_dump tail"
    using read_dump_record [OF n] by (simp only: append_assoc)
  ultimately show ?thesis by blast
qed

section \<open>Samples\<close>

definition sample_vns_env :: vns_env where
  "sample_vns_env = \<lparr>ve_strcmp = strcmp_bytes, ve_cli = sample_env, ve_rtable = [route_text sample_default_route],
     ve_ctable = map content_text sample_contents, ve_usec = 0, ve_stack = sample_vns\<rparr>"

definition sample_instance :: sr_instance where
  "sample_instance = \<lparr>sr_router = empty_router, sr_commands = [], sr_hw_init = True, sr_logfile = None, sr_sent = []\<rparr>"

theorem vns_frames_reach_router_witness:
  "let m = c_packet ''eth0'' (replicate 60 1) in
     vns_main sample_vns_env sample_instance [Data (take 3 m), Interrupted, Data (drop 3 m @ take 30 m), Data (drop 30 m)]
     = map_option (\<lambda>rs. (False, sample_instance\<lparr>sr_router := rs\<rparr>))
         (process_frames [(''eth0'', replicate 60 1), (''eth0'', replicate 60 1)] empty_router)"
proof -
  let ?m = "c_packet ''eth0'' (replicate 60 1)"
  have "length ?m = 84" by (simp add: c_packet_def)
  then have "take 3 ?m \<noteq> []" "drop 3 ?m \<noteq> []" "drop 30 ?m \<noteq> []" by (auto simp: take_eq_Nil drop_eq_Nil)
  then have "connected [Data (take 3 ?m), Interrupted, Data (drop 3 ?m @ take 30 ?m), Data (drop 30 ?m)]" by simp
  moreover have "delivered [Data (take 3 ?m), Interrupted, Data (drop 3 ?m @ take 30 ?m), Data (drop 30 ?m)]
      = concat (map (\<lambda>(iface, buf). c_packet iface buf) [(''eth0'', replicate 60 1), (''eth0'', replicate 60 1)])"
    by (simp only: delivered_simps list.map concat.simps prod.case append_assoc append_Nil2)
      (metis append_assoc append_take_drop_id)
  moreover have "sr_logfile sample_instance = None" "sr_router sample_instance = empty_router" by (simp_all add: sample_instance_def)
  ultimately have "vns_main sample_vns_env sample_instance
        [Data (take 3 ?m), Interrupted, Data (drop 3 ?m @ take 30 ?m), Data (drop 30 ?m)]
      = map_option (\<lambda>rs. (False, sample_instance\<lparr>sr_router := rs\<rparr>))
          (process_frames [(''eth0'', replicate 60 1), (''eth0'', replicate 60 1)] empty_router)"
    using vns_frames_reach_router [of _ "[(''eth0'', replicate 60 1), (''eth0'', replicate 60 1)]" sample_instance sample_vns_env]
    by simp
  then show ?thesis unfolding Let_def .
qed

theorem vns_bad_message_faults_witness:
  "sr_vns_read_from_server sample_vns_env sample_instance [Data [0, 0, 0, 4], Data [0, 0, 0, 4]] = None"
proof -
  have "enc32 (htonl (of_nat 4)) = [0, 0, 0, 4]" by code_simp
  then show ?thesis
    using vns_bad_message_faults [of "[Data [0, 0, 0, 4], Data [0, 0, 0, 4]]" 4 "[0, 0, 0, 4]" sample_vns_env sample_instance]
    by simp
qed

theorem vns_start_installs_configuration_witness:
  "\<exists>inst rest. sr_init_vns_mode sample_vns_env 0 of_nat (netfpga empty_router) False 7 ''vrhost'' ''user''
      [Data (take 100 (hwinfo_message [sample_vns])), Data (drop 100 (hwinfo_message [sample_vns]))] = Some (Returns 0, inst, rest)
    \<and> map if_name (if_list (sr_router inst)) = [''eth0''] \<and> rtable (sr_router inst) = [sample_default_route]"
proof -
  let ?m = "hwinfo_message [sample_vns]"
  have v: "\<forall>v\<in>set [sample_vns]. vns_name v \<in> eth_ports" by (simp add: sample_vns_def eth_ports_def)
  have e: "\<forall>e\<in>set [sample_default_route]. rt_iface e \<in> hw_ports \<and> rt_is_static e \<and> rt_is_active e"
    by (simp add: sample_default_route_def hw_ports_def)
  have c: "\<forall>e\<in>set sample_contents. ct_iface e \<in> hw_ports \<and> ct_is_static e \<and> ct_is_active e"
      "distinct (map content_key sample_contents)" "length sample_contents \<le> 32"
    by (simp_all add: sample_contents_def hw_ports_def content_key_def)
  have f: "ve_rtable sample_vns_env = map route_text [sample_default_route]"
      "ve_ctable sample_vns_env = map content_text sample_contents" "strcmp_reverses (ve_strcmp sample_vns_env)"
    using strcmp_bytes_reverses by (simp_all add: sample_vns_env_def)
  have "length ?m = 188" by (simp add: hwinfo_message_def)
  then have "take 100 ?m \<noteq> []" "drop 100 ?m \<noteq> []" by (auto simp: take_eq_Nil drop_eq_Nil)
  then have i: "connected [Data (take 100 ?m), Data (drop 100 ?m)]" by simp
  have d: "delivered [Data (take 100 ?m), Data (drop 100 ?m)] = ?m @ []"
    by (simp only: delivered_simps append_Nil2 append_take_drop_id)
  obtain inst rest where "sr_init_vns_mode sample_vns_env 0 of_nat (netfpga empty_router) False 7 ''vrhost'' ''user''
      [Data (take 100 ?m), Data (drop 100 ?m)] = Some (Returns 0, inst, rest)"
    "if_list (sr_router inst) = map iface_of [sample_vns]" "rtable (sr_router inst) = [sample_default_route]"
    using vns_start_installs_configuration [OF f(3) v _ e f(1) c(1) f(2) c(2,3) i d, of 0 of_nat "netfpga empty_router" False 7
        "''vrhost''" "''user''"] by auto
  then show ?thesis
    by (intro exI [of _ inst] exI [of _ rest]) (simp add: iface_of_def sample_vns_def)
qed

end
