(* ===== verification/Www.thy ===== *)
theory Www
  imports Cli
begin

text \<open>
  The web interface, or_www.c: the queue of the accepted connections, and the service of a request,
  which lists the commands, runs one, or sends a file. The file system is a function from a path to
  the content of a file; what \<open>recv\<close> returns is as in theory Cli.
\<close>

section \<open>Reading the request\<close>

definition CRLFCRLF :: string where "CRLFCRLF = [CHR 0x0D, CHR 0x0A, CHR 0x0D, CHR 0x0A]"

definition contains_crlfcrlf :: "string \<Rightarrow> bool" where
  "contains_crlfcrlf buf \<longleftrightarrow> (\<exists>i\<in>set [0..<length buf - 3]. take 4 (drop i buf) = CRLFCRLF)"

datatype www_read = Request string | Closed | Pending

text \<open>
  The buffer has \<open>alloc\<close> bytes and is doubled when it is full, so that behind the bytes read there is
  always a NUL.
\<close>

function read_request :: "nat \<Rightarrow> string \<Rightarrow> received list \<Rightarrow> www_read" where
  "read_request alloc buf [] = Pending"
| "read_request alloc buf (Recv_error # input) = Closed"
| "read_request alloc buf (Bytes data # input) =
     (let room = alloc - length buf; got = take room data in
      if got = [] then (if contains_crlfcrlf buf then Request buf else Closed)
      else let buf = buf @ got; rest = (if length data \<le> room then input else Bytes (drop room data) # input) in
        if contains_crlfcrlf buf then Request buf
        else read_request (if length buf = alloc then alloc * 2 else alloc) buf rest)"
  by pat_completeness auto
termination
  by (relation "measure (\<lambda>(alloc, buf, input). sum_list (map (\<lambda>r. case r of Bytes data \<Rightarrow> Suc (length data) | _ \<Rightarrow> 1) input))")
    auto

section \<open>Answers\<close>

text \<open>\<open>send_all\<close> hands at most 8400 bytes to \<open>send\<close>, which takes them.\<close>

function send_all :: "int \<Rightarrow> string \<Rightarrow> router_state \<Rightarrow> router_state" where
  "send_all sockfd msg rs =
     (if msg = [] then rs else send_all sockfd (drop 8400 msg) (send_to_socket sockfd (take 8400 msg) rs))"
  by pat_completeness auto
termination by (relation "measure (\<lambda>(sockfd, msg, rs). length msg)") auto

declare send_all.simps [simp del]

definition crlf :: "string \<Rightarrow> string" where "crlf s = s @ [CHR 0x0D, CHR 0x0A]"

fun list_commands_from :: "cli_commands \<Rightarrow> string \<Rightarrow> nat \<Rightarrow> (string \<times> nat) option" where
  "list_commands_from [] msg alloc = Some (msg, alloc)"
| "list_commands_from ((command, handler) # next) msg alloc = do {
     (msg, alloc) \<leftarrow> my_strncat msg command alloc;
     (msg, alloc) \<leftarrow> my_strncat msg [LF] alloc;
     list_commands_from next msg alloc
   }"

definition list_commands :: "cli_commands \<Rightarrow> router_state \<Rightarrow> (string \<times> router_state) option" where
  "list_commands cmds rs = do {
     rs \<leftarrow> pthread_rwlock_rdlock L_cli_commands rs;
     (msg, alloc) \<leftarrow> list_commands_from cmds [] 256;
     rs \<leftarrow> pthread_rwlock_unlock L_cli_commands rs;
     Some (msg, rs)
   }"

definition serve_list :: "cli_commands \<Rightarrow> int \<Rightarrow> router_state \<Rightarrow> router_state option" where
  "serve_list cmds sockfd rs = do {
     (body, rs) \<leftarrow> list_commands cmds rs;
     (result, alloc) \<leftarrow> my_strncat (crlf ''HTTP/1.0 200 OK'') (''Content-Length: '' @ decimal (length body) @ CRLFCRLF) 512;
     (result, alloc) \<leftarrow> my_strncat result body alloc;
     Some (send_all sockfd result rs)
   }"

text \<open>The second \<open>strcpy\<close> overwrites the status line that the first has put into the 512 bytes.\<close>

definition serve_stats :: "cli_env \<Rightarrow> int \<Rightarrow> router_state \<Rightarrow> router_state option" where
  "serve_stats env sockfd rs =
     (if length (hw_stats env) \<ge> 512 then None else Some (send_all sockfd (hw_stats env) rs))"

text \<open>The token behind the first \<open>=\<close> or \<open>&\<close>, as two calls of \<open>strtok\<close> find it.\<close>

definition is_delim :: "char \<Rightarrow> bool" where "is_delim c \<longleftrightarrow> c = CHR ''='' \<or> c = CHR ''&''"

definition strtok :: "string \<Rightarrow> (string \<times> string) option" where
  "strtok s = (let t = dropWhile is_delim s; w = takeWhile (\<lambda>c. \<not> is_delim c) t in
     if w = [] then None else Some (w, drop (length w + 1) t))"

definition url_command :: "string \<Rightarrow> string" where
  "url_command url = (case strtok url of None \<Rightarrow> [] | Some (w, rest) \<Rightarrow>
     (case strtok rest of None \<Rightarrow> [] | Some (command, rest) \<Rightarrow> urldecode command))"

definition serve_command :: "cli_commands \<Rightarrow> int \<Rightarrow> string \<Rightarrow> router_state \<Rightarrow> router_state option" where
  "serve_command cmds sockfd url rs = do {
     let command = mallocCopy (url_command url);
     let rs = send_all sockfd (''HTTP/1.0 200 OK'' @ CRLFCRLF) rs;
     rs \<leftarrow> pthread_rwlock_rdlock L_cli_commands rs;
     rs \<leftarrow> (case cli_command_lpm cmds command of
        None \<Rightarrow> Some (send_to_socket sockfd (ln ''invalid command'') rs)
      | Some handler \<Rightarrow> handler rs \<lparr>cr_sockfd = sockfd, cr_command = command\<rparr>);
     pthread_rwlock_unlock L_cli_commands rs
   }"

text \<open>\<open>strncat\<close> appends at most as many characters as leave the path at 511.\<close>

definition path_append :: "string \<Rightarrow> string \<Rightarrow> string" where
  "path_append path s = path @ take (511 - length path) s"

definition file_name :: "string \<Rightarrow> string \<Rightarrow> string" where
  "file_name cwd url = path_append (path_append (if length cwd < 512 then cwd else []) ''/www'')
     (if url = ''/'' then ''/index.html'' else url)"

definition send_file :: "int \<Rightarrow> string \<Rightarrow> router_state \<Rightarrow> router_state" where
  "send_file sockfd content rs = send_all sockfd content
     (send_all sockfd (snprintf 127 (''Content-Length: '' @ decimal (length content) @ CRLFCRLF)) rs)"

definition serve_file :: "(string \<Rightarrow> string option) \<Rightarrow> string \<Rightarrow> int \<Rightarrow> string \<Rightarrow> router_state \<Rightarrow> router_state" where
  "serve_file files cwd sockfd url rs = (case files (file_name cwd url) of
     None \<Rightarrow> send_to_socket sockfd (''<html><head><title>404 Not Found</title></head><body><h1>Not Found</h1>''
         @ ''<p>The requested URL was not found on this server.</p></body></html>'')
       (send_to_socket sockfd (''HTTP/1.0 404 Not Found'' @ CRLFCRLF) rs)
   | Some content \<Rightarrow> send_file sockfd content (send_to_socket sockfd (crlf ''HTTP/1.0 200 OK'') rs))"

definition answer_request ::
    "(string \<Rightarrow> string option) \<Rightarrow> string \<Rightarrow> cli_env \<Rightarrow> cli_commands \<Rightarrow> int \<Rightarrow> string \<Rightarrow> router_state \<Rightarrow> router_state option" where
  "answer_request files cwd env cmds sockfd buf rs = (case sscanf [Word, Skip, Word] (c_str (buf @ [CHR 0x00])) of
     [S meth, S url] \<Rightarrow>
       if url = ''/list.html'' then serve_list cmds sockfd rs
       else if strncmp_eq url ''/stats.html'' 11 then serve_stats env sockfd rs
       else if strncmp_eq url ''/command.html'' 13 then serve_command cmds sockfd url rs
       else Some (serve_file files cwd sockfd url rs)
   | _ \<Rightarrow> Some rs)"

definition service_request ::
    "(string \<Rightarrow> string option) \<Rightarrow> string \<Rightarrow> cli_env \<Rightarrow> cli_commands \<Rightarrow> int \<Rightarrow> received list \<Rightarrow> router_state \<Rightarrow> router_state option" where
  "service_request files cwd env cmds sockfd input rs = (case read_request 100 [] input of
     Request buf \<Rightarrow> answer_request files cwd env cmds sockfd buf rs | _ \<Rightarrow> Some rs)"

section \<open>The queue of connections\<close>

text \<open>\<open>www_main\<close> appends a connection; a thread takes the first one, or waits.\<close>

definition www_accept :: "int \<Rightarrow> int list \<Rightarrow> int list" where
  "www_accept clientfd queue = queue @ [clientfd]"

definition www_client_round ::
    "(int \<Rightarrow> router_state \<Rightarrow> router_state option) \<Rightarrow> int list \<Rightarrow> router_state \<Rightarrow> (int list \<times> router_state) option" where
  "www_client_round service queue rs = (case queue of [] \<Rightarrow> Some ([], rs)
     | sockfd # next \<Rightarrow> do { rs \<leftarrow> service sockfd rs; Some (next, rs) })"

section \<open>A request that arrives in pieces\<close>

lemma read_request_complete:
  assumes "length buf < alloc" "buf @ concat pieces = req" "[] \<notin> set pieces" "pieces \<noteq> []"
    "contains_crlfcrlf req" "\<forall>k<length req. \<not> contains_crlfcrlf (take k req)"
  shows "read_request alloc buf (map Bytes pieces) = Request req"
  using assms(1-4)
proof (induction "length req - length buf" arbitrary: buf alloc pieces rule: less_induct)
  case less
  obtain data rest where p: "pieces = data # rest" using less.prems(4) by (cases pieces) simp_all
  have data: "data \<noteq> []" "[] \<notin> set rest" using less.prems(3) by (auto simp: p)
  have part: "\<not> contains_crlfcrlf (buf @ x)" if "buf @ x @ y = req" "y \<noteq> []" for x y
    using assms(6) [rule_format, of "length (buf @ x)"] that by auto
  show ?case
  proof (cases "length data \<le> alloc - length buf")
    case True
    show ?thesis
    proof (cases "rest = []")
      case True
      then have "buf @ data = req" using less.prems(2) by (simp add: p)
      then show ?thesis
        using True \<open>length data \<le> alloc - length buf\<close> data assms(5) less.prems(1) by (simp add: p Let_def)
    next
      case False
      then have "concat rest \<noteq> []" using data(2) by (cases rest) auto
      then have "\<not> contains_crlfcrlf (buf @ data)" using part [of data "concat rest"] less.prems(2) by (simp add: p)
      moreover have "length req - length (buf @ data) < length req - length buf"
        using less.prems(2) data(1) by (auto simp: p)
      moreover have "length (buf @ data) < (if length (buf @ data) = alloc then alloc * 2 else alloc)"
        using True less.prems(1) by auto
      ultimately have "read_request (if length (buf @ data) = alloc then alloc * 2 else alloc) (buf @ data) (map Bytes rest) = Request req"
        using data(2) False less.prems(2) by (intro less.hyps) (simp_all add: p)
      then show ?thesis using True data less.prems(1) \<open>\<not> contains_crlfcrlf (buf @ data)\<close> by (simp add: p Let_def)
    qed
  next
    case False
    let ?x = "take (alloc - length buf) data" and ?y = "drop (alloc - length buf) data"
    have x: "?x \<noteq> []" "?y \<noteq> []" "length (buf @ ?x) = alloc" using False less.prems(1) data(1) by auto
    have whole: "buf @ ?x @ ?y @ concat rest = req" using less.prems(2) by (metis append_assoc append_take_drop_id concat.simps(2) p)
    then have "\<not> contains_crlfcrlf (buf @ ?x)" using part [of ?x "?y @ concat rest"] x(2) by simp
    moreover have "length req - length (buf @ ?x) < length req - length buf"
      using less.prems(2) x(1) by (auto simp: p)
    ultimately have "read_request (alloc * 2) (buf @ ?x) (map Bytes (?y # rest)) = Request req"
      using x data(2) less.prems(1) whole by (intro less.hyps) (simp_all add: p)
    moreover have "read_request alloc buf (map Bytes pieces) = read_request (alloc * 2) (buf @ ?x) (map Bytes (?y # rest))"
      using False x \<open>\<not> contains_crlfcrlf (buf @ ?x)\<close> unfolding p list.map read_request.simps Let_def by simp
    ultimately show ?thesis by simp
  qed
qed

lemma crlfcrlf_at_end:
  assumes "CHR 0x0D \<notin> set s"
  shows "contains_crlfcrlf (s @ CRLFCRLF)" "\<forall>k<length (s @ CRLFCRLF). \<not> contains_crlfcrlf (take k (s @ CRLFCRLF))"
proof -
  show "contains_crlfcrlf (s @ CRLFCRLF)"
    unfolding contains_crlfcrlf_def by (intro bexI [of _ "length s"]) (simp_all add: CRLFCRLF_def)
  show "\<forall>k<length (s @ CRLFCRLF). \<not> contains_crlfcrlf (take k (s @ CRLFCRLF))"
  proof (intro allI impI notI)
    fix k assume k: "k < length (s @ CRLFCRLF)" and c: "contains_crlfcrlf (take k (s @ CRLFCRLF))"
    define t where "t = take k (s @ CRLFCRLF)"
    have len: "length t = k" using k by (simp add: t_def)
    from c have "contains_crlfcrlf t" unfolding t_def .
    then obtain i where i: "i < k - 3" "take 4 (drop i t) = CRLFCRLF" by (auto simp: contains_crlfcrlf_def len)
    have "t ! i = take 4 (drop i t) ! 0" using i(1) len by simp
    then have "t ! i = CRLFCRLF ! 0" by (simp only: i(2))
    moreover have "i < length s" using i(1) k by (simp add: CRLFCRLF_def)
    ultimately have "s ! i = CHR 0x0D" using i(1) by (auto simp: t_def nth_append CRLFCRLF_def split: if_splits)
    then show False using assms \<open>i < length s\<close> by (metis nth_mem)
  qed
qed

section \<open>A command in a URL\<close>

definition command_request :: "string \<Rightarrow> string" where
  "command_request command = ''GET /command.html?command='' @ urlencode command @ '' HTTP/1.0'' @ CRLFCRLF"

definition url_char :: "char \<Rightarrow> bool" where
  "url_char c \<longleftrightarrow> c = CHR ''%'' \<or> (let n = of_char c :: nat in
     (48 \<le> n \<and> n \<le> 57) \<or> (97 \<le> n \<and> n \<le> 122) \<or> (65 \<le> n \<and> n \<le> 90))"

lemma url_char_digit: "k < 16 \<Longrightarrow> url_char (digit k)"
  by (simp add: url_char_def of_char_digit Let_def)

lemma urlencode_url_char: "c \<in> set (urlencode str) \<Longrightarrow> url_char c"
proof (induction str)
  case (Cons x str)
  then show ?case
  proof (cases "url_char x \<and> x \<noteq> CHR ''%''")
    case True
    then have "urlencode (x # str) = x # urlencode str" by (auto simp: url_char_def Let_def)
    then show ?thesis using Cons True by auto
  next
    case False
    then have "urlencode (x # str) = CHR ''%'' # digit (of_char x div 16 mod 16) # digit (of_char x mod 16) # urlencode str"
      by (auto simp: url_char_def Let_def)
    moreover have "url_char (CHR ''%'')" by (simp add: url_char_def)
    ultimately show ?thesis using Cons url_char_digit [of "of_char x div 16 mod 16"] url_char_digit [of "of_char x mod 16"] by auto
  qed
qed simp

lemma urlencode_plain:
  assumes "c \<in> set (urlencode str)"
  shows "\<not> isspace c" "\<not> is_delim c" "c \<noteq> CHR 0x0D" "c \<noteq> CHR 0x00"
  using urlencode_url_char [OF assms] by (auto simp: isspace_def is_delim_def url_char_def)

lemma c_str_NUL: "CHR 0x00 \<notin> set s \<Longrightarrow> c_str (s @ [CHR 0x00]) = s"
  by (subst c_str_append) (simp_all add: c_str_def)

lemma words_of_request:
  assumes "\<forall>c\<in>set url. \<not> isspace c" "url \<noteq> []"
  shows "sscanf [Word, Skip, Word] (''GET '' @ url @ '' HTTP/1.0'' @ s) = [S ''GET'', S url]"
proof -
  have t: "takeWhile (\<lambda>c. \<not> isspace c) (url @ CHR '' '' # r) = url" for r
    using assms(1) by (subst takeWhile_append2) (auto simp: isspace_def)
  obtain u us where u: "url = u # us" "\<not> isspace u" using assms by (cases url) auto
  have d: "dropWhile isspace (url @ r) = url @ r" for r using u by simp
  show ?thesis
    using t d by (simp add: isspace_def [of "CHR ''G''"] isspace_def [of "CHR ''E''"] isspace_def [of "CHR ''T''"]
        isspace_def [of "CHR '' ''"] Let_def assms(2))
qed

lemma url_command_encoded:
  assumes "CHR 0x00 \<notin> set command" "command \<noteq> []"
  shows "url_command (''/command.html?command='' @ urlencode command) = command"
proof -
  have e: "\<forall>c\<in>set (urlencode command). \<not> is_delim c" using urlencode_plain(2) by blast
  have n: "urlencode command \<noteq> []" using assms(2) by (cases command) (simp_all add: Let_def)
  have "strtok (''/command.html?command='' @ urlencode command) = Some (''/command.html?command'', urlencode command)"
    by (simp add: strtok_def is_delim_def Let_def)
  moreover have "strtok (urlencode command) = Some (urlencode command, [])"
  proof -
    have dw: "dropWhile is_delim (urlencode command) = urlencode command"
      using e n by (cases "urlencode command") simp_all
    have tw: "takeWhile (\<lambda>c. \<not> is_delim c) (urlencode command) = urlencode command"
      using e by (simp add: takeWhile_eq_all_conv)
    show ?thesis using n by (simp add: strtok_def Let_def dw tw)
  qed
  ultimately show ?thesis
    using assms(1) by (simp add: url_command_def urldecode_def urldecode_buf_encode c_str_id)
qed

text \<open>C21: a command that comes as a URL is the command that was meant. For every command that the command
  line knows, the request for \<open>command.html\<close> with the encoded command, received in any pieces, runs
  the same handler with the same text, with the list of commands locked for reading, after the
  status line was sent.\<close>

theorem web_command_runs_handler:
  assumes "concat pieces = command_request command" "[] \<notin> set pieces" "CHR 0x00 \<notin> set command" "command \<noteq> []"
    "cli_command_lpm cmds command = Some handler"
  shows "service_request files cwd env cmds sockfd (map Bytes pieces) rs = do {
      rs \<leftarrow> pthread_rwlock_rdlock L_cli_commands (send_to_socket sockfd (''HTTP/1.0 200 OK'' @ CRLFCRLF) rs);
      rs \<leftarrow> handler rs \<lparr>cr_sockfd = sockfd, cr_command = command\<rparr>;
      pthread_rwlock_unlock L_cli_commands rs
    }"
proof -
  let ?url = "''/command.html?command='' @ urlencode command"
  let ?s = "''GET '' @ ?url @ '' HTTP/1.0''"
  have req: "command_request command = ?s @ CRLFCRLF" by (simp add: command_request_def)
  have "CHR 0x0D \<notin> set ?s" using urlencode_plain(3) by auto
  from crlfcrlf_at_end [OF this] have "read_request 100 [] (map Bytes pieces) = Request (command_request command)"
    using assms(1,2) unfolding req by (intro read_request_complete) (auto simp: CRLFCRLF_def)
  moreover have "CHR 0x00 \<notin> set (command_request command)"
    using urlencode_plain(4) by (auto simp: command_request_def CRLFCRLF_def)
  then have "c_str (command_request command @ [CHR 0x00]) = command_request command"
    by (rule c_str_NUL)
  moreover have "\<forall>c\<in>set ?url. \<not> isspace c" using urlencode_plain(1) by (auto simp: isspace_def)
  then have "sscanf [Word, Skip, Word] (command_request command) = [S ''GET'', S ?url]"
    using words_of_request [of ?url CRLFCRLF] by (simp only: req append_assoc) simp
  moreover have "send_all sockfd (''HTTP/1.0 200 OK'' @ CRLFCRLF) rs = send_to_socket sockfd (''HTTP/1.0 200 OK'' @ CRLFCRLF) rs"
    by (simp add: send_all.simps CRLFCRLF_def)
  ultimately show ?thesis
    using url_command_encoded [OF assms(3,4)] assms(5)
    by (simp add: service_request_def answer_request_def serve_command_def strncmp_eq_def)
qed

section \<open>Paths\<close>

text \<open>What a path stands for: the names from the root, with \<open>..\<close> taking the last one away.\<close>

fun walk_path :: "string list \<Rightarrow> string list \<Rightarrow> string list" where
  "walk_path here [] = here"
| "walk_path here (name # next) =
     walk_path (if name = '''' \<or> name = ''.'' then here else if name = ''..'' then butlast here else here @ [name]) next"

definition canonical :: "string \<Rightarrow> string list" where
  "canonical path = walk_path [] (split_at (CHR ''/'') path)"

lemma walk_path_append: "walk_path here (xs @ ys) = walk_path (walk_path here xs) ys"
  by (induction xs arbitrary: here) simp_all

lemma split_at_nonempty: "split_at d s \<noteq> []"
  by (induction s) (auto split: list.splits)

lemma split_at_join: "split_at d (s @ d # t) = split_at d s @ split_at d t"
  by (induction s) (auto simp: split_at_nonempty split: list.splits)

lemma canonical_join: "canonical (s @ CHR ''/'' # t) = walk_path (canonical s) (split_at (CHR ''/'') t)"
  by (simp add: canonical_def split_at_join walk_path_append)

text \<open>The web interface sends files from outside its document root. A path with \<open>..\<close> is not refused: the
  request for \<open>/../\<close> and a name is answered with the file of that name in the directory of the program,
  beside the root \<open>www\<close>, and with more of them any file can be had.\<close>

theorem web_leaves_document_root:
  assumes "\<forall>path. files path = disk (canonical path)" "disk (canonical (cwd @ ''/'' @ name)) = Some content"
    "\<forall>c\<in>set name. \<not> isspace c \<and> c \<noteq> CHR 0x00" "length cwd + length name + 8 \<le> 511"
    "concat pieces = ''GET /../'' @ name @ '' HTTP/1.0'' @ CRLFCRLF" "[] \<notin> set pieces"
  shows "service_request files cwd env cmds sockfd (map Bytes pieces) rs
    = Some (send_file sockfd content (send_to_socket sockfd (crlf ''HTTP/1.0 200 OK'') rs))"
proof -
  let ?url = "''/../'' @ name"
  let ?s = "''GET '' @ ?url @ '' HTTP/1.0''"
  have req: "concat pieces = ?s @ CRLFCRLF" using assms(5) by simp
  have "CHR 0x0D \<notin> set ?s" using assms(3) by (auto simp: isspace_def)
  from crlfcrlf_at_end [OF this] have read: "read_request 100 [] (map Bytes pieces) = Request (?s @ CRLFCRLF)"
    using req assms(6) by (intro read_request_complete) (auto simp: CRLFCRLF_def)
  have "CHR 0x00 \<notin> set (?s @ CRLFCRLF)" using assms(3) by (auto simp: CRLFCRLF_def)
  then have line: "c_str ((?s @ CRLFCRLF) @ [CHR 0x00]) = ?s @ CRLFCRLF"
    by (rule c_str_NUL)
  have words: "sscanf [Word, Skip, Word] (?s @ CRLFCRLF) = [S ''GET'', S ?url]"
    using words_of_request [of ?url CRLFCRLF] assms(3) by (simp only: append_assoc) (auto simp: isspace_def)
  have "file_name cwd ?url = cwd @ ''/www/../'' @ name"
    using assms(4) by (simp add: file_name_def path_append_def)
  moreover have "canonical (cwd @ ''/www/../'' @ name) = canonical (cwd @ ''/'' @ name)"
    using canonical_join [of cwd "''www/../'' @ name"] canonical_join [of cwd name] by simp
  ultimately have "files (file_name cwd ?url) = Some content" using assms(1,2) by simp
  then have "serve_file files cwd sockfd ?url rs = send_file sockfd content (send_to_socket sockfd (crlf ''HTTP/1.0 200 OK'') rs)"
    by (simp add: serve_file_def)
  moreover have "answer_request files cwd env cmds sockfd (?s @ CRLFCRLF) rs = Some (serve_file files cwd sockfd ?url rs)"
    unfolding answer_request_def line words by (simp add: strncmp_eq_def)
  ultimately show ?thesis by (simp only: service_request_def read www_read.case)
qed

section \<open>Samples\<close>

theorem web_command_runs_handler_witness:
  "service_request (\<lambda>_. None) ''/'' sample_env [(''help'', cli_help)] 3
      (map Bytes [''GET /command.html?comm'', ''and=help HTTP/1.0'' @ [CHR 0x0D, CHR 0x0A], [CHR 0x0D, CHR 0x0A]]) empty_router
    = do {
      rs \<leftarrow> pthread_rwlock_rdlock L_cli_commands (send_to_socket 3 (''HTTP/1.0 200 OK'' @ CRLFCRLF) empty_router);
      rs \<leftarrow> cli_help rs \<lparr>cr_sockfd = 3, cr_command = ''help''\<rparr>;
      pthread_rwlock_unlock L_cli_commands rs
    }"
proof (rule web_command_runs_handler)
  show "concat [''GET /command.html?comm'', ''and=help HTTP/1.0'' @ [CHR 0x0D, CHR 0x0A], [CHR 0x0D, CHR 0x0A]]
      = command_request ''help''"
    by code_simp
  show "cli_command_lpm [(''help'', cli_help)] ''help'' = Some cli_help"
    by (simp add: cli_command_lpm_def strncmp_eq_def)
qed simp_all

definition sample_disk :: "string list \<Rightarrow> string option" where
  "sample_disk path = (if path = [''home'', ''scone'', ''rtable''] then Some ''secret'' else None)"

theorem web_leaves_document_root_witness:
  "service_request (\<lambda>path. sample_disk (canonical path)) ''/home/scone'' sample_env [] 3
      (map Bytes [''GET /../rtable HTTP/1.0'' @ CRLFCRLF]) empty_router
    = Some (send_file 3 ''secret'' (send_to_socket 3 (crlf ''HTTP/1.0 200 OK'') empty_router))"
proof (rule web_leaves_document_root)
  show "\<forall>path. sample_disk (canonical path) = sample_disk (canonical path)" by simp
  show "sample_disk (canonical (''/home/scone'' @ ''/'' @ ''rtable'')) = Some ''secret''"
    by (simp add: sample_disk_def canonical_def)
qed (simp_all add: isspace_def)

end
