(* ===== verification/Nf2_Driver.thy ===== *)
theory Nf2_Driver
  imports Prelude
begin

text \<open>
  The kernel driver of the card: \<open>nf2_control.c\<close> and \<open>nf2util.c\<close> under \<open>src/lib/C/kernel\<close>,
  with the structures of \<open>nf2kernel.h\<close>. It holds the transmit ring, the two DMA engines, the interrupt
  handler and the operations of the network devices.

  What is outside the driver is in \<open>nf2_env\<close>: the answer of the card to a read, which depends on all
  accesses before; the outcome of the kernel's allocations; the bytes that the card has put in
  the receive buffer. The kernel's side of the driver's calls is kept in the card: the buffers that were
  freed, the frames handed to the stack, the DMA mappings that exist. To use a
  freed buffer, to free it again, to remove a mapping that does not exist and to take a spinlock
  that is held are faults. Each handler is a step; \<open>Nf2_Send\<close> has the interleavings of \<open>nf2c_send\<close>.
\<close>

section \<open>The card\<close>

type_synonym u64 = "64 word"

datatype io_access = Ioread u32 | Iowrite u32 u32

text \<open>A socket buffer: \<open>skb_addr\<close> is the bus address of its data.\<close>

record skb =
  skb_id :: nat
  skb_len :: u32
  skb_addr :: u32

record txbuff =
  txb_skb :: skb
  txb_iface :: nat

text \<open>A network device with its \<open>nf2_iface_priv\<close>.\<close>

record nf2_netdev =
  carrier_on :: bool
  queue_stopped :: bool
  dev_addr :: "u8 list"
  rx_packets :: u64
  rx_bytes :: u64
  rx_dropped :: u64
  tx_packets :: u64
  tx_bytes :: u64
  tx_errors :: u64

datatype dma_direction = PCI_DMA_TODEVICE | PCI_DMA_FROMDEVICE

text \<open>A slot of the ring that was never written is \<open>None\<close>. \<open>pool_addr\<close> is the bus address of the receive buffer.\<close>

record nf2_card =
  io :: "io_access list"
  is_ctrl :: bool
  tx_pool_size :: nat
  txbuffs :: "txbuff option list"
  wr_txbuff :: nat
  rd_txbuff :: nat
  free_txbuffs :: nat
  free_txbuffs_port :: "int list"
  txbuff_lock :: bool
  dma_tx_addr :: u32
  dma_rx_addr :: u32
  dma_tx_in_progress :: int
  dma_rx_in_progress :: int
  dma_can_wr_pkt :: u32
  pool_addr :: u32
  ndev :: "nf2_netdev list"
  ifup :: u32
  state_lock :: int
  irq_handler :: bool
  freed :: "nat list"
  netif_rx :: "(nat \<times> u8 list) list"
  dma_maps :: "(u32 \<times> u32 \<times> dma_direction) list"

record nf2_env =
  card_read :: "io_access list \<Rightarrow> u32 \<Rightarrow> u32"
  skb_pad :: "skb \<Rightarrow> u32 \<Rightarrow> u32 option"
  dev_alloc_skb :: "u32 \<Rightarrow> bool"
  rx_buffer :: "io_access list \<Rightarrow> nat \<Rightarrow> u8"

text \<open>\<open>skb_pad\<close> gives the address of the padded data; \<open>None\<close> if it failed and freed the buffer.\<close>

definition MAX_IFACE :: nat where "MAX_IFACE = 4"
definition MAX_DMA_LEN :: u32 where "MAX_DMA_LEN = 2048"

definition CPCI_REG_RESET :: u32 where "CPCI_REG_RESET = 0x00c"
definition CPCI_REG_ERROR :: u32 where "CPCI_REG_ERROR = 0x010"
definition CPCI_REG_INTERRUPT_MASK :: u32 where "CPCI_REG_INTERRUPT_MASK = 0x040"
definition CPCI_REG_INTERRUPT_STATUS :: u32 where "CPCI_REG_INTERRUPT_STATUS = 0x044"
definition CPCI_REG_PROG_STATUS :: u32 where "CPCI_REG_PROG_STATUS = 0x104"
definition CPCI_REG_DMA_I_ADDR :: u32 where "CPCI_REG_DMA_I_ADDR = 0x140"
definition CPCI_REG_DMA_E_ADDR :: u32 where "CPCI_REG_DMA_E_ADDR = 0x144"
definition CPCI_REG_DMA_I_SIZE :: u32 where "CPCI_REG_DMA_I_SIZE = 0x148"
definition CPCI_REG_DMA_E_SIZE :: u32 where "CPCI_REG_DMA_E_SIZE = 0x14c"
definition CPCI_REG_DMA_I_CTRL :: u32 where "CPCI_REG_DMA_I_CTRL = 0x150"
definition CPCI_REG_DMA_E_CTRL :: u32 where "CPCI_REG_DMA_E_CTRL = 0x154"
definition CPCI_REG_DMA_QUEUE_STATUS :: u32 where "CPCI_REG_DMA_QUEUE_STATUS = 0x158"
definition CNET_REG_CTRL :: u32 where "CNET_REG_CTRL = 0x400004"
definition CNET_REG_RESET :: u32 where "CNET_REG_RESET = 0x400008"
definition CNET_REG_ERROR :: u32 where "CNET_REG_ERROR = 0x40000c"
definition CNET_REG_ENABLE :: u32 where "CNET_REG_ENABLE = 0x400010"
definition MDIO_0_BASE :: u32 where "MDIO_0_BASE = 0x0440000"
definition MDIO_0_PHY_ID_LO_REG :: u32 where "MDIO_0_PHY_ID_LO_REG = 0x0440008"
definition MDIO_0_PHY_ID_HI_REG :: u32 where "MDIO_0_PHY_ID_HI_REG = 0x044000C"
definition MDIO_0_AUX_STATUS :: u32 where "MDIO_0_AUX_STATUS = 0x0440064"
definition MDIO_0_INTR_STATUS :: u32 where "MDIO_0_INTR_STATUS = 0x0440068"
definition ADDRESS_DELTA :: u32 where "ADDRESS_DELTA = 0x80"

definition INT_DMA_RX_COMPLETE :: u32 where "INT_DMA_RX_COMPLETE = 0x80000000"
definition INT_DMA_TX_COMPLETE :: u32 where "INT_DMA_TX_COMPLETE = 0x40000000"
definition INT_PHY_INTERRUPT :: u32 where "INT_PHY_INTERRUPT = 0x20000000"
definition INT_DMA_QUEUE_STATUS_CHANGE :: u32 where "INT_DMA_QUEUE_STATUS_CHANGE = 0x200"
definition INT_PKT_AVAIL :: u32 where "INT_PKT_AVAIL = 0x100"
definition INT_CNET_ERROR :: u32 where "INT_CNET_ERROR = 0x20"
definition INT_DMA_TRANSFER_ERROR :: u32 where "INT_DMA_TRANSFER_ERROR = 4"
definition INT_DMA_SETUP_ERROR :: u32 where "INT_DMA_SETUP_ERROR = 2"
definition INT_DMA_FATAL_ERROR :: u32 where "INT_DMA_FATAL_ERROR = 1"

definition ERESTARTSYS :: int where "ERESTARTSYS = 512"

lemmas driver_consts = MAX_IFACE_def MAX_DMA_LEN_def CPCI_REG_RESET_def CPCI_REG_ERROR_def
  CPCI_REG_INTERRUPT_MASK_def CPCI_REG_INTERRUPT_STATUS_def CPCI_REG_PROG_STATUS_def
  CPCI_REG_DMA_I_ADDR_def CPCI_REG_DMA_E_ADDR_def CPCI_REG_DMA_I_SIZE_def CPCI_REG_DMA_E_SIZE_def
  CPCI_REG_DMA_I_CTRL_def CPCI_REG_DMA_E_CTRL_def CPCI_REG_DMA_QUEUE_STATUS_def CNET_REG_CTRL_def
  CNET_REG_RESET_def CNET_REG_ERROR_def CNET_REG_ENABLE_def MDIO_0_BASE_def MDIO_0_PHY_ID_LO_REG_def
  MDIO_0_PHY_ID_HI_REG_def MDIO_0_AUX_STATUS_def MDIO_0_INTR_STATUS_def ADDRESS_DELTA_def
  INT_DMA_RX_COMPLETE_def INT_DMA_TX_COMPLETE_def INT_PHY_INTERRUPT_def INT_DMA_QUEUE_STATUS_CHANGE_def
  INT_PKT_AVAIL_def INT_CNET_ERROR_def INT_DMA_TRANSFER_ERROR_def INT_DMA_SETUP_ERROR_def
  INT_DMA_FATAL_ERROR_def ERESTARTSYS_def

section \<open>Access to the card and calls of the kernel\<close>

definition ioread32 :: "nf2_env \<Rightarrow> u32 \<Rightarrow> nf2_card \<Rightarrow> u32 \<times> nf2_card" where
  "ioread32 e addr c = (card_read e (io c) addr, c\<lparr>io := io c @ [Ioread addr]\<rparr>)"

definition iowrite32 :: "u32 \<Rightarrow> u32 \<Rightarrow> nf2_card \<Rightarrow> nf2_card" where
  "iowrite32 v addr c = c\<lparr>io := io c @ [Iowrite v addr]\<rparr>"

definition nf2_write_flush :: "nf2_env \<Rightarrow> nf2_card \<Rightarrow> nf2_card" where
  "nf2_write_flush e c = snd (ioread32 e 0 c)"

definition nf2_enable_irq :: "nf2_env \<Rightarrow> nf2_card \<Rightarrow> nf2_card" where
  "nf2_enable_irq e c = nf2_write_flush e (iowrite32 0 CPCI_REG_INTERRUPT_MASK c)"

definition nf2_disable_irq :: "nf2_env \<Rightarrow> nf2_card \<Rightarrow> nf2_card" where
  "nf2_disable_irq e c = nf2_write_flush e (iowrite32 0xFFFFFFFF CPCI_REG_INTERRUPT_MASK c)"

definition nf2_hw_reset :: "nf2_env \<Rightarrow> nf2_card \<Rightarrow> nf2_card" where
  "nf2_hw_reset e c =
     (let c = iowrite32 1 CPCI_REG_RESET c;
          c = (if is_ctrl c
               then let c = iowrite32 0x100 CNET_REG_CTRL c; c = iowrite32 (8 OR 4 OR 2 OR 1) CNET_REG_RESET c
                    in iowrite32 0 CNET_REG_ENABLE c
               else c)
      in nf2_write_flush e c)"

definition nf2_reset_cpci :: "nf2_env \<Rightarrow> nf2_card \<Rightarrow> nf2_card" where
  "nf2_reset_cpci e c =
     (let (intmask, c) = ioread32 e CPCI_REG_INTERRUPT_MASK c;
          c = iowrite32 1 CPCI_REG_RESET c;
          c = iowrite32 intmask CPCI_REG_INTERRUPT_MASK c
      in nf2_write_flush e c)"

definition with_dev :: "nat \<Rightarrow> (nf2_netdev \<Rightarrow> nf2_netdev) \<Rightarrow> nf2_card \<Rightarrow> nf2_card" where
  "with_dev i f c = c\<lparr>ndev := (ndev c)[i := f (ndev c ! i)]\<rparr>"

definition netif_carrier :: "bool \<Rightarrow> nat \<Rightarrow> nf2_card \<Rightarrow> nf2_card" where
  "netif_carrier on i = with_dev i (\<lambda>d. d\<lparr>carrier_on := on\<rparr>)"

definition netif_stop_queue :: "nat \<Rightarrow> nf2_card \<Rightarrow> nf2_card" where
  "netif_stop_queue i = with_dev i (\<lambda>d. d\<lparr>queue_stopped := True\<rparr>)"

definition netif_wake_queue :: "nat \<Rightarrow> nf2_card \<Rightarrow> nf2_card" where
  "netif_wake_queue i = with_dev i (\<lambda>d. d\<lparr>queue_stopped := False\<rparr>)"

definition use_skb :: "nf2_card \<Rightarrow> skb \<Rightarrow> skb option" where
  "use_skb c skb = (if skb_id skb \<in> set (freed c) then None else Some skb)"

definition dev_kfree_skb :: "skb \<Rightarrow> nf2_card \<Rightarrow> nf2_card option" where
  "dev_kfree_skb skb c = do { skb \<leftarrow> use_skb c skb; Some (c\<lparr>freed := freed c @ [skb_id skb]\<rparr>) }"

definition pci_map_single :: "u32 \<Rightarrow> u32 \<Rightarrow> dma_direction \<Rightarrow> nf2_card \<Rightarrow> nf2_card" where
  "pci_map_single addr len d c = c\<lparr>dma_maps := (addr, len, d) # dma_maps c\<rparr>"

definition pci_unmap_single :: "u32 \<Rightarrow> u32 \<Rightarrow> dma_direction \<Rightarrow> nf2_card \<Rightarrow> nf2_card option" where
  "pci_unmap_single addr len d c =
     (if (addr, len, d) \<in> set (dma_maps c) then Some (c\<lparr>dma_maps := remove1 (addr, len, d) (dma_maps c)\<rparr>) else None)"

definition spin_lock :: "nf2_card \<Rightarrow> nf2_card option" where
  "spin_lock c = (if txbuff_lock c then None else Some (c\<lparr>txbuff_lock := True\<rparr>))"

definition spin_unlock :: "nf2_card \<Rightarrow> nf2_card" where
  "spin_unlock c = c\<lparr>txbuff_lock := False\<rparr>"

text \<open>The slot at the front of the ring.\<close>

definition front :: "nf2_card \<Rightarrow> txbuff option" where
  "front c = (if rd_txbuff c < length (txbuffs c) then txbuffs c ! rd_txbuff c else None)"

section \<open>Transmission\<close>

definition nf2c_send :: "nf2_env \<Rightarrow> nf2_card \<Rightarrow> (int \<times> nf2_card) option" where
  "nf2c_send e c =
     (if dma_tx_in_progress c + 1 \<noteq> 1 then Some (1, c)
      else if free_txbuffs c = tx_pool_size c then Some (1, c)
      else do {
        t \<leftarrow> front c;
        let rd_iface = txb_iface t;
        if dma_can_wr_pkt c AND push_bit rd_iface 1 = 0 then Some (1, c)
        else do {
          skb \<leftarrow> use_skb c (txb_skb t);
          let c = pci_map_single (skb_addr skb) (skb_len skb) PCI_DMA_TODEVICE
                    (c\<lparr>dma_tx_in_progress := 1, dma_tx_addr := skb_addr skb\<rparr>);
          let c = iowrite32 (dma_tx_addr c) CPCI_REG_DMA_E_ADDR c;
          let (dma_len, c) =
            (if skb_len skb < 60
             then (60, case skb_pad e skb (60 - skb_len skb) of
                     None \<Rightarrow> c\<lparr>freed := freed c @ [skb_id skb]\<rparr>
                   | Some addr \<Rightarrow> c\<lparr>txbuffs := (txbuffs c)[rd_txbuff c := Some (t\<lparr>txb_skb := skb\<lparr>skb_addr := addr\<rparr>\<rparr>)]\<rparr>)
             else (skb_len skb, c));
          let c = iowrite32 dma_len CPCI_REG_DMA_E_SIZE c;
          Some (0, iowrite32 (push_bit 8 (of_nat rd_iface) OR 1) CPCI_REG_DMA_E_CTRL c)
        }
      })"

definition nf2c_tx :: "nf2_env \<Rightarrow> skb \<Rightarrow> nat \<Rightarrow> nf2_card \<Rightarrow> (int \<times> nf2_card) option" where
  "nf2c_tx e skb iface c = do {
     c \<leftarrow> spin_lock c;
     (err, c) \<leftarrow>
       (if free_txbuffs c = 0 then Some (1, c)
        else do {
          let c = c\<lparr>txbuffs := (txbuffs c)[wr_txbuff c := Some \<lparr>txb_skb = skb, txb_iface = iface\<rparr>]\<rparr>;
          let c = c\<lparr>wr_txbuff := (wr_txbuff c + 1) mod tx_pool_size c\<rparr>;
          let c = c\<lparr>free_txbuffs := free_txbuffs c - 1\<rparr>;
          let c = c\<lparr>free_txbuffs_port := (free_txbuffs_port c)[iface := free_txbuffs_port c ! iface - 1]\<rparr>;
          let c = (if free_txbuffs_port c ! iface = 0 then netif_stop_queue iface c else c);
          (_, c) \<leftarrow> nf2c_send e c;
          Some (0, c)
        });
     Some (err, spin_unlock c)
   }"

text \<open>The slot at the front is given back, with the spinlock held.\<close>

definition txbuff_done :: "nat \<Rightarrow> nf2_card \<Rightarrow> nf2_card" where
  "txbuff_done ifnum c =
     (let c = c\<lparr>rd_txbuff := (rd_txbuff c + 1) mod tx_pool_size c\<rparr>;
          c = c\<lparr>free_txbuffs := free_txbuffs c + 1\<rparr>;
          c = c\<lparr>free_txbuffs_port := (free_txbuffs_port c)[ifnum := free_txbuffs_port c ! ifnum + 1]\<rparr>;
          c = c\<lparr>dma_tx_in_progress := dma_tx_in_progress c - 1\<rparr>
      in if free_txbuffs_port c ! ifnum = 1 then netif_wake_queue ifnum c else c)"

definition nf2c_clear_dma_flags :: "nf2_card \<Rightarrow> nf2_card option" where
  "nf2c_clear_dma_flags c = do {
     c \<leftarrow> (if dma_rx_in_progress c \<noteq> 0
        then do {
          c \<leftarrow> pci_unmap_single (dma_rx_addr c) MAX_DMA_LEN PCI_DMA_FROMDEVICE c;
          Some (c\<lparr>dma_rx_in_progress := dma_rx_in_progress c - 1\<rparr>)
        }
        else Some c);
     if dma_tx_in_progress c \<noteq> 0
     then do {
       t \<leftarrow> front c;
       skb \<leftarrow> use_skb c (txb_skb t);
       c \<leftarrow> pci_unmap_single (dma_tx_addr c) (skb_len skb) PCI_DMA_TODEVICE c;
       c \<leftarrow> spin_lock c;
       c \<leftarrow> dev_kfree_skb skb c;
       Some (spin_unlock (txbuff_done (txb_iface t) c))
     }
     else Some c
   }"

text \<open>Several places send the next packet if there is one.\<close>

definition send_next :: "nf2_env \<Rightarrow> nf2_card \<Rightarrow> nf2_card option" where
  "send_next e c = (if free_txbuffs c \<noteq> tx_pool_size c then map_option snd (nf2c_send e c) else Some c)"

definition nf2c_tx_timeout :: "nf2_env \<Rightarrow> nat \<Rightarrow> nf2_card \<Rightarrow> nf2_card option" where
  "nf2c_tx_timeout e iface c = do {
     let c = with_dev iface (\<lambda>d. d\<lparr>tx_errors := tx_errors d + 1\<rparr>) c;
     let (enable, c) = ioread32 e CNET_REG_ENABLE c;
     let (intmask, c) = ioread32 e CPCI_REG_INTERRUPT_MASK c;
     let c = nf2_hw_reset e c;
     let c = iowrite32 enable CNET_REG_ENABLE c;
     let c = iowrite32 intmask CPCI_REG_INTERRUPT_MASK c;
     c \<leftarrow> nf2c_clear_dma_flags c;
     c \<leftarrow> send_next e c;
     Some (netif_wake_queue iface c)
   }"

section \<open>Reception\<close>

text \<open>The buffer has 2050 bytes; a longer copy reads past its end.\<close>

definition nf2c_rx :: "nf2_env \<Rightarrow> nat \<Rightarrow> u32 \<Rightarrow> nf2_card \<Rightarrow> nf2_card option" where
  "nf2c_rx e iface len c =
     (if \<not> dev_alloc_skb e (len + 2) then Some (with_dev iface (\<lambda>d. d\<lparr>rx_dropped := rx_dropped d + 1\<rparr>) c)
      else if len > MAX_DMA_LEN + 2 then None
      else do {
        let data = map (rx_buffer e (io c)) [0..<unat len];
        let c = with_dev iface (\<lambda>d. d\<lparr>rx_packets := rx_packets d + 1, rx_bytes := rx_bytes d + ucast len\<rparr>) c;
        Some (c\<lparr>netif_rx := netif_rx c @ [(iface, data)]\<rparr>)
      })"

section \<open>The interrupt handler\<close>

definition intr_queue_status :: "nf2_env \<Rightarrow> nf2_card \<Rightarrow> nf2_card option" where
  "intr_queue_status e c = do {
     let (v, c) = ioread32 e CPCI_REG_DMA_QUEUE_STATUS c;
     let c = c\<lparr>dma_can_wr_pkt := v AND 0xffff\<rparr>;
     let c = c\<lparr>dma_rx_in_progress := dma_rx_in_progress c + 1\<rparr>;
     c \<leftarrow> (if dma_rx_in_progress c = 1 then send_next e c else Some c);
     Some (c\<lparr>dma_rx_in_progress := dma_rx_in_progress c - 1\<rparr>)
   }"

definition intr_rx_complete :: "nf2_env \<Rightarrow> nf2_card \<Rightarrow> nf2_card option" where
  "intr_rx_complete e c = do {
     c \<leftarrow> pci_unmap_single (dma_rx_addr c) MAX_DMA_LEN PCI_DMA_FROMDEVICE c;
     let (len, c) = ioread32 e CPCI_REG_DMA_I_SIZE c;
     let (ctrl, c) = ioread32 e CPCI_REG_DMA_I_CTRL c;
     let dev = unat (drop_bit 8 (ctrl AND 0x300));
     let c = c\<lparr>dma_rx_in_progress := dma_rx_in_progress c - 1\<rparr>;
     nf2c_rx e dev len c
   }"

definition intr_tx_complete :: "nf2_env \<Rightarrow> nf2_card \<Rightarrow> nf2_card option" where
  "intr_tx_complete e c =
     (if dma_tx_in_progress c \<noteq> 0
      then do {
        t \<leftarrow> front c;
        skb \<leftarrow> use_skb c (txb_skb t);
        c \<leftarrow> pci_unmap_single (dma_tx_addr c) (skb_len skb) PCI_DMA_TODEVICE c;
        let ifnum = txb_iface t;
        let c = with_dev ifnum (\<lambda>d. d\<lparr>tx_packets := tx_packets d + 1, tx_bytes := tx_bytes d + ucast (skb_len skb)\<rparr>) c;
        c \<leftarrow> dev_kfree_skb skb c;
        c \<leftarrow> spin_lock c;
        let c = spin_unlock (txbuff_done ifnum c);
        send_next e c
      }
      else Some c)"

definition nf2c_check_link_status :: "nf2_env \<Rightarrow> nat \<Rightarrow> nf2_card \<Rightarrow> nf2_card" where
  "nf2c_check_link_status e ifnum c =
     (let (phy_aux_status, c) = ioread32 e (MDIO_0_AUX_STATUS + ADDRESS_DELTA * of_nat ifnum) c
      in netif_carrier (phy_aux_status AND 4 \<noteq> 0) ifnum c)"

primrec intr_phy :: "nf2_env \<Rightarrow> nat list \<Rightarrow> nf2_card \<Rightarrow> nf2_card" where
  "intr_phy e [] c = c"
| "intr_phy e (i # is) c =
     (let (phy_intr_status, c) = ioread32 e (MDIO_0_INTR_STATUS + ADDRESS_DELTA * of_nat i) c
      in intr_phy e is (if phy_intr_status AND 2 \<noteq> 0 then nf2c_check_link_status e i c else c))"

definition intr_pkt_avail :: "nf2_card \<Rightarrow> nf2_card" where
  "intr_pkt_avail c =
     (let c = c\<lparr>dma_rx_in_progress := dma_rx_in_progress c + 1\<rparr>
      in if dma_rx_in_progress c = 1
         then let c = c\<lparr>dma_rx_addr := pool_addr c\<rparr>;
                  c = pci_map_single (pool_addr c) MAX_DMA_LEN PCI_DMA_FROMDEVICE c;
                  c = iowrite32 (dma_rx_addr c) CPCI_REG_DMA_I_ADDR c
              in iowrite32 1 CPCI_REG_DMA_I_CTRL c
         else c\<lparr>dma_rx_in_progress := dma_rx_in_progress c - 1\<rparr>)"

text \<open>The three DMA errors are handled alike; the first also reads the programming status.\<close>

definition intr_dma_error :: "nf2_env \<Rightarrow> u32 list \<Rightarrow> nf2_card \<Rightarrow> nf2_card option" where
  "intr_dma_error e regs c = do {
     let c = fold (\<lambda>r c. snd (ioread32 e r c)) regs c;
     let c = nf2_reset_cpci e c;
     c \<leftarrow> nf2c_clear_dma_flags c;
     send_next e c
   }"

definition on_bits :: "u32 \<Rightarrow> u32 \<Rightarrow> (nf2_card \<Rightarrow> nf2_card option) \<Rightarrow> nf2_card \<Rightarrow> nf2_card option" where
  "on_bits status bits f c = (if status AND bits \<noteq> 0 then f c else Some c)"

definition nf2c_intr :: "nf2_env \<Rightarrow> nf2_card \<Rightarrow> (bool \<times> nf2_card) option" where
  "nf2c_intr e c = do {
     let (int_mask, c) = ioread32 e CPCI_REG_INTERRUPT_MASK c;
     let c = nf2_disable_irq e c;
     let (status_orig, c) = ioread32 e CPCI_REG_INTERRUPT_STATUS c;
     let status = status_orig AND NOT (int_mask AND NOT INT_PKT_AVAIL);
     c \<leftarrow> on_bits status INT_DMA_QUEUE_STATUS_CHANGE (intr_queue_status e) c;
     c \<leftarrow> on_bits status INT_DMA_RX_COMPLETE (intr_rx_complete e) c;
     let int_mask = (if status AND INT_DMA_RX_COMPLETE \<noteq> 0 then int_mask AND NOT INT_PKT_AVAIL else int_mask);
     c \<leftarrow> on_bits status INT_DMA_TX_COMPLETE (intr_tx_complete e) c;
     c \<leftarrow> on_bits status INT_PHY_INTERRUPT (Some \<circ> intr_phy e [0..<MAX_IFACE]) c;
     c \<leftarrow> on_bits status INT_PKT_AVAIL (Some \<circ> intr_pkt_avail) c;
     let int_mask = (if status AND INT_PKT_AVAIL \<noteq> 0 then int_mask OR INT_PKT_AVAIL else int_mask);
     c \<leftarrow> on_bits status INT_CNET_ERROR (Some \<circ> snd \<circ> ioread32 e CNET_REG_ERROR) c;
     let int_mask = (if status AND INT_CNET_ERROR \<noteq> 0 then int_mask OR INT_CNET_ERROR else int_mask);
     c \<leftarrow> on_bits status INT_DMA_TRANSFER_ERROR (intr_dma_error e [CPCI_REG_ERROR, CPCI_REG_PROG_STATUS]) c;
     c \<leftarrow> on_bits status INT_DMA_SETUP_ERROR (intr_dma_error e [CPCI_REG_ERROR]) c;
     c \<leftarrow> on_bits status INT_DMA_FATAL_ERROR (intr_dma_error e [CPCI_REG_ERROR]) c;
     Some (status \<noteq> 0, iowrite32 int_mask CPCI_REG_INTERRUPT_MASK c)
   }"

section \<open>Interfaces up and down\<close>

text \<open>\<open>sig\<close>: the wait for the semaphore was interrupted. \<open>irq_err\<close> is the result of \<open>request_irq\<close>.\<close>

definition nf2c_open :: "nf2_env \<Rightarrow> bool \<Rightarrow> int \<Rightarrow> nat \<Rightarrow> nf2_card \<Rightarrow> int \<times> nf2_card" where
  "nf2c_open e sig irq_err iface c =
     (if sig then (- ERESTARTSYS, c)
      else let c = netif_carrier False iface (c\<lparr>state_lock := state_lock c - 1\<rparr>);
               (err, c) =
                 (if ifup c = 0
                  then let c = nf2_hw_reset e c
                       in if irq_err \<noteq> 0 then (irq_err, c) else (0, nf2_enable_irq e (c\<lparr>irq_handler := True\<rparr>))
                  else (0, c))
           in if err \<noteq> 0 then (err, c\<lparr>state_lock := state_lock c + 1\<rparr>)
              else let c = c\<lparr>ifup := ifup c OR push_bit iface 1\<rparr>;
                       c = iowrite32 (push_bit iface 1) CNET_REG_RESET c;
                       (enable, c) = ioread32 e CNET_REG_ENABLE c;
                       enable = enable OR (push_bit iface (0x1000 OR 0x100) OR 2 OR 1);
                       c = iowrite32 enable CNET_REG_ENABLE c;
                       c = netif_wake_queue iface c
                   in (0, c\<lparr>state_lock := state_lock c + 1\<rparr>))"

text \<open>The loop runs once for every slot that is not free.\<close>

primrec free_queued :: "nat \<Rightarrow> nf2_card \<Rightarrow> nf2_card option" where
  "free_queued 0 c = Some c"
| "free_queued (Suc n) c = do {
     t \<leftarrow> front c;
     c \<leftarrow> dev_kfree_skb (txb_skb t) c;
     free_queued n (c\<lparr>rd_txbuff := (rd_txbuff c + 1) mod tx_pool_size c, free_txbuffs := free_txbuffs c + 1\<rparr>)
   }"

definition release_card :: "nf2_env \<Rightarrow> nf2_card \<Rightarrow> nf2_card option" where
  "release_card e c = do {
     let c = nf2_hw_reset e (c\<lparr>irq_handler := False\<rparr>);
     c \<leftarrow> (if free_txbuffs c \<noteq> tx_pool_size c
        then do {
          c \<leftarrow> (if dma_tx_in_progress c \<noteq> 0
             then do {
               t \<leftarrow> front c;
               skb \<leftarrow> use_skb c (txb_skb t);
               pci_unmap_single (dma_tx_addr c) (skb_len skb) PCI_DMA_TODEVICE c
             }
             else Some c);
          free_queued (tx_pool_size c - free_txbuffs c) c
        }
        else Some c);
     Some (c\<lparr>dma_tx_in_progress := 0, dma_rx_in_progress := 0\<rparr>)
   }"

definition nf2c_release :: "nf2_env \<Rightarrow> bool \<Rightarrow> nat \<Rightarrow> nf2_card \<Rightarrow> (int \<times> nf2_card) option" where
  "nf2c_release e sig iface c =
     (if sig then Some (- ERESTARTSYS, c)
      else do {
        let c = c\<lparr>state_lock := state_lock c - 1\<rparr>;
        let c = netif_stop_queue iface (netif_carrier False iface c);
        let (enable, c) = ioread32 e CNET_REG_ENABLE c;
        let enable = enable AND NOT (push_bit iface (0x1000 OR 0x100));
        let c = iowrite32 enable CNET_REG_ENABLE c;
        let c = iowrite32 (push_bit iface 1) CNET_REG_RESET c;
        let c = c\<lparr>ifup := ifup c AND NOT (push_bit iface 1)\<rparr>;
        c \<leftarrow> (if ifup c = 0 then release_card e c else Some c);
        Some (0, c\<lparr>state_lock := state_lock c + 1\<rparr>)
      })"

section \<open>The ring as a queue\<close>

definition ring :: "nf2_card \<Rightarrow> txbuff list \<Rightarrow> bool" where
  "ring c q \<longleftrightarrow> length (txbuffs c) = tx_pool_size c \<and> rd_txbuff c < tx_pool_size c
     \<and> free_txbuffs c + length q = tx_pool_size c \<and> wr_txbuff c = (rd_txbuff c + length q) mod tx_pool_size c
     \<and> (\<forall>k<length q. txbuffs c ! ((rd_txbuff c + k) mod tx_pool_size c) = Some (q ! k))"

lemma ring_front: "ring c (t # q) \<Longrightarrow> front c = Some t"
  by (auto simp: ring_def front_def dest: spec [of _ 0])

lemma ring_empty: "ring c q \<Longrightarrow> free_txbuffs c = tx_pool_size c \<longleftrightarrow> q = []"
  by (auto simp: ring_def)

lemma mod_pool_eq:
  assumes "k < n" "j < n"
  shows "(r + k) mod n = (r + j) mod n \<longleftrightarrow> k = (j :: nat)"
proof (cases "j \<le> k")
  case True
  then show ?thesis using assms mod_eq_dvd_iff_nat [of "r + j" "r + k" n] by (auto dest: dvd_imp_le)
next
  case False
  then show ?thesis using assms mod_eq_dvd_iff_nat [of "r + k" "r + j" n] by (auto dest: dvd_imp_le)
qed

lemma ring_same:
  "ring c q \<Longrightarrow> txbuffs d = txbuffs c \<Longrightarrow> tx_pool_size d = tx_pool_size c \<Longrightarrow> wr_txbuff d = wr_txbuff c
    \<Longrightarrow> rd_txbuff d = rd_txbuff c \<Longrightarrow> free_txbuffs d = free_txbuffs c \<Longrightarrow> ring d q"
  by (simp add: ring_def)

text \<open>\<open>nf2c_tx\<close> puts a packet at the back, \<open>txbuff_done\<close> takes the one at the front.\<close>

lemma ring_enqueue:
  assumes "ring c q" "free_txbuffs c \<noteq> 0"
  shows "ring (c\<lparr>txbuffs := (txbuffs c)[wr_txbuff c := Some t], wr_txbuff := (wr_txbuff c + 1) mod tx_pool_size c,
      free_txbuffs := free_txbuffs c - 1\<rparr>) (q @ [t])"
proof -
  have n: "length q < tx_pool_size c" and w: "wr_txbuff c = (rd_txbuff c + length q) mod tx_pool_size c"
    using assms by (auto simp: ring_def)
  have "(txbuffs c)[wr_txbuff c := Some t] ! ((rd_txbuff c + k) mod tx_pool_size c) = Some ((q @ [t]) ! k)"
    if "k < Suc (length q)" for k
    using that assms(1) n w mod_pool_eq [of k "tx_pool_size c" "length q" "rd_txbuff c"]
    by (cases "k = length q") (auto simp: ring_def nth_append)
  then show ?thesis using assms by (auto simp: ring_def mod_Suc_eq)
qed

lemma ring_dequeue:
  assumes "ring c (t # q)"
  shows "ring (c\<lparr>rd_txbuff := (rd_txbuff c + 1) mod tx_pool_size c, free_txbuffs := free_txbuffs c + 1\<rparr>) q"
proof -
  have "txbuffs c ! (((rd_txbuff c + 1) mod tx_pool_size c + k) mod tx_pool_size c) = Some (q ! k)" if "k < length q" for k
  proof -
    have "txbuffs c ! ((rd_txbuff c + Suc k) mod tx_pool_size c) = Some ((t # q) ! Suc k)"
      using assms that unfolding ring_def by (metis Suc_less_eq length_Cons)
    then show ?thesis by (simp add: mod_add_left_eq)
  qed
  then show ?thesis using assms by (auto simp: ring_def mod_add_left_eq)
qed

section \<open>The invariant of the driver\<close>

abbreviation buffer_ids :: "txbuff list \<Rightarrow> nat list" where
  "buffer_ids q \<equiv> map (skb_id \<circ> txb_skb) q"

definition port_total :: "nf2_card \<Rightarrow> txbuff list \<Rightarrow> int list" where
  "port_total c q = map (\<lambda>i. free_txbuffs_port c ! i + int (length (filter (\<lambda>t. txb_iface t = i) q))) [0..<4]"

text \<open>A transfer to the card is always that of the front of the queue.\<close>

definition tx_dma :: "nf2_card \<Rightarrow> txbuff list \<Rightarrow> bool" where
  "tx_dma c q \<longleftrightarrow> (dma_tx_in_progress c = 0 \<or> dma_tx_in_progress c = 1 \<and> q \<noteq> [])
     \<and> filter (\<lambda>m. snd (snd m) = PCI_DMA_TODEVICE) (dma_maps c)
       = (if dma_tx_in_progress c = 1 then [(dma_tx_addr c, skb_len (txb_skb (hd q)), PCI_DMA_TODEVICE)] else [])"

definition rx_dma :: "nf2_card \<Rightarrow> bool" where
  "rx_dma c \<longleftrightarrow> dma_rx_in_progress c = 0
     \<or> dma_rx_in_progress c = 1 \<and> (dma_rx_addr c, MAX_DMA_LEN, PCI_DMA_FROMDEVICE) \<in> set (dma_maps c)"

text \<open>\<open>ids\<close>: the buffers taken over so far, in their order; \<open>tot\<close>: the totals of the ports.\<close>

definition tx_inv :: "nat list \<Rightarrow> int list \<Rightarrow> nat \<Rightarrow> nf2_card \<Rightarrow> txbuff list \<Rightarrow> bool" where
  "tx_inv ids tot n c q \<longleftrightarrow> ring c q \<and> tx_dma c q \<and> freed c @ buffer_ids q = ids \<and> distinct ids
     \<and> port_total c q = tot \<and> tx_pool_size c = n \<and> length (ndev c) = 4 \<and> length (free_txbuffs_port c) = 4
     \<and> (\<forall>t\<in>set q. txb_iface t < 4)"

definition drv :: "nat list \<Rightarrow> int list \<Rightarrow> nat \<Rightarrow> nf2_card \<Rightarrow> bool" where
  "drv ids tot n c \<longleftrightarrow> (\<exists>q. tx_inv ids tot n c q) \<and> rx_dma c \<and> \<not> txbuff_lock c"

lemmas drv_defs = drv_def tx_inv_def ring_def tx_dma_def rx_dma_def port_total_def

text \<open>Reads, writes and the state of the devices do not matter to it.\<close>

definition same_core :: "nf2_card \<Rightarrow> nf2_card \<Rightarrow> bool" where
  "same_core c c' \<longleftrightarrow> tx_pool_size c' = tx_pool_size c \<and> txbuffs c' = txbuffs c \<and> wr_txbuff c' = wr_txbuff c
     \<and> rd_txbuff c' = rd_txbuff c \<and> free_txbuffs c' = free_txbuffs c \<and> free_txbuffs_port c' = free_txbuffs_port c
     \<and> txbuff_lock c' = txbuff_lock c \<and> dma_tx_addr c' = dma_tx_addr c \<and> dma_rx_addr c' = dma_rx_addr c
     \<and> dma_tx_in_progress c' = dma_tx_in_progress c \<and> dma_rx_in_progress c' = dma_rx_in_progress c
     \<and> freed c' = freed c \<and> dma_maps c' = dma_maps c \<and> length (ndev c') = length (ndev c)"

lemma same_core_trans: "same_core a b \<Longrightarrow> same_core b c \<Longrightarrow> same_core a c"
  by (simp add: same_core_def)

lemma tx_inv_core: "same_core c c' \<Longrightarrow> tx_inv ids tot n c' q \<longleftrightarrow> tx_inv ids tot n c q"
  by (simp only: same_core_def tx_inv_def ring_def tx_dma_def port_total_def)

lemma drv_core: "same_core c c' \<Longrightarrow> drv ids tot n c' \<longleftrightarrow> drv ids tot n c"
  by (simp only: drv_def tx_inv_core) (simp only: rx_dma_def same_core_def)

named_theorems core_simps \<open>operations that keep the core\<close>

lemma same_core_refl [core_simps]: "same_core c c"
  by (simp add: same_core_def)

lemma core_io [core_simps]: "same_core c (iowrite32 v a c)" "same_core c (snd (ioread32 e a c))"
  by (simp_all add: same_core_def iowrite32_def ioread32_def)

lemma core_dev [core_simps]: "same_core c (with_dev i f c)" "same_core c (netif_carrier b i c)"
    "same_core c (netif_stop_queue i c)" "same_core c (netif_wake_queue i c)"
  by (simp_all add: same_core_def with_dev_def netif_carrier_def netif_stop_queue_def netif_wake_queue_def)

lemma core_after [core_simps]: "same_core c d \<Longrightarrow> same_core c (iowrite32 v a d)" "same_core c d \<Longrightarrow> same_core c (snd (ioread32 e a d))"
    "same_core c d \<Longrightarrow> same_core c (with_dev i f d)" "same_core c d \<Longrightarrow> same_core c (netif_carrier b i d)"
    "same_core c d \<Longrightarrow> same_core c (netif_stop_queue i d)" "same_core c d \<Longrightarrow> same_core c (netif_wake_queue i d)"
  by (meson same_core_trans core_io core_dev)+

lemma core_fields [core_simps]: "same_core c d \<Longrightarrow> same_core c (d\<lparr>dma_can_wr_pkt := v\<rparr>)"
    "same_core c d \<Longrightarrow> same_core c (d\<lparr>ifup := w\<rparr>)" "same_core c d \<Longrightarrow> same_core c (d\<lparr>state_lock := l\<rparr>)"
    "same_core c d \<Longrightarrow> same_core c (d\<lparr>irq_handler := b\<rparr>)" "same_core c d \<Longrightarrow> same_core c (d\<lparr>netif_rx := r\<rparr>)"
  by (simp_all add: same_core_def)

lemma core_hw_reset: "same_core c (nf2_hw_reset e c)" "same_core c (nf2_reset_cpci e c)" "same_core c (nf2_disable_irq e c)"
    "same_core c (nf2_enable_irq e c)"
  by (simp_all add: nf2_hw_reset_def nf2_reset_cpci_def nf2_disable_irq_def nf2_enable_irq_def nf2_write_flush_def
      Let_def same_core_def iowrite32_def ioread32_def)

lemma core_reset [core_simps]: "same_core c d \<Longrightarrow> same_core c (nf2_hw_reset e d)" "same_core c d \<Longrightarrow> same_core c (nf2_reset_cpci e d)"
    "same_core c d \<Longrightarrow> same_core c (nf2_disable_irq e d)" "same_core c d \<Longrightarrow> same_core c (nf2_enable_irq e d)"
  by (meson same_core_trans core_hw_reset)+

text \<open>The reception and the lock, which the transmitting side leaves alone.\<close>

definition same_rx :: "nf2_card \<Rightarrow> nf2_card \<Rightarrow> bool" where
  "same_rx c c' \<longleftrightarrow> dma_rx_in_progress c' = dma_rx_in_progress c \<and> dma_rx_addr c' = dma_rx_addr c
     \<and> txbuff_lock c' = txbuff_lock c
     \<and> filter (\<lambda>m. snd (snd m) = PCI_DMA_FROMDEVICE) (dma_maps c') = filter (\<lambda>m. snd (snd m) = PCI_DMA_FROMDEVICE) (dma_maps c)"

lemma same_rx_refl [simp]: "same_rx c c"
  by (simp add: same_rx_def)

lemma same_rx_trans: "same_rx a b \<Longrightarrow> same_rx b c \<Longrightarrow> same_rx a c"
  by (simp add: same_rx_def)

lemma same_core_rx: "same_core c c' \<Longrightarrow> same_rx c c'"
  by (simp add: same_core_def same_rx_def)

lemma rx_dma_same:
  assumes "same_rx c c'"
  shows "rx_dma c' \<longleftrightarrow> rx_dma c"
proof -
  have "(a, MAX_DMA_LEN, PCI_DMA_FROMDEVICE) \<in> set ms
      \<longleftrightarrow> (a, MAX_DMA_LEN, PCI_DMA_FROMDEVICE) \<in> set (filter (\<lambda>m. snd (snd m) = PCI_DMA_FROMDEVICE) ms)" for a ms
    by simp
  note from_device = this
  from assms show ?thesis
    unfolding rx_dma_def same_rx_def from_device [of _ "dma_maps c"] from_device [of _ "dma_maps c'"]
    by (simp only:)
qed

lemma use_skb_queued:
  "tx_inv ids tot n c q \<Longrightarrow> t \<in> set q \<Longrightarrow> use_skb c (txb_skb t) = Some (txb_skb t)"
  by (force simp: tx_inv_def use_skb_def)

lemma tx_inv_front: "tx_inv ids tot n c (t # q) \<Longrightarrow> front c = Some t"
  by (auto simp: tx_inv_def intro: ring_front)

text \<open>A packet starts: its buffer keeps its identity and length, its data may move.\<close>

lemma send_started:
  assumes "tx_inv ids tot n c (t # q)" "dma_tx_in_progress c = 0"
    and "skb_id (txb_skb t') = skb_id (txb_skb t)" "skb_len (txb_skb t') = skb_len (txb_skb t)" "txb_iface t' = txb_iface t"
    and "addr = skb_addr (txb_skb t)"
  shows "tx_inv ids tot n (c\<lparr>dma_tx_in_progress := 1, dma_tx_addr := addr,
      dma_maps := (addr, skb_len (txb_skb t), PCI_DMA_TODEVICE) # dma_maps c,
      txbuffs := (txbuffs c)[rd_txbuff c := Some t'], io := acc\<rparr>) (t' # q)"
proof -
  have "(txbuffs c)[rd_txbuff c := Some t'] ! ((rd_txbuff c + k) mod tx_pool_size c) = Some ((t' # q) ! k)"
    if "k < Suc (length q)" for k
    using that assms(1) mod_pool_eq [of k "tx_pool_size c" 0 "rd_txbuff c"]
    by (cases "k = 0") (auto simp: tx_inv_def ring_def)
  then show ?thesis using assms by (auto simp: tx_inv_def ring_def tx_dma_def port_total_def)
qed

lemma tx_inv_other [simp]: "tx_inv ids tot n (c\<lparr>txbuff_lock := l\<rparr>) q = tx_inv ids tot n c q"
    "tx_inv ids tot n (c\<lparr>dma_rx_in_progress := r\<rparr>) q = tx_inv ids tot n c q"
    "tx_inv ids tot n (c\<lparr>dma_can_wr_pkt := v\<rparr>) q = tx_inv ids tot n c q"
    "tx_inv ids tot n (c\<lparr>dma_rx_addr := a\<rparr>) q = tx_inv ids tot n c q"
    "tx_inv ids tot n (with_dev i f c) q = tx_inv ids tot n c q"
  by (simp_all add: tx_inv_def ring_def tx_dma_def port_total_def with_dev_def)

text \<open>When \<open>nf2c_send\<close> starts nothing, and what it does when it starts.\<close>

definition can_start :: "nf2_card \<Rightarrow> txbuff list \<Rightarrow> bool" where
  "can_start c q \<longleftrightarrow> dma_tx_in_progress c = 0 \<and> q \<noteq> [] \<and> dma_can_wr_pkt c AND push_bit (txb_iface (hd q)) 1 \<noteq> 0"

definition padded :: "nf2_env \<Rightarrow> txbuff \<Rightarrow> txbuff" where
  "padded e t = (if skb_len (txb_skb t) < 60
     then t\<lparr>txb_skb := (txb_skb t)\<lparr>skb_addr := the (skb_pad e (txb_skb t) (60 - skb_len (txb_skb t)))\<rparr>\<rparr> else t)"

lemma padded_fields [simp]: "skb_id (txb_skb (padded e t)) = skb_id (txb_skb t)"
    "skb_len (txb_skb (padded e t)) = skb_len (txb_skb t)" "txb_iface (padded e t) = txb_iface t"
  by (simp_all add: padded_def)

definition start_writes :: "txbuff \<Rightarrow> io_access list" where
  "start_writes t = [Iowrite (skb_addr (txb_skb t)) CPCI_REG_DMA_E_ADDR,
     Iowrite (max 60 (skb_len (txb_skb t))) CPCI_REG_DMA_E_SIZE,
     Iowrite (push_bit 8 (of_nat (txb_iface t)) OR 1) CPCI_REG_DMA_E_CTRL]"

lemma nf2c_send_not: "tx_inv ids tot n c q \<Longrightarrow> \<not> can_start c q \<Longrightarrow> nf2c_send e c = Some (1, c)"
  using ring_empty [of c q] tx_inv_front [of ids tot n c "hd q" "tl q"]
  by (cases q) (auto simp: nf2c_send_def can_start_def tx_inv_def)

lemma nf2c_send_starts:
  assumes inv: "tx_inv ids tot n c (t # q)" and start: "can_start c (t # q)" and pad: "\<forall>s k. skb_pad e s k \<noteq> None"
  shows "nf2c_send e c = Some (0, c\<lparr>dma_tx_in_progress := 1, dma_tx_addr := skb_addr (txb_skb t),
      dma_maps := (skb_addr (txb_skb t), skb_len (txb_skb t), PCI_DMA_TODEVICE) # dma_maps c,
      txbuffs := (txbuffs c)[rd_txbuff c := Some (padded e t)], io := io c @ start_writes t\<rparr>)"
proof -
  have "free_txbuffs c \<noteq> tx_pool_size c" using inv by (auto simp: tx_inv_def ring_def)
  moreover have "(txbuffs c)[rd_txbuff c := Some t] = txbuffs c"
    using tx_inv_front [OF inv] by (auto simp: front_def list_update_same_conv split: if_splits)
  moreover obtain addr where "skb_pad e (txb_skb t) (60 - skb_len (txb_skb t)) = Some addr" using pad by blast
  ultimately show ?thesis
    using start tx_inv_front [OF inv] use_skb_queued [OF inv, of t]
    by (simp add: nf2c_send_def can_start_def iowrite32_def pci_map_single_def padded_def start_writes_def max_def Let_def)
qed

lemma nf2c_send_keeps:
  assumes inv: "tx_inv ids tot n c q" and pad: "\<forall>s k. skb_pad e s k \<noteq> None"
  obtains err c' q' where "nf2c_send e c = Some (err, c')" "tx_inv ids tot n c' q'" "same_rx c c'"
proof (cases "can_start c q")
  case True
  then obtain t q' where q: "q = t # q'" by (cases q) (auto simp: can_start_def)
  show ?thesis
    by (rule that [OF nf2c_send_starts [OF inv [unfolded q] True [unfolded q] pad] send_started [OF inv [unfolded q]]])
      (use True in \<open>simp_all add: can_start_def same_rx_def\<close>)
qed (use that nf2c_send_not [OF inv] inv in simp)

lemma send_next_keeps:
  assumes "tx_inv ids tot n c q" "\<forall>s k. skb_pad e s k \<noteq> None"
  obtains c' q' where "send_next e c = Some c'" "tx_inv ids tot n c' q'" "same_rx c c'"
proof (cases "free_txbuffs c = tx_pool_size c")
  case True
  then show ?thesis using that assms(1) by (simp add: send_next_def)
next
  case False
  with nf2c_send_keeps [OF assms] that show ?thesis by (auto simp: send_next_def)
qed

lemma nf2c_tx_keeps:
  assumes inv: "tx_inv ids tot n c q" and pad: "\<forall>s k. skb_pad e s k \<noteq> None"
    and lock: "\<not> txbuff_lock c" and i: "i < 4" and new: "skb_id skb \<notin> set ids"
  obtains err c' q' where "nf2c_tx e skb i c = Some (err, c')" "err = (if free_txbuffs c = 0 then 1 else 0)" "same_rx c c'"
    "tx_inv (if free_txbuffs c = 0 then ids else ids @ [skb_id skb]) tot n c' q'"
proof (cases "free_txbuffs c = 0")
  case True
  then show ?thesis using that inv lock by (simp add: nf2c_tx_def spin_lock_def spin_unlock_def same_rx_def)
next
  case False
  let ?t = "\<lparr>txb_skb = skb, txb_iface = i\<rparr>"
  define d where "d = c\<lparr>txbuff_lock := True, txbuffs := (txbuffs c)[wr_txbuff c := Some ?t],
    wr_txbuff := (wr_txbuff c + 1) mod tx_pool_size c, free_txbuffs := free_txbuffs c - 1,
    free_txbuffs_port := (free_txbuffs_port c)[i := free_txbuffs_port c ! i - 1]\<rparr>"
  have "ring d (q @ [?t])" using inv False
    by (intro ring_same [OF ring_enqueue [of c q ?t]]) (simp_all add: d_def tx_inv_def)
  moreover have "port_total d (q @ [?t]) = port_total c q" using i inv by (auto simp: d_def port_total_def tx_inv_def nth_list_update)
  moreover have "tx_dma d (q @ [?t])" using inv by (auto simp: d_def tx_dma_def tx_inv_def hd_append)
  ultimately have d: "tx_inv (ids @ [skb_id skb]) tot n d (q @ [?t])"
    using inv i new by (auto simp: tx_inv_def d_def)
  define d' where "d' = (if free_txbuffs_port d ! i = 0 then netif_stop_queue i d else d)"
  have d': "tx_inv (ids @ [skb_id skb]) tot n d' (q @ [?t])" using d by (simp add: d'_def netif_stop_queue_def)
  obtain err c' q' where send: "nf2c_send e d' = Some (err, c')" "tx_inv (ids @ [skb_id skb]) tot n c' q'" "same_rx d' c'"
    using nf2c_send_keeps [OF d' pad] .
  have "nf2c_tx e skb i c = Some (0, spin_unlock c')"
    using send(1) [unfolded d'_def d_def] lock False by (auto simp: nf2c_tx_def spin_lock_def Let_def cong: if_cong split: if_splits)
  moreover have "same_rx c (spin_unlock c')"
    using send(3) lock by (auto simp: same_rx_def d'_def d_def spin_unlock_def netif_stop_queue_def with_dev_def)
  ultimately show ?thesis using that send(2) False by (simp add: spin_unlock_def)
qed

lemma unmap_front:
  assumes "tx_inv ids tot n c (t # q)" "dma_tx_in_progress c = 1"
  shows "pci_unmap_single (dma_tx_addr c) (skb_len (txb_skb t)) PCI_DMA_TODEVICE c
    = Some (c\<lparr>dma_maps := remove1 (dma_tx_addr c, skb_len (txb_skb t), PCI_DMA_TODEVICE) (dma_maps c)\<rparr>)"
proof -
  have "(dma_tx_addr c, skb_len (txb_skb t), PCI_DMA_TODEVICE) \<in> set (filter (\<lambda>m. snd (snd m) = PCI_DMA_TODEVICE) (dma_maps c))"
    using assms by (simp add: tx_inv_def tx_dma_def)
  then show ?thesis by (simp add: pci_unmap_single_def)
qed

text \<open>The transfer has ended or was given up: the buffer at the front is freed.\<close>

definition finished :: "txbuff \<Rightarrow> nf2_card \<Rightarrow> nf2_card" where
  "finished t c = txbuff_done (txb_iface t) (c\<lparr>dma_maps :=
       remove1 (dma_tx_addr c, skb_len (txb_skb t), PCI_DMA_TODEVICE) (dma_maps c),
     freed := freed c @ [skb_id (txb_skb t)]\<rparr>)"

lemma finished_keeps:
  assumes inv: "tx_inv ids tot n c (t # q)" and tx: "dma_tx_in_progress c = 1"
  shows "tx_inv ids tot n (finished t c) q" "same_rx c (finished t c)"
proof -
  have i: "txb_iface t < 4" using inv by (simp add: tx_inv_def)
  define m where "m = (dma_tx_addr c, skb_len (txb_skb t), PCI_DMA_TODEVICE)"
  define d where "d = c\<lparr>dma_maps := remove1 m (dma_maps c), freed := freed c @ [skb_id (txb_skb t)],
    rd_txbuff := (rd_txbuff c + 1) mod tx_pool_size c, free_txbuffs := free_txbuffs c + 1,
    free_txbuffs_port := (free_txbuffs_port c)[txb_iface t := free_txbuffs_port c ! txb_iface t + 1],
    dma_tx_in_progress := 0\<rparr>"
  have f: "finished t c = (if free_txbuffs_port d ! txb_iface t = 1 then netif_wake_queue (txb_iface t) d else d)"
    using tx by (simp add: finished_def txbuff_done_def d_def m_def Let_def)
  have to: "filter (\<lambda>m. snd (snd m) = PCI_DMA_TODEVICE) (dma_maps d) = []"
    using inv tx by (simp add: d_def m_def filter_remove1 tx_inv_def tx_dma_def)
  have "filter (\<lambda>m. snd (snd m) = PCI_DMA_FROMDEVICE) (dma_maps d) = filter (\<lambda>m. snd (snd m) = PCI_DMA_FROMDEVICE) (dma_maps c)"
    by (simp add: d_def m_def filter_remove1 remove1_idem)
  then have "same_rx c d" by (simp add: same_rx_def d_def)
  then show "same_rx c (finished t c)"
    unfolding f by (simp add: same_rx_trans [OF _ same_core_rx [OF core_dev(4)]])
  have "ring d q" using inv
    by (intro ring_same [OF ring_dequeue [of c t q]]) (simp_all add: d_def tx_inv_def)
  moreover have "port_total d q = port_total c (t # q)" using i inv by (auto simp: d_def port_total_def tx_inv_def nth_list_update)
  ultimately have "tx_inv ids tot n d q" using inv to by (simp add: tx_inv_def tx_dma_def d_def)
  then show "tx_inv ids tot n (finished t c) q" by (simp add: f netif_wake_queue_def)
qed

lemma done_locked:
  "\<not> txbuff_lock c \<Longrightarrow> spin_unlock (txbuff_done i (c\<lparr>txbuff_lock := True\<rparr>)) = txbuff_done i c"
  "\<not> txbuff_lock c \<Longrightarrow> spin_unlock (txbuff_done i (c\<lparr>txbuff_lock := True, freed := f\<rparr>)) = txbuff_done i (c\<lparr>freed := f\<rparr>)"
  by (cases c, simp add: spin_unlock_def txbuff_done_def netif_wake_queue_def with_dev_def Let_def)+

lemma with_dev_fields [simp]: "with_dev i f (c\<lparr>dma_maps := m\<rparr>) = (with_dev i f c)\<lparr>dma_maps := m\<rparr>"
    "freed (with_dev i f c) = freed c" "dma_maps (with_dev i f c) = dma_maps c" "txbuff_lock (with_dev i f c) = txbuff_lock c"
    "dma_tx_addr (with_dev i f c) = dma_tx_addr c" "dma_tx_in_progress (with_dev i f c) = dma_tx_in_progress c"
  by (simp_all add: with_dev_def)

lemma use_front:
  assumes "tx_inv ids tot n c (t # q)"
  shows "use_skb c (txb_skb t) = Some (txb_skb t)"
    "use_skb (c\<lparr>dma_maps := m\<rparr>) (txb_skb t) = Some (txb_skb t)"
    "use_skb (c\<lparr>dma_maps := m, txbuff_lock := l\<rparr>) (txb_skb t) = Some (txb_skb t)"
  using use_skb_queued [OF assms, of t] by (simp_all add: use_skb_def split: if_splits)

lemma drvI: "tx_inv ids tot n c q \<Longrightarrow> rx_dma c \<Longrightarrow> \<not> txbuff_lock c \<Longrightarrow> drv ids tot n c"
  by (auto simp: drv_def)

lemma drv_same_rx: "drv ids tot n c \<Longrightarrow> tx_inv ids' tot' n c' q \<Longrightarrow> same_rx c c' \<Longrightarrow> drv ids' tot' n c'"
  by (rule drvI) (auto simp: drv_def rx_dma_same, simp add: same_rx_def)

text \<open>A transfer in progress is that of the packet at the front.\<close>

lemma tx_in_progress:
  assumes "tx_inv ids tot n c q" "dma_tx_in_progress c \<noteq> 0"
  obtains t q' where "q = t # q'" "dma_tx_in_progress c = 1"
  using assms by (cases q) (auto simp: tx_inv_def tx_dma_def)

lemma intr_tx_complete_keeps:
  assumes inv: "drv ids tot n c" and pad: "\<forall>s k. skb_pad e s k \<noteq> None"
  obtains c' where "intr_tx_complete e c = Some c'" "drv ids tot n c'" "same_rx c c'"
proof (cases "dma_tx_in_progress c = 0")
  case True
  then show ?thesis using that inv by (simp add: intr_tx_complete_def)
next
  case False
  obtain q where q: "tx_inv ids tot n c q" and lock: "\<not> txbuff_lock c" using inv by (auto simp: drv_def)
  obtain t q' where t: "q = t # q'" "dma_tx_in_progress c = 1" using tx_in_progress [OF q False] .
  note q = q [unfolded t(1)]
  define d where "d = with_dev (txb_iface t) (\<lambda>d. d\<lparr>tx_packets := tx_packets d + 1,
    tx_bytes := tx_bytes d + ucast (skb_len (txb_skb t))\<rparr>) c"
  have d: "tx_inv ids tot n d (t # q')" "dma_tx_in_progress d = 1" "\<not> txbuff_lock d" "same_rx c d"
    using q t lock by (simp_all add: d_def same_core_rx [OF core_dev(1)])
  obtain c' q2 where send: "send_next e (finished t d) = Some c'" "tx_inv ids tot n c' q2" "same_rx (finished t d) c'"
    using send_next_keeps [OF finished_keeps(1) [OF d(1,2)] pad] .
  have "intr_tx_complete e c = Some c'"
    using t(2) lock send(1) use_front [OF q]
    by (simp add: intr_tx_complete_def tx_inv_front [OF q] unmap_front [OF q] dev_kfree_skb_def spin_lock_def Let_def
        finished_def d_def done_locked use_skb_def split: if_splits)
  moreover have "same_rx c c'" using d(4) finished_keeps(2) [OF d(1,2)] send(3) by (meson same_rx_trans)
  ultimately show ?thesis using that drv_same_rx [OF inv send(2)] by blast
qed

lemma tx_inv_maps:
  assumes "filter (\<lambda>m. snd (snd m) = PCI_DMA_TODEVICE) m = filter (\<lambda>m. snd (snd m) = PCI_DMA_TODEVICE) (dma_maps c)"
  shows "tx_inv ids tot n (c\<lparr>dma_maps := m\<rparr>) q = tx_inv ids tot n c q"
proof -
  have "ring (c\<lparr>dma_maps := m\<rparr>) q = ring c q" "port_total (c\<lparr>dma_maps := m\<rparr>) q = port_total c q"
    by (simp_all add: ring_def port_total_def)
  moreover have "tx_dma (c\<lparr>dma_maps := m\<rparr>) q = tx_dma c q" by (simp add: tx_dma_def assms)
  ultimately show ?thesis by (simp add: tx_inv_def)
qed

lemma rx_unmap:
  assumes "drv ids tot n c" "dma_rx_in_progress c = 1"
  obtains c' where "pci_unmap_single (dma_rx_addr c) MAX_DMA_LEN PCI_DMA_FROMDEVICE c = Some c'"
    "drv ids tot n (c'\<lparr>dma_rx_in_progress := dma_rx_in_progress c' - 1\<rparr>)"
    "dma_rx_in_progress c' = 1" "dma_tx_in_progress c' = dma_tx_in_progress c"
proof -
  let ?c = "c\<lparr>dma_maps := remove1 (dma_rx_addr c, MAX_DMA_LEN, PCI_DMA_FROMDEVICE) (dma_maps c)\<rparr>"
  obtain q where q: "tx_inv ids tot n c q" and lock: "\<not> txbuff_lock c" using assms(1) by (auto simp: drv_def)
  have "tx_inv ids tot n ?c q" using q by (simp add: tx_inv_maps filter_remove1 remove1_idem)
  then have "drv ids tot n (?c\<lparr>dma_rx_in_progress := 0\<rparr>)" using lock by (intro drvI) (simp_all add: rx_dma_def)
  then show ?thesis using that [of ?c] assms by (simp add: drv_def rx_dma_def pci_unmap_single_def)
qed

lemma nf2c_clear_dma_flags_keeps:
  assumes inv: "drv ids tot n c"
  obtains c' where "nf2c_clear_dma_flags c = Some c'" "drv ids tot n c'" "dma_rx_in_progress c' = 0" "dma_tx_in_progress c' = 0"
proof -
  obtain d where d: "drv ids tot n d" "dma_rx_in_progress d = 0"
    "(if dma_rx_in_progress c \<noteq> 0
      then do {
        c \<leftarrow> pci_unmap_single (dma_rx_addr c) MAX_DMA_LEN PCI_DMA_FROMDEVICE c;
        Some (c\<lparr>dma_rx_in_progress := dma_rx_in_progress c - 1\<rparr>)
      } else Some c) = Some d"
  proof (cases "dma_rx_in_progress c = 0")
    case False
    then have "dma_rx_in_progress c = 1" using inv by (simp add: drv_def rx_dma_def)
    from rx_unmap [OF inv this] obtain c' where "pci_unmap_single (dma_rx_addr c) MAX_DMA_LEN PCI_DMA_FROMDEVICE c = Some c'"
      "drv ids tot n (c'\<lparr>dma_rx_in_progress := dma_rx_in_progress c' - 1\<rparr>)" "dma_rx_in_progress c' = 1" .
    then show ?thesis using False by (intro that [of "c'\<lparr>dma_rx_in_progress := 0\<rparr>"]) simp_all
  qed (use that inv in simp)
  show ?thesis
  proof (cases "dma_tx_in_progress d = 0")
    case True
    then show ?thesis using that d by (simp add: nf2c_clear_dma_flags_def)
  next
    case False
    obtain q where q: "tx_inv ids tot n d q" and lock: "\<not> txbuff_lock d" using d(1) by (auto simp: drv_def)
    obtain t q' where t: "q = t # q'" "dma_tx_in_progress d = 1" using tx_in_progress [OF q False] .
    note q = q [unfolded t(1)]
    have "nf2c_clear_dma_flags c = Some (finished t d)"
      using d(3) t(2) lock use_front [OF q]
      by (simp add: nf2c_clear_dma_flags_def tx_inv_front [OF q] unmap_front [OF q] dev_kfree_skb_def spin_lock_def
          finished_def done_locked)
    moreover have "dma_tx_in_progress (finished t d) = 0"
      using t(2) by (simp add: finished_def txbuff_done_def netif_wake_queue_def Let_def)
    moreover have "dma_rx_in_progress (finished t d) = 0"
      using finished_keeps(2) [OF q t(2)] d(2) by (simp add: same_rx_def)
    ultimately show ?thesis using that drv_same_rx [OF d(1) finished_keeps [OF q t(2)]] by blast
  qed
qed

lemma drv_send_next:
  assumes "drv ids tot n c" "\<forall>s k. skb_pad e s k \<noteq> None"
  obtains c' where "send_next e c = Some c'" "drv ids tot n c'" "same_rx c c'"
proof -
  obtain q where q: "tx_inv ids tot n c q" using assms(1) by (auto simp: drv_def)
  show ?thesis using send_next_keeps [OF q assms(2)] that drv_same_rx [OF assms(1)] by metis
qed

lemma drv_core_eq: "same_core c c' \<Longrightarrow> drv ids tot n c \<Longrightarrow> drv ids tot n c'"
  by (simp add: drv_core)

lemma core_reads: "same_core c (fold (\<lambda>r c. snd (ioread32 e r c)) regs c)"
proof (induction regs arbitrary: c)
  case (Cons r regs)
  show ?case by (simp add: same_core_trans [OF core_io(2) Cons.IH])
qed (simp add: same_core_refl)

lemma intr_dma_error_keeps:
  assumes "drv ids tot n c" "\<forall>s k. skb_pad e s k \<noteq> None"
  obtains c' where "intr_dma_error e regs c = Some c'" "drv ids tot n c'"
proof -
  let ?c = "nf2_reset_cpci e (fold (\<lambda>r c. snd (ioread32 e r c)) regs c)"
  have "same_core c ?c" by (rule core_reset(2) [OF core_reads])
  then have "drv ids tot n ?c" using assms(1) by (rule drv_core_eq)
  then obtain d where d: "nf2c_clear_dma_flags ?c = Some d" "drv ids tot n d" by (rule nf2c_clear_dma_flags_keeps)
  obtain c' where "send_next e d = Some c'" "drv ids tot n c'" using drv_send_next [OF d(2) assms(2)] .
  then show ?thesis using that d(1) by (simp add: intr_dma_error_def)
qed

lemma nf2c_tx_timeout_keeps:
  assumes "drv ids tot n c" "\<forall>s k. skb_pad e s k \<noteq> None"
  obtains c' where "nf2c_tx_timeout e i c = Some c'" "drv ids tot n c'"
proof -
  define d where "d = with_dev i (\<lambda>d. d\<lparr>tx_errors := tx_errors d + 1\<rparr>) c"
  define d' where "d' = snd (ioread32 e CPCI_REG_INTERRUPT_MASK (snd (ioread32 e CNET_REG_ENABLE d)))"
  define d2 where "d2 = iowrite32 (fst (ioread32 e CPCI_REG_INTERRUPT_MASK (snd (ioread32 e CNET_REG_ENABLE d)))) CPCI_REG_INTERRUPT_MASK
      (iowrite32 (fst (ioread32 e CNET_REG_ENABLE d)) CNET_REG_ENABLE (nf2_hw_reset e d'))"
  have "same_core c d2" by (simp only: d_def d'_def d2_def core_simps)
  then have "drv ids tot n d2" using assms(1) by (rule drv_core_eq)
  then obtain d3 where d3: "nf2c_clear_dma_flags d2 = Some d3" "drv ids tot n d3" by (rule nf2c_clear_dma_flags_keeps)
  obtain c' where c': "send_next e d3 = Some c'" "drv ids tot n c'" using drv_send_next [OF d3(2) assms(2)] .
  have "nf2c_tx_timeout e i c = Some (netif_wake_queue i c')"
    using d3(1) c'(1) by (simp add: nf2c_tx_timeout_def d_def d'_def d2_def split_beta Let_def)
  then show ?thesis using that drv_core_eq [OF core_dev(4) c'(2)] by blast
qed

lemma intr_queue_status_keeps:
  assumes inv: "drv ids tot n c" and pad: "\<forall>s k. skb_pad e s k \<noteq> None"
  obtains c' where "intr_queue_status e c = Some c'" "drv ids tot n c'" "dma_rx_in_progress c' = dma_rx_in_progress c"
proof -
  define d where "d = snd (ioread32 e CPCI_REG_DMA_QUEUE_STATUS c)\<lparr>dma_can_wr_pkt :=
    fst (ioread32 e CPCI_REG_DMA_QUEUE_STATUS c) AND 0xffff\<rparr>"
  have core: "same_core c d" unfolding d_def by (intro core_fields core_io)
  then have d: "drv ids tot n d" "dma_rx_in_progress d = dma_rx_in_progress c"
    using inv by (auto simp: drv_core_eq) (simp add: same_core_def)
  have rest: "(d\<lparr>dma_rx_in_progress := x, dma_rx_in_progress := y\<rparr>) = d\<lparr>dma_rx_in_progress := y\<rparr>" for x y by simp
  have eq: "intr_queue_status e c = do {
       c \<leftarrow> (if dma_rx_in_progress d = 0 then send_next e (d\<lparr>dma_rx_in_progress := 1\<rparr>)
           else Some (d\<lparr>dma_rx_in_progress := dma_rx_in_progress d + 1\<rparr>));
       Some (c\<lparr>dma_rx_in_progress := dma_rx_in_progress c - 1\<rparr>) }"
    by (simp add: intr_queue_status_def d_def split_beta Let_def)
  show ?thesis
  proof (cases "dma_rx_in_progress d = 0")
    case False
    then have "intr_queue_status e c = Some d" by (simp add: eq)
    then show ?thesis using that d by blast
  next
    case True
    obtain q where q: "tx_inv ids tot n (d\<lparr>dma_rx_in_progress := 1\<rparr>) q" using d(1) by (auto simp: drv_def)
    obtain c' q' where c': "send_next e (d\<lparr>dma_rx_in_progress := 1\<rparr>) = Some c'" "tx_inv ids tot n c' q'"
      "same_rx (d\<lparr>dma_rx_in_progress := 1\<rparr>) c'" using send_next_keeps [OF q pad] .
    have "drv ids tot n (c'\<lparr>dma_rx_in_progress := 0\<rparr>)"
      using c'(2,3) d(1) by (intro drvI) (auto simp: rx_dma_def same_rx_def drv_def)
    moreover have "intr_queue_status e c = Some (c'\<lparr>dma_rx_in_progress := 0\<rparr>)"
      using c'(1,3) True by (simp add: eq same_rx_def)
    ultimately show ?thesis using that d(2) True by simp
  qed
qed

lemma nf2c_rx_keeps:
  assumes "drv ids tot n c" "len \<le> MAX_DMA_LEN + 2"
  obtains c' where "nf2c_rx e i len c = Some c'" "drv ids tot n c'"
proof -
  let ?d = "with_dev i (\<lambda>d. d\<lparr>rx_packets := rx_packets d + 1, rx_bytes := rx_bytes d + ucast len\<rparr>) c"
  let ?d' = "?d\<lparr>netif_rx := netif_rx ?d @ [(i, map (rx_buffer e (io c)) [0..<unat len])]\<rparr>"
  have "drv ids tot n (with_dev i (\<lambda>d. d\<lparr>rx_dropped := rx_dropped d + 1\<rparr>) c)"
    by (rule drv_core_eq [OF core_dev(1) assms(1)])
  moreover have "drv ids tot n ?d'" by (rule drv_core_eq [OF core_fields(5) [OF core_dev(1)] assms(1)])
  moreover have "nf2c_rx e i len c = Some (if dev_alloc_skb e (len + 2) then ?d'
      else with_dev i (\<lambda>d. d\<lparr>rx_dropped := rx_dropped d + 1\<rparr>) c)"
    unfolding nf2c_rx_def Let_def using leD [OF assms(2)] by (simp only: if_False split: if_splits) blast
  ultimately show ?thesis by (cases "dev_alloc_skb e (len + 2)") (simp_all only: if_True if_False that)
qed

lemma intr_rx_complete_keeps:
  assumes inv: "drv ids tot n c" and rx: "dma_rx_in_progress c = 1"
    and len: "\<forall>a. card_read e a CPCI_REG_DMA_I_SIZE \<le> MAX_DMA_LEN + 2"
  obtains c' where "intr_rx_complete e c = Some c'" "drv ids tot n c'"
proof -
  obtain d where d: "pci_unmap_single (dma_rx_addr c) MAX_DMA_LEN PCI_DMA_FROMDEVICE c = Some d"
    "drv ids tot n (d\<lparr>dma_rx_in_progress := dma_rx_in_progress d - 1\<rparr>)" using rx_unmap [OF inv rx] .
  define d' where "d' = snd (ioread32 e CPCI_REG_DMA_I_CTRL (snd (ioread32 e CPCI_REG_DMA_I_SIZE d)))"
  have "same_core (d\<lparr>dma_rx_in_progress := dma_rx_in_progress d - 1\<rparr>) (d'\<lparr>dma_rx_in_progress := dma_rx_in_progress d' - 1\<rparr>)"
    by (simp add: d'_def same_core_def ioread32_def)
  then have d': "drv ids tot n (d'\<lparr>dma_rx_in_progress := dma_rx_in_progress d' - 1\<rparr>)" using d(2) by (rule drv_core_eq)
  have "fst (ioread32 e CPCI_REG_DMA_I_SIZE d) \<le> MAX_DMA_LEN + 2" using len by (simp add: ioread32_def)
  then obtain c' where "nf2c_rx e (unat (drop_bit 8 (fst (ioread32 e CPCI_REG_DMA_I_CTRL (snd (ioread32 e CPCI_REG_DMA_I_SIZE d))) AND 0x300)))
      (fst (ioread32 e CPCI_REG_DMA_I_SIZE d)) (d'\<lparr>dma_rx_in_progress := dma_rx_in_progress d' - 1\<rparr>) = Some c'" "drv ids tot n c'"
    using nf2c_rx_keeps [OF d'] by metis
  then show ?thesis using that d(1) by (simp add: intr_rx_complete_def d'_def split_beta Let_def)
qed

lemma intr_pkt_avail_keeps:
  assumes inv: "drv ids tot n c"
  shows "drv ids tot n (intr_pkt_avail c)"
proof (cases "dma_rx_in_progress c = 0")
  case True
  obtain q where q: "tx_inv ids tot n c q" using inv by (auto simp: drv_def)
  let ?m = "(pool_addr c, MAX_DMA_LEN, PCI_DMA_FROMDEVICE) # dma_maps c"
  let ?d = "c\<lparr>dma_maps := ?m\<rparr>\<lparr>dma_rx_in_progress := 1\<rparr>\<lparr>dma_rx_addr := pool_addr c\<rparr>"
  have "tx_inv ids tot n (c\<lparr>dma_maps := ?m\<rparr>\<lparr>dma_rx_in_progress := 1\<rparr>) q" using q by (simp add: tx_inv_maps)
  then have "tx_inv ids tot n ?d q" by (simp only: tx_inv_other)
  then have "drv ids tot n ?d" using inv by (intro drvI) (simp_all add: rx_dma_def drv_def)
  moreover have "same_core ?d (intr_pkt_avail c)"
    using True by (simp add: intr_pkt_avail_def pci_map_single_def iowrite32_def same_core_def Let_def)
  ultimately show ?thesis by (rule drv_core_eq [rotated])
next
  case False
  then show ?thesis using inv by (simp add: intr_pkt_avail_def Let_def)
qed

lemma core_link_status: "same_core c (nf2c_check_link_status e i c)"
  unfolding nf2c_check_link_status_def Let_def split_beta by (intro core_after core_io)

lemma intr_phy_core: "same_core c (intr_phy e is c)"
proof (induction "is" arbitrary: c)
  case (Cons i "is")
  let ?r = "ioread32 e (MDIO_0_INTR_STATUS + ADDRESS_DELTA * of_nat i) c"
  let ?d = "if fst ?r AND 2 \<noteq> 0 then nf2c_check_link_status e i (snd ?r) else snd ?r"
  have "same_core c ?d" by (cases "fst ?r AND 2 \<noteq> 0") (simp_all add: core_io same_core_trans [OF core_io(2) core_link_status])
  moreover have "intr_phy e (i # is) c = intr_phy e is ?d" by (simp add: split_beta Let_def)
  ultimately show ?case using same_core_trans [OF _ Cons.IH] by simp
qed (simp add: same_core_refl)

text \<open>The interrupts that a call of the handler serves.\<close>

definition intr_status :: "nf2_env \<Rightarrow> nf2_card \<Rightarrow> u32" where
  "intr_status e c =
     (let (int_mask, c) = ioread32 e CPCI_REG_INTERRUPT_MASK c;
          (status, c) = ioread32 e CPCI_REG_INTERRUPT_STATUS (nf2_disable_irq e c)
      in status AND NOT (int_mask AND NOT INT_PKT_AVAIL))"

lemma on_bits_keeps:
  assumes "drv ids tot n c" "status AND bits \<noteq> 0 \<Longrightarrow> \<exists>c'. f c = Some c' \<and> drv ids tot n c'"
  obtains c' where "on_bits status bits f c = Some c'" "drv ids tot n c'"
  using assms by (cases "status AND bits = 0") (auto simp: on_bits_def)

lemma nf2c_intr_keeps:
  assumes inv: "drv ids tot n c" and pad: "\<forall>s k. skb_pad e s k \<noteq> None"
    and len: "\<forall>a. card_read e a CPCI_REG_DMA_I_SIZE \<le> MAX_DMA_LEN + 2"
    and rx: "intr_status e c AND INT_DMA_RX_COMPLETE = 0 \<or> dma_rx_in_progress c = 1"
  obtains c' where "nf2c_intr e c = Some (intr_status e c \<noteq> 0, c')" "drv ids tot n c'"
proof -
  define s where "s = intr_status e c"
  define d0 where "d0 = snd (ioread32 e CPCI_REG_INTERRUPT_STATUS (nf2_disable_irq e (snd (ioread32 e CPCI_REG_INTERRUPT_MASK c))))"
  have core: "same_core c d0" unfolding d0_def by (intro core_simps)
  note d0 = drv_core_eq [OF core inv]
  obtain d1 where d1: "on_bits s INT_DMA_QUEUE_STATUS_CHANGE (intr_queue_status e) d0 = Some d1" "drv ids tot n d1"
      "dma_rx_in_progress d1 = dma_rx_in_progress c"
  proof (cases "s AND INT_DMA_QUEUE_STATUS_CHANGE = 0")
    case True
    then show ?thesis using that d0 core by (simp add: on_bits_def same_core_def)
  next
    case False
    then show ?thesis
      using intr_queue_status_keeps [OF d0 pad] that core by (metis on_bits_def same_core_def)
  qed
  obtain d2 where d2: "on_bits s INT_DMA_RX_COMPLETE (intr_rx_complete e) d1 = Some d2" "drv ids tot n d2"
    using on_bits_keeps [OF d1(2)] intr_rx_complete_keeps [OF d1(2) _ len] rx d1(3) unfolding s_def by metis
  obtain d3 where d3: "on_bits s INT_DMA_TX_COMPLETE (intr_tx_complete e) d2 = Some d3" "drv ids tot n d3"
    using on_bits_keeps [OF d2(2)] intr_tx_complete_keeps [OF d2(2) pad] by metis
  obtain d4 where d4: "on_bits s INT_PHY_INTERRUPT (Some \<circ> intr_phy e [0..<MAX_IFACE]) d3 = Some d4" "drv ids tot n d4"
    using on_bits_keeps [OF d3(2)] drv_core_eq [OF intr_phy_core d3(2)] by (metis comp_def)
  obtain d5 where d5: "on_bits s INT_PKT_AVAIL (Some \<circ> intr_pkt_avail) d4 = Some d5" "drv ids tot n d5"
    using on_bits_keeps [OF d4(2)] intr_pkt_avail_keeps [OF d4(2)] by (metis comp_def)
  obtain d6 where d6: "on_bits s INT_CNET_ERROR (Some \<circ> snd \<circ> ioread32 e CNET_REG_ERROR) d5 = Some d6" "drv ids tot n d6"
    using on_bits_keeps [OF d5(2)] drv_core_eq [OF core_io(2) d5(2)] by (metis comp_def)
  obtain d7 where d7: "on_bits s INT_DMA_TRANSFER_ERROR (intr_dma_error e [CPCI_REG_ERROR, CPCI_REG_PROG_STATUS]) d6 = Some d7"
      "drv ids tot n d7" using on_bits_keeps [OF d6(2)] intr_dma_error_keeps [OF d6(2) pad] by metis
  obtain d8 where d8: "on_bits s INT_DMA_SETUP_ERROR (intr_dma_error e [CPCI_REG_ERROR]) d7 = Some d8"
      "drv ids tot n d8" using on_bits_keeps [OF d7(2)] intr_dma_error_keeps [OF d7(2) pad] by metis
  obtain d9 where d9: "on_bits s INT_DMA_FATAL_ERROR (intr_dma_error e [CPCI_REG_ERROR]) d8 = Some d9"
      "drv ids tot n d9" using on_bits_keeps [OF d8(2)] intr_dma_error_keeps [OF d8(2) pad] by metis
  note chain = d1(1) d2(1) d3(1) d4(1) d5(1) d6(1) d7(1) d8(1) d9(1)
  have s: "fst (ioread32 e CPCI_REG_INTERRUPT_STATUS (nf2_disable_irq e (snd (ioread32 e CPCI_REG_INTERRUPT_MASK c))))
      AND NOT (fst (ioread32 e CPCI_REG_INTERRUPT_MASK c) AND NOT INT_PKT_AVAIL) = s"
    by (simp only: s_def intr_status_def Let_def split_beta)
  have "\<exists>v. nf2c_intr e c = Some (s \<noteq> 0, iowrite32 v CPCI_REG_INTERRUPT_MASK d9)"
    unfolding nf2c_intr_def Let_def split_beta s d0_def [symmetric] chain Option.bind.simps by blast
  then show ?thesis using that drv_core_eq [OF core_io(1) d9(2)] unfolding s_def by blast
qed

lemma nf2c_open_core: "same_core c (snd (nf2c_open e sig err i c))"
proof -
  define d where "d = netif_carrier False i (c\<lparr>state_lock := state_lock c - 1\<rparr>)"
  have d: "same_core c d" unfolding d_def by (intro core_simps)
  show ?thesis
    unfolding nf2c_open_def Let_def split_beta
    by (simp only: flip: d_def) (auto intro!: core_simps d split: if_splits)
qed

lemma free_queued_all:
  assumes "ring c q" "distinct (freed c @ buffer_ids q)"
  shows "free_queued (length q) c = Some (c\<lparr>freed := freed c @ buffer_ids q,
      rd_txbuff := (rd_txbuff c + length q) mod tx_pool_size c, free_txbuffs := free_txbuffs c + length q\<rparr>)"
  using assms
proof (induction q arbitrary: c)
  case Nil
  then show ?case by (simp add: ring_def)
next
  case (Cons t q)
  let ?d = "c\<lparr>freed := freed c @ [skb_id (txb_skb t)]\<rparr>"
  let ?d' = "?d\<lparr>rd_txbuff := (rd_txbuff ?d + 1) mod tx_pool_size ?d, free_txbuffs := free_txbuffs ?d + 1\<rparr>"
  have "ring ?d (t # q)" using Cons.prems(1) by (auto intro: ring_same)
  from ring_dequeue [OF this] have ring: "ring ?d' q" .
  have "distinct (freed ?d' @ buffer_ids q)" using Cons.prems(2) by (simp add: comp_def)
  note ih = Cons.IH [OF ring this]
  have "free_queued (length (t # q)) c = free_queued (length q) ?d'"
    using Cons.prems by (simp add: ring_front [OF Cons.prems(1)] dev_kfree_skb_def use_skb_def)
  then show ?case by (simp only: ih) (simp add: mod_add_left_eq mod_Suc_eq comp_def)
qed

text \<open>The last interface goes down. What the ports had queued is given back to the ring, but not to
  the count of each port.\<close>

lemma release_card_result:
  assumes inv: "drv ids tot n c"
  obtains c' where "release_card e c = Some c'" "drv ids (free_txbuffs_port c) n c'" "free_txbuffs c' = n" "freed c' = ids"
    "free_txbuffs_port c' = free_txbuffs_port c" "dma_rx_in_progress c' = 0" "dma_tx_in_progress c' = 0"
    "\<forall>m. snd (snd m) = PCI_DMA_FROMDEVICE \<longrightarrow> (m \<in> set (dma_maps c') \<longleftrightarrow> m \<in> set (dma_maps c))"
proof -
  obtain q where q: "tx_inv ids tot n c q" and lock: "\<not> txbuff_lock c" using inv by (auto simp: drv_def)
  define d where "d = nf2_hw_reset e (c\<lparr>irq_handler := False\<rparr>)"
  have core: "same_core c d" unfolding d_def by (intro core_simps)
  have d: "tx_inv ids tot n d q" using q by (simp add: tx_inv_core [OF core])
  define ms where "ms = (if dma_tx_in_progress d = 0 then dma_maps d
    else remove1 (dma_tx_addr d, skb_len (txb_skb (hd q)), PCI_DMA_TODEVICE) (dma_maps d))"
  define d' where "d' = d\<lparr>dma_maps := ms\<rparr>"
  have unmap: "(if dma_tx_in_progress d \<noteq> 0
     then do {
       t \<leftarrow> front d;
       skb \<leftarrow> use_skb d (txb_skb t);
       pci_unmap_single (dma_tx_addr d) (skb_len skb) PCI_DMA_TODEVICE d
     } else Some d) = Some d'"
  proof (cases "dma_tx_in_progress d = 0")
    case False
    obtain t q' where t: "q = t # q'" "dma_tx_in_progress d = 1" using tx_in_progress [OF d False] .
    show ?thesis using t use_front(1) [OF d [unfolded t(1)]]
      by (simp add: tx_inv_front [OF d [unfolded t(1)]] unmap_front [OF d [unfolded t(1)]] d'_def ms_def)
  qed (simp add: d'_def ms_def)
  have ring: "ring d' q" and ids: "freed d' @ buffer_ids q = ids" "distinct ids" and pool: "tx_pool_size d' = n"
      "free_txbuffs d' + length q = n"
    using d by (auto simp: d'_def tx_inv_def intro: ring_same) (simp add: ring_def)
  have to: "filter (\<lambda>m. snd (snd m) = PCI_DMA_TODEVICE) ms = []"
    using d by (auto simp: ms_def filter_remove1 tx_inv_def tx_dma_def)
  define c' where "c' = d'\<lparr>freed := ids, rd_txbuff := (rd_txbuff d' + length q) mod n, free_txbuffs := n,
    dma_tx_in_progress := 0, dma_rx_in_progress := 0\<rparr>"
  have free: "free_queued (length q) d' = Some (d'\<lparr>freed := ids, rd_txbuff := (rd_txbuff d' + length q) mod n, free_txbuffs := n\<rparr>)"
    using free_queued_all [OF ring] ids pool by simp
  have todo: "tx_pool_size d' - free_txbuffs d' = length q" "free_txbuffs d = tx_pool_size d \<longleftrightarrow> q = []"
    using pool by (auto simp: d'_def)
  have release: "release_card e c = Some c'"
  proof (cases "q = []")
    case True
    then have "d' = d" using d by (simp add: d'_def ms_def tx_inv_def tx_dma_def)
    then show ?thesis using True free todo by (simp add: release_card_def Let_def c'_def flip: d_def)
  next
    case False
    then show ?thesis using free unmap todo by (simp add: release_card_def Let_def c'_def flip: d_def)
  qed
  have fields: "tx_pool_size c' = n" "free_txbuffs_port c' = free_txbuffs_port c" "length (free_txbuffs_port c) = 4"
      "length (ndev c') = 4" "\<not> txbuff_lock c'" "dma_maps c' = ms"
    using d core lock by (simp_all add: c'_def d'_def tx_inv_def same_core_def)
  have "ring c' []" using ring pool by (simp add: c'_def ring_def)
  moreover have "port_total c' [] = free_txbuffs_port c"
    using fields(2,3) map_nth [of "free_txbuffs_port c"] by (simp add: port_total_def)
  moreover have "tx_dma c' []" using to fields(6) by (simp add: tx_dma_def) (simp add: c'_def)
  ultimately have "tx_inv ids (free_txbuffs_port c) n c' []"
    using fields ids(2) by (simp add: tx_inv_def) (simp add: c'_def)
  then have "drv ids (free_txbuffs_port c) n c'" using fields(5) by (intro drvI) (simp_all add: rx_dma_def c'_def)
  moreover have "m \<in> set (dma_maps c') \<longleftrightarrow> m \<in> set (dma_maps c)" if "snd (snd m) = PCI_DMA_FROMDEVICE" for m
  proof -
    have "m \<noteq> (a, l, PCI_DMA_TODEVICE)" for a l using that by auto
    then show ?thesis using core by (simp add: fields(6) ms_def same_core_def in_set_remove1)
  qed
  ultimately show ?thesis using that release fields by (simp add: c'_def)
qed

lemma nf2c_release_keeps:
  assumes inv: "drv ids tot n c"
  obtains r c' tot' where "nf2c_release e sig i c = Some (r, c')" "drv ids tot' n c'"
proof (cases sig)
  case True
  then show ?thesis using that inv by (simp add: nf2c_release_def)
next
  case False
  define d where "d = netif_stop_queue i (netif_carrier False i (c\<lparr>state_lock := state_lock c - 1\<rparr>))"
  define v where "v = fst (ioread32 e CNET_REG_ENABLE d) AND NOT (push_bit i (0x1000 OR 0x100))"
  define d1 where "d1 = iowrite32 (push_bit i 1) CNET_REG_RESET (iowrite32 v CNET_REG_ENABLE (snd (ioread32 e CNET_REG_ENABLE d)))"
  define d2 where "d2 = d1\<lparr>ifup := ifup d1 AND NOT (push_bit i 1)\<rparr>"
  have "same_core c d2" unfolding d2_def d1_def d_def by (intro core_simps)
  from drv_core_eq [OF this inv] have d2: "drv ids tot n d2" .
  have eq: "nf2c_release e sig i c = do {
      c \<leftarrow> (if ifup d2 = 0 then release_card e d2 else Some d2);
      Some (0, c\<lparr>state_lock := state_lock c + 1\<rparr>) }"
    using False by (simp add: nf2c_release_def Let_def split_beta d2_def d1_def d_def v_def)
  have up: "drv ids tot' n (c'\<lparr>state_lock := l\<rparr>)" if "drv ids tot' n c'" for tot' c' l
    by (rule drv_core_eq [OF core_fields(3) [OF same_core_refl] that])
  show ?thesis
  proof (cases "ifup d2 = 0")
    case True
    obtain c' where "release_card e d2 = Some c'" "drv ids (free_txbuffs_port d2) n c'"
      using release_card_result [OF d2] .
    then show ?thesis using True eq by (intro that [OF _ up]) auto
  next
    case nonzero: False
    then show ?thesis using eq by (intro that [OF _ up [OF d2]]) simp
  qed
qed

end
