(* ===== verification/Nf2_Main.thy ===== *)
theory Nf2_Main
  imports Nf2_Driver
begin

text \<open>
  Loading and unloading the kernel driver (\<open>nf2main.c\<close>, \<open>nf2c_probe\<close> and \<open>nf2c_remove\<close> of
  \<open>nf2_control.c\<close>), access to the registers by ioctl, and the runs of the driver: whatever the kernel
  and the card do after the driver was loaded, in any order.
\<close>

section \<open>Parameters of the module\<close>

record nf2_params =
  timeout :: int
  rx_pool_param :: int
  tx_pool_param :: int
  nf2_major :: int
  nf2_minor :: int

definition NF2_TIMEOUT :: "int \<Rightarrow> int" where "NF2_TIMEOUT hz = 2 * hz"
definition NUM_TX_BUFFS :: int where "NUM_TX_BUFFS = 16"
definition NUM_RX_BUFFS :: int where "NUM_RX_BUFFS = 8"
definition NF2_MAJOR :: int where "NF2_MAJOR = 0"

definition nf2_validate_params :: "int \<Rightarrow> nf2_params \<Rightarrow> nf2_params" where
  "nf2_validate_params hz p =
     (let p = (if timeout p \<le> 0 then p\<lparr>timeout := NF2_TIMEOUT hz\<rparr> else p);
          p = (if rx_pool_param p \<le> 0 then p\<lparr>rx_pool_param := NUM_RX_BUFFS\<rparr> else p);
          p = (if tx_pool_param p \<le> 0 then p\<lparr>tx_pool_param := NUM_TX_BUFFS\<rparr> else p);
          p = (if nf2_major p < 0 then p\<lparr>rx_pool_param := NF2_MAJOR\<rparr> else p)
      in if nf2_minor p < 0 then p\<lparr>rx_pool_param := 0\<rparr> else p)"

section \<open>Loading and unloading\<close>

text \<open>What the driver has got from the kernel and must give back; \<open>drop1\<close> gives one thing back.\<close>

datatype kernel_object = PciEnabled | MemRegion | CardPriv | IoMap | RxPool | TxBuffs | NetDev nat

definition drop1 :: "kernel_object \<Rightarrow> kernel_object list \<Rightarrow> kernel_object list" where
  "drop1 k live = remove1 k live"

text \<open>The outcome of each request to the kernel, in the order of the calls.\<close>

record probe_env =
  pci_enable_err :: int
  pci_rev :: u8
  dma_mask_err :: int
  mem_region_ok :: bool
  card_ok :: bool
  ioremap_ok :: bool
  pool_ok :: bool
  txbuff_ok :: bool
  netdev_ok :: "nat \<Rightarrow> bool"

definition ENODEV :: int where "ENODEV = 19"
definition ENOMEM :: int where "ENOMEM = 12"
definition EFAULT :: int where "EFAULT = 14"
definition EBUSY :: int where "EBUSY = 16"
definition EOPNOTSUPP :: int where "EOPNOTSUPP = 95"
definition EADDRNOTAVAIL :: int where "EADDRNOTAVAIL = 99"

definition new_netdev :: "int \<Rightarrow> nf2_netdev" where
  "new_netdev devnum = \<lparr>carrier_on = True, queue_stopped = False, dev_addr = [0, 0x4E, 0x46, 0x32, 0x43, of_int devnum],
     rx_packets = 0, rx_bytes = 0, rx_dropped = 0, tx_packets = 0, tx_bytes = 0, tx_errors = 0\<rparr>"

text \<open>The loop over the devices stops at the first one that the kernel does not give.\<close>

fun alloc_netdevs :: "probe_env \<Rightarrow> nat \<Rightarrow> nat \<Rightarrow> int \<Rightarrow> nf2_netdev list \<Rightarrow> kernel_object list
    \<Rightarrow> bool \<times> int \<times> nf2_netdev list \<times> kernel_object list" where
  "alloc_netdevs pe i 0 devnum devs live = (True, devnum, devs, live)"
| "alloc_netdevs pe i (Suc n) devnum devs live =
     (if netdev_ok pe i
      then alloc_netdevs pe (i + 1) n (devnum + 1) (devs @ [new_netdev devnum]) (NetDev i # live)
      else (False, devnum, devs, live))"

definition free_netdevs :: "nat \<Rightarrow> kernel_object list \<Rightarrow> kernel_object list" where
  "free_netdevs n live = fold (\<lambda>i. drop1 (NetDev i)) [0..<n] live"

text \<open>The result of \<open>register_netdev\<close> is only logged.\<close>

definition nf2c_probe :: "probe_env \<Rightarrow> nat \<Rightarrow> int \<Rightarrow> nf2_card \<Rightarrow> kernel_object list
    \<Rightarrow> int \<times> int \<times> nf2_card \<times> kernel_object list" where
  "nf2c_probe pe pool devnum c live =
     (if \<not> pool_ok pe then (- ENOMEM, devnum, c, live)
      else let live = RxPool # live
           in if \<not> txbuff_ok pe then (- ENOMEM, devnum, c, drop1 RxPool live)
              else let live = TxBuffs # live;
                       c = c\<lparr>tx_pool_size := pool, txbuffs := replicate pool None, free_txbuffs := pool,
                             free_txbuffs_port := replicate MAX_IFACE (int (pool div MAX_IFACE))\<rparr>;
                       (ok, devnum, devs, live) = alloc_netdevs pe 0 MAX_IFACE devnum [] live;
                       c = c\<lparr>ndev := devs\<rparr>
                   in if \<not> ok then (- ENOMEM, devnum, c, drop1 RxPool (drop1 TxBuffs (free_netdevs (length devs) live)))
                      else (0, devnum, c, live))"

definition zero_card :: "u32 \<Rightarrow> nf2_card" where
  "zero_card addr = \<lparr>io = [], is_ctrl = False, tx_pool_size = 0, txbuffs = [], wr_txbuff = 0, rd_txbuff = 0, free_txbuffs = 0,
     free_txbuffs_port = [0, 0, 0, 0], txbuff_lock = False, dma_tx_addr = 0, dma_rx_addr = 0, dma_tx_in_progress = 0,
     dma_rx_in_progress = 0, dma_can_wr_pkt = 0, pool_addr = addr, ndev = [], ifup = 0, state_lock = 0,
     irq_handler = False, freed = [], netif_rx = [], dma_maps = []\<rparr>"

text \<open>\<open>addr\<close> is the bus address that the receive buffer will have, \<open>pool\<close> the module's \<open>tx_pool_size\<close>.\<close>

definition nf2_probe :: "probe_env \<Rightarrow> nat \<Rightarrow> int \<Rightarrow> u32 \<Rightarrow> kernel_object list \<Rightarrow> int \<times> int \<times> nf2_card option \<times> kernel_object list" where
  "nf2_probe pe pool devnum addr live =
     (if pci_enable_err pe \<noteq> 0 then (- ENODEV, devnum, None, drop1 PciEnabled live)
      else let live = PciEnabled # live
           in if pci_rev pe \<noteq> 0 then (- ENODEV, devnum, None, live)
              else if dma_mask_err pe \<noteq> 0 then (- ENODEV, devnum, None, drop1 PciEnabled live)
              else if \<not> mem_region_ok pe then (- ENODEV, devnum, None, drop1 PciEnabled live)
              else let live = MemRegion # live
                   in if \<not> card_ok pe then (- ENOMEM, devnum, None, drop1 PciEnabled (drop1 MemRegion live))
                      else let live = CardPriv # live;
                               c = (zero_card addr)\<lparr>state_lock := 1\<rparr>
                           in if \<not> ioremap_ok pe
                              then (- ENODEV, devnum, None, drop1 PciEnabled (drop1 MemRegion (drop1 CardPriv live)))
                              else let live = IoMap # live;
                                       c = iowrite32 0 CNET_REG_ENABLE c;
                                       c = c\<lparr>is_ctrl := True\<rparr>;
                                       (ret, devnum, c, live) = nf2c_probe pe pool devnum c live
                                   in if ret < 0
                                      then (ret, devnum, None, drop1 PciEnabled (drop1 MemRegion (drop1 CardPriv (drop1 IoMap live))))
                                      else (ret, devnum, Some c, live))"

text \<open>\<open>unregister_netdev\<close> brings a device that is up down first.\<close>

primrec unregister_netdevs :: "nf2_env \<Rightarrow> nat list \<Rightarrow> nf2_card \<Rightarrow> nf2_card option" where
  "unregister_netdevs e [] c = Some c"
| "unregister_netdevs e (i # is) c = do {
     c \<leftarrow> (if bit (ifup c) i then map_option snd (nf2c_release e False i c) else Some c);
     unregister_netdevs e is c
   }"

definition nf2c_remove :: "nf2_env \<Rightarrow> nf2_card \<Rightarrow> kernel_object list \<Rightarrow> (nf2_card \<times> kernel_object list) option" where
  "nf2c_remove e c live = do {
     c \<leftarrow> unregister_netdevs e [0..<MAX_IFACE] c;
     let live = free_netdevs MAX_IFACE live;
     c \<leftarrow> (if free_txbuffs c \<noteq> tx_pool_size c then free_queued (tx_pool_size c - free_txbuffs c) c else Some c);
     Some (c, drop1 RxPool (drop1 TxBuffs live))
   }"

definition nf2_remove :: "nf2_env \<Rightarrow> nf2_card \<Rightarrow> kernel_object list \<Rightarrow> (nf2_card \<times> kernel_object list) option" where
  "nf2_remove e c live = do {
     (c, live) \<leftarrow> nf2c_remove e c live;
     Some (c, drop1 PciEnabled (drop1 MemRegion (drop1 CardPriv (drop1 IoMap live))))
   }"

section \<open>Other operations of the devices\<close>

record ifmap =
  base_addr :: nat
  irq :: nat

definition nf2c_config :: "bool \<Rightarrow> ifmap \<Rightarrow> ifmap \<Rightarrow> int" where
  "nf2c_config running dev m =
     (if running then - EBUSY
      else if base_addr m \<noteq> base_addr dev then - EOPNOTSUPP
      else if irq m \<noteq> irq dev then - EOPNOTSUPP
      else 0)"

definition is_valid_ether_addr :: "u8 list \<Rightarrow> bool" where
  "is_valid_ether_addr a \<longleftrightarrow> a ! 0 AND 1 = 0 \<and> (\<exists>b\<in>set (take 6 a). b \<noteq> 0)"

definition nf2c_set_mac_address :: "nat \<Rightarrow> u8 list \<Rightarrow> nf2_card \<Rightarrow> int \<times> nf2_card" where
  "nf2c_set_mac_address iface sa_data c =
     (if \<not> is_valid_ether_addr sa_data then (- EADDRNOTAVAIL, c)
      else (0, with_dev iface (\<lambda>d. d\<lparr>dev_addr := take 6 sa_data\<rparr>) c))"

definition nf2c_stats :: "nat \<Rightarrow> nf2_card \<Rightarrow> nf2_netdev" where
  "nf2c_stats iface c = ndev c ! iface"

text \<open>The registers are mapped (\<open>mapped\<close>) on \<open>bar\<close> bytes. A null \<open>data\<close> is \<open>None\<close>; the result has the
  value that \<open>data\<close> points to afterwards.\<close>

definition nf2k_reg_read :: "nf2_env \<Rightarrow> bool \<Rightarrow> nat \<Rightarrow> u32 \<Rightarrow> u32 option \<Rightarrow> nf2_card \<Rightarrow> int \<times> u32 option \<times> nf2_card" where
  "nf2k_reg_read e mapped bar addr data c =
     (if data = None \<or> \<not> mapped \<or> unat addr \<ge> bar then (1, data, c)
      else let (v, c) = ioread32 e addr c in (0, Some v, c))"

definition nf2k_reg_write :: "bool \<Rightarrow> nat \<Rightarrow> u32 \<Rightarrow> u32 option \<Rightarrow> nf2_card \<Rightarrow> int \<times> nf2_card" where
  "nf2k_reg_write mapped bar addr data c =
     (case data of None \<Rightarrow> (1, c)
      | Some v \<Rightarrow> if \<not> mapped \<or> unat addr \<ge> bar then (1, c) else (0, iowrite32 v addr c))"

text \<open>The two structures that an ioctl passes: \<open>struct nf2reg\<close> in the memory of the caller and the kernel's
  \<open>struct mii_ioctl_data\<close>, whose fields have 16 bits.\<close>

record ioctl_data =
  reg_reg :: u32
  reg_val :: u32
  mii_phy_id :: u16
  mii_reg_num :: u16
  mii_val_out :: u16

definition SIOCREGREAD :: nat where "SIOCREGREAD = 0x89F0"
definition SIOCREGWRITE :: nat where "SIOCREGWRITE = 0x89F0 + 1"
definition SIOCGMIIPHY :: nat where "SIOCGMIIPHY = 0x8947"
definition SIOCGMIIREG :: nat where "SIOCGMIIREG = 0x8948"

definition nf2c_ioctl :: "nf2_env \<Rightarrow> bool \<Rightarrow> nat \<Rightarrow> bool \<Rightarrow> bool \<Rightarrow> nat \<Rightarrow> nat \<Rightarrow> ioctl_data \<Rightarrow> nf2_card \<Rightarrow> int \<times> ioctl_data \<times> nf2_card" where
  "nf2c_ioctl e mapped bar from_ok to_ok iface cmd rq c =
     (if cmd = SIOCREGREAD
      then (if \<not> from_ok then (- EFAULT, rq, c)
            else let (_, val, c) = nf2k_reg_read e mapped bar (reg_reg rq) (Some (reg_val rq)) c
                 in if \<not> to_ok then (- EFAULT, rq, c) else (0, rq\<lparr>reg_val := the val\<rparr>, c))
      else if cmd = SIOCREGWRITE
      then (if \<not> from_ok then (- EFAULT, rq, c)
            else (0, rq, snd (nf2k_reg_write mapped bar (reg_reg rq) (Some (reg_val rq)) c)))
      else if cmd = SIOCGMIIPHY
      then let (lo, c) = ioread32 e (MDIO_0_PHY_ID_LO_REG + ADDRESS_DELTA * of_nat iface) c;
               (hi, c) = ioread32 e (MDIO_0_PHY_ID_HI_REG + ADDRESS_DELTA * of_nat iface) c;
               phy_id = push_bit 16 hi OR lo
           in (0, rq\<lparr>mii_phy_id := ucast phy_id\<rparr>, c)
      else if cmd = SIOCGMIIREG
      then let (v, c) = ioread32 e (MDIO_0_BASE + ADDRESS_DELTA * of_nat iface + ucast (mii_reg_num rq)) c
           in (0, rq\<lparr>mii_val_out := ucast v\<rparr>, c)
      else (- EOPNOTSUPP, rq, c))"

section \<open>What loading leaves behind\<close>

lemma upto_four: "[0..<4] = [0, 1, 2, 3::nat]" "[0..<3] = [0, 1, 2::nat]" "[0..<2] = [0, 1::nat]" "[0..<1] = [0::nat]"
  by (simp_all add: upt_rec)

lemma alloc_netdevs_four:
  "alloc_netdevs pe 0 4 devnum [] live =
     (if \<not> netdev_ok pe 0 then (False, devnum, [], live)
      else if \<not> netdev_ok pe 1 then (False, devnum + 1, [new_netdev devnum], NetDev 0 # live)
      else if \<not> netdev_ok pe 2 then (False, devnum + 2, map new_netdev [devnum, devnum + 1], NetDev 1 # NetDev 0 # live)
      else if \<not> netdev_ok pe 3
      then (False, devnum + 3, map new_netdev [devnum, devnum + 1, devnum + 2], NetDev 2 # NetDev 1 # NetDev 0 # live)
      else (True, devnum + 4, map new_netdev [devnum, devnum + 1, devnum + 2, devnum + 3],
            NetDev 3 # NetDev 2 # NetDev 1 # NetDev 0 # live))"
  by (simp add: numeral_eq_Suc add.commute)

lemma free_netdevs_four:
  "free_netdevs (length []) live = live" "free_netdevs (length [a]) (NetDev 0 # live) = live"
  "free_netdevs (length [a, b]) (NetDev 1 # NetDev 0 # live) = live"
  "free_netdevs (length [a, b, d]) (NetDev 2 # NetDev 1 # NetDev 0 # live) = live"
  "free_netdevs 4 (NetDev 3 # NetDev 2 # NetDev 1 # NetDev 0 # live) = live"
  by (simp_all add: free_netdevs_def drop1_def upt_rec)

definition loaded_card :: "nat \<Rightarrow> int \<Rightarrow> nf2_card \<Rightarrow> nf2_card" where
  "loaded_card pool devnum c = c\<lparr>tx_pool_size := pool, txbuffs := replicate pool None, free_txbuffs := pool,
     free_txbuffs_port := replicate 4 (int (pool div 4)), ndev := map new_netdev [devnum, devnum + 1, devnum + 2, devnum + 3]\<rparr>"

lemma nf2c_probe_ok:
  assumes "pool_ok pe" "txbuff_ok pe" "\<forall>i<4. netdev_ok pe i"
  shows "nf2c_probe pe pool devnum c live = (0, devnum + 4, loaded_card pool devnum c,
    map NetDev [3, 2, 1, 0] @ [TxBuffs, RxPool] @ live)"
  using assms by (simp add: nf2c_probe_def MAX_IFACE_def alloc_netdevs_four loaded_card_def)

lemma nf2c_probe_fails:
  assumes "\<not> (pool_ok pe \<and> txbuff_ok pe \<and> (\<forall>i<4. netdev_ok pe i))"
  shows "\<exists>k c'. nf2c_probe pe pool devnum c live = (- ENOMEM, k, c', live)"
proof -
  have "(\<forall>i<4. netdev_ok pe i) \<longleftrightarrow> netdev_ok pe 0 \<and> netdev_ok pe 1 \<and> netdev_ok pe 2 \<and> netdev_ok pe 3"
    by (auto simp: numeral_eq_Suc less_Suc_eq)
  note four = this
  show ?thesis
    using assms unfolding four
    by (cases "pool_ok pe"; cases "txbuff_ok pe"; cases "netdev_ok pe 0"; cases "netdev_ok pe 1"; cases "netdev_ok pe 2")
      (simp_all add: nf2c_probe_def MAX_IFACE_def alloc_netdevs_four drop1_def free_netdevs_def upto_four Let_def)
qed

lemma replicate_four: "replicate 4 x = [x, x, x, x]"
  by (simp add: numeral_eq_Suc)

lemma drv_fresh:
  assumes "0 < pool"
  shows "drv [] (replicate 4 (int (pool div 4))) pool (loaded_card pool devnum (zero_card addr))"
proof -
  have "tx_inv [] (replicate 4 (int (pool div 4))) pool (loaded_card pool devnum (zero_card addr)) []"
    using assms by (simp add: tx_inv_def ring_def tx_dma_def port_total_def loaded_card_def zero_card_def upto_four replicate_four)
  then show ?thesis by (rule drvI) (simp_all add: rx_dma_def loaded_card_def zero_card_def)
qed

lemma nf2_probe_loaded:
  assumes "nf2_probe pe pool devnum addr live = (r, devnum', Some c, live')"
  shows "r = 0" "live' = map NetDev [3, 2, 1, 0] @ [TxBuffs, RxPool, IoMap, CardPriv, MemRegion, PciEnabled] @ live"
    "same_core (loaded_card pool devnum (zero_card addr)) c" "ifup c = 0"
proof -
  have ok: "pool_ok pe \<and> txbuff_ok pe \<and> (\<forall>i<4. netdev_ok pe i)"
  proof (rule ccontr)
    assume "\<not> (pool_ok pe \<and> txbuff_ok pe \<and> (\<forall>i<4. netdev_ok pe i))"
    note fails = nf2c_probe_fails [OF this, of pool devnum]
    show False using assms fails [of "iowrite32 0 CNET_REG_ENABLE (zero_card addr\<lparr>state_lock := 1\<rparr>)\<lparr>is_ctrl := True\<rparr>" "IoMap # CardPriv # MemRegion # PciEnabled # live"]
      by (auto simp: nf2_probe_def Let_def ENOMEM_def split: if_splits)
  qed
  have "c = loaded_card pool devnum ((iowrite32 0 CNET_REG_ENABLE (zero_card addr\<lparr>state_lock := 1\<rparr>))\<lparr>is_ctrl := True\<rparr>)
      \<and> r = 0 \<and> live' = map NetDev [3, 2, 1, 0] @ [TxBuffs, RxPool, IoMap, CardPriv, MemRegion, PciEnabled] @ live"
    using assms ok by (auto simp: nf2_probe_def nf2c_probe_ok Let_def split: if_splits)
  then show "r = 0" "live' = map NetDev [3, 2, 1, 0] @ [TxBuffs, RxPool, IoMap, CardPriv, MemRegion, PciEnabled] @ live"
    "same_core (loaded_card pool devnum (zero_card addr)) c" "ifup c = 0"
    by (simp_all add: same_core_def loaded_card_def iowrite32_def zero_card_def)
qed

lemma probe_drv:
  "nf2_probe pe pool devnum addr live = (r, devnum', Some c, live') \<Longrightarrow> 0 < pool
    \<Longrightarrow> drv [] (replicate 4 (int (pool div 4))) pool c"
  using drv_core_eq [OF nf2_probe_loaded(3) drv_fresh] .

section \<open>Runs of the driver\<close>

text \<open>A run in an environment \<open>e\<close> from the loading of the driver on; \<open>ids\<close> are the packets that the
  driver has taken over. A buffer is handed over once. The card reports the end of a
  reception only while there is one.\<close>

inductive nf2_run :: "nf2_env \<Rightarrow> nat \<Rightarrow> nf2_card \<Rightarrow> nat list \<Rightarrow> bool" for e pool where
  load: "nf2_probe pe pool devnum addr live = (0, devnum', Some c, live') \<Longrightarrow> nf2_run e pool c []"
| tx: "nf2_run e pool c ids \<Longrightarrow> i < 4 \<Longrightarrow> skb_id skb \<notin> set ids \<Longrightarrow> nf2c_tx e skb i c = Some (err, c')
    \<Longrightarrow> nf2_run e pool c' (if err = 0 then ids @ [skb_id skb] else ids)"
| intr: "nf2_run e pool c ids \<Longrightarrow> intr_status e c AND INT_DMA_RX_COMPLETE = 0 \<or> dma_rx_in_progress c = 1
    \<Longrightarrow> nf2c_intr e c = Some (h, c') \<Longrightarrow> nf2_run e pool c' ids"
| watchdog: "nf2_run e pool c ids \<Longrightarrow> i < 4 \<Longrightarrow> nf2c_tx_timeout e i c = Some c' \<Longrightarrow> nf2_run e pool c' ids"
| up: "nf2_run e pool c ids \<Longrightarrow> i < 4 \<Longrightarrow> nf2c_open e sig err i c = (r, c') \<Longrightarrow> nf2_run e pool c' ids"
| down: "nf2_run e pool c ids \<Longrightarrow> i < 4 \<Longrightarrow> nf2c_release e sig i c = Some (r, c') \<Longrightarrow> nf2_run e pool c' ids"
| mac: "nf2_run e pool c ids \<Longrightarrow> i < 4 \<Longrightarrow> nf2c_set_mac_address i a c = (r, c') \<Longrightarrow> nf2_run e pool c' ids"
| ioctl: "nf2_run e pool c ids \<Longrightarrow> i < 4 \<Longrightarrow> nf2c_ioctl e mapped bar from_ok to_ok i cmd rq c = (r, rq', c') \<Longrightarrow> nf2_run e pool c' ids"

text \<open>No padding fails, and the card writes no more than the buffer has room for.\<close>

definition kernel_ok :: "nf2_env \<Rightarrow> bool" where
  "kernel_ok e \<longleftrightarrow> (\<forall>s k. skb_pad e s k \<noteq> None) \<and> (\<forall>a. card_read e a CPCI_REG_DMA_I_SIZE \<le> MAX_DMA_LEN + 2)"

lemma ioctl_core:
  "same_core c (snd (snd (nf2c_ioctl e mapped bar from_ok to_ok i cmd rq c)))"
  by (simp add: nf2c_ioctl_def nf2k_reg_read_def nf2k_reg_write_def Let_def ioread32_def iowrite32_def same_core_def)

lemma nf2_run_drv:
  assumes "nf2_run e pool c ids" "kernel_ok e" "0 < pool"
  shows "\<exists>tot. drv ids tot pool c"
  using assms(1)
proof (induction rule: nf2_run.induct)
  case (load pe devnum addr live devnum' c live')
  then show ?case using probe_drv assms(3) by blast
next
  case (tx c ids i skb err c')
  then obtain tot q where q: "tx_inv ids tot pool c q" and inv: "drv ids tot pool c" by (auto simp: drv_def)
  have pad: "\<forall>s k. skb_pad e s k \<noteq> None" and lock: "\<not> txbuff_lock c" using assms(2) inv by (simp_all add: kernel_ok_def drv_def)
  obtain err' c2 q2 where sent: "nf2c_tx e skb i c = Some (err', c2)" "err' = (if free_txbuffs c = 0 then 1 else 0)" "same_rx c c2"
      "tx_inv (if free_txbuffs c = 0 then ids else ids @ [skb_id skb]) tot pool c2 q2"
    using nf2c_tx_keeps [OF q pad lock tx(2,3)] .
  then have "tx_inv (if err = 0 then ids @ [skb_id skb] else ids) tot pool c' q2" "same_rx c c'"
    using tx(4) by (auto split: if_splits)
  then show ?case using drv_same_rx [OF inv] by blast
next
  case (intr c ids h c')
  then obtain tot where inv: "drv ids tot pool c" by blast
  show ?case using nf2c_intr_keeps [OF inv _ _ intr(2)] intr(3) assms(2) by (metis kernel_ok_def option.inject prod.inject)
next
  case (watchdog c ids i c')
  then show ?case using nf2c_tx_timeout_keeps assms(2) by (metis kernel_ok_def option.inject)
next
  case (up c ids i sig err r c')
  then show ?case using drv_core_eq nf2c_open_core by (metis snd_conv)
next
  case (down c ids i sig r c')
  then show ?case using nf2c_release_keeps by (metis option.inject prod.inject)
next
  case (mac c ids i a r c')
  then have "same_core c c'" by (auto simp: nf2c_set_mac_address_def split: if_splits intro: core_simps)
  then show ?case using mac(4) drv_core_eq by blast
next
  case (ioctl c ids i mapped bar from_ok to_ok cmd rq r rq' c')
  then show ?case using drv_core_eq ioctl_core by (metis snd_conv)
qed

lemma unregister_netdevs_keeps:
  "drv ids tot n c \<Longrightarrow> \<exists>c' tot'. unregister_netdevs e is c = Some c' \<and> drv ids tot' n c'"
proof (induction "is" arbitrary: c tot)
  case (Cons i "is")
  obtain c1 tot1 where "(if bit (ifup c) i then map_option snd (nf2c_release e False i c) else Some c) = Some c1" "drv ids tot1 n c1"
  proof (cases "bit (ifup c) i")
    case True
    obtain r c' tot' where "nf2c_release e False i c = Some (r, c')" "drv ids tot' n c'" using nf2c_release_keeps [OF Cons.prems] .
    then show ?thesis using that True by simp
  qed (use that Cons.prems in simp)
  then show ?case using Cons.IH by simp
qed auto

lemma nf2_remove_result:
  assumes "drv ids tot n c"
  shows "\<exists>c'. nf2_remove e c (map NetDev [3, 2, 1, 0] @ [TxBuffs, RxPool, IoMap, CardPriv, MemRegion, PciEnabled] @ live)
    = Some (c', live) \<and> freed c' = ids"
proof -
  obtain d tot' where d: "unregister_netdevs e [0..<MAX_IFACE] c = Some d" "drv ids tot' n d"
    using unregister_netdevs_keeps [OF assms] by blast
  then obtain q where q: "tx_inv ids tot' n d q" by (auto simp: drv_def)
  have ring: "ring d q" and ids: "freed d @ buffer_ids q = ids" "distinct ids" using q by (auto simp: tx_inv_def)
  obtain c' where "(if free_txbuffs d \<noteq> tx_pool_size d then free_queued (tx_pool_size d - free_txbuffs d) d else Some d) = Some c'" "freed c' = ids"
  proof (cases "q = []")
    case True
    then show ?thesis using that ids ring_empty [OF ring] by simp
  next
    case False
    have "tx_pool_size d - free_txbuffs d = length q" using ring by (auto simp: ring_def)
    then show ?thesis using that False ring_empty [OF ring] free_queued_all [OF ring] ids by simp
  qed
  then show ?thesis using d(1) by (simp add: nf2_remove_def nf2c_remove_def MAX_IFACE_def free_netdevs_def drop1_def upto_four)
qed

text \<open>An example: the first interface comes up and two packets arrive for it while the card takes none;
  then the card reports that it can take packets, and twice the end of a transfer.\<close>

definition some_kernel :: nf2_env where
  "some_kernel = \<lparr>card_read = (\<lambda>io a.
       if a = CPCI_REG_INTERRUPT_STATUS then (if length io < 16 then 0x200 else 0x40000000)
       else if a = CPCI_REG_DMA_QUEUE_STATUS then 0xf else if a = CPCI_REG_DMA_I_SIZE then 60 else 0),
     skb_pad = (\<lambda>s k. Some (skb_addr s)), dev_alloc_skb = (\<lambda>n. True), rx_buffer = (\<lambda>io k. 0)\<rparr>"

definition all_given :: probe_env where
  "all_given = \<lparr>pci_enable_err = 0, pci_rev = 0, dma_mask_err = 0, mem_region_ok = True, card_ok = True, ioremap_ok = True,
     pool_ok = True, txbuff_ok = True, netdev_ok = (\<lambda>i. True)\<rparr>"

definition some_card :: nf2_card where
  "some_card = (loaded_card 16 0 ((iowrite32 0 CNET_REG_ENABLE (zero_card 0x1000\<lparr>state_lock := 1\<rparr>))\<lparr>is_ctrl := True\<rparr>))"

lemma some_kernel_ok: "kernel_ok some_kernel"
  by (simp add: kernel_ok_def some_kernel_def driver_consts)

lemma some_card_loaded: "nf2_run some_kernel 16 some_card []"
proof (rule nf2_run.load)
  show "nf2_probe all_given 16 0 0x1000 [] = (0, 4, Some some_card,
      map NetDev [3, 2, 1, 0] @ [TxBuffs, RxPool, IoMap, CardPriv, MemRegion, PciEnabled] @ [])"
    by (simp add: nf2_probe_def all_given_def nf2c_probe_ok some_card_def)
qed

definition card_up :: nf2_card where
  "card_up = snd (nf2c_open some_kernel False 0 0 some_card)"

definition card_one :: nf2_card where
  "card_one = snd (the (nf2c_tx some_kernel \<lparr>skb_id = 7, skb_len = 40, skb_addr = 0x2000\<rparr> 0 card_up))"

definition card_two :: nf2_card where
  "card_two = snd (the (nf2c_tx some_kernel \<lparr>skb_id = 8, skb_len = 100, skb_addr = 0x3000\<rparr> 0 card_one))"

definition card_sending :: nf2_card where
  "card_sending = snd (the (nf2c_intr some_kernel card_two))"

lemma card_up_run: "nf2_run some_kernel 16 card_up []"
  by (rule nf2_run.up [OF some_card_loaded, of 0 False 0 "fst (nf2c_open some_kernel False 0 0 some_card)"]) (simp_all add: card_up_def)

lemma card_one_run: "nf2_run some_kernel 16 card_one [7]"
proof -
  have "nf2c_tx some_kernel \<lparr>skb_id = 7, skb_len = 40, skb_addr = 0x2000\<rparr> 0 card_up = Some (0, card_one)" by code_simp
  from nf2_run.tx [OF card_up_run _ _ this] show ?thesis by simp
qed

lemma card_two_run: "nf2_run some_kernel 16 card_two [7, 8]"
proof -
  have "nf2c_tx some_kernel \<lparr>skb_id = 8, skb_len = 100, skb_addr = 0x3000\<rparr> 0 card_one = Some (0, card_two)" by code_simp
  from nf2_run.tx [OF card_one_run _ _ this] show ?thesis by simp
qed

lemma card_sending_run: "nf2_run some_kernel 16 card_sending [7, 8]"
proof -
  have "nf2c_intr some_kernel card_two = Some (True, card_sending)"
     "intr_status some_kernel card_two AND INT_DMA_RX_COMPLETE = 0" by code_simp+
  from nf2_run.intr [OF card_two_run _ this(1)] this(2) show ?thesis by simp
qed

section \<open>Properties of the driver\<close>





text \<open>The last interface that is up goes down.\<close>

lemma nf2c_release_last:
  assumes "ifup c AND NOT (push_bit i 1) = 0"
  obtains d where "same_core c d" "nf2c_release e False i c = do {
      c \<leftarrow> release_card e d; Some (0, c\<lparr>state_lock := state_lock c + 1\<rparr>) }"
proof -
  define d where "d = netif_stop_queue i (netif_carrier False i (c\<lparr>state_lock := state_lock c - 1\<rparr>))"
  define v where "v = fst (ioread32 e CNET_REG_ENABLE d) AND NOT (push_bit i (0x1000 OR 0x100))"
  define d1 where "d1 = iowrite32 (push_bit i 1) CNET_REG_RESET (iowrite32 v CNET_REG_ENABLE (snd (ioread32 e CNET_REG_ENABLE d)))"
  define d2 where "d2 = d1\<lparr>ifup := ifup d1 AND NOT (push_bit i 1)\<rparr>"
  have "same_core c d2" unfolding d2_def d1_def d_def by (intro core_simps)
  moreover have "ifup d1 = ifup c"
    by (simp add: d1_def d_def iowrite32_def ioread32_def netif_stop_queue_def netif_carrier_def with_dev_def)
  then have "ifup d2 = 0" using assms by (simp add: d2_def)
  then have "nf2c_release e False i c = do { c \<leftarrow> release_card e d2; Some (0, c\<lparr>state_lock := state_lock c + 1\<rparr>) }"
    by (simp add: nf2c_release_def Let_def split_beta d2_def d1_def d_def v_def)
  ultimately show ?thesis using that by blast
qed

lemma ring_unique: "ring c q \<Longrightarrow> ring c q' \<Longrightarrow> q = q'"
  by (rule nth_equalityI) (auto simp: ring_def)

text \<open>When the last interface goes down the packets in the ring are freed and all its slots are free again,
  but the count of free slots of each port stays short by the packets that were queued for
  it; and a receive buffer that was mapped for the card stays mapped.\<close>

theorem release_loses_port_buffers:
  assumes "nf2_run e pool c ids" "kernel_ok e" "0 < pool" "ring c q"
    and "port_total c q = replicate 4 (int (pool div 4))" "ifup c AND NOT (push_bit i 1) = 0"
  shows "\<exists>c'. nf2c_release e False i c = Some (0, c') \<and> free_txbuffs c' = pool \<and> freed c' = ids
    \<and> (\<forall>j<4. free_txbuffs_port c' ! j = int (pool div 4) - int (length (filter (\<lambda>t. txb_iface t = j) q)))
    \<and> dma_rx_in_progress c' = 0
    \<and> (dma_rx_in_progress c = 1 \<longrightarrow> (dma_rx_addr c, MAX_DMA_LEN, PCI_DMA_FROMDEVICE) \<in> set (dma_maps c'))"
proof -
  obtain tot where inv: "drv ids tot pool c" using nf2_run_drv [OF assms(1-3)] by blast
  obtain d where core: "same_core c d" and release: "nf2c_release e False i c = do {
      c \<leftarrow> release_card e d; Some (0, c\<lparr>state_lock := state_lock c + 1\<rparr>) }"
    using nf2c_release_last [OF assms(6)] .
  obtain c' where c': "release_card e d = Some c'" "free_txbuffs c' = pool" "freed c' = ids"
      "free_txbuffs_port c' = free_txbuffs_port d" "dma_rx_in_progress c' = 0"
      "\<forall>m. snd (snd m) = PCI_DMA_FROMDEVICE \<longrightarrow> (m \<in> set (dma_maps c') \<longleftrightarrow> m \<in> set (dma_maps d))"
    using release_card_result [OF drv_core_eq [OF core inv]] .
  have "free_txbuffs_port c ! j = int (pool div 4) - int (length (filter (\<lambda>t. txb_iface t = j) q))" if "j < 4" for j
    using arg_cong [OF assms(5), of "\<lambda>l. l ! j"] that by (simp add: port_total_def)
  moreover have "(dma_rx_addr c, MAX_DMA_LEN, PCI_DMA_FROMDEVICE) \<in> set (dma_maps c)" if "dma_rx_in_progress c = 1"
    using inv that by (simp add: drv_def rx_dma_def)
  ultimately show ?thesis using c' core by (auto simp: release same_core_def)
qed

theorem release_loses_port_buffers_witness:
  "\<exists>c'. nf2c_release some_kernel False 0 card_two = Some (0, c') \<and> free_txbuffs c' = 16 \<and> free_txbuffs_port c' ! 0 = 2"
proof -
  let ?q = "[\<lparr>txb_skb = \<lparr>skb_id = 7, skb_len = 40, skb_addr = 0x2000\<rparr>, txb_iface = 0\<rparr>,
    \<lparr>txb_skb = \<lparr>skb_id = 8, skb_len = 100, skb_addr = 0x3000\<rparr>, txb_iface = 0\<rparr>]"
  have "ring card_two ?q" by code_simp
  moreover have "port_total card_two ?q = replicate 4 (int (16 div 4))" by code_simp
  moreover have "ifup card_two AND NOT (push_bit 0 1) = 0" by code_simp
  ultimately show ?thesis using release_loses_port_buffers [OF card_two_run some_kernel_ok] by fastforce
qed

lemma iowrite32_fields [simp]: "ring (iowrite32 v a c) q = ring c q" "dma_can_wr_pkt (iowrite32 v a c) = dma_can_wr_pkt c"
    "dma_rx_in_progress (iowrite32 v a c) = dma_rx_in_progress c" "dma_tx_in_progress (iowrite32 v a c) = dma_tx_in_progress c"
    "ring (c\<lparr>dma_rx_in_progress := r\<rparr>) q = ring c q"
  by (simp_all add: iowrite32_def ring_def)

lemma drv_ring: "drv ids tot n c \<Longrightarrow> ring c q \<Longrightarrow> tx_inv ids tot n c q"
  unfolding drv_def tx_inv_def using ring_unique by metis

lemma on_bits_other: "s AND b = 0 \<Longrightarrow> on_bits s b f c = Some c"
  by (simp add: on_bits_def)

text \<open>C24: The card reports that ports can take packets again. If a packet waits for such a port and none is being sent,
  the handler starts it, but only while no reception is in progress: during a reception the handler only notes the state of the
  ports, and the packet stays where it is.\<close>

theorem queue_status_starts_transmit:
  assumes "nf2_run e pool c ids" "kernel_ok e" "0 < pool" "ring c (t # q)" "dma_tx_in_progress c = 0"
    and "intr_status e c = INT_DMA_QUEUE_STATUS_CHANGE" "\<forall>a. card_read e a CPCI_REG_DMA_QUEUE_STATUS AND 0xffff = ports"
    and "ports AND push_bit (txb_iface t) 1 \<noteq> 0"
  shows "\<exists>c'. nf2c_intr e c = Some (True, c') \<and> dma_can_wr_pkt c' = ports \<and> dma_rx_in_progress c' = dma_rx_in_progress c
    \<and> dma_tx_in_progress c' = (if dma_rx_in_progress c = 0 then 1 else 0)
    \<and> ring c' (if dma_rx_in_progress c = 0 then padded e t # q else t # q)"
proof -
  obtain tot where inv: "drv ids tot pool c" using nf2_run_drv [OF assms(1-3)] by blast
  then have q: "tx_inv ids tot pool c (t # q)" using assms(4) by (rule drv_ring)
  have pad: "\<forall>s k. skb_pad e s k \<noteq> None" using assms(2) by (simp add: kernel_ok_def)
  define d0 where "d0 = snd (ioread32 e CPCI_REG_INTERRUPT_STATUS (nf2_disable_irq e (snd (ioread32 e CPCI_REG_INTERRUPT_MASK c))))"
  define d where "d = snd (ioread32 e CPCI_REG_DMA_QUEUE_STATUS d0)\<lparr>dma_can_wr_pkt := ports\<rparr>"
  have core: "same_core c d" unfolding d_def d0_def by (intro core_simps)
  have can: "dma_can_wr_pkt d = ports" by (simp add: d_def)
  have ports: "fst (ioread32 e CPCI_REG_DMA_QUEUE_STATUS d0) AND 0xffff = ports" using assms(7) by (simp add: ioread32_def)
  have rest: "nf2c_intr e c = do { c' \<leftarrow> intr_queue_status e d0;
      Some (True, iowrite32 (fst (ioread32 e CPCI_REG_INTERRUPT_MASK c)) CPCI_REG_INTERRUPT_MASK c') }"
    using assms(6) by (simp add: nf2c_intr_def intr_status_def Let_def split_beta on_bits_other driver_consts
        flip: d0_def [unfolded driver_consts]) (simp add: on_bits_def)
  have eq: "intr_queue_status e d0 = do {
       c \<leftarrow> (if dma_rx_in_progress d = 0 then send_next e (d\<lparr>dma_rx_in_progress := 1\<rparr>)
           else Some (d\<lparr>dma_rx_in_progress := dma_rx_in_progress d + 1\<rparr>));
       Some (c\<lparr>dma_rx_in_progress := dma_rx_in_progress c - 1\<rparr>) }"
    using ports by (simp add: intr_queue_status_def d_def split_beta Let_def)
  have rx: "dma_rx_in_progress d = dma_rx_in_progress c" "dma_tx_in_progress d = 0" using core assms(5) by (simp_all add: same_core_def)
  have d: "tx_inv ids tot pool d (t # q)" using q by (simp add: tx_inv_core [OF core])
  show ?thesis
  proof (cases "dma_rx_in_progress c = 0")
    case False
    then have "intr_queue_status e d0 = Some d" using rx by (simp add: eq)
    then show ?thesis using False rx d can by (simp add: rest tx_inv_def)
  next
    case True
    let ?d = "d\<lparr>dma_rx_in_progress := 1\<rparr>"
    have d1: "tx_inv ids tot pool ?d (t # q)" using d by simp
    have start: "can_start ?d (t # q)" using rx can assms(8) by (simp add: can_start_def)
    have free: "free_txbuffs ?d \<noteq> tx_pool_size ?d" using d by (auto simp: tx_inv_def ring_def)
    note sent = nf2c_send_starts [OF d1 start pad]
    obtain c2 where c2: "nf2c_send e ?d = Some (0, c2)" "dma_tx_in_progress c2 = 1" "dma_rx_in_progress c2 = 1"
        "dma_can_wr_pkt c2 = ports" "tx_inv ids tot pool c2 (padded e t # q)"
      using that sent can rx send_started [OF d1 _ padded_fields(1) padded_fields(2) padded_fields(3) refl]
      by simp
    have "intr_queue_status e d0 = Some (c2\<lparr>dma_rx_in_progress := 0\<rparr>)"
      using c2(1,3) True rx free by (simp add: eq send_next_def)
    then show ?thesis using True c2 by (simp add: rest tx_inv_def)
  qed
qed

text \<open>The same with a reception in progress: the first interrupt is for a packet that came in.\<close>

definition receiving_kernel :: nf2_env where
  "receiving_kernel = some_kernel\<lparr>card_read := (\<lambda>io a.
       if a = CPCI_REG_INTERRUPT_STATUS then (if length io < 16 then 0x100 else 0x200)
       else if a = CPCI_REG_DMA_QUEUE_STATUS then 0xf else if a = CPCI_REG_DMA_I_SIZE then 60 else 0)\<rparr>"

definition card_receiving :: nf2_card where
  "card_receiving = snd (the (nf2c_intr receiving_kernel
     (snd (the (nf2c_tx receiving_kernel \<lparr>skb_id = 7, skb_len = 40, skb_addr = 0x2000\<rparr> 0
       (snd (nf2c_open receiving_kernel False 0 0 some_card)))))))"

lemma receiving_kernel_ok: "kernel_ok receiving_kernel"
  by (simp add: kernel_ok_def receiving_kernel_def some_kernel_def driver_consts)

lemma card_receiving_run: "nf2_run receiving_kernel 16 card_receiving [7]"
proof -
  let ?up = "snd (nf2c_open receiving_kernel False 0 0 some_card)"
  let ?one = "snd (the (nf2c_tx receiving_kernel \<lparr>skb_id = 7, skb_len = 40, skb_addr = 0x2000\<rparr> 0 ?up))"
  have load: "nf2_run receiving_kernel 16 some_card []"
  proof (rule nf2_run.load)
    show "nf2_probe all_given 16 0 0x1000 [] = (0, 4, Some some_card,
        map NetDev [3, 2, 1, 0] @ [TxBuffs, RxPool, IoMap, CardPriv, MemRegion, PciEnabled] @ [])"
      by (simp add: nf2_probe_def all_given_def nf2c_probe_ok some_card_def)
  qed
  have up: "nf2_run receiving_kernel 16 ?up []"
    by (rule nf2_run.up [OF load, of 0 False 0 "fst (nf2c_open receiving_kernel False 0 0 some_card)"]) simp_all
  have "nf2c_tx receiving_kernel \<lparr>skb_id = 7, skb_len = 40, skb_addr = 0x2000\<rparr> 0 ?up = Some (0, ?one)" by code_simp
  from nf2_run.tx [OF up _ _ this] have one: "nf2_run receiving_kernel 16 ?one [7]" by simp
  have "nf2c_intr receiving_kernel ?one = Some (True, card_receiving)" "intr_status receiving_kernel ?one AND INT_DMA_RX_COMPLETE = 0"
    by code_simp+
  from nf2_run.intr [OF one _ this(1)] this(2) show ?thesis by simp
qed

theorem queue_status_starts_transmit_witness:
  "(\<exists>c'. nf2c_intr some_kernel card_two = Some (True, c') \<and> dma_tx_in_progress c' = 1)
    \<and> (\<exists>c'. nf2c_intr receiving_kernel card_receiving = Some (True, c') \<and> dma_can_wr_pkt c' = 15 \<and> dma_tx_in_progress c' = 0)"
proof -
  let ?t = "\<lparr>txb_skb = \<lparr>skb_id = 7, skb_len = 40, skb_addr = 0x2000\<rparr>, txb_iface = 0\<rparr>"
  have two: "ring card_two (?t # [\<lparr>txb_skb = \<lparr>skb_id = 8, skb_len = 100, skb_addr = 0x3000\<rparr>, txb_iface = 0\<rparr>])" by code_simp
  have one: "ring card_receiving [?t]" by code_simp
  have "dma_tx_in_progress card_two = 0" "intr_status some_kernel card_two = INT_DMA_QUEUE_STATUS_CHANGE"
      "dma_rx_in_progress card_two = 0" by code_simp+
  note first = queue_status_starts_transmit [OF card_two_run some_kernel_ok _ two this(1,2), of 15]
  have "dma_tx_in_progress card_receiving = 0" "intr_status receiving_kernel card_receiving = INT_DMA_QUEUE_STATUS_CHANGE"
      "dma_rx_in_progress card_receiving = 1" by code_simp+
  note second = queue_status_starts_transmit [OF card_receiving_run receiving_kernel_ok _ one this(1,2), of 15]
  show ?thesis
    using first second \<open>dma_rx_in_progress card_two = 0\<close> \<open>dma_rx_in_progress card_receiving = 1\<close>
    by (auto simp: some_kernel_def receiving_kernel_def driver_consts)
qed

text \<open>The card is told where a packet lies before it is padded. If the padding moves the data, it fetches from where they were.\<close>

theorem short_packet_padded_too_late:
  assumes "tx_inv ids tot n c (t # q)" "can_start c (t # q)" "kernel_ok e" "skb_len (txb_skb t) < 60"
    and "skb_pad e (txb_skb t) (60 - skb_len (txb_skb t)) = Some addr"
  shows "\<exists>c'. nf2c_send e c = Some (0, c') \<and> io c' = io c @ [Iowrite (skb_addr (txb_skb t)) CPCI_REG_DMA_E_ADDR,
      Iowrite 60 CPCI_REG_DMA_E_SIZE, Iowrite (push_bit 8 (of_nat (txb_iface t)) OR 1) CPCI_REG_DMA_E_CTRL]
    \<and> front c' = Some (t\<lparr>txb_skb := (txb_skb t)\<lparr>skb_addr := addr\<rparr>\<rparr>)"
proof -
  have "rd_txbuff c < length (txbuffs c)" using assms(1) by (simp add: tx_inv_def ring_def)
  moreover have "max 60 (skb_len (txb_skb t)) = 60" using assms(4) by simp
  ultimately show ?thesis
    using nf2c_send_starts [OF assms(1,2)] assms(3-5) by (simp add: kernel_ok_def start_writes_def padded_def front_def)
qed

text \<open>Reading beyond the registers succeeds for the caller and leaves it what it had passed.\<close>

theorem ioctl_hides_bad_address:
  "unat (reg_reg rq) \<ge> bar \<Longrightarrow> nf2c_ioctl e mapped bar True True i SIOCREGREAD rq c = (0, rq, c)"
  by (simp add: nf2c_ioctl_def nf2k_reg_read_def)

text \<open>The registers of a PHY lie four bytes apart, but the number of the register is added as it is: the lower
  half of the PHY's identifier is register 2.\<close>

theorem mii_register_address:
  "nf2c_ioctl e mapped bar from_ok to_ok 0 SIOCGMIIREG (rq\<lparr>mii_reg_num := 2\<rparr>) c
    = (0, rq\<lparr>mii_reg_num := 2, mii_val_out := ucast (card_read e (io c) (MDIO_0_BASE + 2))\<rparr>, c\<lparr>io := io c @ [Ioread (MDIO_0_BASE + 2)]\<rparr>)"
  "MDIO_0_PHY_ID_LO_REG = MDIO_0_BASE + 4 * 2"
  by (simp_all add: nf2c_ioctl_def SIOCGMIIREG_def SIOCGMIIPHY_def SIOCREGREAD_def SIOCREGWRITE_def ioread32_def driver_consts)

text \<open>A negative device number resets the size of the receive pool.\<close>

theorem negative_major_resets_pool:
  "nf2_major p < 0 \<Longrightarrow> nf2_major (nf2_validate_params hz p) < 0 \<and> rx_pool_param (nf2_validate_params hz p) = 0"
  by (auto simp: nf2_validate_params_def Let_def NF2_MAJOR_def)

end
