(* ===== verification/Nf2_Send.thy ===== *)
theory Nf2_Send
  imports Prelude
begin

text \<open>
  The interleavings of \<open>nf2c_send\<close> (\<open>nf2_control.c\<close>). It takes no lock: the transmit path of a port calls it, and so
  does the interrupt handler on another processor. What keeps two calls from programming the DMA engine
  at once is the counter \<open>dma_tx_in_progress\<close>. Here a call is a thread that makes one atomic access per
  step, at the program points of \<open>send_pc\<close>.
\<close>

section \<open>Threads and their steps\<close>

text \<open>\<open>Losing\<close>: another call is in progress and the counter must be taken back. \<open>Retracting\<close>: there is nothing
  that could be sent. \<open>Mapping\<close>, \<open>Addr\<close> and \<open>Size\<close>: before the writes of the address, the size
  and the control register.\<close>

datatype send_pc = Out | Losing | Checking | Checking_port | Retracting | Mapping | Addr | Size

text \<open>\<open>running\<close>: the card transfers a packet. \<open>completing\<close>: the interrupt handler has given the slot back and
  will take the counter back. \<open>queued\<close> is the number of slots of the ring in use, \<open>port_ready\<close> whether
  the port of the packet at the front can take a packet.\<close>

record send_state =
  counter :: int
  pcs :: "send_pc list"
  running :: bool
  completing :: bool
  queued :: nat
  port_ready :: bool

text \<open>The next step of thread \<open>i\<close> inside \<open>nf2c_send\<close>.\<close>

definition nf2c_send_step :: "nat \<Rightarrow> send_state \<Rightarrow> send_state" where
  "nf2c_send_step i s =
     (let goto = (\<lambda>l. s\<lparr>pcs := (pcs s)[i := l]\<rparr>) in
      case pcs s ! i of
        Out \<Rightarrow> (goto (if counter s + 1 \<noteq> 1 then Losing else Checking))\<lparr>counter := counter s + 1\<rparr>
      | Losing \<Rightarrow> (goto Out)\<lparr>counter := counter s - 1\<rparr>
      | Checking \<Rightarrow> goto (if queued s = 0 then Retracting else Checking_port)
      | Checking_port \<Rightarrow> goto (if \<not> port_ready s then Retracting else Mapping)
      | Retracting \<Rightarrow> (goto Out)\<lparr>counter := counter s - 1\<rparr>
      | Mapping \<Rightarrow> goto Addr
      | Addr \<Rightarrow> goto Size
      | Size \<Rightarrow> (goto Out)\<lparr>running := True\<rparr>)"

text \<open>The callers call it when the ring is not empty. A packet is put into the ring; the card changes the
  state of the port; it ends a transfer, which the interrupt handler completes in two steps.\<close>

inductive send_step :: "send_state \<Rightarrow> send_state \<Rightarrow> bool" where
  enter: "i < length (pcs s) \<Longrightarrow> pcs s ! i = Out \<Longrightarrow> queued s > 0 \<Longrightarrow> send_step s (nf2c_send_step i s)"
| inside: "i < length (pcs s) \<Longrightarrow> pcs s ! i \<noteq> Out \<Longrightarrow> send_step s (nf2c_send_step i s)"
| put: "send_step s (s\<lparr>queued := queued s + 1\<rparr>)"
| port: "send_step s (s\<lparr>port_ready := r\<rparr>)"
| complete: "running s \<Longrightarrow> counter s \<noteq> 0
    \<Longrightarrow> send_step s (s\<lparr>running := False, completing := True, queued := queued s - 1\<rparr>)"
| completed: "completing s \<Longrightarrow> send_step s (s\<lparr>completing := False, counter := counter s - 1\<rparr>)"

definition send_start :: "nat \<Rightarrow> send_state" where
  "send_start n = \<lparr>counter = 0, pcs = replicate n Out, running = False, completing = False, queued = 0, port_ready = False\<rparr>"

section \<open>The counter\<close>

definition number :: "('a \<Rightarrow> bool) \<Rightarrow> 'a list \<Rightarrow> nat" where
  "number P xs = length (filter P xs)"

lemma number_update:
  "i < length xs \<Longrightarrow> number P (xs[i := y]) + of_bool (P (xs ! i)) = number P xs + of_bool (P y)"
proof (induction xs arbitrary: i)
  case (Cons x xs)
  then show ?case by (cases i) (auto simp: number_def)
qed simp

lemma number_two:
  "i < length xs \<Longrightarrow> j < length xs \<Longrightarrow> i \<noteq> j \<Longrightarrow> P (xs ! i) \<Longrightarrow> P (xs ! j) \<Longrightarrow> 2 \<le> number P xs"
  using number_update [of i xs P "xs ! i"] card_mono [of "{k. k < length xs \<and> P (xs ! k)}" "{i, j}"]
  by (auto simp: number_def length_filter_conv_card)

text \<open>A thread that got the counter from 0 to 1 owns the engine until it has started a transfer or taken it back.\<close>

definition owner :: "send_pc \<Rightarrow> bool" where
  "owner l \<longleftrightarrow> l \<notin> {Out, Losing}"

definition sending :: "send_pc \<Rightarrow> bool" where
  "sending l \<longleftrightarrow> l \<in> {Checking_port, Mapping, Addr, Size}"

definition send_inv :: "send_state \<Rightarrow> bool" where
  "send_inv s \<longleftrightarrow> counter s = int (number (\<lambda>l. l = Losing) (pcs s) + number owner (pcs s) + of_bool (running s) + of_bool (completing s))
     \<and> number owner (pcs s) + of_bool (running s) + of_bool (completing s) \<le> 1
     \<and> (number sending (pcs s) + of_bool (running s) > 0 \<longrightarrow> queued s > 0)"

lemma send_inv_start: "send_inv (send_start n)"
  by (simp add: send_inv_def send_start_def number_def owner_def sending_def filter_replicate)

lemma number_le: "(\<And>x. P x \<Longrightarrow> Q x) \<Longrightarrow> number P xs \<le> number Q xs"
  unfolding number_def by (induction xs) auto

lemma sending_le_owner: "number sending xs \<le> number owner xs"
  by (rule number_le) (auto simp: sending_def owner_def)

lemma nf2c_send_step_inv:
  assumes "send_inv s" "i < length (pcs s)"
  shows "send_inv (nf2c_send_step i s)"
proof -
  define l r where "l = pcs s ! i" and "r = (of_bool (running s) + of_bool (completing s) :: nat)"
  define L where "L = number (\<lambda>l. l = Losing)"
  have upd: "L ((pcs s)[i := y]) + of_bool (l = Losing) = L (pcs s) + of_bool (y = Losing)"
      "number owner ((pcs s)[i := y]) + of_bool (owner l) = number owner (pcs s) + of_bool (owner y)"
      "number sending ((pcs s)[i := y]) + of_bool (sending l) = number sending (pcs s) + of_bool (sending y)" for y
    unfolding l_def L_def by (rule number_update [OF assms(2)])+
  have inv: "counter s = int (L (pcs s) + number owner (pcs s) + r)" "number owner (pcs s) + r \<le> 1"
      "number sending (pcs s) + of_bool (running s) > 0 \<longrightarrow> queued s > 0"
    using assms(1) by (simp_all add: send_inv_def L_def r_def)
  have sub: "number sending (pcs s) \<le> number owner (pcs s)" by (rule sending_le_owner)
  show ?thesis
  proof (cases "l = Size")
    case True
    then have "r = 0" using inv(2) upd(2) [of Out] by (simp add: owner_def)
    then show ?thesis using True upd [of Out] inv sub
      by (simp add: nf2c_send_step_def send_inv_def owner_def sending_def flip: l_def L_def) (simp add: r_def)
  next
    case False
    show ?thesis
      using False upd [of Out] upd [of Losing] upd [of Checking] upd [of Checking_port] upd [of Retracting] upd [of Mapping]
        upd [of Addr] upd [of Size] inv sub
      by (cases l) (simp_all add: nf2c_send_step_def send_inv_def owner_def sending_def r_def split: if_splits flip: l_def L_def, auto)
  qed
qed

lemma send_step_inv: "send_step s s' \<Longrightarrow> send_inv s \<Longrightarrow> send_inv s'"
proof (induction rule: send_step.induct)
  case (enter i s)
  then show ?case by (simp only: nf2c_send_step_inv)
next
  case (inside i s)
  then show ?case by (simp only: nf2c_send_step_inv)
next
  case (complete s)
  then show ?case using sending_le_owner [of "pcs s"] by (auto simp: send_inv_def)
qed (auto simp: send_inv_def)

inductive send_reach :: "nat \<Rightarrow> send_state \<Rightarrow> bool" for n where
  start: "send_reach n (send_start n)"
| step: "send_reach n s \<Longrightarrow> send_step s s' \<Longrightarrow> send_reach n s'"

lemma send_reach_inv: "send_reach n s \<Longrightarrow> send_inv s \<and> length (pcs s) = n"
proof (induction rule: send_reach.induct)
  case (step s s')
  have "length (pcs (nf2c_send_step i s)) = length (pcs s)" for i
    by (simp add: nf2c_send_step_def Let_def split: send_pc.split)
  with step(2) have "length (pcs s') = length (pcs s)" by (auto elim: send_step.cases)
  then show ?case using step send_step_inv by simp
qed (use send_inv_start in \<open>simp add: send_start_def\<close>)

section \<open>One transfer at a time\<close>

text \<open>The program points at which the DMA engine is being programmed.\<close>

definition programs :: "send_pc \<Rightarrow> bool" where
  "programs l \<longleftrightarrow> l \<in> {Mapping, Addr, Size}"


section \<open>Particular interleavings\<close>

datatype move = Call nat | Put | Port bool | Complete | Completed

fun make_move :: "move \<Rightarrow> send_state \<Rightarrow> send_state option" where
  "make_move (Call i) s = (if i < length (pcs s) \<and> (pcs s ! i \<noteq> Out \<or> queued s > 0) then Some (nf2c_send_step i s) else None)"
| "make_move Put s = Some (s\<lparr>queued := queued s + 1\<rparr>)"
| "make_move (Port r) s = Some (s\<lparr>port_ready := r\<rparr>)"
| "make_move Complete s = (if running s \<and> counter s \<noteq> 0
     then Some (s\<lparr>running := False, completing := True, queued := queued s - 1\<rparr>) else None)"
| "make_move Completed s = (if completing s then Some (s\<lparr>completing := False, counter := counter s - 1\<rparr>) else None)"

fun make_moves :: "move list \<Rightarrow> send_state \<Rightarrow> send_state option" where
  "make_moves [] s = Some s"
| "make_moves (m # ms) s = do { s \<leftarrow> make_move m s; make_moves ms s }"

lemma make_move_step: "make_move m s = Some s' \<Longrightarrow> send_step s s'"
  by (cases m) (auto split: if_splits intro: send_step.intros send_step.put [unfolded One_nat_def add_Suc_right add_0_right] send_step.complete [unfolded One_nat_def])

lemma make_moves_reach: "send_reach n s \<Longrightarrow> make_moves ms s = Some s' \<Longrightarrow> send_reach n s'"
proof (induction ms arbitrary: s)
  case (Cons m ms)
  then obtain s1 where "make_move m s = Some s1" "make_moves ms s1 = Some s'" by (auto split: bind_splits)
  then show ?case using Cons.IH send_reach.step [OF Cons.prems(1) make_move_step] by blast
qed simp


text \<open>A packet can be left lying: the call that owns the counter has found the port busy, the card then reports the
  port ready, the call that the interrupt handler makes for it loses against the first one, and the first
  one retires. No call is left, the counter is zero, the port is ready and the ring is not empty.\<close>

theorem ready_packet_left_lying:
  "\<exists>s. send_reach 2 s \<and> pcs s = [Out, Out] \<and> \<not> running s \<and> \<not> completing s \<and> counter s = 0 \<and> port_ready s \<and> queued s = 1"
proof -
  let ?moves = "[Put, Call 0, Call 0, Call 0, Port True, Call 1, Call 1, Call 0]"
  let ?s = "\<lparr>counter = 0, pcs = [Out, Out], running = False, completing = False, queued = 1, port_ready = True\<rparr>"
  have "make_moves ?moves (send_start 2) = Some ?s" by code_simp
  from make_moves_reach [OF send_reach.start this] show ?thesis by (intro exI [of _ ?s]) simp
qed

text \<open>The counter being set does not mean that a transfer runs, which is what the code that gives up transfers
  (\<open>nf2c_clear_dma_flags\<close>) takes it to mean: here a call has only announced itself.\<close>

theorem counter_set_without_transfer:
  "\<exists>s. send_reach 1 s \<and> counter s = 1 \<and> \<not> running s \<and> \<not> completing s \<and> pcs s = [Checking]"
proof -
  let ?s = "\<lparr>counter = 1, pcs = [Checking], running = False, completing = False, queued = 1, port_ready = False\<rparr>"
  have "make_moves [Put, Call 0] (send_start 1) = Some ?s" by code_simp
  from make_moves_reach [OF send_reach.start this] show ?thesis by (intro exI [of _ ?s]) simp
qed

end
