(* ===== verification/Scan.thy ===== *)
theory Scan
  imports Output
begin

text \<open>
  Scan: the input functions that the table manager of the card uses, \<open>scanf\<close> and \<open>fscanf\<close> with \<open>%i\<close>,
  \<open>%d\<close>, \<open>%x\<close> and \<open>%s\<close>, \<open>strtol\<close>, \<open>atoi\<close>, the parsers \<open>parseip\<close> and \<open>parsemac\<close> of
  lib/C/common/util.c, and the conversion \<open>%x\<close> of \<open>printf\<close>.

  A stream is the characters that are still to be read; it holds no NUL. \<open>None\<close> is a run the C
  standard leaves undefined: a word that does not fit into its buffer, a number that does not fit
  into its variable, a byte that nobody has written. An \<open>int\<close> is its 32 bits. A \<open>long\<close> has 32 bits.
\<close>

section \<open>Conversions\<close>

datatype conv = Conv_int nat | Conv_str nat

text \<open>\<open>Conv_int 0\<close> is \<open>%i\<close>, whose base is read off the text, \<open>Conv_int 10\<close> is \<open>%d\<close> and \<open>Conv_int 16\<close> is \<open>%x\<close>;
  \<open>Conv_str n\<close> is \<open>%s\<close> into \<open>char [n]\<close>.\<close>

datatype item = Ival u32 | Sval string

definition is_digit_of :: "nat \<Rightarrow> char \<Rightarrow> bool" where
  "is_digit_of b c \<longleftrightarrow> (case hex_val c of Some d \<Rightarrow> d < b | None \<Rightarrow> False)"

definition has_0x :: "string \<Rightarrow> bool" where
  "has_0x s \<longleftrightarrow> take 2 s = ''0x'' \<or> take 2 s = ''0X''"

text \<open>The base of a number and the text of its digits.\<close>

definition int_base :: "nat \<Rightarrow> string \<Rightarrow> nat \<times> string" where
  "int_base b s = (if b \<in> {0, 16} \<and> has_0x s then (16, drop 2 s)
     else if b \<noteq> 0 then (b, s) else if take 1 s = ''0'' then (8, s) else (10, s))"

definition int_fits :: "nat \<Rightarrow> int \<Rightarrow> bool" where
  "int_fits b v \<longleftrightarrow> (if b = 16 then \<bar>v\<bar> < 2 ^ 32 else - (2 ^ 31) \<le> v \<and> v < 2 ^ 31)"

fun scan_from :: "conv list \<Rightarrow> string \<Rightarrow> (item list \<times> string) option" where
  "scan_from [] s = Some ([], s)"
| "scan_from (Conv_str n # ds) s =
     (let t = dropWhile isspace s; w = takeWhile (\<lambda>c. \<not> isspace c) t
      in if w = [] then Some ([], t)
         else if length w < n then map_option (apfst (Cons (Sval w))) (scan_from ds (drop (length w) t))
         else None)"
| "scan_from (Conv_int b # ds) s =
     (let (neg, t) = scan_sign (dropWhile isspace s); (base, u) = int_base b t;
          w = takeWhile (is_digit_of base) u;
          v = (if neg then - int (number base w) else int (number base w))
      in if w = [] then Some ([], u)
         else if int_fits b v
         then map_option (apfst (Cons (Ival (word_of_int v)))) (scan_from ds (drop (length w) u))
         else None)"

text \<open>\<open>fscanf\<close> returns \<open>EOF\<close> when the stream ends before the first conversion.\<close>

definition at_eof :: "string \<Rightarrow> bool" where
  "at_eof s \<longleftrightarrow> dropWhile isspace s = []"

text \<open>The variables of a format after a call: those assigned are new, the others as they were.\<close>

definition assign :: "item list \<Rightarrow> item option list \<Rightarrow> item option list" where
  "assign items vars = map Some items @ drop (length items) vars"

text \<open>Reading a variable that has no value is undefined.\<close>

definition int_var :: "item option list \<Rightarrow> nat \<Rightarrow> u32 option" where
  "int_var vars k = (if k < length vars then case vars ! k of Some (Ival v) \<Rightarrow> Some v | _ \<Rightarrow> None else None)"

definition str_var :: "item option list \<Rightarrow> nat \<Rightarrow> string option" where
  "str_var vars k = (if k < length vars then case vars ! k of Some (Sval s) \<Rightarrow> Some s | _ \<Rightarrow> None else None)"

section \<open>strtol, atoi, and the parsers of util.c\<close>

definition long_of :: "int \<Rightarrow> u32" where
  "long_of v = word_of_int (max (- (2 ^ 31)) (min (2 ^ 31 - 1) v))"

definition strtol16 :: "string \<Rightarrow> u32" where
  "strtol16 s = (let (neg, t) = scan_sign (dropWhile isspace s);
       u = (if has_0x t \<and> takeWhile isxdigit (drop 2 t) \<noteq> [] then drop 2 t else t);
       n = int (number 16 (takeWhile isxdigit u))
     in long_of (if neg then - n else n))"

definition atoi_int :: "string \<Rightarrow> u32 option" where
  "atoi_int s = (let (neg, t) = scan_sign (dropWhile isspace s); n = int (number 10 (takeWhile isdigit t));
       v = (if neg then - n else n)
     in if int_fits 10 v then Some (word_of_int v) else None)"

text \<open>\<open>strtok\<close> called until it returns NULL yields the words between the delimiters. It writes a NUL
  over the delimiter behind the first word, so the string is cut there.\<close>

definition strtok_words :: "char \<Rightarrow> string \<Rightarrow> string list" where
  "strtok_words d s = filter (\<lambda>w. w \<noteq> []) (split_at d s)"

definition strtok_left :: "char \<Rightarrow> string \<Rightarrow> string" where
  "strtok_left d s = takeWhile (\<lambda>c. c = d) s @ takeWhile (\<lambda>c. c \<noteq> d) (dropWhile (\<lambda>c. c = d) s)"

text \<open>The bytes written at the start of the allocated block; a block of 4 (of 6) has no room for more.\<close>

definition parseip :: "string \<Rightarrow> u8 list option" where
  "parseip str = (let nums = strtok_words (CHR ''.'') str in
     if 4 < length nums then None else those (map (\<lambda>num. map_option ucast (atoi_int num)) nums))"

definition sscanf_x :: "string \<Rightarrow> u32 option" where
  "sscanf_x num = do { (items, rest) \<leftarrow> scan_from [Conv_int 16] num; int_var (map Some items) 0 }"

definition parsemac :: "string \<Rightarrow> u8 list option" where
  "parsemac str = (let nums = strtok_words (CHR '':'') str in
     if 6 < length nums then None else those (map (\<lambda>num. map_option ucast (sscanf_x num)) nums))"

text \<open>\<open>b[k] << 24 | b[k+1] << 16 | b[k+2] << 8 | b[k+3]\<close> and \<open>b[0] << 8 | b[1]\<close>.\<close>

definition be32_at :: "u8 list \<Rightarrow> nat \<Rightarrow> u32 option" where
  "be32_at b k = (if k + 3 < length b
     then Some (push_bit 24 (ucast (b ! k)) OR push_bit 16 (ucast (b ! (k + 1)))
       OR push_bit 8 (ucast (b ! (k + 2))) OR ucast (b ! (k + 3))) else None)"

definition be16_at :: "u8 list \<Rightarrow> u32 option" where
  "be16_at b = (if 1 < length b then Some (push_bit 8 (ucast (b ! 0)) OR ucast (b ! 1)) else None)"

section \<open>%x of printf\<close>

definition hex_digit :: "nat \<Rightarrow> char" where "hex_digit d = char_of (if d < 10 then 48 + d else 87 + d)"

fun hexl :: "nat \<Rightarrow> string" where
  "hexl n = (if n < 16 then [hex_digit n] else hexl (n div 16) @ [hex_digit (n mod 16)])"

declare hexl.simps [simp del]

definition hex_02 :: "nat \<Rightarrow> string" where
  "hex_02 n = (if n < 16 then CHR ''0'' # hexl n else hexl n)"

section \<open>What is scanned is what was printed\<close>

lemma hex_val_hex_digit [simp]: "d < 16 \<Longrightarrow> hex_val (hex_digit d) = Some d"
  by (cases "d < 10") (simp_all add: hex_val_def hex_digit_def of_char_of)

lemma hexl_digits: "c \<in> set (hexl n) \<Longrightarrow> is_digit_of 16 c"
proof (induction n rule: hexl.induct)
  case (1 n)
  then show ?case by (subst (asm) (2) hexl.simps) (auto split: if_splits simp: is_digit_of_def)
qed

lemma hexl_nonempty [simp]: "hexl n \<noteq> []"
  by (subst hexl.simps) simp_all

lemma number_hexl [simp]: "number 16 (hexl n) = n"
proof (induction n rule: hexl.induct)
  case (1 n)
  then show ?case by (subst hexl.simps) (auto simp: number_def)
qed

lemma is_digit_10: "isdigit c \<longleftrightarrow> is_digit_of 10 c"
  by (auto simp: isdigit_def is_digit_of_def hex_val_def Let_def)

lemma is_digit_mono: "is_digit_of b c \<Longrightarrow> b \<le> b' \<Longrightarrow> is_digit_of b' c"
  by (auto simp: is_digit_of_def split: option.splits)

lemma is_digit_char:
  assumes "is_digit_of b c"
  shows "\<not> isspace c" "c \<noteq> CHR ''-''" "c \<noteq> CHR ''+''" "c \<noteq> CHR ''x''" "c \<noteq> CHR ''X''"
  using assms by (auto simp: is_digit_of_def hex_val_def isspace_def)

text \<open>A number longer than one digit does not begin with 0.\<close>

lemma decimal_hd: "0 < n \<Longrightarrow> hd (decimal n) \<noteq> CHR ''0''"
proof (induction n rule: decimal.induct)
  case (1 n)
  then show ?case
    by (subst decimal.simps) (auto simp: digit_def of_char_of dest: arg_cong [where f = "of_char :: char \<Rightarrow> nat"])
qed

lemma scan_number:
  assumes ds: "ds \<noteq> []" "\<forall>c\<in>set ds. is_digit_of b c" and b: "b \<in> {10, 16}"
    and c: "isspace c" and ws: "\<forall>c\<in>set ws. isspace c" and n: "number b ds = n" "int_fits b (int n)"
  shows "scan_from (Conv_int b # fs) (ws @ ds @ c # rest)
    = map_option (apfst (Cons (Ival (of_nat n)))) (scan_from fs (c # rest))"
proof -
  obtain d ds' where cons: "ds = d # ds'" using ds(1) by (cases ds) auto
  have d: "is_digit_of b d" using ds(2) cons by simp
  have nd: "\<not> is_digit_of b' c" for b' using c is_digit_char(1) by blast
  have "dropWhile isspace (ws @ ds @ c # rest) = ds @ c # rest"
    using ws is_digit_char(1) [OF d] by (simp add: cons dropWhile_append3 dropWhile_eq_Nil_conv [THEN iffD2])
  moreover have "scan_sign (ds @ c # rest) = (False, ds @ c # rest)"
    using is_digit_char [OF d] by (simp add: scan_sign_def cons)
  moreover have "\<not> has_0x (ds @ c # rest)"
  proof (cases ds')
    case Nil then show ?thesis using c by (auto simp: cons has_0x_def isspace_def)
  next
    case (Cons e es)
    then have "is_digit_of b e" using ds(2) cons by simp
    then show ?thesis using is_digit_char Cons by (auto simp: cons has_0x_def)
  qed
  moreover have "takeWhile (is_digit_of b) (ds @ c # rest) = ds"
    using ds(2) nd by (simp add: takeWhile_append2)
  ultimately show ?thesis using b n ds(1) by (simp add: int_base_def split del: if_split) auto
qed

lemma scan_i:
  assumes c: "isspace c" and ws: "\<forall>c\<in>set ws. isspace c" and n: "n < 2 ^ 31"
  shows "scan_from (Conv_int 0 # fs) (ws @ decimal n @ c # rest)
    = map_option (apfst (Cons (Ival (of_nat n)))) (scan_from fs (c # rest))"
proof -
  have dig: "\<forall>c\<in>set (decimal n). is_digit_of 10 c" using decimal_digits is_digit_10 by blast
  have nd: "\<not> is_digit_of b' c" for b' using c is_digit_char(1) by blast
  obtain d ds where cons: "decimal n = d # ds" using decimal_nonempty [of n] by (cases "decimal n") auto
  have d: "is_digit_of 10 d" using dig cons by simp
  have drop: "dropWhile isspace (ws @ decimal n @ c # rest) = decimal n @ c # rest"
    using ws is_digit_char(1) [OF d] by (simp add: cons dropWhile_append3 dropWhile_eq_Nil_conv [THEN iffD2])
  have sign: "scan_sign (decimal n @ c # rest) = (False, decimal n @ c # rest)"
    using is_digit_char [OF d] by (simp add: scan_sign_def cons)
  have fits: "int_fits 0 (int n)" using n by (simp add: int_fits_def)
  show ?thesis
  proof (cases "n = 0")
    case True
    moreover have "decimal 0 = ''0''" by code_simp
    ultimately have z: "decimal n = ''0''" by simp
    have "int_base 0 (''0'' @ c # rest) = (8, ''0'' @ c # rest)"
      using c by (auto simp: int_base_def has_0x_def isspace_def)
    moreover have "takeWhile (is_digit_of 8) (''0'' @ c # rest) = ''0''"
      using nd by (simp add: is_digit_of_def hex_val_def)
    moreover have "number 8 ''0'' = 0" by (simp add: number_def hex_val_def)
    ultimately show ?thesis using drop sign fits True unfolding z by (simp add: Let_def)
  next
    case False
    then have "d \<noteq> CHR ''0''" using decimal_hd [of n] cons by simp
    then have "int_base 0 (decimal n @ c # rest) = (10, decimal n @ c # rest)"
      by (simp add: int_base_def has_0x_def cons)
    moreover have "takeWhile (is_digit_of 10) (decimal n @ c # rest) = decimal n"
      using dig nd by (simp add: takeWhile_append2)
    ultimately show ?thesis using drop sign fits by (simp add: Let_def)
  qed
qed

lemma scan_x:
  assumes "isspace c" "\<forall>c\<in>set ws. isspace c" "n < 2 ^ 32"
  shows "scan_from (Conv_int 16 # fs) (ws @ hexl n @ c # rest)
    = map_option (apfst (Cons (Ival (of_nat n)))) (scan_from fs (c # rest))"
  using assms hexl_digits by (intro scan_number) (auto simp: int_fits_def)

lemma scan_d:
  assumes "isspace c" "\<forall>c\<in>set ws. isspace c" "n < 2 ^ 31"
  shows "scan_from (Conv_int 10 # fs) (ws @ decimal n @ c # rest)
    = map_option (apfst (Cons (Ival (of_nat n)))) (scan_from fs (c # rest))"
  using assms decimal_digits is_digit_10 by (intro scan_number) (auto simp: int_fits_def)

lemma scan_str:
  assumes "isspace c" "\<forall>c\<in>set ws. isspace c" "w \<noteq> []" "\<forall>c\<in>set w. \<not> isspace c"
  shows "scan_from (Conv_str n # fs) (ws @ w @ c # rest)
    = (if length w < n then map_option (apfst (Cons (Sval w))) (scan_from fs (c # rest)) else None)"
proof -
  have "dropWhile isspace (ws @ w @ c # rest) = w @ c # rest"
    using assms by (cases w) (simp_all add: dropWhile_append3 dropWhile_eq_Nil_conv [THEN iffD2])
  moreover have "takeWhile (\<lambda>c. \<not> isspace c) (w @ c # rest) = w"
    using assms by (simp add: takeWhile_append2)
  ultimately show ?thesis using assms(3) by (simp add: Let_def)
qed

lemma inet_ntop_chars: "c \<in> set (inet_ntop ip) \<Longrightarrow> isdigit c \<or> c = CHR ''.''"
  using decimal_digits by (auto simp: inet_ntop_def)

lemma inet_ntop_word [simp]: "inet_ntop ip \<noteq> []" "\<forall>c\<in>set (inet_ntop ip). \<not> isspace c"
proof -
  show "\<forall>c\<in>set (inet_ntop ip). \<not> isspace c"
  proof
    fix c assume "c \<in> set (inet_ntop ip)"
    from inet_ntop_chars [OF this] show "\<not> isspace c"
      using is_digit_char(1) [of 10 c] by (auto simp: is_digit_10) (simp add: isspace_def)
  qed
qed (simp add: inet_ntop_def)

lemma atoi_int_decimal: "n < 2 ^ 31 \<Longrightarrow> atoi_int (decimal n) = Some (of_nat n)"
proof -
  assume n: "n < 2 ^ 31"
  have dig: "\<forall>c\<in>set (decimal n). isdigit c" using decimal_digits by blast
  obtain d ds where cons: "decimal n = d # ds" using decimal_nonempty [of n] by (cases "decimal n") auto
  have d: "is_digit_of 10 d" using dig cons by (simp add: is_digit_10)
  have "dropWhile isspace (decimal n) = decimal n" using is_digit_char(1) [OF d] by (simp add: cons)
  moreover have "scan_sign (decimal n) = (False, decimal n)"
    using is_digit_char [OF d] by (simp add: scan_sign_def cons)
  ultimately show ?thesis using n
    by (simp add: atoi_int_def int_fits_def takeWhile_eq_all_conv [THEN iffD2, OF dig])
qed

lemma atoi_octet: "atoi_int (decimal (unat (b :: u8))) = Some (ucast b)"
  using atoi_int_decimal [of "unat b"] unat_u8_less(1) [of b] by simp

text \<open>The bytes that \<open>parseip\<close> returns for an address in dotted decimal, and the register value they give.\<close>

definition octets :: "u32 \<Rightarrow> u8 list" where
  "octets ip = [byte_of 0 ip, byte_of 1 ip, byte_of 2 ip, byte_of 3 ip]"

lemma parseip_inet_ntop [simp]: "parseip (inet_ntop ip) = Some (octets ip)"
  by (simp add: octets_def parseip_def strtok_words_def inet_ntop_def split_at_append split_at_single atoi_octet
    ucast_up_ucast_id is_up)

lemma be32_octets [simp]: "be32_at (octets ip) 0 = Some (ntohl ip)"
  by (simp add: octets_def be32_at_def ntohl_def le32_def ac_simps)

text \<open>A call that assigns a variable has read something.\<close>

lemma length_scan_sign: "length (snd (scan_sign s)) \<le> length s"
  by (cases s) (auto simp: scan_sign_def)

lemma length_int_base: "length (snd (int_base b s)) \<le> length s"
  by (simp add: int_base_def)

lemma scan_progress:
  "scan_from fs s = Some (items, rest) \<Longrightarrow> length rest \<le> length s \<and> (items \<noteq> [] \<longrightarrow> length rest < length s)"
proof (induction fs s arbitrary: items rest rule: scan_from.induct)
  case (2 n ds s)
  let ?t = "dropWhile isspace s"
  let ?w = "takeWhile (\<lambda>c. \<not> isspace c) ?t"
  have t: "length ?t \<le> length s" by (rule length_dropWhile_le)
  show ?case
  proof (cases "?w = []")
    case True
    then show ?thesis using "2.prems" t by (simp add: Let_def)
  next
    case False
    then obtain items' where "length ?w < n" "scan_from ds (drop (length ?w) ?t) = Some (items', rest)"
      using "2.prems" by (auto simp add: Let_def simp del: takeWhile_eq_Nil_iff split: if_splits)
    from "2.IH" [OF refl refl False this] have "length rest \<le> length ?t - length ?w" by simp
    moreover have "0 < length ?w" "length ?w \<le> length ?t" using False by (simp_all add: length_takeWhile_le)
    ultimately show ?thesis using t by (intro conjI impI) linarith+
  qed
next
  case (3 b ds s)
  obtain neg t where t: "scan_sign (dropWhile isspace s) = (neg, t)" by (cases "scan_sign (dropWhile isspace s)")
  obtain base u where u: "int_base b t = (base, u)" by (cases "int_base b t")
  let ?w = "takeWhile (is_digit_of base) u"
  have "length t \<le> length (dropWhile isspace s)" using length_scan_sign [of "dropWhile isspace s"] t by simp
  then have l: "length u \<le> length s"
    using length_int_base [of b t] u length_dropWhile_le [of isspace s] by simp
  show ?case
  proof (cases "?w = []")
    case True
    then show ?thesis using "3.prems" t u l by (simp add: Let_def)
  next
    case False
    let ?v = "if neg then - int (number base ?w) else int (number base ?w)"
    obtain items' where "int_fits b ?v" "scan_from ds (drop (length ?w) u) = Some (items', rest)"
      using "3.prems" t u False
      by (auto simp add: Let_def simp del: takeWhile_eq_Nil_iff split: if_splits)
    from "3.IH" [OF t [symmetric] refl u [symmetric] refl refl refl False this]
    have "length rest \<le> length u - length ?w" by simp
    moreover have "0 < length ?w" "length ?w \<le> length u" using False by (simp_all add: length_takeWhile_le)
    ultimately show ?thesis using l by (intro conjI impI) linarith+
  qed
qed simp

text \<open>A string that has been through \<open>strtok\<close> has one word left at most.\<close>

lemma split_at_takeWhile_single: "split_at d (takeWhile (\<lambda>c. c \<noteq> d) s) = [takeWhile (\<lambda>c. c \<noteq> d) s]"
  by (rule split_at_single) (metis (mono_tags, lifting) set_takeWhileD)

lemma strtok_words_left: "length (strtok_words d (strtok_left d s)) \<le> 1"
proof -
  have "filter (\<lambda>w. w \<noteq> []) (split_at d (takeWhile (\<lambda>c. c = d) s @ t)) = filter (\<lambda>w. w \<noteq> []) (split_at d t)" for t
    by (induction s) auto
  then show ?thesis
    by (simp add: strtok_words_def strtok_left_def split_at_takeWhile_single)
qed

lemma parseip_left: "parseip (strtok_left (CHR ''.'') s) = Some bs \<Longrightarrow> length bs \<le> 1"
proof -
  have "those xs = Some ys \<Longrightarrow> length ys = length xs" for xs :: "u8 option list" and ys
    by (induction xs arbitrary: ys) (auto split: option.splits)
  then show "parseip (strtok_left (CHR ''.'') s) = Some bs \<Longrightarrow> length bs \<le> 1"
    using strtok_words_left [of "CHR ''.''" s]
    by (fastforce simp: parseip_def Let_def split: if_splits)
qed

lemma parsemac_left: "parsemac (strtok_left (CHR '':'') s) = Some bs \<Longrightarrow> length bs \<le> 1"
proof -
  have "those xs = Some ys \<Longrightarrow> length ys = length xs" for xs :: "u8 option list" and ys
    by (induction xs arbitrary: ys) (auto split: option.splits)
  then show "parsemac (strtok_left (CHR '':'') s) = Some bs \<Longrightarrow> length bs \<le> 1"
    using strtok_words_left [of "CHR '':''" s]
    by (fastforce simp: parsemac_def Let_def split: if_splits)
qed

text \<open>From here on the scanner is used through these lemmas.\<close>

declare scan_from.simps(2,3) [simp del]

end
