(* ===== verification/Hw_Cli.thy ===== *)
theory Hw_Cli
  imports Scan Rtable Ctable
begin

text \<open>
  The table manager of the card, projects/reference_router/sw/cli.c: an interactive program that
  lists, sets, loads and clears the rows of the tables that the router software also writes
  (theories Rtable, Ctable and Arp), the MAC addresses of the ports and the limits of the output
  queues.

  Its state is the input still to be read, the text printed, the files it can open and the card.
  Opening the device, the options of the command line and the memory that the parsers allocate and
  never free are left out.
\<close>

section \<open>The state, printing and reading\<close>

record tool =
  t_in :: string
  t_out :: string
  t_files :: "string \<Rightarrow> string option"
  t_card :: hw_state
  t_stack :: u32

text \<open>\<open>t_stack\<close> is what the variable \<open>ip\<close> of \<open>listmac\<close>, which nobody sets, happens to hold.\<close>

definition say :: "string \<Rightarrow> tool \<Rightarrow> tool" where
  "say s w = w\<lparr>t_out := t_out w @ s\<rparr>"

definition line :: "string \<Rightarrow> string" where "line s = s @ [LF]"

text \<open>A call of \<open>scanf\<close> on local variables that have no value yet.\<close>

definition scanf :: "conv list \<Rightarrow> tool \<Rightarrow> (item option list \<times> tool) option" where
  "scanf fmt w = do {
     (items, rest) \<leftarrow> scan_from fmt (t_in w);
     Some (assign items (replicate (length fmt) None), w\<lparr>t_in := rest\<rparr>)
   }"

section \<open>Writing rows\<close>

definition addmac :: "u32 \<Rightarrow> u8 list \<Rightarrow> hw_state \<Rightarrow> hw_state option" where
  "addmac port mac h = (let i = sint port - 1 in
     if 0 \<le> i \<and> i < 4 then do {
       hi \<leftarrow> be16_at mac;
       lo \<leftarrow> be32_at mac 2;
       Some (writeRegs [(ROUTER_OP_LUT_MAC_HI_REG (nat i), hi), (ROUTER_OP_LUT_MAC_LO_REG (nat i), lo)] h)
     } else None)"

definition addarp :: "u32 \<Rightarrow> u8 list \<Rightarrow> u8 list \<Rightarrow> hw_state \<Rightarrow> hw_state option" where
  "addarp entry ip mac h = do {
     i \<leftarrow> be32_at ip 0;
     hi \<leftarrow> be16_at mac;
     lo \<leftarrow> be32_at mac 2;
     Some (writeRegs [(ARP_TABLE_ENTRY_NEXT_HOP_IP_REG, i), (ARP_TABLE_ENTRY_MAC_HI_REG, hi),
       (ARP_TABLE_ENTRY_MAC_LO_REG, lo), (WR_ADDR_REG ARP_TABLE, entry)] h)
   }"

definition addip :: "u32 \<Rightarrow> u8 list \<Rightarrow> u8 list \<Rightarrow> u8 list \<Rightarrow> u32 \<Rightarrow> hw_state \<Rightarrow> hw_state option" where
  "addip entry subnet msk nexthop port h = do {
     s \<leftarrow> be32_at subnet 0;
     m \<leftarrow> be32_at msk 0;
     n \<leftarrow> be32_at nexthop 0;
     Some (writeRegs [(ROUTE_TABLE_ENTRY_IP_REG, s), (ROUTE_TABLE_ENTRY_MASK_REG, m),
       (ROUTE_TABLE_ENTRY_NEXT_HOP_IP_REG, n), (ROUTE_TABLE_ENTRY_OUTPUT_PORT_REG, port),
       (WR_ADDR_REG ROUTE_TABLE, entry)] h)
   }"

definition addcccp :: "u32 \<Rightarrow> u8 list \<Rightarrow> u32 \<Rightarrow> u8 list \<Rightarrow> u32 \<Rightarrow> hw_state \<Rightarrow> hw_state option" where
  "addcccp entry subnet vn nexthop port h = do {
     s \<leftarrow> be32_at subnet 0;
     n \<leftarrow> be32_at nexthop 0;
     Some (writeRegs [(CCCP_TABLE_ENTRY_NAME_REG, s), (CCCP_TABLE_ENTRY_VN_REG, vn),
       (CCCP_TABLE_ENTRY_NEXT_HOP_IP_REG, n), (CCCP_TABLE_ENTRY_OUTPUT_PORT_REG, port),
       (WR_ADDR_REG CCCP_TABLE, entry)] h)
   }"

section \<open>set\<close>

definition bad_entry :: string where "bad_entry = line ''Entry must be between 0 and 31. Aborting''"

definition setip :: "tool \<Rightarrow> tool option" where
  "setip w = do {
     let w = say (line ''Enter [entry] [subnet]      [mask]       [nexthop] [port]:''
       @ line ''e.g.     0   192.168.1.0  255.255.255.0  15.1.3.1     4:'' @ ''>> '') w;
     (vars, w) \<leftarrow> scanf [Conv_int 0, Conv_str 15, Conv_str 15, Conv_str 15, Conv_int 16] w;
     entry \<leftarrow> int_var vars 0;
     if sint entry < 0 \<or> sint entry > 31 then Some (say bad_entry w)
     else do {
       port \<leftarrow> int_var vars 4;
       if sint port < 1 \<or> sint port > 255
       then Some (say (line ''Port must be between 1 and ff.  Aborting'') w)
       else do {
         subnet \<leftarrow> str_var vars 1; msk \<leftarrow> str_var vars 2; nexthop \<leftarrow> str_var vars 3;
         sn \<leftarrow> parseip subnet;
         m \<leftarrow> parseip msk;
         nh \<leftarrow> parseip nexthop;
         card \<leftarrow> addip entry sn m nh port (t_card w);
         Some (w\<lparr>t_card := card\<rparr>)
       }
     }
   }"

definition setcccp :: "tool \<Rightarrow> tool option" where
  "setcccp w = do {
     let w = say (line ''Enter [entry] [name]     [version number]    [nexthop] [port]:''
       @ line ''e.g.     0   192.168.1.0        10            15.1.3.1     4:'' @ ''>> '') w;
     (vars, w) \<leftarrow> scanf [Conv_int 0, Conv_str 15, Conv_int 10, Conv_str 15, Conv_int 16] w;
     entry \<leftarrow> int_var vars 0;
     if sint entry < 0 \<or> sint entry > 31 then Some (say bad_entry w)
     else do {
       port \<leftarrow> int_var vars 4;
       if sint port < 1 \<or> sint port > 255
       then Some (say (line ''Port must be between 1 and ff.  Aborting'') w)
       else do {
         vn \<leftarrow> int_var vars 2;
         if sint vn < 0 \<or> sint vn > 65535
         then Some (say (line ''Port must be between 0 and ffff(65535).  Aborting'') w)
         else do {
           name \<leftarrow> str_var vars 1; nexthop \<leftarrow> str_var vars 3;
           sn \<leftarrow> parseip name;
           nh \<leftarrow> parseip nexthop;
           card \<leftarrow> addcccp entry sn vn nh port (t_card w);
           Some (w\<lparr>t_card := card\<rparr>)
         }
       }
     }
   }"

definition setarp :: "tool \<Rightarrow> tool option" where
  "setarp w = do {
     let w = say (line ''Enter [entry] [ip] [mac]:'' @ ''>> '') w;
     (vars, w) \<leftarrow> scanf [Conv_int 0, Conv_str 15, Conv_str 30] w;
     entry \<leftarrow> int_var vars 0;
     if sint entry < 0 \<or> sint entry > 31 then Some (say bad_entry w)
     else do {
       nexthop \<leftarrow> str_var vars 1; mac \<leftarrow> str_var vars 2;
       nh \<leftarrow> parseip nexthop;
       m \<leftarrow> parsemac mac;
       card \<leftarrow> addarp entry nh m (t_card w);
       Some (w\<lparr>t_card := card\<rparr>)
     }
   }"

definition setmac :: "tool \<Rightarrow> tool option" where
  "setmac w = do {
     let w = say (line ''Enter [port] [mac]:'' @ ''>> '') w;
     (vars, w) \<leftarrow> scanf [Conv_int 0, Conv_str 30] w;
     port \<leftarrow> int_var vars 0;
     if sint port < 1 \<or> sint port > 4 then Some (say (line ''Port must be between 1 and 4. Aborting'') w)
     else do {
       mac \<leftarrow> str_var vars 1;
       m \<leftarrow> parsemac mac;
       card \<leftarrow> addmac port m (t_card w);
       Some (w\<lparr>t_card := card\<rparr>)
     }
   }"

section \<open>list\<close>

text \<open>The loops \<open>for (i = k; i < k + n; i++)\<close> over the rows.\<close>

fun for_rows :: "(nat \<Rightarrow> tool \<Rightarrow> tool) \<Rightarrow> nat \<Rightarrow> nat \<Rightarrow> tool \<Rightarrow> tool" where
  "for_rows step 0 i w = w"
| "for_rows step (Suc n) i w = for_rows step n (Suc i) (step i w)"

text \<open>\<open>%i.%i.%i.%i\<close> of the bytes, \<open>%x:%x:%x:%x:%x:%x\<close> of a MAC address.\<close>

definition octets_text :: "u32 \<Rightarrow> string" where
  "octets_text v = decimal (unat (drop_bit 24 v)) @ ''.'' @ decimal (unat (drop_bit 16 v AND 0xff)) @ ''.''
     @ decimal (unat (drop_bit 8 v AND 0xff)) @ ''.'' @ decimal (unat (v AND 0xff))"

definition mac_x_text :: "u32 \<Rightarrow> u32 \<Rightarrow> string" where
  "mac_x_text hi lo = hexl (unat (drop_bit 8 hi AND 0xff)) @ '':'' @ hexl (unat (hi AND 0xff)) @ '':''
     @ hexl (unat (drop_bit 24 lo AND 0xff)) @ '':'' @ hexl (unat (drop_bit 16 lo AND 0xff)) @ '':''
     @ hexl (unat (drop_bit 8 lo AND 0xff)) @ '':'' @ hexl (unat (lo AND 0xff))"

definition invalid_line :: string where "invalid_line = line ''--Invalid--''"

definition entry_head :: "nat \<Rightarrow> string" where
  "entry_head i = ''Entry #'' @ decimal i @ '':   ''"

definition listip_step :: "nat \<Rightarrow> tool \<Rightarrow> tool" where
  "listip_step i w = (let
     h = writeReg (RD_ADDR_REG ROUTE_TABLE) (of_nat i) (t_card w);
     subnet = readReg ROUTE_TABLE_ENTRY_IP_REG h;
     msk = readReg ROUTE_TABLE_ENTRY_MASK_REG h;
     nh = readReg ROUTE_TABLE_ENTRY_NEXT_HOP_IP_REG h;
     valport = readReg ROUTE_TABLE_ENTRY_OUTPUT_PORT_REG h;
     port = valport AND 0xff
   in say (entry_head i @
       (if subnet \<noteq> 0 \<or> msk \<noteq> 0xffffffff \<or> port \<noteq> 0
        then ''Subnet: '' @ octets_text subnet @ '', '' @ ''Mask: 0x'' @ hexl (unat msk) @ '', ''
          @ ''Next Hop: '' @ octets_text nh @ '', '' @ line (''Port: 0x'' @ hex_02 (unat port))
        else invalid_line)) (w\<lparr>t_card := h\<rparr>))"

definition listip :: "tool \<Rightarrow> tool" where
  "listip w = for_rows listip_step 32 0 w"

definition listcccp_step :: "nat \<Rightarrow> tool \<Rightarrow> tool" where
  "listcccp_step i w = (let
     h = writeReg (RD_ADDR_REG CCCP_TABLE) (of_nat i) (t_card w);
     name = readReg CCCP_TABLE_ENTRY_NAME_REG h;
     vn = readReg CCCP_TABLE_ENTRY_VN_REG h;
     nh = readReg CCCP_TABLE_ENTRY_NEXT_HOP_IP_REG h;
     valport = readReg CCCP_TABLE_ENTRY_OUTPUT_PORT_REG h;
     port = valport AND 0xff
   in say (entry_head i @
       (if name \<noteq> 0 \<or> port \<noteq> 0
        then ''Name: '' @ octets_text name @ '', '' @ ''Version number: '' @ int_text vn @ '', ''
          @ ''Next Hop: '' @ octets_text nh @ '', '' @ line (''Port: 0x'' @ hex_02 (unat port))
        else invalid_line)) (w\<lparr>t_card := h\<rparr>))"

definition listcccp :: "tool \<Rightarrow> tool" where
  "listcccp w = for_rows listcccp_step 32 0 w"

definition listarp_step :: "nat \<Rightarrow> tool \<Rightarrow> tool" where
  "listarp_step i w = (let
     h = writeReg (RD_ADDR_REG ARP_TABLE) (of_nat i) (t_card w);
     ip = readReg ARP_TABLE_ENTRY_NEXT_HOP_IP_REG h;
     machi = readReg ARP_TABLE_ENTRY_MAC_HI_REG h;
     maclo = readReg ARP_TABLE_ENTRY_MAC_LO_REG h
   in say (entry_head (i + 1) @
       (if ip \<noteq> 0 then ''IP: '' @ octets_text ip @ '', '' @ line (''MAC: '' @ mac_x_text machi maclo)
        else invalid_line)) (w\<lparr>t_card := h\<rparr>))"

definition listarp :: "tool \<Rightarrow> tool" where
  "listarp w = for_rows listarp_step 32 0 w"

definition listmac_step :: "nat \<Rightarrow> tool \<Rightarrow> tool" where
  "listmac_step i w = (let
     machi = readReg (ROUTER_OP_LUT_MAC_HI_REG i) (t_card w);
     maclo = readReg (ROUTER_OP_LUT_MAC_LO_REG i) (t_card w)
   in say (''Port #'' @ decimal (i + 1) @ '':   '' @
       (if t_stack w \<noteq> 0 then line (''MAC: '' @ mac_x_text machi maclo) else invalid_line)) w)"

definition listmac :: "tool \<Rightarrow> tool" where
  "listmac w = for_rows listmac_step 4 0 w"

section \<open>load\<close>

text \<open>
  The loops \<open>while (fscanf(fp, ...) != EOF)\<close>: the variables live through the loop, the body parses
  them, which cuts the strings. A loop is \<open>Done\<close> at the end of the file, \<open>Undefined\<close> when it reads
  what has no value or leaves an array, \<open>Unfinished\<close> when the fuel is used up.
\<close>

datatype 'a run = Done 'a | Undefined | Unfinished

type_synonym load_body = "item option list \<Rightarrow> hw_state \<Rightarrow> (item option list \<times> hw_state) option"

fun load_loop :: "conv list \<Rightarrow> load_body \<Rightarrow> nat \<Rightarrow> item option list \<Rightarrow> string \<Rightarrow> hw_state \<Rightarrow> hw_state run" where
  "load_loop fmt body 0 vars s h = Unfinished"
| "load_loop fmt body (Suc fuel) vars s h =
     (case scan_from fmt s of
        None \<Rightarrow> Undefined
      | Some (items, rest) \<Rightarrow>
          if at_eof s then Done h
          else (case body (assign items vars) h of
                  None \<Rightarrow> Undefined
                | Some (vars', h') \<Rightarrow> load_loop fmt body fuel vars' rest h'))"

definition cut_var :: "nat \<Rightarrow> char \<Rightarrow> item option list \<Rightarrow> item option list" where
  "cut_var k d vars = (case str_var vars k of Some s \<Rightarrow> vars[k := Some (Sval (strtok_left d s))] | None \<Rightarrow> vars)"

definition loadip_fmt :: "conv list" where
  "loadip_fmt = [Conv_int 0, Conv_str 20, Conv_str 20, Conv_str 20, Conv_int 16]"

definition loadip_body :: load_body where
  "loadip_body vars h = do {
     subnet \<leftarrow> str_var vars 1; sn \<leftarrow> parseip subnet;
     msk \<leftarrow> str_var vars 2; m \<leftarrow> parseip msk;
     nexthop \<leftarrow> str_var vars 3; nh \<leftarrow> parseip nexthop;
     entry \<leftarrow> int_var vars 0; port \<leftarrow> int_var vars 4;
     h \<leftarrow> addip entry sn m nh port h;
     Some (cut_var 3 (CHR ''.'') (cut_var 2 (CHR ''.'') (cut_var 1 (CHR ''.'') vars)), h)
   }"

definition loadcccp_fmt :: "conv list" where
  "loadcccp_fmt = [Conv_int 0, Conv_str 20, Conv_int 10, Conv_str 20, Conv_int 16]"

definition loadcccp_body :: load_body where
  "loadcccp_body vars h = do {
     name \<leftarrow> str_var vars 1; sn \<leftarrow> parseip name;
     nexthop \<leftarrow> str_var vars 3; nh \<leftarrow> parseip nexthop;
     entry \<leftarrow> int_var vars 0; vn \<leftarrow> int_var vars 2; port \<leftarrow> int_var vars 4;
     h \<leftarrow> addcccp entry sn vn nh port h;
     Some (cut_var 3 (CHR ''.'') (cut_var 1 (CHR ''.'') vars), h)
   }"

definition loadarp_fmt :: "conv list" where
  "loadarp_fmt = [Conv_int 0, Conv_str 20, Conv_str 20]"

definition loadarp_body :: load_body where
  "loadarp_body vars h = do {
     ip \<leftarrow> str_var vars 1; i \<leftarrow> parseip ip;
     mac \<leftarrow> str_var vars 2; m \<leftarrow> parsemac mac;
     entry \<leftarrow> int_var vars 0;
     h \<leftarrow> addarp entry i m h;
     Some (cut_var 2 (CHR '':'') (cut_var 1 (CHR ''.'') vars), h)
   }"

definition loadmac_fmt :: "conv list" where
  "loadmac_fmt = [Conv_int 0, Conv_str 20]"

definition loadmac_body :: load_body where
  "loadmac_body vars h = do {
     mac \<leftarrow> str_var vars 1; m \<leftarrow> parsemac mac;
     port \<leftarrow> int_var vars 0;
     h \<leftarrow> addmac port m h;
     Some (cut_var 1 (CHR '':'') vars, h)
   }"

text \<open>\<open>loadip\<close> and \<open>loadcccp\<close> report a file that cannot be opened; the other two read from the null
  pointer.\<close>

definition ask_file :: "tool \<Rightarrow> (string \<times> tool) option" where
  "ask_file w = do {
     (vars, w) \<leftarrow> scanf [Conv_str 30] (say (line ''Enter filename:'' @ ''>> '') w);
     fn \<leftarrow> str_var vars 0;
     Some (fn, w)
   }"

definition load_file :: "conv list \<Rightarrow> load_body \<Rightarrow> string \<Rightarrow> tool \<Rightarrow> tool option" where
  "load_file fmt body s w =
     (case load_loop fmt body (Suc (length s)) (replicate (length fmt) None) s (t_card w) of
        Done h \<Rightarrow> Some (w\<lparr>t_card := h\<rparr>) | _ \<Rightarrow> None)"

definition cannot_open :: "string \<Rightarrow> string" where
  "cannot_open fn = line (''Error: cannot open file '' @ fn @ ''.'')"

definition loadip :: "tool \<Rightarrow> tool option" where
  "loadip w = do {
     (fn, w) \<leftarrow> ask_file w;
     case t_files w fn of None \<Rightarrow> Some (say (cannot_open fn) w)
     | Some s \<Rightarrow> load_file loadip_fmt loadip_body s w
   }"

definition loadcccp :: "tool \<Rightarrow> tool option" where
  "loadcccp w = do {
     (fn, w) \<leftarrow> ask_file w;
     case t_files w fn of None \<Rightarrow> Some (say (cannot_open fn) w)
     | Some s \<Rightarrow> load_file loadcccp_fmt loadcccp_body s w
   }"

definition loadarp :: "tool \<Rightarrow> tool option" where
  "loadarp w = do {
     (fn, w) \<leftarrow> ask_file w;
     s \<leftarrow> t_files w fn;
     load_file loadarp_fmt loadarp_body s w
   }"

definition loadmac :: "tool \<Rightarrow> tool option" where
  "loadmac w = do {
     (fn, w) \<leftarrow> ask_file w;
     s \<leftarrow> t_files w fn;
     load_file loadmac_fmt loadmac_body s w
   }"

section \<open>clear\<close>

definition clear_ip_row :: "u32 \<Rightarrow> tool \<Rightarrow> tool" where
  "clear_ip_row entry w = w\<lparr>t_card := writeRegs
     [(ROUTE_TABLE_ENTRY_IP_REG, 0), (ROUTE_TABLE_ENTRY_MASK_REG, 0xffffffff),
      (ROUTE_TABLE_ENTRY_NEXT_HOP_IP_REG, 0), (ROUTE_TABLE_ENTRY_OUTPUT_PORT_REG, 0),
      (WR_ADDR_REG ROUTE_TABLE, entry)] (t_card w)\<rparr>"

definition clear_cccp_row :: "u32 \<Rightarrow> tool \<Rightarrow> tool" where
  "clear_cccp_row entry w = w\<lparr>t_card := writeRegs
     [(CCCP_TABLE_ENTRY_NAME_REG, 0), (CCCP_TABLE_ENTRY_VN_REG, 0),
      (CCCP_TABLE_ENTRY_NEXT_HOP_IP_REG, 0), (CCCP_TABLE_ENTRY_OUTPUT_PORT_REG, 0),
      (WR_ADDR_REG CCCP_TABLE, entry)] (t_card w)\<rparr>"

definition clear_arp_row :: "u32 \<Rightarrow> tool \<Rightarrow> tool" where
  "clear_arp_row entry w = w\<lparr>t_card := writeRegs
     [(ARP_TABLE_ENTRY_NEXT_HOP_IP_REG, 0), (ARP_TABLE_ENTRY_MAC_HI_REG, 0),
      (ARP_TABLE_ENTRY_MAC_LO_REG, 0), (WR_ADDR_REG ARP_TABLE, entry)] (t_card w)\<rparr>"

definition ask_entry :: "tool \<Rightarrow> (u32 \<times> tool) option" where
  "ask_entry w = do {
     (vars, w) \<leftarrow> scanf [Conv_int 0] (say (line ''Specify entry:'' @ ''>> '') w);
     entry \<leftarrow> int_var vars 0;
     Some (entry, w)
   }"

definition clearip :: "tool \<Rightarrow> tool option" where
  "clearip w = do { (entry, w) \<leftarrow> ask_entry w; Some (clear_ip_row entry w) }"

definition clearipall :: "tool \<Rightarrow> tool" where
  "clearipall w = for_rows (\<lambda>i. clear_ip_row (of_nat i)) 32 0 w"

definition clearcccp :: "tool \<Rightarrow> tool option" where
  "clearcccp w = do { (entry, w) \<leftarrow> ask_entry w; Some (clear_cccp_row entry w) }"

definition clearcccpall :: "tool \<Rightarrow> tool" where
  "clearcccpall w = for_rows (\<lambda>i. clear_cccp_row (of_nat i)) 32 0 w"

definition cleararp :: "tool \<Rightarrow> tool option" where
  "cleararp w = do { (entry, w) \<leftarrow> ask_entry w; Some (clear_arp_row entry w) }"

definition cleararpall :: "tool \<Rightarrow> tool" where
  "cleararpall w = for_rows (\<lambda>i. clear_arp_row (of_nat i)) 32 0 w"

section \<open>The output queues\<close>

definition OQ_ENABLE_SEND :: u32 where "OQ_ENABLE_SEND = push_bit 0 1"
definition OQ_INITIALIZE_OQ :: u32 where "OQ_INITIALIZE_OQ = push_bit 1 1"

text \<open>The number of the queue is unsigned, so its test against 0 holds of none; so do those of the limits.\<close>

definition setq :: "tool \<Rightarrow> tool option" where
  "setq w = do {
     let w = say (line ''Enter [Queue] [Min (hex)] [Max (hex)]   (addr in range 0x0 to 0x1fffff)'' @ ''>> '') w;
     (vars, w) \<leftarrow> scanf [Conv_int 10, Conv_str 30, Conv_str 30] w;
     queue \<leftarrow> int_var vars 0;
     if queue > 7 then Some (say (line ''Queue must be between 0 and 7 -  Aborting'') w)
     else do {
       mins \<leftarrow> str_var vars 1;
       let mn = strtol16 mins;
       if mn > 0x1fffff then Some (say (line ''Min must be between 0 and 0x1fffff -  Aborting'') w)
       else do {
         maxs \<leftarrow> str_var vars 2;
         let mx = strtol16 maxs;
         if mx > 0x1fffff then Some (say (line ''Max must be between 0 and 0x1fffff -  Aborting'') w)
         else do {
           let w = say (line (''Set Q '' @ int_text queue @ '' to range 0x'' @ hexl (unat mn) @ '' - 0x''
             @ hexl (unat mx) @ '' '')) w;
           let mn = drop_bit 2 mn;
           let mx = drop_bit 2 mx;
           let q = unat queue;
           Some (w\<lparr>t_card := writeRegs
             [(OQ_QUEUE_CTRL_REG q, OQ_INITIALIZE_OQ OR OQ_ENABLE_SEND), (OQ_QUEUE_ADDR_LO_REG q, mn),
              (OQ_QUEUE_ADDR_HI_REG q, mx), (OQ_QUEUE_CTRL_REG q, OQ_ENABLE_SEND)] (t_card w)\<rparr>)
         }
       }
     }
   }"

definition setpkts :: "tool \<Rightarrow> tool option" where
  "setpkts w = do {
     let w = say (line ''Enter [Queue 1-4] [Max # Pkts (decimal 0-4000000000)]'' @ ''>> '') w;
     (vars, w) \<leftarrow> scanf [Conv_int 10, Conv_int 10] w;
     queue \<leftarrow> int_var vars 0;
     if queue > 7 then Some (say (line ''Queue must be between 0 and 7 -  Aborting'') w)
     else do {
       mx \<leftarrow> int_var vars 1;
       let w = say (line (''Will set max packets for Q '' @ int_text queue @ '' to '' @ int_text mx)) w;
       let q = unat queue;
       Some (w\<lparr>t_card := writeRegs
         [(OQ_QUEUE_CTRL_REG q, OQ_INITIALIZE_OQ OR OQ_ENABLE_SEND), (OQ_QUEUE_MAX_PKTS_IN_Q_REG q, mx),
          (OQ_QUEUE_CTRL_REG q, OQ_ENABLE_SEND)] (t_card w)\<rparr>)
     }
   }"

section \<open>The prompt\<close>

definition help_cmd :: "tool \<Rightarrow> tool" where
  "help_cmd w = say (line ''Commands:''
     @ line ''  listip        - Lists entries in IP routing table''
     @ line ''  listarp       - Lists entries in the ARP table''
     @ line ''  listmac       - Lists the MAC addresses of the router ports''
     @ line ''  listcccp      - Lists entries in CCCP routing table''
     @ line ''  setip         - Set an entry in the IP routing table''
     @ line ''  setarp        - Set an entry in the ARP table''
     @ line ''  setmac        - Set the MAC address of a router port''
     @ line ''  setcccp       - Set an entry in the CCCP routing table''
     @ line ''  loadip        - Load IP routing table entries from a file''
     @ line ''  loadarp       - Load ARP table entries from a file''
     @ line ''  loadmac       - Load MAC addresses of router ports from a file''
     @ line ''  loadcccp      - Load CCCP routing table entries from a file''
     @ line ''  clearip       - Clear an IP routing table entry''
     @ line ''  clearipall    - Clear all IP routing table entry''
     @ line ''  cleararp      - Clear an ARP table entry''
     @ line ''  cleararpall   - Clear all ARP table entry''
     @ line ''  clearcccp     - Clear an CCCP routing table entry''
     @ line ''  clearcccpal   - Clear all CCCP routing table entry''
     @ line ''  setq          - Set Queue limits''
     @ line ''  setpkts       - Set Packet limits (max packets per queue)''
     @ line ''  help          - Displays this list''
     @ line ''  quit          - Exit this program'') w"

definition parse :: "string \<Rightarrow> int" where
  "parse word =
     (if word = ''listip'' then 0
      else if word = ''listarp'' then 1
      else if word = ''setip'' then 2
      else if word = ''setarp'' then 3
      else if word = ''loadip'' then 4
      else if word = ''loadarp'' then 5
      else if word = ''clearip'' then 6
      else if word = ''cleararp'' then 7
      else if word = ''setq'' then 10
      else if word = ''setpkts'' then 11
      else if word = ''listmac'' then 12
      else if word = ''setmac'' then 13
      else if word = ''loadmac'' then 14
      else if word = ''listcccp'' then 15
      else if word = ''setcccp'' then 16
      else if word = ''clearcccp'' then 17
      else if word = ''loadcccp'' then 18
      else if word = ''clearcccpall'' then 19
      else if word = ''clearipall'' then 20
      else if word = ''cleararpall'' then 21
      else if word = ''help'' then 8
      else if word = ''quit'' then 9
      else - 1)"

text \<open>The cases of the \<open>switch\<close> but the one that returns.\<close>

definition run_case :: "int \<Rightarrow> tool \<Rightarrow> tool option" where
  "run_case res w =
     (if res = 0 then Some (listip w)
      else if res = 1 then Some (listarp w)
      else if res = 2 then setip w
      else if res = 3 then setarp w
      else if res = 4 then loadip w
      else if res = 5 then loadarp w
      else if res = 6 then clearip w
      else if res = 7 then cleararp w
      else if res = 10 then setq w
      else if res = 11 then setpkts w
      else if res = 12 then Some (listmac w)
      else if res = 13 then setmac w
      else if res = 14 then loadmac w
      else if res = 15 then Some (listcccp w)
      else if res = 16 then setcccp w
      else if res = 17 then clearcccp w
      else if res = 18 then loadcccp w
      else if res = 19 then Some (clearcccpall w)
      else if res = 20 then Some (clearipall w)
      else if res = 21 then Some (cleararpall w)
      else if res = 8 then Some (help_cmd w)
      else Some (say (line ''Unknown command, type 'help' for list of commands'') w))"

text \<open>Each round of the loop takes one unit of fuel.\<close>

fun prompt :: "nat \<Rightarrow> tool \<Rightarrow> tool run" where
  "prompt 0 w = Unfinished"
| "prompt (Suc n) w =
     (case do { (vars, w) \<leftarrow> scanf [Conv_str 10] (say ''> '' w); c \<leftarrow> str_var vars 0; Some (parse c, w) } of
        None \<Rightarrow> Undefined
      | Some (res, w) \<Rightarrow>
          if res = 9 then Done w
          else (case run_case res w of None \<Rightarrow> Undefined | Some w \<Rightarrow> prompt n w))"

end
