(* ===== verification/Hw_Tables.thy ===== *)
theory Hw_Tables
  imports Hw_Cli
begin

text \<open>
  What the table manager (theory Hw_Cli) does to the tables of the card: a row typed or loaded is
  the row stored, a listing prints the rows and leaves them alone, and the tables that the router
  software writes are listed as its own entries. The loops over the rows and the loops over a file
  are contracts (locales), each interpreted on the code's loops.
\<close>

section \<open>Rows\<close>

lemma addip_row:
  assumes "be32_at sn 0 = Some s" "be32_at m 0 = Some k" "be32_at nh 0 = Some n"
  obtains h' where "addip entry sn m nh port h = Some h'"
    "hw_rows h' = (hw_rows h)(ROUTE_TABLE := (hw_rows h ROUTE_TABLE)(unat entry mod TABLE_DEPTH := [s, k, n, port]))"
  using assms by (simp add: addip_def)

lemma addcccp_row:
  assumes "be32_at sn 0 = Some s" "be32_at nh 0 = Some n"
  obtains h' where "addcccp entry sn vn nh port h = Some h'"
    "hw_rows h' = (hw_rows h)(CCCP_TABLE := (hw_rows h CCCP_TABLE)(unat entry mod TABLE_DEPTH := [s, vn, n, port]))"
  using assms by (simp add: addcccp_def)

text \<open>The text of a row as \<open>listip\<close>, \<open>listcccp\<close> and \<open>listarp\<close> print it.\<close>

definition route_text :: "nat \<Rightarrow> u32 list \<Rightarrow> string" where
  "route_text i vs = entry_head i @
     (if vs ! 0 \<noteq> 0 \<or> vs ! 1 \<noteq> 0xffffffff \<or> vs ! 3 AND 0xff \<noteq> 0
      then ''Subnet: '' @ octets_text (vs ! 0) @ '', '' @ ''Mask: 0x'' @ hexl (unat (vs ! 1)) @ '', ''
        @ ''Next Hop: '' @ octets_text (vs ! 2) @ '', '' @ line (''Port: 0x'' @ hex_02 (unat (vs ! 3 AND 0xff)))
      else invalid_line)"

definition content_text :: "nat \<Rightarrow> u32 list \<Rightarrow> string" where
  "content_text i vs = entry_head i @
     (if vs ! 0 \<noteq> 0 \<or> vs ! 3 AND 0xff \<noteq> 0
      then ''Name: '' @ octets_text (vs ! 0) @ '', '' @ ''Version number: '' @ int_text (vs ! 1) @ '', ''
        @ ''Next Hop: '' @ octets_text (vs ! 2) @ '', '' @ line (''Port: 0x'' @ hex_02 (unat (vs ! 3 AND 0xff)))
      else invalid_line)"

definition arp_text :: "nat \<Rightarrow> u32 list \<Rightarrow> string" where
  "arp_text i vs = entry_head (i + 1) @
     (if vs ! 2 \<noteq> 0 then ''IP: '' @ octets_text (vs ! 2) @ '', '' @ line (''MAC: '' @ mac_x_text (vs ! 0) (vs ! 1))
      else invalid_line)"

text \<open>A table whose rows have all their fields.\<close>

definition rows_full :: "hw_table \<Rightarrow> hw_state \<Rightarrow> bool" where
  "rows_full tab h \<longleftrightarrow> (\<forall>i<TABLE_DEPTH. length (hw_rows h tab i) = length (entry_regs tab))"

locale row_lister =
  fixes tab :: hw_table
    and step :: "nat \<Rightarrow> tool \<Rightarrow> tool"
    and row_text :: "nat \<Rightarrow> u32 list \<Rightarrow> string"
  assumes step: "i < TABLE_DEPTH \<Longrightarrow> length (hw_rows (t_card w) tab i) = length (entry_regs tab) \<Longrightarrow>
    \<exists>h. step i w = w\<lparr>t_out := t_out w @ row_text i (hw_rows (t_card w) tab i), t_card := h\<rparr>
      \<and> hw_rows h = hw_rows (t_card w)"
begin

lemma lists:
  assumes "i + n \<le> TABLE_DEPTH" "rows_full tab (t_card w)"
  shows "\<exists>h. for_rows step n i w
      = w\<lparr>t_out := t_out w @ concat (map (\<lambda>j. row_text j (hw_rows (t_card w) tab j)) [i..<i + n]), t_card := h\<rparr>
    \<and> hw_rows h = hw_rows (t_card w)"
  using assms
proof (induction n arbitrary: i w)
  case 0
  show ?case by (rule exI [of _ "t_card w"]) simp
next
  case (Suc n)
  have i: "i < TABLE_DEPTH" "Suc i + n \<le> TABLE_DEPTH" using Suc.prems(1) by simp_all
  obtain h where s: "step i w = w\<lparr>t_out := t_out w @ row_text i (hw_rows (t_card w) tab i), t_card := h\<rparr>"
    and h: "hw_rows h = hw_rows (t_card w)"
    using step [OF i(1)] Suc.prems(2) i(1) by (auto simp: rows_full_def)
  have "rows_full tab (t_card (step i w))" using Suc.prems(2) by (simp add: s h rows_full_def)
  from Suc.IH [OF i(2) this]
  obtain h' where f: "for_rows step n (Suc i) (step i w) = (step i w)\<lparr>t_out := t_out (step i w)
        @ concat (map (\<lambda>j. row_text j (hw_rows (t_card (step i w)) tab j)) [Suc i..<Suc i + n]), t_card := h'\<rparr>"
    and h': "hw_rows h' = hw_rows (t_card (step i w))"
    by blast
  have "[i..<i + Suc n] = i # [Suc i..<Suc i + n]" using upt_conv_Cons [of i "i + Suc n"] by simp
  then show ?case using f h h' by (intro exI [of _ h']) (simp add: s)
qed

lemma lists_table:
  assumes "rows_full tab (t_card w)"
  shows "\<exists>h. for_rows step 32 0 w
      = w\<lparr>t_out := t_out w @ concat (map (\<lambda>j. row_text j (hw_rows (t_card w) tab j)) [0..<32]), t_card := h\<rparr>
    \<and> hw_rows h = hw_rows (t_card w)"
  using lists [of 0 32, OF _ assms] by (simp add: TABLE_DEPTH_def)

end

lemma list_4: "length xs = 4 \<Longrightarrow> \<exists>a b c d. xs = [a, b, c, d]"
  by (auto simp: numeral_eq_Suc length_Suc_conv)

lemma list_3: "length xs = 3 \<Longrightarrow> \<exists>a b c. xs = [a, b, c]"
  by (auto simp: numeral_eq_Suc length_Suc_conv)

text \<open>A write of the row number loads the row into the registers of the entry.\<close>

lemma load_row:
  fixes h :: hw_state
  assumes "i < TABLE_DEPTH"
  defines "h' \<equiv> \<lambda>tab. writeReg (RD_ADDR_REG tab) (of_nat i) h"
  shows "hw_rows (h' tab) = hw_rows h"
    "hw_rows h ROUTE_TABLE i = [a, b, c, d] \<Longrightarrow> readReg ROUTE_TABLE_ENTRY_IP_REG (h' ROUTE_TABLE) = a
      \<and> readReg ROUTE_TABLE_ENTRY_MASK_REG (h' ROUTE_TABLE) = b
      \<and> readReg ROUTE_TABLE_ENTRY_NEXT_HOP_IP_REG (h' ROUTE_TABLE) = c
      \<and> readReg ROUTE_TABLE_ENTRY_OUTPUT_PORT_REG (h' ROUTE_TABLE) = d"
    "hw_rows h CCCP_TABLE i = [a, b, c, d] \<Longrightarrow> readReg CCCP_TABLE_ENTRY_NAME_REG (h' CCCP_TABLE) = a
      \<and> readReg CCCP_TABLE_ENTRY_VN_REG (h' CCCP_TABLE) = b
      \<and> readReg CCCP_TABLE_ENTRY_NEXT_HOP_IP_REG (h' CCCP_TABLE) = c
      \<and> readReg CCCP_TABLE_ENTRY_OUTPUT_PORT_REG (h' CCCP_TABLE) = d"
    "hw_rows h ARP_TABLE i = [a, b, c] \<Longrightarrow> readReg ARP_TABLE_ENTRY_MAC_HI_REG (h' ARP_TABLE) = a
      \<and> readReg ARP_TABLE_ENTRY_MAC_LO_REG (h' ARP_TABLE) = b
      \<and> readReg ARP_TABLE_ENTRY_NEXT_HOP_IP_REG (h' ARP_TABLE) = c"
  using unat_row [OF assms(1)] by (simp_all add: h'_def readReg_def)

lemma nth_small:
  "[a, b, c, d] ! 0 = a" "[a, b, c, d] ! 1 = b" "[a, b, c, d] ! 2 = c" "[a, b, c, d] ! 3 = d"
  "[a, b, c] ! 0 = a" "[a, b, c] ! 1 = b" "[a, b, c] ! 2 = c"
  by simp_all

lemma say_card: "say s (w\<lparr>t_card := h\<rparr>) = w\<lparr>t_out := t_out w @ s, t_card := h\<rparr>"
  by (cases w) (simp add: say_def)

interpretation ip_list: row_lister ROUTE_TABLE listip_step route_text
proof
  fix i and w :: tool assume i: "i < TABLE_DEPTH" and "length (hw_rows (t_card w) ROUTE_TABLE i) = length (entry_regs ROUTE_TABLE)"
  then have "length (hw_rows (t_card w) ROUTE_TABLE i) = 4" by simp
  from list_4 [OF this] obtain a b c d where r: "hw_rows (t_card w) ROUTE_TABLE i = [a, b, c, d]" by blast
  show "\<exists>h. listip_step i w = w\<lparr>t_out := t_out w @ route_text i (hw_rows (t_card w) ROUTE_TABLE i), t_card := h\<rparr>
      \<and> hw_rows h = hw_rows (t_card w)"
    using load_row(1) [OF i] load_row(2) [OF i r]
    by (intro exI [of _ "writeReg (RD_ADDR_REG ROUTE_TABLE) (of_nat i) (t_card w)"] conjI)
      (simp_all only: listip_step_def Let_def r say_card route_text_def nth_small)
qed

interpretation cccp_list: row_lister CCCP_TABLE listcccp_step content_text
proof
  fix i and w :: tool assume i: "i < TABLE_DEPTH" and "length (hw_rows (t_card w) CCCP_TABLE i) = length (entry_regs CCCP_TABLE)"
  then have "length (hw_rows (t_card w) CCCP_TABLE i) = 4" by simp
  from list_4 [OF this] obtain a b c d where r: "hw_rows (t_card w) CCCP_TABLE i = [a, b, c, d]" by blast
  show "\<exists>h. listcccp_step i w = w\<lparr>t_out := t_out w @ content_text i (hw_rows (t_card w) CCCP_TABLE i), t_card := h\<rparr>
      \<and> hw_rows h = hw_rows (t_card w)"
    using load_row(1) [OF i] load_row(3) [OF i r]
    by (intro exI [of _ "writeReg (RD_ADDR_REG CCCP_TABLE) (of_nat i) (t_card w)"] conjI)
      (simp_all only: listcccp_step_def Let_def r say_card content_text_def nth_small)
qed

interpretation arp_list: row_lister ARP_TABLE listarp_step arp_text
proof
  fix i and w :: tool assume i: "i < TABLE_DEPTH" and "length (hw_rows (t_card w) ARP_TABLE i) = length (entry_regs ARP_TABLE)"
  then have "length (hw_rows (t_card w) ARP_TABLE i) = 3" by simp
  from list_3 [OF this] obtain a b c where r: "hw_rows (t_card w) ARP_TABLE i = [a, b, c]" by blast
  show "\<exists>h. listarp_step i w = w\<lparr>t_out := t_out w @ arp_text i (hw_rows (t_card w) ARP_TABLE i), t_card := h\<rparr>
      \<and> hw_rows h = hw_rows (t_card w)"
    using load_row(1) [OF i] load_row(4) [OF i r]
    by (intro exI [of _ "writeReg (RD_ADDR_REG ARP_TABLE) (of_nat i) (t_card w)"] conjI)
      (simp_all only: listarp_step_def Let_def r say_card arp_text_def nth_small)
qed

text \<open>The loops that clear a table.\<close>

locale row_filler =
  fixes tab :: hw_table
    and step :: "nat \<Rightarrow> tool \<Rightarrow> tool"
    and vs :: "u32 list"
  assumes step: "i < TABLE_DEPTH \<Longrightarrow>
    \<exists>h. step i w = w\<lparr>t_card := h\<rparr> \<and> hw_rows h = (hw_rows (t_card w))(tab := (hw_rows (t_card w) tab)(i := vs))"
begin

lemma fills:
  assumes "i + n \<le> TABLE_DEPTH"
  shows "\<exists>h. for_rows step n i w = w\<lparr>t_card := h\<rparr>
    \<and> hw_rows h = (hw_rows (t_card w))(tab := (\<lambda>j. if i \<le> j \<and> j < i + n then vs else hw_rows (t_card w) tab j))"
  using assms
proof (induction n arbitrary: i w)
  case 0
  show ?case by (rule exI [of _ "t_card w"]) (auto simp: fun_eq_iff)
next
  case (Suc n)
  have i: "i < TABLE_DEPTH" "Suc i + n \<le> TABLE_DEPTH" using Suc.prems by simp_all
  from step [OF i(1), of w] obtain h where s: "step i w = w\<lparr>t_card := h\<rparr>"
    and h: "hw_rows h = (hw_rows (t_card w))(tab := (hw_rows (t_card w) tab)(i := vs))" by blast
  from Suc.IH [OF i(2), of "step i w"] show ?case by (auto simp: s h fun_eq_iff)
qed

end

interpretation ip_clear: row_filler ROUTE_TABLE "\<lambda>i. clear_ip_row (of_nat i)" "[0, 0xffffffff, 0, 0]"
  by unfold_locales (auto simp: clear_ip_row_def unat_row)

interpretation cccp_clear: row_filler CCCP_TABLE "\<lambda>i. clear_cccp_row (of_nat i)" "[0, 0, 0, 0]"
  by unfold_locales (auto simp: clear_cccp_row_def unat_row)

interpretation arp_clear: row_filler ARP_TABLE "\<lambda>i. clear_arp_row (of_nat i)" "[0, 0, 0]"
  by unfold_locales (auto simp: clear_arp_row_def unat_row)

section \<open>Files\<close>

text \<open>A body that needs the variables of its format, and that cuts what it has parsed so that it
  cannot be run twice on the same line.\<close>

locale line_loader =
  fixes fmt :: "conv list" and body :: load_body
  assumes unset: "body (replicate (length fmt) None) h = None"
    and once: "body vars h = Some (vars', h') \<Longrightarrow> body vars' h'' = None"
begin

lemma ends:
  assumes "\<forall>h. body vars h = None" "length s < fuel"
  shows "load_loop fmt body fuel vars s h \<noteq> Unfinished"
  using assms
proof (induction fuel arbitrary: vars s h)
  case (Suc fuel)
  show ?case
  proof (cases "scan_from fmt s")
    case (Some p)
    obtain items rest where p: "p = (items, rest)" by (cases p)
    show ?thesis
    proof (cases "body (assign items vars) h")
      case (Some q)
      obtain vars' h' where q: "q = (vars', h')" by (cases q)
      have "items \<noteq> []" using Suc.prems(1) Some by (auto simp: assign_def)
      then have "length rest < fuel"
        using scan_progress [of fmt s items rest] \<open>scan_from fmt s = Some p\<close> p Suc.prems(2) by simp
      moreover have "\<forall>h. body vars' h = None" using once Some q by blast
      ultimately show ?thesis
        using Suc.IH [of vars' rest h'] \<open>scan_from fmt s = Some p\<close> p Some q by simp
    qed (use Some p in simp)
  qed simp
qed simp

lemma file_ends: "load_loop fmt body (Suc (length s)) (replicate (length fmt) None) s h \<noteq> Unfinished"
  by (rule ends) (simp_all add: unset)

end

lemma vars_unset [simp]: "str_var (replicate n None) k = None" "int_var (replicate n None) k = None"
  by (simp_all add: str_var_def int_var_def)

lemma cut_var_other [simp]: "k \<noteq> j \<Longrightarrow> str_var (cut_var j d vars) k = str_var vars k"
  by (auto simp: cut_var_def str_var_def split: option.splits item.splits)

lemma cut_var_same: "str_var (cut_var k d vars) k = map_option (strtok_left d) (str_var vars k)"
  by (auto simp: cut_var_def str_var_def split: option.splits item.splits if_splits)

lemma be32_short [simp]: "length b \<le> 1 \<Longrightarrow> be32_at b k = None"
  by (simp add: be32_at_def)

lemma be16_short [simp]: "length b \<le> 1 \<Longrightarrow> be16_at b = None"
  by (simp add: be16_at_def)

interpretation ip_file: line_loader loadip_fmt loadip_body
proof
  fix vars h vars' h' h'' assume "loadip_body vars h = Some (vars', h')"
  then obtain s where "str_var vars 1 = Some s"
    and v: "vars' = cut_var 3 (CHR ''.'') (cut_var 2 (CHR ''.'') (cut_var 1 (CHR ''.'') vars))"
    by (auto simp: loadip_body_def bind_eq_Some_conv)
  then have "str_var vars' 1 = Some (strtok_left (CHR ''.'') s)" by (simp add: cut_var_same)
  then show "loadip_body vars' h'' = None"
    using parseip_left [of s] by (cases "parseip (strtok_left (CHR ''.'') s)") (simp_all add: loadip_body_def addip_def)
qed (simp add: loadip_body_def)

interpretation cccp_file: line_loader loadcccp_fmt loadcccp_body
proof
  fix vars h vars' h' h'' assume "loadcccp_body vars h = Some (vars', h')"
  then obtain s where "str_var vars 1 = Some s"
    and v: "vars' = cut_var 3 (CHR ''.'') (cut_var 1 (CHR ''.'') vars)"
    by (auto simp: loadcccp_body_def bind_eq_Some_conv)
  then have "str_var vars' 1 = Some (strtok_left (CHR ''.'') s)" by (simp add: cut_var_same)
  then show "loadcccp_body vars' h'' = None"
    using parseip_left [of s] by (cases "parseip (strtok_left (CHR ''.'') s)") (simp_all add: loadcccp_body_def addcccp_def)
qed (simp add: loadcccp_body_def)

interpretation arp_file: line_loader loadarp_fmt loadarp_body
proof
  fix vars h vars' h' h'' assume "loadarp_body vars h = Some (vars', h')"
  then obtain s where "str_var vars 1 = Some s" and v: "vars' = cut_var 2 (CHR '':'') (cut_var 1 (CHR ''.'') vars)"
    by (auto simp: loadarp_body_def bind_eq_Some_conv)
  then have "str_var vars' 1 = Some (strtok_left (CHR ''.'') s)" by (simp add: cut_var_same)
  then show "loadarp_body vars' h'' = None"
    using parseip_left [of s] by (cases "parseip (strtok_left (CHR ''.'') s)") (simp_all add: loadarp_body_def addarp_def)
qed (simp add: loadarp_body_def)

interpretation mac_file: line_loader loadmac_fmt loadmac_body
proof
  fix vars h vars' h' h'' assume "loadmac_body vars h = Some (vars', h')"
  then obtain s where "str_var vars 1 = Some s" and v: "vars' = cut_var 1 (CHR '':'') vars"
    by (auto simp: loadmac_body_def bind_eq_Some_conv)
  then have "str_var vars' 1 = Some (strtok_left (CHR '':'') s)" by (simp add: cut_var_same)
  then show "loadmac_body vars' h'' = None"
    using parsemac_left [of s] by (cases "parsemac (strtok_left (CHR '':'') s)") (simp_all add: loadmac_body_def addmac_def Let_def cong: if_cong)
qed (simp add: loadmac_body_def)

text \<open>The fuel that the four commands give their loop is enough: each pass either consumes input, or meets
  the end of the file, or reads a string that the pass before has cut or that was never set.\<close>

theorem load_fuel_enough:
  "load_loop loadip_fmt loadip_body (Suc (length s)) (replicate (length loadip_fmt) None) s h \<noteq> Unfinished"
  "load_loop loadcccp_fmt loadcccp_body (Suc (length s)) (replicate (length loadcccp_fmt) None) s h \<noteq> Unfinished"
  "load_loop loadarp_fmt loadarp_body (Suc (length s)) (replicate (length loadarp_fmt) None) s h \<noteq> Unfinished"
  "load_loop loadmac_fmt loadmac_body (Suc (length s)) (replicate (length loadmac_fmt) None) s h \<noteq> Unfinished"
  by (rule ip_file.file_ends cccp_file.file_ends arp_file.file_ends mac_file.file_ends)+

section \<open>A line of the routing table\<close>

text \<open>Entry, subnet, mask, next hop and port, as they are typed at \<open>setip\<close> and stand in a file.\<close>

type_synonym route_line = "nat \<times> u32 \<times> u32 \<times> u32 \<times> u32"

fun ip_line :: "route_line \<Rightarrow> string" where
  "ip_line (i, subnet, msk, nexthop, port) = decimal i @ CHR '' '' # inet_ntop subnet @ CHR '' '' # inet_ntop msk
     @ CHR '' '' # inet_ntop nexthop @ CHR '' '' # hexl (unat port) @ [LF]"

fun line_addresses :: "route_line \<Rightarrow> string list" where
  "line_addresses (i, subnet, msk, nexthop, port) = [inet_ntop subnet, inet_ntop msk, inet_ntop nexthop]"

fun line_row :: "route_line \<Rightarrow> u32 list" where
  "line_row (i, subnet, msk, nexthop, port) = [ntohl subnet, ntohl msk, ntohl nexthop, port]"

fun line_items :: "route_line \<Rightarrow> item list" where
  "line_items (i, subnet, msk, nexthop, port) = [Ival (of_nat i), Sval (inet_ntop subnet), Sval (inet_ntop msk),
     Sval (inet_ntop nexthop), Ival port]"

lemma blank_isspace [simp]: "isspace (CHR '' '')" "isspace LF"
  by (simp_all add: isspace_def LF_def)

lemma scan_str_next:
  assumes "isspace d" "isspace c" "w \<noteq> []" "\<forall>c\<in>set w. \<not> isspace c"
  shows "scan_from (Conv_str n # fs) (d # w @ c # rest)
    = (if length w < n then map_option (apfst (Cons (Sval w))) (scan_from fs (c # rest)) else None)"
  using scan_str [of c "[d]" w n fs rest] assms by (simp)

lemma scan_x_next:
  assumes "isspace d" "isspace c" "n < 2 ^ 32"
  shows "scan_from (Conv_int 16 # fs) (d # hexl n @ c # rest)
    = map_option (apfst (Cons (Ival (of_nat n)))) (scan_from fs (c # rest))"
  using scan_x [of c "[d]" n fs rest] assms by (simp)

lemma scan_ip_line:
  assumes "\<forall>c\<in>set ws. isspace c" "fst l < 2 ^ 31"
  shows "scan_from [Conv_int 0, Conv_str k, Conv_str k, Conv_str k, Conv_int 16] (ws @ ip_line l @ rest)
    = (if \<forall>a\<in>set (line_addresses l). length a < k then Some (line_items l, LF # rest) else None)"
proof -
  obtain i subnet msk nexthop port where l: "l = (i, subnet, msk, nexthop, port)" by (cases l)
  have p: "unat port < 2 ^ 32" using unsigned_less [of port] by simp
  have "ws @ ip_line l @ rest = ws @ decimal i @ CHR '' '' # inet_ntop subnet @ CHR '' '' # inet_ntop msk
     @ CHR '' '' # inet_ntop nexthop @ CHR '' '' # hexl (unat port) @ LF # rest"
    by (simp add: l)
  then show ?thesis using assms
    by (simp add: l scan_i scan_str_next scan_x_next [OF _ _ p])
qed

lemma not_at_eof_line: "\<forall>c\<in>set ws. isspace c \<Longrightarrow> \<not> at_eof (ws @ ip_line l @ rest)"
proof -
  obtain i subnet msk nexthop port where l: "l = (i, subnet, msk, nexthop, port)" by (cases l)
  obtain d ds where d: "decimal i = d # ds" using decimal_nonempty [of i] by (cases "decimal i") auto
  then have "\<not> isspace d" using decimal_digits [of d i] is_digit_10 is_digit_char(1) by auto
  then show ?thesis by (auto simp: at_eof_def l d dropWhile_eq_Nil_conv)
qed

section \<open>setip\<close>

fun line_port :: "route_line \<Rightarrow> u32" where
  "line_port (i, subnet, msk, nexthop, port) = port"

lemma addip_line:
  assumes "i < TABLE_DEPTH"
  obtains h' where "addip (of_nat i) (octets subnet) (octets msk) (octets nexthop) port h = Some h'"
    "hw_rows h' = (hw_rows h)(ROUTE_TABLE := (hw_rows h ROUTE_TABLE)(i := line_row (i, subnet, msk, nexthop, port)))"
  using unat_row [OF assms] by (simp add: addip_def)

lemma sint_small: "n < 2 ^ 31 \<Longrightarrow> sint (of_nat n :: u32) = int n"
  by (simp add: signed_of_nat signed_take_bit_int_eq_self)

text \<open>C28: A line typed at setip, with its entry below 32 and a port from 1 to 255, becomes exactly that
  row of the routing table on the card, and the rest of the input stays, if its three addresses have
  at most 14 characters; an address of 15 characters, such as 192.168.100.100, overflows its buffer.\<close>

theorem setip_stores_line:
  assumes "t_in w = ws @ ip_line l @ rest" "\<forall>c\<in>set ws. isspace c"
    and "fst l < 32" "1 \<le> line_port l" "line_port l \<le> 255"
  shows "if \<forall>a\<in>set (line_addresses l). length a < 15
    then \<exists>w'. setip w = Some w' \<and> t_in w' = LF # rest \<and> t_files w' = t_files w
      \<and> hw_rows (t_card w') = (hw_rows (t_card w))
          (ROUTE_TABLE := (hw_rows (t_card w) ROUTE_TABLE)(fst l := line_row l))
    else setip w = None"
proof -
  obtain i subnet msk nexthop port where l: "l = (i, subnet, msk, nexthop, port)" by (cases l)
  have i: "sint (of_nat i :: u32) = int i" "i < 32" "i < TABLE_DEPTH" "fst l < 2 ^ 31"
    using assms(3) l by (simp_all add: sint_small TABLE_DEPTH_def)
  have u: "1 \<le> unat port" "unat port \<le> 255"
    using assms(4,5) l by (simp_all add: word_le_nat_alt)
  then have "sint port = int (unat port)"
    using sint_small [of "unat port"] by (simp only: of_nat_unat ucast_id) simp
  then have p: "\<not> sint port < 1" "\<not> 255 < sint port" using u by linarith+
  note s = scan_ip_line [OF assms(2) i(4), of 15 rest, folded assms(1)]
  show ?thesis
  proof (cases "\<forall>a\<in>set (line_addresses l). length a < 15")
    case False
    then have sc: "scan_from [Conv_int 0, Conv_str 15, Conv_str 15, Conv_str 15, Conv_int 16] (t_in w) = None"
      using s by (simp only: if_False)
    from False have "\<not> (\<forall>a\<in>set (line_addresses l). length a < 15)" by blast
    then show ?thesis by (simp only: if_False) (simp add: setip_def scanf_def say_def sc)
  next
    case True
    then have sc: "scan_from [Conv_int 0, Conv_str 15, Conv_str 15, Conv_str 15, Conv_int 16] (t_in w)
        = Some (line_items l, LF # rest)" using s by simp
    obtain h' where h: "addip (of_nat i) (octets subnet) (octets msk) (octets nexthop) port (t_card w) = Some h'"
      and r: "hw_rows h' = (hw_rows (t_card w))(ROUTE_TABLE := (hw_rows (t_card w) ROUTE_TABLE)(i := line_row l))"
      using addip_line [OF i(3), of subnet msk nexthop port "t_card w"] l by blast
    have "\<exists>w'. setip w = Some w' \<and> t_in w' = LF # rest \<and> t_files w' = t_files w \<and> t_card w' = h'"
      using sc p i(1,2) h
      by (simp add: setip_def scanf_def say_def assign_def l int_var_def str_var_def)
    then show ?thesis using True r by (auto simp: l)
  qed
qed

definition sample_tool :: "string \<Rightarrow> tool" where
  "sample_tool inp = \<lparr>t_in = inp, t_out = [], t_files = (\<lambda>_. None),
     t_card = \<lparr>hw_regs = \<lambda>_. 0, hw_rows = \<lambda>_ _. [0, 0, 0, 0]\<rparr>, t_stack = 0\<rparr>"

theorem setip_stores_line_witness:
  "(\<exists>w'. setip (sample_tool ([LF] @ ip_line (3, 10, 255, 0x0101000A, 4) @ ''quit'')) = Some w'
      \<and> hw_rows (t_card w') ROUTE_TABLE 3 = [0x0A000000, 0xFF000000, 0x0A000101, 4])
   \<and> setip (sample_tool ([] @ ip_line (3, 0x6464A8C0, 0xFFFFFFFF, 0, 4) @ [])) = None"
proof -
  have r: "line_row (3, 10, 255, 0x0101000A, 4) = [0x0A000000, 0xFF000000, 0x0A000101, 4]" by code_simp
  have a: "\<forall>a\<in>set (line_addresses (3, 10, 255, 0x0101000A, 4)). length a < 15" by code_simp
  have b: "\<not> (\<forall>a\<in>set (line_addresses (3, 0x6464A8C0, 0xFFFFFFFF, 0, 4)). length a < 15)" by code_simp
  have "t_in (sample_tool s) = s" for s by (simp add: sample_tool_def)
  note t = setip_stores_line [OF this, of "[LF]" "(3, 10, 255, 0x0101000A, 4)" "''quit''"]
    setip_stores_line [OF this, of "[]" "(3, 0x6464A8C0, 0xFFFFFFFF, 0, 4)" "[]"]
  from t(1) obtain w' where "setip (sample_tool ([LF] @ ip_line (3, 10, 255, 0x0101000A, 4) @ ''quit'')) = Some w'"
    "hw_rows (t_card w') = (hw_rows (t_card (sample_tool ([LF] @ ip_line (3, 10, 255, 0x0101000A, 4) @ ''quit''))))
       (ROUTE_TABLE := (hw_rows (t_card (sample_tool ([LF] @ ip_line (3, 10, 255, 0x0101000A, 4) @ ''quit'')))
         ROUTE_TABLE)(3 := line_row (3, 10, 255, 0x0101000A, 4)))"
    using a by auto
  moreover have "setip (sample_tool ([] @ ip_line (3, 0x6464A8C0, 0xFFFFFFFF, 0, 4) @ [])) = None"
    using t(2) b by (simp del: line_addresses.simps ip_line.simps)
  ultimately show ?thesis using r by simp
qed

section \<open>loadip\<close>

lemma scan_eof: "at_eof s \<Longrightarrow> scan_from (Conv_int b # fs) s = Some ([], [])"
proof -
  assume "at_eof s"
  then have "dropWhile isspace s = []" by (simp only: at_eof_def)
  moreover have "scan_sign [] = (False, [])" "snd (int_base b []) = []"
    by (simp_all add: scan_sign_def int_base_def)
  ultimately show ?thesis by (simp only: scan_from.simps) (simp add: case_prod_unfold)
qed

definition set_rows :: "route_line list \<Rightarrow> (nat \<Rightarrow> u32 list) \<Rightarrow> nat \<Rightarrow> u32 list" where
  "set_rows ls rows = fold (\<lambda>l r. r(fst l := line_row l)) ls rows"

lemma loadip_line:
  assumes "fst l < TABLE_DEPTH"
  obtains vars' h' where "loadip_body (assign (line_items l) vars) h = Some (vars', h')"
    "hw_rows h' = (hw_rows h)(ROUTE_TABLE := (hw_rows h ROUTE_TABLE)(fst l := line_row l))"
proof -
  obtain i subnet msk nexthop port where l: "l = (i, subnet, msk, nexthop, port)" by (cases l)
  have "i < TABLE_DEPTH" using assms l by simp
  from addip_line [OF this, of subnet msk nexthop port h]
  obtain h' where "addip (of_nat i) (octets subnet) (octets msk) (octets nexthop) port h = Some h'"
    "hw_rows h' = (hw_rows h)(ROUTE_TABLE := (hw_rows h ROUTE_TABLE)(i := line_row l))" using l by blast
  then show thesis
    using that [of _ h'] by (simp add: loadip_body_def assign_def int_var_def str_var_def l)
qed

lemma load_lines:
  assumes "\<forall>l\<in>set ls. fst l < TABLE_DEPTH" "\<forall>c\<in>set ws. isspace c" "length ls < fuel"
  shows "\<exists>h'. load_loop loadip_fmt loadip_body fuel vars (ws @ concat (map ip_line ls)) h = Done h'
    \<and> hw_rows h' = (hw_rows h)(ROUTE_TABLE := set_rows ls (hw_rows h ROUTE_TABLE))"
  using assms
proof (induction ls arbitrary: ws fuel vars h)
  case Nil
  then have "at_eof ws" by (simp add: at_eof_def dropWhile_eq_Nil_conv)
  then show ?case using Nil(3) scan_eof [of ws 0]
    by (cases fuel) (simp_all add: loadip_fmt_def set_rows_def fun_upd_idem)
next
  case (Cons l ls)
  obtain n where n: "fuel = Suc n" "length ls < n" using Cons.prems(3) by (cases fuel) auto
  let ?rest = "concat (map ip_line ls)"
  have short: "\<forall>a\<in>set (line_addresses l). length a < 20"
    using le_less_trans [OF length_inet_ntop, of 20] by (cases l) simp
  have "fst l < 2 ^ 31" using Cons.prems(1) by (simp add: TABLE_DEPTH_def)
  from scan_ip_line [OF Cons.prems(2) this, of 20 ?rest] short
  have sc: "scan_from loadip_fmt (ws @ ip_line l @ ?rest) = Some (line_items l, LF # ?rest)"
    by (simp add: loadip_fmt_def)
  obtain vars' h' where b: "loadip_body (assign (line_items l) vars) h = Some (vars', h')"
    and r: "hw_rows h' = (hw_rows h)(ROUTE_TABLE := (hw_rows h ROUTE_TABLE)(fst l := line_row l))"
    using loadip_line [of l vars h] Cons.prems(1) by auto
  have e: "\<not> at_eof (ws @ ip_line l @ ?rest)" using not_at_eof_line Cons.prems(2) by blast
  have "\<forall>l\<in>set ls. fst l < TABLE_DEPTH" "\<forall>c\<in>set [LF]. isspace c" using Cons.prems(1) by simp_all
  from Cons.IH [OF this n(2), of vars' h', unfolded append_Cons append_Nil]
  obtain h2 where "load_loop loadip_fmt loadip_body n vars' (LF # ?rest) h' = Done h2"
    "hw_rows h2 = (hw_rows h')(ROUTE_TABLE := set_rows ls (hw_rows h' ROUTE_TABLE))" by blast
  then show ?case using sc b e r n(1) by (simp add: set_rows_def fun_eq_iff del: ip_line.simps line_items.simps)
qed

lemma length_lines: "length ls \<le> length (concat (map ip_line ls))"
proof (induction ls)
  case (Cons l ls)
  have "1 \<le> length (ip_line l)" by (cases l) simp
  then show ?case using Cons by simp
qed simp

lemma ask_file_name:
  assumes "t_in w = ws @ fn @ LF # rest" "\<forall>c\<in>set ws. isspace c"
    and "fn \<noteq> []" "\<forall>c\<in>set fn. \<not> isspace c" "length fn < 30"
  shows "ask_file w = Some (fn, (say (line ''Enter filename:'' @ ''>> '') w)\<lparr>t_in := LF # rest\<rparr>)"
  using scan_str [of LF ws fn 30 "[]" rest] assms
  by (simp add: ask_file_def scanf_def say_def assign_def str_var_def)

lemma rows_full_lines:
  assumes "rows_full ROUTE_TABLE h" "hw_rows h' = (hw_rows h)(ROUTE_TABLE := set_rows ls (hw_rows h ROUTE_TABLE))"
  shows "rows_full ROUTE_TABLE h'"
proof -
  have "\<forall>i<TABLE_DEPTH. length (set_rows ls rows i) = 4" if "\<forall>i<TABLE_DEPTH. length (rows i) = 4" for rows
    using that
  proof (induction ls arbitrary: rows)
    case (Cons l ls)
    have "length (line_row l) = 4" by (cases l) simp
    then have "\<forall>i<TABLE_DEPTH. length ((rows(fst l := line_row l)) i) = 4" using Cons.prems by simp
    from Cons.IH [OF this] show ?case by (simp only: set_rows_def fold_Cons o_apply)
  qed (simp add: set_rows_def)
  then show ?thesis using assms by (simp add: rows_full_def)
qed

text \<open>C27: A file of any number of lines in the format of the table, whatever their addresses, is loaded
  whole: each line replaces its row, the later of two lines for the same row stays, no other table
  changes; and a listing afterwards prints every row of the table so loaded, once, in order.\<close>

theorem loaded_file_is_listed:
  assumes "t_in w = ws @ fn @ LF # rest" "\<forall>c\<in>set ws. isspace c"
    and "fn \<noteq> []" "\<forall>c\<in>set fn. \<not> isspace c" "length fn < 30"
    and "t_files w fn = Some (concat (map ip_line ls))" "\<forall>l\<in>set ls. fst l < TABLE_DEPTH"
    and "rows_full ROUTE_TABLE (t_card w)"
  shows "\<exists>w'. loadip w = Some w' \<and> t_in w' = LF # rest
    \<and> hw_rows (t_card w') = (hw_rows (t_card w))(ROUTE_TABLE := set_rows ls (hw_rows (t_card w) ROUTE_TABLE))
    \<and> hw_rows (t_card (listip w')) = hw_rows (t_card w')
    \<and> t_out (listip w') = t_out w' @ concat (map (\<lambda>j. route_text j (set_rows ls (hw_rows (t_card w) ROUTE_TABLE) j)) [0..<32])"
proof -
  let ?s = "concat (map ip_line ls)" and ?w = "(say (line ''Enter filename:'' @ ''>> '') w)\<lparr>t_in := LF # rest\<rparr>"
  have "length ls < Suc (length ?s)" using length_lines [of ls] by simp
  from load_lines [OF assms(7) _ this, of "[]" "replicate (length loadip_fmt) None" "t_card w"]
  obtain h where h: "load_loop loadip_fmt loadip_body (Suc (length ?s)) (replicate (length loadip_fmt) None) ?s (t_card w)
      = Done h"
    and r: "hw_rows h = (hw_rows (t_card w))(ROUTE_TABLE := set_rows ls (hw_rows (t_card w) ROUTE_TABLE))"
    by auto
  have "loadip w = load_file loadip_fmt loadip_body ?s ?w"
    using ask_file_name [OF assms(1-5)] assms(6) by (simp add: loadip_def say_def)
  also have "\<dots> = Some (?w\<lparr>t_card := h\<rparr>)"
    using h by (simp add: load_file_def say_def del: load_loop.simps)
  finally have l: "loadip w = Some (?w\<lparr>t_card := h\<rparr>)" .
  have "rows_full ROUTE_TABLE (t_card (?w\<lparr>t_card := h\<rparr>))" using rows_full_lines [OF assms(8) r] by simp
  from ip_list.lists_table [OF this] l r show ?thesis by (auto simp: listip_def)
qed

theorem loaded_file_is_listed_witness:
  "\<exists>w'. loadip ((sample_tool ([] @ ''routes'' @ LF # []))
      \<lparr>t_files := [''routes'' \<mapsto> concat (map ip_line [(0, 10, 255, 0x0101000A, 1), (1, 0, 0, 0x0202000A, 4)])]\<rparr>) = Some w'
    \<and> hw_rows (t_card w') ROUTE_TABLE 1 = [0, 0, 0x0A000202, 4]
    \<and> hw_rows (t_card (listip w')) = hw_rows (t_card w')"
proof -
  let ?ls = "[(0, 10, 255, 0x0101000A, 1), (1, 0, 0, 0x0202000A, 4)] :: route_line list"
  let ?w = "(sample_tool ([] @ ''routes'' @ LF # []))\<lparr>t_files := [''routes'' \<mapsto> concat (map ip_line ?ls)]\<rparr>"
  have "t_in ?w = [] @ ''routes'' @ LF # []" "\<forall>c\<in>set []. isspace c" "''routes'' \<noteq> []"
    "t_files ?w ''routes'' = Some (concat (map ip_line ?ls))"
    by (simp_all add: sample_tool_def)
  moreover have "\<forall>c\<in>set ''routes''. \<not> isspace c" by code_simp
  moreover have "length ''routes'' < 30" "\<forall>l\<in>set ?ls. fst l < TABLE_DEPTH" by (simp_all add: TABLE_DEPTH_def)
  moreover have "rows_full ROUTE_TABLE (t_card ?w)" by (simp add: rows_full_def sample_tool_def)
  moreover have "set_rows ?ls r 1 = [0, 0, 0x0A000202, 4]" for r
  proof -
    have "line_row (1, 0, 0, 0x0202000A, 4) = [0, 0, 0x0A000202, 4]" by code_simp
    then show ?thesis by (simp add: set_rows_def del: line_row.simps)
  qed
  ultimately show ?thesis using loaded_file_is_listed [of ?w "[]" "''routes''" "[]" ?ls] by auto
qed

section \<open>clearipall, and the tables of the router software\<close>

lemma clearipall_rows:
  "\<exists>h. clearipall w = w\<lparr>t_card := h\<rparr> \<and> (\<forall>j<32. hw_rows h ROUTE_TABLE j = [0, 0xffffffff, 0, 0])"
  using ip_clear.fills [of 0 32 w] by (auto simp: clearipall_def TABLE_DEPTH_def)

theorem cleared_table_is_invalid:
  "t_out (listip (clearipall w)) = t_out w @ concat (map (\<lambda>j. entry_head j @ invalid_line) [0..<32])"
proof -
  obtain h where h: "clearipall w = w\<lparr>t_card := h\<rparr>" "\<forall>j<32. hw_rows h ROUTE_TABLE j = [0, 0xffffffff, 0, 0]"
    using clearipall_rows by blast
  then have "rows_full ROUTE_TABLE (t_card (clearipall w))" by (simp add: rows_full_def TABLE_DEPTH_def)
  from ip_list.lists_table [OF this] h(1)
  have "t_out (listip (clearipall w)) = t_out w @ concat (map (\<lambda>j. route_text j (hw_rows h ROUTE_TABLE j)) [0..<32])"
    by (auto simp: listip_def)
  moreover have "map (\<lambda>j. route_text j (hw_rows h ROUTE_TABLE j)) [0..<32] = map (\<lambda>j. entry_head j @ invalid_line) [0..<32]"
    using h(2) by (intro map_cong refl) (simp add: route_text_def)
  ultimately show ?thesis by simp
qed

lemma octets_text_ntohl [simp]: "octets_text (ntohl ip) = inet_ntop ip"
proof -
  have m: "(0xff :: u32) = mask 8" by (simp add: mask_eq_exp_minus_1)
  have "drop_bit 24 (ntohl ip) = ucast (byte_of 0 ip)" "drop_bit 16 (ntohl ip) AND 0xff = ucast (byte_of 1 ip)"
    "drop_bit 8 (ntohl ip) AND 0xff = ucast (byte_of 2 ip)" "ntohl ip AND 0xff = ucast (byte_of 3 ip)"
    unfolding m by (auto intro!: bit_word_eqI simp: ntohl_def bit_le32 bit_byte_of bit_simps)
  moreover have "unat (ucast b :: u32) = unat b" for b :: u8
  proof -
    have "unat b < 2 ^ 32" by (rule less_trans [OF unat_u8_less(1)]) simp
    then show ?thesis by (simp add: unsigned_ucast_eq take_bit_nat_eq_self)
  qed
  ultimately show ?thesis by (simp add: octets_text_def inet_ntop_def)
qed

definition route_line_text :: "nat \<Rightarrow> rtable_entry \<Rightarrow> string" where
  "route_line_text j e = entry_head j @ ''Subnet: '' @ inet_ntop (rt_ip e) @ '', Mask: 0x'' @ hexl (unat (ntohl (rt_mask e)))
     @ '', Next Hop: '' @ inet_ntop (rt_gw e) @ '', Port: 0x'' @ hex_02 (unat (the (getOneHotPortNumber (rt_iface e)))) @ [LF]"

definition content_line_text :: "nat \<Rightarrow> ctable_entry \<Rightarrow> string" where
  "content_line_text j e = entry_head j @ ''Name: '' @ inet_ntop (ct_content e) @ '', Version number: ''
     @ decimal (unat (ct_ver_num e)) @ '', Next Hop: '' @ inet_ntop (ct_nexthop e) @ '', Port: 0x''
     @ hex_02 (unat (the (getOneHotPortNumber (ct_iface e)))) @ [LF]"

lemma one_hot_byte: "getOneHotPortNumber name = Some p \<Longrightarrow> p AND 0xff = p \<and> p \<noteq> 0"
  by (auto simp: getOneHotPortNumber_def split: if_splits)

lemma length_row: "route_row e = Some vs \<Longrightarrow> length vs = 4" "content_row c = Some vs \<Longrightarrow> length vs = 4"
  by (auto simp: route_row_def content_row_def)

lemma route_text_row:
  assumes "route_row e = Some vs"
  shows "route_text j vs = route_line_text j e"
proof -
  from assms obtain p where p: "getOneHotPortNumber (rt_iface e) = Some p"
    and vs: "vs = [ntohl (rt_ip e), ntohl (rt_mask e), ntohl (rt_gw e), p]"
    by (auto simp: route_row_def)
  show ?thesis using p one_hot_byte [OF p]
    by (simp add: vs nth_small route_text_def route_line_text_def line_def)
qed

lemma int_text_u16: "int_text (ucast (v :: u16)) = decimal (unat v)"
proof -
  have l: "unat v < 65536" using unsigned_less [of v] by simp
  have "sint (of_nat (unat v) :: u32) = int (unat v)" using l by (intro sint_small) simp
  then show ?thesis by (simp add: int_text_def decimal_int_def)
qed

lemma content_text_row:
  assumes "content_row e = Some vs"
  shows "content_text j vs = content_line_text j e"
proof -
  from assms obtain p where p: "getOneHotPortNumber (ct_iface e) = Some p"
    and vs: "vs = [ntohl (ct_content e), ucast (ct_ver_num e), ntohl (ct_nexthop e), p]"
    by (auto simp: content_row_def)
  show ?thesis using p one_hot_byte [OF p]
    by (simp add: vs nth_small content_text_def content_line_text_def line_def int_text_u16)
qed

text \<open>C26: The table manager lists what the router software has written: with the two tables in their
  invariants on the card, listip prints the active routes and listcccp the content entries in the order
  of the software's lists. The rows behind the content entries are listed as invalid, but those behind
  the routes, whose mask the software clears to 0, are listed as a route to 0.0.0.0.\<close>

theorem listings_show_software_tables:
  assumes "rtable_ok rs" "ctable_ok rs" "is_netfpga rs" "t_card w = netfpga rs"
  shows "t_out (listip w) = t_out w @ concat (map (\<lambda>j.
      if j < length (active_routes rs) then route_line_text j (active_routes rs ! j)
      else entry_head j @ line ''Subnet: 0.0.0.0, Mask: 0x0, Next Hop: 0.0.0.0, Port: 0x00'') [0..<32])
    \<and> t_out (listcccp w) = t_out w @ concat (map (\<lambda>j.
      if j < length (ctable rs) then content_line_text j (ctable rs ! j) else entry_head j @ invalid_line) [0..<32])"
proof
  have r: "if j < length (active_routes rs)
      then route_row (active_routes rs ! j) = Some (hw_rows (t_card w) ROUTE_TABLE j)
      else hw_rows (t_card w) ROUTE_TABLE j = [0, 0, 0, 0]" if "j < 32" for j
    using that assms by (simp add: rtable_ok_def rtable_mirrored_def)
  have "rows_full ROUTE_TABLE (t_card w)"
    unfolding rows_full_def
  proof (intro allI impI)
    fix j assume "j < TABLE_DEPTH"
    with r [of j] show "length (hw_rows (t_card w) ROUTE_TABLE j) = length (entry_regs ROUTE_TABLE)"
      using length_row(1) by (auto simp: TABLE_DEPTH_def split: if_splits)
  qed
  from ip_list.lists_table [OF this]
  have "t_out (listip w) = t_out w @ concat (map (\<lambda>j. route_text j (hw_rows (t_card w) ROUTE_TABLE j)) [0..<32])"
    by (auto simp: listip_def)
  moreover have "route_text j [0, 0, 0, 0] = entry_head j @ line ''Subnet: 0.0.0.0, Mask: 0x0, Next Hop: 0.0.0.0, Port: 0x00''" for j
  proof -
    have "octets_text 0 = ''0.0.0.0''" "hexl 0 = ''0''" "hex_02 0 = ''00''" by code_simp+
    then show ?thesis by (simp add: route_text_def line_def)
  qed
  ultimately show "t_out (listip w) = t_out w @ concat (map (\<lambda>j.
      if j < length (active_routes rs) then route_line_text j (active_routes rs ! j)
      else entry_head j @ line ''Subnet: 0.0.0.0, Mask: 0x0, Next Hop: 0.0.0.0, Port: 0x00'') [0..<32])"
    using r route_text_row by (auto intro!: arg_cong [where f = concat] map_cong)
next
  have r: "if j < length (ctable rs)
      then content_row (ctable rs ! j) = Some (hw_rows (t_card w) CCCP_TABLE j)
      else \<exists>v. hw_rows (t_card w) CCCP_TABLE j = [0, v, 0, 0]" if "j < 32" for j
    using that assms by (simp add: ctable_ok_def ctable_mirrored_def)
  have "rows_full CCCP_TABLE (t_card w)"
    unfolding rows_full_def
  proof (intro allI impI)
    fix j assume "j < TABLE_DEPTH"
    with r [of j] show "length (hw_rows (t_card w) CCCP_TABLE j) = length (entry_regs CCCP_TABLE)"
      using length_row(2) by (auto simp: TABLE_DEPTH_def split: if_splits)
  qed
  from cccp_list.lists_table [OF this]
  have "t_out (listcccp w) = t_out w @ concat (map (\<lambda>j. content_text j (hw_rows (t_card w) CCCP_TABLE j)) [0..<32])"
    by (auto simp: listcccp_def)
  moreover have "content_text j (hw_rows (t_card w) CCCP_TABLE j)
      = (if j < length (ctable rs) then content_line_text j (ctable rs ! j) else entry_head j @ invalid_line)" if "j < 32" for j
    using r [OF that] content_text_row [of "ctable rs ! j" _ j] by (auto simp: content_text_def split: if_splits)
  ultimately show "t_out (listcccp w) = t_out w @ concat (map (\<lambda>j.
      if j < length (ctable rs) then content_line_text j (ctable rs ! j) else entry_head j @ invalid_line) [0..<32])"
    by (auto intro!: arg_cong [where f = concat] map_cong)
qed

theorem listings_show_software_tables_witness:
  "\<exists>w. t_out (listip w) = route_line_text 0 sample_route
      @ concat (map (\<lambda>j. entry_head j @ line ''Subnet: 0.0.0.0, Mask: 0x0, Next Hop: 0.0.0.0, Port: 0x00'') [1..<32])
    \<and> t_out (listcccp w) = concat (map (\<lambda>j. entry_head j @ invalid_line) [0..<32])"
proof -
  define h where "h = \<lparr>hw_regs = \<lambda>_. 0 :: u32, hw_rows = (\<lambda>_ _. [0, 0, 0, 0])(ROUTE_TABLE :=
    (\<lambda>_. [0, 0, 0, 0])(0 := [0x0A000200, 0xFFFFFF00, 0x0A000101, 4]))\<rparr>"
  let ?rs = "empty_router\<lparr>netfpga := h, rtable := [sample_route]\<rparr>" and ?w = "(sample_tool [])\<lparr>t_card := h\<rparr>"
  have "route_row sample_route = Some [0x0A000200, 0xFFFFFF00, 0x0A000101, 4]" by code_simp
  then have r: "rtable_ok ?rs"
    by (auto simp: rtable_ok_def rtable_sorted_def rtable_mirrored_def active_routes_def h_def sample_route_def hw_ports_def)
  have c: "ctable_ok ?rs" "is_netfpga ?rs" "t_card ?w = netfpga ?rs" and e: "ctable ?rs = []" "t_out ?w = []"
    by (simp_all add: ctable_ok_def ctable_mirrored_def empty_router_def sample_tool_def h_def)
  have act: "active_routes ?rs = [sample_route]" by (simp add: active_routes_def sample_route_def)
  have t: "t_out (listip ?w) = concat (map (\<lambda>j.
      if j < 1 then route_line_text j ([sample_route] ! j)
      else entry_head j @ line ''Subnet: 0.0.0.0, Mask: 0x0, Next Hop: 0.0.0.0, Port: 0x00'') [0..<32])"
    "t_out (listcccp ?w) = concat (map (\<lambda>j. entry_head j @ invalid_line) [0..<32])"
    using listings_show_software_tables [OF r c] unfolding act e
    by (simp_all only: append_Nil One_nat_def list.size(3,4) plus_nat.add_0 not_less_zero if_False)
  have "[0..<32] = 0 # [1..<32 :: nat]" by (subst upt_conv_Cons) (simp_all only: One_nat_def zero_less_numeral)
  moreover have "map (\<lambda>j. if j < 1 then route_line_text j ([sample_route] ! j)
      else entry_head j @ line ''Subnet: 0.0.0.0, Mask: 0x0, Next Hop: 0.0.0.0, Port: 0x00'') [1..<32]
    = map (\<lambda>j. entry_head j @ line ''Subnet: 0.0.0.0, Mask: 0x0, Next Hop: 0.0.0.0, Port: 0x00'') [1..<32]"
    by (intro map_cong refl) simp
  ultimately show ?thesis using t by (intro exI [of _ ?w]) (simp only: list.map concat.simps nth_Cons_0 zero_less_one if_True)
qed

section \<open>The prompt\<close>

text \<open>The prompt runs the command typed and goes on with the input behind it, unless the word has ten
  characters or more, which overflows its buffer. Of the commands of the program these are the three
  that clear a whole table, so they cannot be given.\<close>

theorem prompt_commands:
  assumes "t_in w = ws @ c @ LF # rest" "\<forall>c\<in>set ws. isspace c" "c \<noteq> []" "\<forall>x\<in>set c. \<not> isspace x"
    and "w2 = (say ''> '' w)\<lparr>t_in := LF # rest\<rparr>"
  shows "prompt (Suc n) w =
      (if 10 \<le> length c then Undefined
       else if c = ''quit'' then Done w2
       else case run_case (parse c) w2 of None \<Rightarrow> Undefined | Some w3 \<Rightarrow> prompt n w3)
    \<and> {word. parse word \<noteq> - 1 \<and> 10 \<le> length word} = {''clearcccpall'', ''clearipall'', ''cleararpall''}"
proof
  have q: "parse c = 9 \<longleftrightarrow> c = ''quit''" by (simp add: parse_def)
  have s: "scan_from [Conv_str 10] (t_in w) = (if length c < 10 then Some ([Sval c], LF # rest) else None)"
    using scan_str [of LF ws c 10 "[]" rest] assms by simp
  show "prompt (Suc n) w =
      (if 10 \<le> length c then Undefined
       else if c = ''quit'' then Done w2
       else case run_case (parse c) w2 of None \<Rightarrow> Undefined | Some w3 \<Rightarrow> prompt n w3)"
    using s q by (simp add: scanf_def say_def assign_def str_var_def assms(5) not_less [symmetric]
        del: not_less)
  show "{word. parse word \<noteq> - 1 \<and> 10 \<le> length word} = {''clearcccpall'', ''clearipall'', ''cleararpall''}"
    by (auto simp: parse_def split: if_splits)
qed

theorem prompt_commands_witness:
  "prompt 1 (sample_tool ([] @ ''clearipall'' @ LF # [])) = Undefined
   \<and> prompt 1 (sample_tool ([] @ ''quit'' @ LF # [])) = Done ((say ''> '' (sample_tool (''quit'' @ [LF])))\<lparr>t_in := [LF]\<rparr>)"
proof -
  have t: "t_in (sample_tool s) = s" for s by (simp add: sample_tool_def)
  have e: "\<forall>c\<in>set []. isspace c" by simp
  have c: "\<forall>x\<in>set ''clearipall''. \<not> isspace x" "\<forall>x\<in>set ''quit''. \<not> isspace x" by code_simp+
  have "prompt 1 (sample_tool ([] @ ''clearipall'' @ LF # [])) = Undefined"
    using prompt_commands [where rest = "[]" and n = 0, OF t e _ c(1) refl] by simp
  moreover have "prompt 1 (sample_tool ([] @ ''quit'' @ LF # []))
      = Done ((say ''> '' (sample_tool ([] @ ''quit'' @ LF # [])))\<lparr>t_in := LF # []\<rparr>)"
    using prompt_commands [where rest = "[]" and n = 0, OF t e _ c(2) refl] by simp
  ultimately show ?thesis by simp
qed

end
